(* ===== verification/Netsys_Prelude.thy ===== *)
theory Netsys_Prelude
  imports "HOL-Library.Word" "HOL-Library.Monad_Syntax"
begin

text \<open>
  Shared vocabulary of the development: the machine types of the C sources on a 64 bit
  platform, checked access to C arrays, and the generic lemmas the components use.

  \<^item> An access outside an array, a write through a freed table and a loop that never ends
    are the value \<open>None\<close> of a definition's \<open>option\<close> result; everything a C function
    returns, error codes included, is below \<open>Some\<close>. A lemma whose conclusion is
    \<open>\<dots> = Some \<dots>\<close> therefore shows memory safety and termination of the call as well.
  \<^item> \<open>malloc\<close> is a parameter of the definitions that allocate: it maps the requested
    number of bytes to \<open>None\<close> (the \<open>NULL\<close> result) or to the arbitrary contents of the
    new block; \<open>malloc_cells\<close> is the block itself, an array of as many cells as fit.
    Every theorem holds for all allocators.
\<close>

unbundle bit_operations_syntax

named_theorems c_simps \<open>unfolding rules for the C array primitives\<close>
named_theorems c_inv \<open>preservation of the component invariants\<close>

type_synonym u8 = "8 word"
type_synonym u32 = "32 word"
type_synonym u64 = "64 word"
type_synonym addr = u64

abbreviation (input) NULL :: addr where "NULL \<equiv> 0"

section \<open>Checked array access\<close>

definition rd :: "'a list \<Rightarrow> nat \<Rightarrow> 'a option" where
  "rd xs i = (if i < length xs then Some (xs ! i) else None)"

definition wr :: "'a list \<Rightarrow> nat \<Rightarrow> 'a \<Rightarrow> 'a list option" where
  "wr xs i v = (if i < length xs then Some (xs[i := v]) else None)"

definition blit :: "'a list \<Rightarrow> nat \<Rightarrow> 'a list \<Rightarrow> nat \<Rightarrow> nat \<Rightarrow> 'a list option" where
  "blit dst d src s n =
     (if d + n \<le> length dst \<and> s + n \<le> length src
      then Some (take d dst @ take n (drop s src) @ drop (d + n) dst) else None)"

lemma rd_Some [c_simps]: "i < length xs \<Longrightarrow> rd xs i = Some (xs ! i)"
  by (simp add: rd_def)

lemma rd_None [c_simps]: "\<not> i < length xs \<Longrightarrow> rd xs i = None"
  by (simp add: rd_def)

lemma rd_eq_Some_iff: "rd xs i = Some v \<longleftrightarrow> i < length xs \<and> xs ! i = v"
  by (auto simp: rd_def)

lemma wr_Some [c_simps]: "i < length xs \<Longrightarrow> wr xs i v = Some (xs[i := v])"
  by (simp add: wr_def)

lemma wr_eq_Some_iff: "wr xs i v = Some ys \<longleftrightarrow> i < length xs \<and> ys = xs[i := v]"
  by (auto simp: wr_def)

lemma blit_Some [c_simps]:
  "d + n \<le> length dst \<Longrightarrow> s + n \<le> length src \<Longrightarrow>
   blit dst d src s n = Some (take d dst @ take n (drop s src) @ drop (d + n) dst)"
  by (simp add: blit_def)

lemma blit_length:
  "blit dst d src s n = Some ys \<Longrightarrow> length ys = length dst"
  by (auto simp: blit_def split: if_splits)

section \<open>Allocation\<close>

type_synonym 'a allocator = "u64 \<Rightarrow> (nat \<Rightarrow> 'a) option"

definition malloc_cells :: "nat \<Rightarrow> 'a allocator \<Rightarrow> u64 \<Rightarrow> 'a list option" where
  "malloc_cells cellsize malloc n =
     map_option (\<lambda>f. map f [0..<unat n div cellsize]) (malloc n)"

lemma malloc_cells_length:
  "malloc_cells k malloc n = Some xs \<Longrightarrow> length xs = unat n div k"
  by (auto simp: malloc_cells_def)

lemma malloc_cells_None_iff [simp]: "malloc_cells k malloc n = None \<longleftrightarrow> malloc n = None"
  by (simp add: malloc_cells_def)

abbreviation (input) malloc_fill :: "'a \<Rightarrow> 'a allocator" where
  "malloc_fill v \<equiv> (\<lambda>n. Some (\<lambda>i. v))"

abbreviation (input) malloc_fails :: "'a allocator" where
  "malloc_fails \<equiv> (\<lambda>n. None)"

section \<open>Words\<close>

lemma unat_u64_add [c_simps]:
  "unat (a :: u64) + unat b < 2 ^ 64 \<Longrightarrow> unat (a + b) = unat a + unat b"
  by (simp add: unat_word_ariths)

lemma unat_u64_inc [c_simps]: "unat (a :: u64) + 1 < 2 ^ 64 \<Longrightarrow> unat (a + 1) = unat a + 1"
  by (simp add: unat_word_ariths)

lemma unat_u64_mult [c_simps]:
  "unat (a :: u64) * unat b < 2 ^ 64 \<Longrightarrow> unat (a * b) = unat a * unat b"
  by (simp add: unat_word_ariths)

lemma unat_u64_bound: "unat (b :: u64) < 2 ^ 64"
  using unsigned_less [of b] by simp

lemma unat_u64_less_inc [c_simps]: "a < (b :: u64) \<Longrightarrow> unat (a + 1) = unat a + 1"
  using unat_u64_bound [of b] by (simp add: unat_word_ariths word_less_nat_alt)

text \<open>An \<^verbatim>\<open>unsigned long\<close> stored in an \<^verbatim>\<open>int\<close> and read back as \<^verbatim>\<open>unsigned long\<close>.\<close>

definition int_of_ulong :: "u64 \<Rightarrow> u32" where
  "int_of_ulong x = ucast x"

definition ulong_of_int :: "u32 \<Rightarrow> u64" where
  "ulong_of_int x = scast x"

lemma sint_int_of_ulong: "unat x < 2 ^ 31 \<Longrightarrow> sint (int_of_ulong x) = uint x"
proof -
  assume "unat x < 2 ^ 31"
  then have "int (unat x) < int (2 ^ 31)" by (simp only: of_nat_less_iff)
  then have "uint x < 2 ^ 31" by simp
  then show ?thesis
    unfolding int_of_ulong_def
    by transfer (simp add: signed_take_bit_int_eq_self_iff order_trans [OF _ take_bit_nonnegative])
qed

lemma ulong_int_id: "unat x < 2 ^ 31 \<Longrightarrow> ulong_of_int (int_of_ulong x) = x"
  using sint_int_of_ulong [of x] unfolding ulong_of_int_def
  by (metis of_int_sint word_of_int_uint)

section \<open>OCaml values and exceptions\<close>

text \<open>
  Immediate values are tagged words: \<^verbatim>\<open>Val_long\<close> and \<^verbatim>\<open>Long_val\<close> of the OCaml runtime's
  \<^verbatim>\<open>mlvalues.h\<close>. \<open>exn\<close> lists the exceptions the stubs raise.
\<close>

definition Val_long :: "u64 \<Rightarrow> u64" where
  "Val_long x = push_bit 1 x + 1"

definition Long_val :: "u64 \<Rightarrow> u64" where
  "Long_val v = signed_drop_bit 1 v"

text \<open>\<^verbatim>\<open>Int_val\<close> is \<^verbatim>\<open>(int) Long_val(v)\<close>.\<close>

definition Int_val :: "u64 \<Rightarrow> u32" where
  "Int_val v = ucast (Long_val v)"

definition Is_block :: "u64 \<Rightarrow> bool" where
  "Is_block v \<longleftrightarrow> v AND 1 = 0"

lemma sint_word_of_int:
  "- (2 ^ (LENGTH('a::len) - 1)) \<le> i \<Longrightarrow> i < 2 ^ (LENGTH('a) - 1) \<Longrightarrow> sint (word_of_int i :: 'a word) = i"
  by (simp add: signed_of_int signed_take_bit_int_eq_self_iff)

lemma Long_val_Val_long:
  assumes "- (2 ^ 62) \<le> i" "i < 2 ^ 62"
  shows "Long_val (Val_long (word_of_int i)) = word_of_int i"
proof -
  have v: "Val_long (word_of_int i) = word_of_int (2 * i + 1)"
    by (simp add: Val_long_def push_bit_eq_mult)
  have "sint (word_of_int (2 * i + 1) :: u64) = 2 * i + 1"
    using assms by (intro sint_word_of_int) simp_all
  moreover have "sint (Long_val (Val_long (word_of_int i))) = sint (Val_long (word_of_int i)) div 2"
    by (simp add: Long_val_def sint_signed_drop_bit_eq drop_bit_eq_div)
  ultimately have "sint (Long_val (Val_long (word_of_int i))) = i"
    unfolding v by simp
  from arg_cong [OF this, of "\<lambda>j. word_of_int j :: u64"] show ?thesis by simp
qed

lemma Int_val_Val_long:
  assumes "n < 2 ^ 31"
  shows "Int_val (Val_long (of_nat n)) = of_nat n" "sint (Int_val (Val_long (of_nat n))) = int n"
proof -
  have n: "int n < 2 ^ 31" using assms by (simp add: zless_nat_eq_int_zless [symmetric])
  have "Long_val (Val_long (of_nat n)) = of_nat n"
    using Long_val_Val_long [of "int n"] n by simp
  then show *: "Int_val (Val_long (of_nat n)) = of_nat n"
    using ucast_down_wi [of "int n", where 'a = 64 and 'b = 32] by (simp add: Int_val_def is_down)
  show "sint (Int_val (Val_long (of_nat n))) = int n"
    unfolding * using sint_word_of_int [of "int n", where 'a = 32] n by simp
qed

datatype exn =
    Invalid_argument string
  | Failure string
  | Unix_error int string
  | Out_of_space
  | Not_found
  | Out_of_memory
  | Malformed_code_read nat nat string
  | Sys_error string

section \<open>Step systems\<close>

text \<open>
  The interface of the components whose operations interleave: a step relation on the component's states, the states it starts in, and an invariant
  that holds at the start and that every step keeps. Each such component interprets it on its own relation.
\<close>

locale step_system =
  fixes initial :: "'s \<Rightarrow> bool" and step :: "'s \<Rightarrow> 's \<Rightarrow> bool" and inv :: "'s \<Rightarrow> bool"
  assumes initial_inv: "initial s \<Longrightarrow> inv s"
    and step_inv: "step s s' \<Longrightarrow> inv s \<Longrightarrow> inv s'"
begin

lemma steps_inv: "step\<^sup>*\<^sup>* s s' \<Longrightarrow> inv s \<Longrightarrow> inv s'"
  by (induction rule: rtranclp_induct) (auto dest: step_inv)

lemma reachable_inv: "initial s0 \<Longrightarrow> step\<^sup>*\<^sup>* s0 s \<Longrightarrow> inv s"
  using steps_inv initial_inv by blast

end

section \<open>Event flags\<close>

text \<open>
  The contract of events, which have a POSIX and a Win32 implementation: setting makes the flag true, clearing, which is defined when it is true, makes it
  false. A history is a list of operations (\<open>True\<close> sets, \<open>False\<close> clears); it is valid when each clearing follows a setting.
\<close>

fun run_ops :: "('s \<Rightarrow> 's option) \<Rightarrow> ('s \<Rightarrow> 's option) \<Rightarrow> bool list \<Rightarrow> 's \<Rightarrow> 's option" where
  "run_ops set_op clear_op [] s = Some s"
| "run_ops set_op clear_op (b # ops) s = do { s' \<leftarrow> (if b then set_op s else clear_op s); run_ops set_op clear_op ops s' }"

fun valid_ops :: "bool \<Rightarrow> bool list \<Rightarrow> bool" where
  "valid_ops f [] \<longleftrightarrow> True"
| "valid_ops f (b # ops) \<longleftrightarrow> (b \<or> f) \<and> valid_ops b ops"

locale event_flag =
  fixes usable :: "'s \<Rightarrow> bool" and flag :: "'s \<Rightarrow> bool" and set_op :: "'s \<Rightarrow> 's option" and clear_op :: "'s \<Rightarrow> 's option"
  assumes set_law: "usable s \<Longrightarrow> \<exists>s'. set_op s = Some s' \<and> usable s' \<and> flag s'"
    and clear_law: "usable s \<Longrightarrow> flag s \<Longrightarrow> \<exists>s'. clear_op s = Some s' \<and> usable s' \<and> \<not> flag s'"
begin

lemma history: "usable s \<Longrightarrow> valid_ops (flag s) ops \<Longrightarrow> \<exists>s'. run_ops set_op clear_op ops s = Some s' \<and> usable s' \<and> flag s' = last (flag s # ops)"
proof (induction ops arbitrary: s)
  case (Cons b ops)
  obtain s1 where s1: "(if b then set_op s else clear_op s) = Some s1" "usable s1" "flag s1 = b"
    using Cons.prems set_law [of s] clear_law [of s] by (cases b) auto
  then show ?case using Cons.IH [of s1] Cons.prems(2) by auto
qed simp

end

end
