(* ===== verification/Nqueue.thy ===== *)
theory Nqueue
  imports Netsys_Prelude
begin

text \<open>
  The growable ring buffer of \<^verbatim>\<open>src/src/netsys/netsys_c_queue.c\<close>: the work list of the
  value copier. The record keeps the fields of \<^verbatim>\<open>struct nqueue\<close>; a \<open>NULL\<close> table is
  \<open>None\<close>. The operations return the C return code with the updated queue, below the
  \<open>option\<close> of the prelude (\<open>None\<close>: an access outside the table). The local variables
  of type \<^verbatim>\<open>int\<close> in \<^verbatim>\<open>netsys_queue_add\<close> are kept at 32 bits.
\<close>

record nqueue =
  nq_table :: "addr list option"
  nq_table_size :: u64
  nq_table_start :: u64
  nq_table_end :: u64

definition netsys_queue_init :: "addr allocator \<Rightarrow> nqueue \<Rightarrow> u64 \<Rightarrow> int \<times> nqueue" where
  "netsys_queue_init malloc q n =
     (case malloc_cells 8 malloc (n * 8) of
        None \<Rightarrow> (-1, q)
      | Some t \<Rightarrow> (0, \<lparr>nq_table = Some t, nq_table_size = n,
                        nq_table_start = 0, nq_table_end = 0\<rparr>))"

definition netsys_queue_clear :: "nqueue \<Rightarrow> nqueue" where
  "netsys_queue_clear q = q\<lparr>nq_table_start := 0, nq_table_end := 0\<rparr>"

definition netsys_queue_size :: "nqueue \<Rightarrow> u64" where
  "netsys_queue_size q =
     (if nq_table_start q \<le> nq_table_end q then nq_table_end q - nq_table_start q
      else (nq_table_size q - nq_table_end q) + nq_table_start q)"

text \<open>\<^verbatim>\<open>memcpy\<close> on arrays of pointers; the byte count is an \<^verbatim>\<open>unsigned long\<close>.\<close>

definition memcpy_ptrs :: "addr list \<Rightarrow> u64 \<Rightarrow> addr list \<Rightarrow> u64 \<Rightarrow> u64 \<Rightarrow> addr list option" where
  "memcpy_ptrs dst d src s bytes = blit dst (unat d) src (unat s) (unat bytes div 8)"

definition queue_resize :: "addr allocator \<Rightarrow> nqueue \<Rightarrow> (int \<times> nqueue \<times> u64) option" where
  "queue_resize malloc q =
     (case netsys_queue_init malloc \<lparr>nq_table = None, nq_table_size = 0,
              nq_table_start = 0, nq_table_end = 0\<rparr> (nq_table_size q * 2) of
        (code, q1) \<Rightarrow>
          if code \<noteq> 0 then Some (code, q, 0)
          else do {
            tab \<leftarrow> nq_table q;
            t1 \<leftarrow> nq_table q1;
            (t2, n) \<leftarrow>
              (if nq_table_start q \<le> nq_table_end q
               then let n = int_of_ulong (nq_table_end q - nq_table_start q)
                    in do {
                      t2 \<leftarrow> memcpy_ptrs t1 0 tab (nq_table_start q) (ulong_of_int n * 8);
                      Some (t2, n)
                    }
               else let n1 = int_of_ulong (nq_table_size q - nq_table_start q)
                    in do {
                      t2 \<leftarrow> memcpy_ptrs t1 0 tab (nq_table_start q) (ulong_of_int n1 * 8);
                      t3 \<leftarrow> memcpy_ptrs t2 (ulong_of_int n1) tab 0 (nq_table_end q * 8);
                      Some (t3, int_of_ulong (ulong_of_int n1 + nq_table_end q))
                    });
            Some (0, \<lparr>nq_table = Some t2, nq_table_size = nq_table_size q1,
                      nq_table_start = 0, nq_table_end = ulong_of_int n\<rparr>,
                  ulong_of_int (n + 1))
          })"

definition netsys_queue_add :: "addr allocator \<Rightarrow> nqueue \<Rightarrow> addr \<Rightarrow> (int \<times> nqueue) option" where
  "netsys_queue_add malloc q elem =
     (let e = nq_table_end q + 1;
          new_end = (if e = nq_table_size q then 0 else e)
      in do {
        (code, q', new_end') \<leftarrow>
          (if new_end = nq_table_start q then queue_resize malloc q else Some (0, q, new_end));
        if code \<noteq> 0 then Some (code, q')
        else do {
          tab \<leftarrow> nq_table q';
          tab' \<leftarrow> wr tab (unat (nq_table_end q')) elem;
          Some (0, q'\<lparr>nq_table := Some tab', nq_table_end := new_end'\<rparr>)
        }
      })"

definition netsys_queue_take :: "nqueue \<Rightarrow> (int \<times> addr \<times> nqueue) option" where
  "netsys_queue_take q =
     (if nq_table_start q = nq_table_end q then Some (-3, NULL, q)
      else let s = nq_table_start q + 1;
               new_start = (if s = nq_table_size q then 0 else s)
           in do {
             tab \<leftarrow> nq_table q;
             x \<leftarrow> rd tab (unat (nq_table_start q));
             Some (0, x, q\<lparr>nq_table_start := new_start\<rparr>)
           })"

definition netsys_queue_free :: "nqueue \<Rightarrow> nqueue" where
  "netsys_queue_free q = q\<lparr>nq_table := None\<rparr>"

section \<open>Invariant and abstraction\<close>

definition nq_inv :: "nqueue \<Rightarrow> bool" where
  "nq_inv q \<longleftrightarrow>
     (case nq_table q of None \<Rightarrow> False | Some t \<Rightarrow> length t = unat (nq_table_size q)) \<and>
     nq_table_start q < nq_table_size q \<and> nq_table_end q < nq_table_size q"

definition ring :: "'a list \<Rightarrow> nat \<Rightarrow> nat \<Rightarrow> 'a list" where
  "ring t s e = (if s \<le> e then take (e - s) (drop s t) else drop s t @ take e t)"

definition nq_items :: "nqueue \<Rightarrow> addr list" where
  "nq_items q = (case nq_table q of None \<Rightarrow> []
     | Some t \<Rightarrow> ring t (unat (nq_table_start q)) (unat (nq_table_end q)))"

text \<open>
  Room for \<open>k\<close> more elements: the 32 bit length computed by a resize does not overflow
  while at most \<open>k\<close> elements are added.
\<close>

definition nq_room :: "nqueue \<Rightarrow> nat \<Rightarrow> bool" where
  "nq_room q k \<longleftrightarrow> unat (nq_table_size q) < 2 ^ 31 \<and> 2 * (length (nq_items q) + k) < 2 ^ 31"

section \<open>The ring buffer as a list\<close>

lemma ring_length:
  "s \<le> length t \<Longrightarrow> e \<le> length t \<Longrightarrow>
   length (ring t s e) = (if s \<le> e then e - s else length t - s + e)"
  by (simp add: ring_def)

lemma ring_push:
  assumes "s < length t" "e < length t" "e' = (if e + 1 = length t then 0 else e + 1)" "e' \<noteq> s"
  shows "ring (t[e := x]) s e' = ring t s e @ [x]"
proof (cases "s \<le> e")
  case True
  have d: "drop s (t[e := x]) = take (e - s) (drop s t) @ x # drop (Suc e) t"
  proof -
    have "drop s (t[e := x]) = (drop s t)[e - s := x]"
      using True by (simp add: drop_update_swap)
    also have "\<dots> = take (e - s) (drop s t) @ x # drop (Suc e) t"
      using True assms(2) by (simp add: upd_conv_take_nth_drop)
    finally show ?thesis .
  qed
  show ?thesis
    using True assms by (auto simp: ring_def d Suc_diff_le)
next
  case False
  then have "e + 1 < length t" and e': "e' = e + 1" using assms by auto
  then show ?thesis
    using False assms by (auto simp: ring_def take_Suc_conv_app_nth)
qed

lemma ring_pop:
  assumes "s < length t" "e < length t" "s \<noteq> e" "s' = (if s + 1 = length t then 0 else s + 1)"
  shows "ring t s e = t ! s # ring t s' e"
proof -
  have d: "drop s t = t ! s # drop (Suc s) t"
    using assms by (simp add: Cons_nth_drop_Suc)
  show ?thesis
    using assms by (auto simp: ring_def d take_Cons')
qed

section \<open>Correctness of the operations\<close>

lemma nq_invE:
  assumes "nq_inv q"
  obtains t where "nq_table q = Some t" "length t = unat (nq_table_size q)"
    "unat (nq_table_start q) < length t" "unat (nq_table_end q) < length t"
    "nq_items q = ring t (unat (nq_table_start q)) (unat (nq_table_end q))"
  using assms by (auto simp: nq_inv_def nq_items_def word_less_nat_alt split: option.splits)

lemma nq_items_length:
  assumes "nq_inv q"
  shows "length (nq_items q) =
    (if nq_table_start q \<le> nq_table_end q
     then unat (nq_table_end q) - unat (nq_table_start q)
     else unat (nq_table_size q) - unat (nq_table_start q) + unat (nq_table_end q))"
  using assms by (elim nq_invE) (simp add: ring_length word_le_nat_alt)

lemma netsys_queue_init_ok:
  assumes "0 < n" "unat n < 2 ^ 61" "malloc_cells 8 malloc (n * 8) = Some t"
  shows "\<exists>q'. netsys_queue_init malloc q n = (0, q') \<and> nq_inv q' \<and> nq_items q' = []
           \<and> nq_table_size q' = n"
proof -
  have "length t = unat (n * 8) div 8" using assms(3) by (rule malloc_cells_length)
  also have "unat (n * 8) = unat n * 8" using assms(2) by (simp add: unat_word_ariths)
  finally show ?thesis
    using assms(1,3) by (simp add: netsys_queue_init_def nq_inv_def nq_items_def ring_def)
qed

lemma queue_clear_ok [c_inv]: "nq_inv q \<Longrightarrow> nq_inv (netsys_queue_clear q)"
  by (auto simp: nq_inv_def netsys_queue_clear_def word_less_nat_alt split: option.splits)

lemma queue_clear_items: "nq_items (netsys_queue_clear q) = []"
  by (simp add: nq_items_def netsys_queue_clear_def ring_def split: option.splits)

lemma nq_next: "unat i < unat n \<Longrightarrow>
  unat (if i + 1 = n then 0 else i + 1 :: u64) = (if unat i + 1 = unat n then 0 else unat i + 1)"
  using unat_u64_less_inc [of i n] by (auto simp: word_less_nat_alt word_unat_eq_iff)

lemma netsys_queue_take_empty:
  assumes "nq_inv q"
  shows "nq_items q = [] \<longleftrightarrow> netsys_queue_take q = Some (-3, NULL, q)"
proof -
  obtain t where t: "nq_table q = Some t" "length t = unat (nq_table_size q)"
    "unat (nq_table_start q) < length t" "unat (nq_table_end q) < length t"
    "nq_items q = ring t (unat (nq_table_start q)) (unat (nq_table_end q))"
    using assms by (rule nq_invE)
  have "nq_items q = [] \<longleftrightarrow> nq_table_start q = nq_table_end q"
    using t by (auto simp: ring_def word_unat_eq_iff)
  then show ?thesis
    using t by (auto simp: netsys_queue_take_def c_simps Let_def)
qed

lemma netsys_queue_take_ok:
  assumes "nq_inv q" "nq_items q = x # xs"
  shows "\<exists>q'. netsys_queue_take q = Some (0, x, q') \<and> nq_inv q' \<and> nq_items q' = xs
           \<and> nq_table_size q' = nq_table_size q"
proof -
  obtain t where t: "nq_table q = Some t" "length t = unat (nq_table_size q)"
    "unat (nq_table_start q) < length t" "unat (nq_table_end q) < length t"
    "nq_items q = ring t (unat (nq_table_start q)) (unat (nq_table_end q))"
    using assms(1) by (rule nq_invE)
  define s' where "s' = (if nq_table_start q + 1 = nq_table_size q then 0 else nq_table_start q + 1)"
  have s': "unat s' = (if unat (nq_table_start q) + 1 = length t then 0 else unat (nq_table_start q) + 1)"
    using nq_next [of "nq_table_start q" "nq_table_size q"] t by (simp add: s'_def)
  have ne: "nq_table_start q \<noteq> nq_table_end q"
    using assms(2) t by (auto simp: ring_def)
  have "ring t (unat (nq_table_start q)) (unat (nq_table_end q)) =
      t ! unat (nq_table_start q) # ring t (unat s') (unat (nq_table_end q))"
    using t ne s' by (intro ring_pop) (auto simp: word_unat_eq_iff)
  moreover have "unat s' < length t" using t s' by auto
  ultimately show ?thesis
    using assms(2) t ne
    by (auto simp: netsys_queue_take_def c_simps nq_inv_def nq_items_def word_less_nat_alt
          simp flip: s'_def)
qed

lemma queue_add_noresize:
  assumes "nq_inv q"
    and "(if nq_table_end q + 1 = nq_table_size q then 0 else nq_table_end q + 1) \<noteq> nq_table_start q"
  shows "\<exists>q'. netsys_queue_add malloc q x = Some (0, q') \<and> nq_inv q' \<and> nq_items q' = nq_items q @ [x]
           \<and> nq_table_size q' = nq_table_size q"
proof -
  obtain t where t: "nq_table q = Some t" "length t = unat (nq_table_size q)"
    "unat (nq_table_start q) < length t" "unat (nq_table_end q) < length t"
    "nq_items q = ring t (unat (nq_table_start q)) (unat (nq_table_end q))"
    using assms(1) by (rule nq_invE)
  define e' where "e' = (if nq_table_end q + 1 = nq_table_size q then 0 else nq_table_end q + 1)"
  have e': "unat e' = (if unat (nq_table_end q) + 1 = length t then 0 else unat (nq_table_end q) + 1)"
    using nq_next [of "nq_table_end q" "nq_table_size q"] t by (simp add: e'_def)
  have ne: "e' \<noteq> nq_table_start q" using assms(2) by (simp add: e'_def)
  have "ring (t[unat (nq_table_end q) := x]) (unat (nq_table_start q)) (unat e') = nq_items q @ [x]"
    unfolding t(5) using t e' ne by (intro ring_push) (auto simp: word_unat_eq_iff)
  moreover have "unat e' < length t" using t e' by auto
  ultimately show ?thesis
    using t ne by (auto simp: netsys_queue_add_def Let_def c_simps nq_inv_def nq_items_def
        word_less_nat_alt simp flip: e'_def)
qed

lemma cells_of_bytes: "unat (n :: u64) < 2 ^ 61 \<Longrightarrow> unat (n * 8) div 8 = unat n"
  by (simp add: unat_word_ariths)

lemma unat_u64_diff: "b \<le> a \<Longrightarrow> unat (a - b :: u64) = unat a - unat b"
  by (simp add: unat_sub_if' word_le_nat_alt)

lemma ulong_of_int_inc:
  "unat n + 1 < 2 ^ 31 \<Longrightarrow> ulong_of_int (int_of_ulong n + 1) = n + 1"
proof -
  assume n: "unat n + 1 < 2 ^ 31"
  have "int_of_ulong n + 1 = int_of_ulong (n + 1)"
    using n by (simp add: word_unat_eq_iff int_of_ulong_def unat_word_ariths unsigned_ucast_eq
        take_bit_eq_mod)
  moreover have "unat (n + 1) < 2 ^ 31" using n by (simp add: unat_word_ariths)
  ultimately show ?thesis using ulong_int_id [of "n + 1"] by simp
qed

lemma queue_resize_fail:
  "malloc (nq_table_size q * 2 * 8) = None \<Longrightarrow> queue_resize malloc q = Some (-1, q, 0)"
  by (simp add: queue_resize_def netsys_queue_init_def malloc_cells_def)

lemma queue_resize_ok:
  assumes "nq_inv q" "unat (nq_table_size q) < 2 ^ 31"
    and len: "length (nq_items q) + 1 = unat (nq_table_size q)"
    and "malloc_cells 8 malloc (nq_table_size q * 2 * 8) = Some t1"
  shows "\<exists>n. unat n = length (nq_items q) \<and>
    queue_resize malloc q =
      Some (0, \<lparr>nq_table = Some (nq_items q @ drop (length (nq_items q)) t1),
                nq_table_size = nq_table_size q * 2, nq_table_start = 0, nq_table_end = n\<rparr>, n + 1)
    \<and> length t1 = 2 * unat (nq_table_size q)"
proof -
  obtain t where t: "nq_table q = Some t" "length t = unat (nq_table_size q)"
    "unat (nq_table_start q) < length t" "unat (nq_table_end q) < length t"
    "nq_items q = ring t (unat (nq_table_start q)) (unat (nq_table_end q))"
    using assms(1) by (rule nq_invE)
  have "length t1 = unat (nq_table_size q * 2 * 8) div 8"
    using assms(4) by (rule malloc_cells_length)
  moreover have "unat (nq_table_size q * 2) = 2 * unat (nq_table_size q)"
    using assms(2) by (simp add: unat_word_ariths)
  ultimately have l1: "length t1 = 2 * unat (nq_table_size q)"
    using assms(2) cells_of_bytes [of "nq_table_size q * 2"] by simp
  show ?thesis
  proof (cases "nq_table_start q \<le> nq_table_end q")
    case True
    define n where "n = nq_table_end q - nq_table_start q"
    have n: "unat n = length (nq_items q)"
      using True assms(1) by (simp add: n_def unat_u64_diff nq_items_length)
    then have b: "unat n + 1 < 2 ^ 31" using len assms(2) by simp
    then have id: "ulong_of_int (int_of_ulong n) = n" by (simp add: ulong_int_id)
    have it: "nq_items q = take (unat n) (drop (unat (nq_table_start q)) t)"
      using t True by (simp add: ring_def word_le_nat_alt n_def unat_u64_diff)
    have "unat (nq_table_start q) + unat n \<le> length t"
      using True t by (simp add: n_def unat_u64_diff word_le_nat_alt)
    moreover have "unat (n * 8) div 8 = unat n" using b by (simp add: cells_of_bytes)
    ultimately show ?thesis
      using True t(1,2) l1 n [symmetric] assms(4) len it [symmetric] ulong_of_int_inc [OF b]
      by (intro exI [of _ n])
        (simp add: queue_resize_def netsys_queue_init_def memcpy_ptrs_def blit_def id Let_def
          flip: n_def)
  next
    case False
    define n1 where "n1 = nq_table_size q - nq_table_start q"
    have n1: "unat n1 = unat (nq_table_size q) - unat (nq_table_start q)"
      using t by (simp add: n1_def unat_u64_diff word_le_nat_alt)
    define n where "n = n1 + nq_table_end q"
    have n: "unat n = length (nq_items q)"
      using n1 t(2-4) assms(2) nq_items_length [OF assms(1)] False
      by (simp add: n_def unat_word_ariths)
    have b: "unat n + 1 < 2 ^ 31" using n len assms(2) by simp
    have id: "ulong_of_int (int_of_ulong n) = n" "ulong_of_int (int_of_ulong n1) = n1"
      using b n1 assms(2) by (simp_all add: ulong_int_id)
    have it: "nq_items q = drop (unat (nq_table_start q)) t @ take (unat (nq_table_end q)) t"
      using t False by (simp add: ring_def word_le_nat_alt)
    have c: "unat (n1 * 8) div 8 = unat n1"
      "unat (nq_table_end q * 8) div 8 = unat (nq_table_end q)"
      using n1 t assms(2) by (simp_all add: cells_of_bytes)
    have s1: "memcpy_ptrs t1 0 t (nq_table_start q) (n1 * 8)
        = Some (drop (unat (nq_table_start q)) t @ drop (unat n1) t1)"
      using t(2-4) l1 n1 c by (simp add: memcpy_ptrs_def blit_def)
    have s2: "memcpy_ptrs (drop (unat (nq_table_start q)) t @ drop (unat n1) t1) n1 t 0 (nq_table_end q * 8)
        = Some (nq_items q @ drop (unat n) t1)"
    proof -
      have "unat n = unat n1 + unat (nq_table_end q)"
        using n1 t(2-4) assms(2) by (simp add: n_def unat_word_ariths)
      then show ?thesis
        using t(2-4) l1 n1 c by (simp add: memcpy_ptrs_def blit_def it add.commute)
    qed
    show ?thesis
      using False t(1) l1 n assms(4) s1 s2 ulong_of_int_inc [OF b]
      by (intro exI [of _ n])
        (simp add: queue_resize_def netsys_queue_init_def id Let_def flip: n1_def n_def)
  qed
qed

lemma queue_full_iff:
  assumes "nq_inv q"
  shows "(if nq_table_end q + 1 = nq_table_size q then 0 else nq_table_end q + 1) = nq_table_start q
     \<longleftrightarrow> length (nq_items q) + 1 = unat (nq_table_size q)"
proof -
  obtain t :: "addr list" where t: "length t = unat (nq_table_size q)"
    "unat (nq_table_start q) < length t" "unat (nq_table_end q) < length t"
    using assms by (blast elim: nq_invE)
  have "(if nq_table_end q + 1 = nq_table_size q then 0 else nq_table_end q + 1) = nq_table_start q
     \<longleftrightarrow> (if unat (nq_table_end q) + 1 = unat (nq_table_size q) then 0 else unat (nq_table_end q) + 1)
         = unat (nq_table_start q)"
    using nq_next [of "nq_table_end q" "nq_table_size q"] t by (simp add: word_unat_eq_iff)
  then show ?thesis
    using t nq_items_length [OF assms] by (auto simp: word_le_nat_alt)
qed

lemma append_slot_ok:
  assumes "unat n = length its" "rest \<noteq> []" "length its + length rest = unat m" "unat (n + 1) = unat n + 1"
    and "unat n + 1 < unat m"
  shows "\<exists>q'. (do { tab' \<leftarrow> wr (its @ rest) (unat n) x;
          Some (0 :: int, \<lparr>nq_table = Some tab', nq_table_size = m, nq_table_start = 0, nq_table_end = n + 1\<rparr>) })
      = Some (0, q') \<and> nq_inv q' \<and> nq_items q' = its @ [x] \<and> nq_table_size q' = m"
  using assms
  by (cases rest) (auto simp: wr_def nq_inv_def nq_items_def ring_def word_less_nat_alt)

lemma queue_add_ok:
  assumes "nq_inv q" "nq_room q (Suc k)"
  shows "\<exists>r q'. netsys_queue_add malloc q x = Some (r, q') \<and> nq_inv q' \<and> nq_room q' k \<and>
    (r = 0 \<and> nq_items q' = nq_items q @ [x] \<or>
     r = -1 \<and> q' = q \<and> malloc (nq_table_size q * 2 * 8) = None)"
proof (cases "length (nq_items q) + 1 = unat (nq_table_size q)")
  case False
  then obtain q' where "netsys_queue_add malloc q x = Some (0, q')" "nq_inv q'"
      "nq_items q' = nq_items q @ [x]" "nq_table_size q' = nq_table_size q"
    using queue_add_noresize [OF assms(1), of malloc x] queue_full_iff [OF assms(1)] by auto
  then show ?thesis using assms(2) by (auto simp: nq_room_def)
next
  case True
  note full = queue_full_iff [OF assms(1), THEN iffD2, OF True]
  show ?thesis
  proof (cases "malloc_cells 8 malloc (nq_table_size q * 2 * 8)")
    case None
    then show ?thesis
      using full assms(1,2) queue_resize_fail [of malloc q]
      by (simp add: netsys_queue_add_def nq_room_def Let_def)
  next
    case (Some t1)
    have size: "unat (nq_table_size q) < 2 ^ 31" using assms(2) by (simp add: nq_room_def)
    then obtain n where n: "unat n = length (nq_items q)" and
      r: "queue_resize malloc q =
        Some (0, \<lparr>nq_table = Some (nq_items q @ drop (length (nq_items q)) t1),
                nq_table_size = nq_table_size q * 2, nq_table_start = 0, nq_table_end = n\<rparr>, n + 1)"
      and l: "length t1 = 2 * unat (nq_table_size q)"
      using queue_resize_ok [OF assms(1) _ True Some] by blast
    have "unat (n + 1) = unat n + 1"
      using n True size by (simp add: unat_word_ariths)
    moreover have "unat (nq_table_size q * 2) = 2 * unat (nq_table_size q)"
      using size by (simp add: unat_word_ariths)
    ultimately show ?thesis
      using full r l n True assms(2) append_slot_ok [of n "nq_items q" "drop (length (nq_items q)) t1"
          "nq_table_size q * 2" x]
      by (auto simp: netsys_queue_add_def Let_def nq_room_def split: option.splits)
  qed
qed

section \<open>The FIFO interface\<close>

text \<open>
  What the value copier relies on: a bounded FIFO whose insertion can fail for lack of
  memory, in which case nothing is changed. The client lemma shows that a list of elements
  pushed one after the other is drained in the same order.
\<close>

locale fifo =
  fixes inv :: "'q \<Rightarrow> bool"
    and items :: "'q \<Rightarrow> 'a list"
    and room :: "'q \<Rightarrow> nat \<Rightarrow> bool"
    and push :: "'q \<Rightarrow> 'a \<Rightarrow> (int \<times> 'q) option"
    and pop :: "'q \<Rightarrow> (int \<times> 'a \<times> 'q) option"
  assumes push_law: "inv q \<Longrightarrow> room q (Suc k) \<Longrightarrow>
      \<exists>r q'. push q x = Some (r, q') \<and> inv q' \<and> room q' k \<and>
        (r = 0 \<and> items q' = items q @ [x] \<or> r = -1 \<and> q' = q)"
    and pop_law: "inv q \<Longrightarrow> items q = x # xs \<Longrightarrow>
      \<exists>q'. pop q = Some (0, x, q') \<and> inv q' \<and> items q' = xs \<and> (\<forall>k. room q k \<longrightarrow> room q' k)"
    and pop_empty_law: "inv q \<Longrightarrow> items q = [] \<Longrightarrow> \<exists>x. pop q = Some (-3, x, q)"
begin

primrec push_all :: "'q \<Rightarrow> 'a list \<Rightarrow> (int \<times> 'q) option" where
  "push_all q [] = Some (0, q)"
| "push_all q (x # xs) = do { (r, q') \<leftarrow> push q x; if r \<noteq> 0 then Some (r, q') else push_all q' xs }"

primrec drain :: "nat \<Rightarrow> 'q \<Rightarrow> ('a list \<times> 'q) option" where
  "drain 0 q = None"
| "drain (Suc n) q = do { (r, x, q') \<leftarrow> pop q;
     if r \<noteq> 0 then Some ([], q') else do { (xs, q'') \<leftarrow> drain n q'; Some (x # xs, q'') } }"

lemma push_all_law:
  "inv q \<Longrightarrow> room q (length xs + k) \<Longrightarrow>
   \<exists>r q'. push_all q xs = Some (r, q') \<and> inv q' \<and>
     (r = 0 \<and> items q' = items q @ xs \<and> room q' k \<or>
      r = -1 \<and> (\<exists>i < length xs. items q' = items q @ take i xs))"
proof (induction xs arbitrary: q)
  case Nil
  then show ?case by simp
next
  case (Cons x xs)
  obtain r q' where p: "push q x = Some (r, q')" "inv q'" "room q' (length xs + k)"
    "r = 0 \<and> items q' = items q @ [x] \<or> r = -1 \<and> q' = q"
    using push_law [of q "length xs + k" x] Cons.prems by auto
  show ?case
  proof (cases "r = 0")
    case True
    obtain r'' q'' where "push_all q' xs = Some (r'', q'')" "inv q''"
      "r'' = 0 \<and> items q'' = items q' @ xs \<and> room q'' k \<or>
       r'' = -1 \<and> (\<exists>i < length xs. items q'' = items q' @ take i xs)"
      using Cons.IH [of q'] p by blast
    then show ?thesis using p True by (auto intro: exI [of _ "Suc _"])
  next
    case False
    then show ?thesis using p by auto
  qed
qed

lemma drain_law:
  "inv q \<Longrightarrow> length (items q) < n \<Longrightarrow>
   \<exists>q'. drain n q = Some (items q, q') \<and> inv q' \<and> items q' = []"
proof (induction n arbitrary: q)
  case 0
  then show ?case by simp
next
  case (Suc n)
  show ?case
  proof (cases "items q")
    case Nil
    then show ?thesis using pop_empty_law [of q] Suc.prems by auto
  next
    case (Cons x xs)
    then obtain q' where "pop q = Some (0, x, q')" "inv q'" "items q' = xs"
      using pop_law Suc.prems by blast
    then show ?thesis using Suc.IH [of q'] Suc.prems Cons by auto
  qed
qed

lemma push_drain_law:
  assumes "inv q" "room q (length xs)"
  shows "\<exists>r q' i q''. push_all q xs = Some (r, q') \<and>
    (r = 0 \<and> i = length xs \<or> r = -1 \<and> i < length xs) \<and>
    drain (Suc (length (items q) + length xs)) q' = Some (items q @ take i xs, q'') \<and>
    inv q'' \<and> items q'' = []"
proof -
  obtain r q' where p: "push_all q xs = Some (r, q')" "inv q'"
    "r = 0 \<and> items q' = items q @ xs \<or> r = -1 \<and> (\<exists>i < length xs. items q' = items q @ take i xs)"
    using push_all_law [of q xs 0] assms by auto
  then obtain i where i: "r = 0 \<and> i = length xs \<or> r = -1 \<and> i < length xs"
    "items q' = items q @ take i xs"
    by auto
  moreover have "length (items q') < Suc (length (items q) + length xs)"
    using i by auto
  ultimately show ?thesis
    using p drain_law [of q'] by fastforce
qed

end

interpretation nq: fifo nq_inv nq_items nq_room "netsys_queue_add malloc" netsys_queue_take
  for malloc
proof
  fix q k x
  assume "nq_inv q" "nq_room q (Suc k)"
  then show "\<exists>r q'. netsys_queue_add malloc q x = Some (r, q') \<and> nq_inv q' \<and> nq_room q' k \<and>
      (r = 0 \<and> nq_items q' = nq_items q @ [x] \<or> r = -1 \<and> q' = q)"
    using queue_add_ok [of q k malloc x] by blast
next
  fix q x xs
  assume "nq_inv q" "nq_items q = x # xs"
  then show "\<exists>q'. netsys_queue_take q = Some (0, x, q') \<and> nq_inv q' \<and> nq_items q' = xs \<and>
      (\<forall>k. nq_room q k \<longrightarrow> nq_room q' k)"
    using netsys_queue_take_ok [of q x xs] by (auto simp: nq_room_def)
next
  fix q
  assume "nq_inv q" "nq_items q = []"
  then show "\<exists>x. netsys_queue_take q = Some (-3, x, q)"
    using netsys_queue_take_empty by blast
qed

section \<open>Properties\<close>

text \<open>
  Claim C14: \<^verbatim>\<open>netsys_queue_add\<close> refines appending to a list. On a well-formed queue it
  accesses only its table and returns 0 with the element appended at the end, across the
  wrap-around of the ring and across a resize, or it returns -1 with the queue unchanged,
  which happens only when the resize is refused memory.
\<close>

theorem netsys_queue_add_refines:
  assumes "nq_inv q" "nq_room q (Suc k)"
  shows "\<exists>r q'. netsys_queue_add malloc q x = Some (r, q') \<and> nq_inv q' \<and> nq_room q' k \<and>
    (r = 0 \<and> nq_items q' = nq_items q @ [x] \<or>
     r = -1 \<and> q' = q \<and> malloc (nq_table_size q * 2 * 8) = None)"
  using assms by (rule queue_add_ok)

text \<open>A full ring of three cells, wrapped around: the next insertion resizes it.\<close>

definition sample_queue :: nqueue where
  "sample_queue = \<lparr>nq_table = Some [16, 0, 8], nq_table_size = 3, nq_table_start = 2, nq_table_end = 1\<rparr>"

lemma sample_queue_ok:
  "nq_inv sample_queue" "nq_items sample_queue = [8, 16]" "nq_room sample_queue 100"
  "nq_room sample_queue 2" "\<not> nq_table_start sample_queue \<le> nq_table_end sample_queue"
  "unat (nq_table_size sample_queue) = 3"
  by (simp_all add: sample_queue_def nq_inv_def nq_items_def ring_def nq_room_def word_le_nat_alt)

theorem netsys_queue_add_refines_witness:
  "\<exists>r q'. netsys_queue_add (malloc_fill 0) sample_queue 24 = Some (r, q') \<and> nq_inv q' \<and>
     nq_room q' 99 \<and> r = 0 \<and> nq_items q' = [8, 16, 24]"
  using netsys_queue_add_refines [of sample_queue 99 "malloc_fill 0" 24] sample_queue_ok
  by (simp only: Suc_numeral) auto

text \<open>
  Claim C31: FIFO order. Elements pushed one after the other with \<^verbatim>\<open>netsys_queue_add\<close> (until
  the first error) and then taken with \<^verbatim>\<open>netsys_queue_take\<close> until it reports the empty
  queue (-3) come out in the order of their insertion, after the elements that were in the
  queue before; both loops end.
\<close>

theorem netsys_queue_fifo_order:
  assumes "nq_inv q" "nq_room q (length xs)"
  shows "\<exists>r q' i q''. nq.push_all malloc q xs = Some (r, q') \<and>
    (r = 0 \<and> i = length xs \<or> r = -1 \<and> i < length xs) \<and>
    nq.drain (Suc (length (nq_items q) + length xs)) q' = Some (nq_items q @ take i xs, q'') \<and>
    netsys_queue_take q'' = Some (-3, NULL, q'')"
  using nq.push_drain_law [OF assms, of malloc] netsys_queue_take_empty by blast

theorem netsys_queue_fifo_order_witness:
  "\<exists>r q' i q''. nq.push_all malloc_fails sample_queue [24, 32] = Some (r, q') \<and>
    (r = 0 \<and> i = 2 \<or> r = -1 \<and> i < 2) \<and>
    nq.drain 5 q' = Some ([8, 16] @ take i [24, 32], q'') \<and>
    netsys_queue_take q'' = Some (-3, NULL, q'')"
  using netsys_queue_fifo_order [of sample_queue "[24, 32]" malloc_fails] sample_queue_ok
  by (simp flip: numeral_2_eq_2)

text \<open>
  What \<^verbatim>\<open>netsys_queue_size\<close> computes. As long as the elements do not wrap around
  the end of the table it is their number; once they do, it is twice the table size minus
  their number, so the function contradicts its specification in \<^verbatim>\<open>netsys_c_queue.h\<close>
  (the operands of the second branch are exchanged).
\<close>

theorem netsys_queue_size_value:
  assumes "nq_inv q" "unat (nq_table_size q) < 2 ^ 63"
  shows "unat (netsys_queue_size q) =
    (if nq_table_start q \<le> nq_table_end q then length (nq_items q)
     else 2 * unat (nq_table_size q) - length (nq_items q))"
proof (cases "nq_table_start q \<le> nq_table_end q")
  case True
  then show ?thesis
    using nq_items_length [OF assms(1)] by (simp add: netsys_queue_size_def unat_u64_diff)
next
  case False
  have "unat (nq_table_end q) < unat (nq_table_size q)"
    using assms(1) by (simp add: nq_inv_def word_less_nat_alt)
  moreover have "unat (nq_table_size q - nq_table_end q) = unat (nq_table_size q) - unat (nq_table_end q)"
    using calculation by (simp add: unat_u64_diff word_le_nat_alt)
  moreover have "unat (nq_table_start q) < unat (nq_table_size q)"
    using assms(1) by (simp add: nq_inv_def word_less_nat_alt)
  ultimately show ?thesis
    using False assms(2) nq_items_length [OF assms(1)]
    by (simp add: netsys_queue_size_def unat_word_ariths)
qed

theorem netsys_queue_size_value_witness:
  "unat (netsys_queue_size sample_queue) = 4 \<and> length (nq_items sample_queue) = 2"
  using netsys_queue_size_value [of sample_queue] sample_queue_ok
  by simp

end
