(* ===== verification/Htab.thy ===== *)
theory Htab
  imports Netsys_Prelude "HOL-Library.Multiset"
begin

text \<open>
  The open-addressing hash table of \<^verbatim>\<open>src/src/netsys/netsys_c_htab.c\<close>, which maps the
  address of an original block to the address of its copy. Collisions are resolved by
  linear probing; the hash function is FNV-1 over the eight bytes of the address (the
  \<^verbatim>\<open>ARCH_SIXTYFOUR\<close> branch). The probe loops of the source end only at a suitable cell,
  so they are partial functions; the lemmas show that they return.
\<close>

record htab_cell =
  orig_addr :: addr
  relo_addr :: addr

record htab =
  ht_table :: "htab_cell list option"
  ht_table_size :: u64
  ht_table_used :: u64

definition FNV_P :: u64 where "FNV_P = 1099511628211"

definition FNV_S :: u64 where "FNV_S = 0xcbf29ce484222325"

definition H :: "u64 \<Rightarrow> u64 \<Rightarrow> u64" where
  "H x n =
     ((((((((((((((((FNV_S * FNV_P) XOR (drop_bit 56 x AND 0xff)) *
     FNV_P) XOR (drop_bit 48 x AND 0xff)) *
     FNV_P) XOR (drop_bit 40 x AND 0xff)) *
     FNV_P) XOR (drop_bit 32 x AND 0xff)) *
     FNV_P) XOR (drop_bit 24 x AND 0xff)) *
     FNV_P) XOR (drop_bit 16 x AND 0xff)) *
     FNV_P) XOR (drop_bit 8 x AND 0xff)) *
     FNV_P) XOR (x AND 0xff)) mod n"

definition null_cell :: htab_cell where
  "null_cell = \<lparr>orig_addr = NULL, relo_addr = NULL\<rparr>"

text \<open>The common loop of \<^verbatim>\<open>netsys_htab_add_1\<close> and \<^verbatim>\<open>netsys_htab_lookup\<close>.\<close>

partial_function (option) htab_probe ::
    "(htab_cell \<Rightarrow> bool) \<Rightarrow> htab_cell list \<Rightarrow> u64 \<Rightarrow> u64 \<Rightarrow> u64 option" where
  "htab_probe stop table sz h1 =
     do {
       c \<leftarrow> rd table (unat h1);
       if stop c then Some h1
       else let h = h1 + 1 in htab_probe stop table sz (if h = sz then 0 else h)
     }"

declare htab_probe.simps [code]

definition netsys_htab_add_1 :: "htab \<Rightarrow> addr \<Rightarrow> addr \<Rightarrow> htab option" where
  "netsys_htab_add_1 t a1 a2 =
     do {
       table \<leftarrow> ht_table t;
       if ht_table_size t = 0 then None
       else do {
         h1 \<leftarrow> htab_probe (\<lambda>c. orig_addr c = NULL) table (ht_table_size t) (H a1 (ht_table_size t));
         table' \<leftarrow> wr table (unat h1) \<lparr>orig_addr = a1, relo_addr = a2\<rparr>;
         Some (t\<lparr>ht_table := Some table', ht_table_used := ht_table_used t + 1\<rparr>)
       }
     }"

text \<open>The first \<open>n\<close> cells are set to \<open>NULL\<close>.\<close>

definition zero_cells :: "u64 \<Rightarrow> htab_cell list \<Rightarrow> htab_cell list option" where
  "zero_cells n table =
     (if unat n \<le> length table
      then Some (replicate (unat n) null_cell @ drop (unat n) table) else None)"

fun htab_rehash :: "htab \<Rightarrow> htab_cell list \<Rightarrow> htab option" where
  "htab_rehash t [] = Some t"
| "htab_rehash t (c # cs) =
     do {
       t' \<leftarrow> (if orig_addr c \<noteq> NULL then netsys_htab_add_1 t (orig_addr c) (relo_addr c)
              else Some t);
       htab_rehash t' cs
     }"

definition netsys_htab_grow :: "htab_cell allocator \<Rightarrow> htab \<Rightarrow> u64 \<Rightarrow> (int \<times> htab) option" where
  "netsys_htab_grow malloc t n =
     (if n < ht_table_size t then Some (-2, t)
      else case malloc_cells 16 malloc (n * 16) of
        None \<Rightarrow> Some (-1, t)
      | Some new_table \<Rightarrow> do {
          new_table' \<leftarrow> zero_cells n new_table;
          let t1 = \<lparr>ht_table = Some new_table', ht_table_size = n, ht_table_used = 0\<rparr>;
          case ht_table t of
            None \<Rightarrow> Some (0, t1)
          | Some old_table \<Rightarrow>
              if unat (ht_table_size t) \<le> length old_table
              then do {
                t2 \<leftarrow> htab_rehash t1 (take (unat (ht_table_size t)) old_table);
                Some (0, t2)
              } else None
        })"

definition netsys_htab_init :: "htab_cell allocator \<Rightarrow> u64 \<Rightarrow> (int \<times> htab) option" where
  "netsys_htab_init malloc n =
     netsys_htab_grow malloc \<lparr>ht_table = None, ht_table_size = 0, ht_table_used = 0\<rparr> n"

definition netsys_htab_clear :: "htab \<Rightarrow> htab option" where
  "netsys_htab_clear t =
     do {
       table \<leftarrow> ht_table t;
       table' \<leftarrow> zero_cells (ht_table_size t) table;
       Some (t\<lparr>ht_table := Some table', ht_table_used := 0\<rparr>)
     }"

definition netsys_htab_add :: "htab_cell allocator \<Rightarrow> htab \<Rightarrow> addr \<Rightarrow> addr \<Rightarrow> (int \<times> htab) option" where
  "netsys_htab_add malloc t a1 a2 =
     (if a1 = NULL \<or> a2 = NULL then Some (-2, t)
      else do {
        (code, t') \<leftarrow>
          (if 2 * ht_table_used t > ht_table_size t
           then netsys_htab_grow malloc t (2 * ht_table_size t) else Some (0, t));
        if code < 0 then Some (code, t')
        else do { t'' \<leftarrow> netsys_htab_add_1 t' a1 a2; Some (0, t'') }
      })"

definition netsys_htab_lookup :: "htab \<Rightarrow> addr \<Rightarrow> (int \<times> addr) option" where
  "netsys_htab_lookup t a1 =
     do {
       table \<leftarrow> ht_table t;
       if ht_table_size t = 0 then None
       else do {
         h1 \<leftarrow> htab_probe (\<lambda>c. orig_addr c = NULL \<or> orig_addr c = a1) table (ht_table_size t)
                 (H a1 (ht_table_size t));
         c \<leftarrow> rd table (unat h1);
         Some (0, if orig_addr c = NULL then NULL else relo_addr c)
       }
     }"

definition netsys_htab_free :: "htab \<Rightarrow> htab" where
  "netsys_htab_free t = t\<lparr>ht_table := None\<rparr>"

section \<open>Linear probing on tables\<close>

abbreviation occupied :: "htab_cell \<Rightarrow> bool" where
  "occupied c \<equiv> orig_addr c \<noteq> NULL"

definition entries :: "htab_cell list \<Rightarrow> htab_cell list" where
  "entries tab = filter occupied tab"

definition chained :: "(addr \<Rightarrow> nat) \<Rightarrow> htab_cell list \<Rightarrow> nat \<Rightarrow> bool" where
  "chained hf tab i \<longleftrightarrow> (let h = hf (orig_addr (tab ! i)); n = length tab in
     \<exists>d < n. i = (h + d) mod n \<and> (\<forall>j < d. occupied (tab ! ((h + j) mod n))))"

definition tab_inv :: "(addr \<Rightarrow> nat) \<Rightarrow> htab_cell list \<Rightarrow> bool" where
  "tab_inv hf tab \<longleftrightarrow> distinct (map orig_addr (entries tab)) \<and>
     (\<forall>c \<in> set (entries tab). relo_addr c \<noteq> NULL) \<and>
     (\<forall>i < length tab. occupied (tab ! i) \<longrightarrow> chained hf tab i)"

definition tab_map :: "htab_cell list \<Rightarrow> addr \<rightharpoonup> addr" where
  "tab_map tab = map_of (map (\<lambda>c. (orig_addr c, relo_addr c)) (entries tab))"

lemma probe_first:
  assumes "unat h1 < unat sz" "length tab = unat sz" "d < unat sz"
    and "stop (tab ! ((unat h1 + d) mod unat sz))"
    and "\<forall>j < d. \<not> stop (tab ! ((unat h1 + j) mod unat sz))"
  shows "\<exists>w. htab_probe stop tab sz h1 = Some w \<and> unat w = (unat h1 + d) mod unat sz"
  using assms
proof (induction d arbitrary: h1)
  case 0
  then show ?case by (subst htab_probe.simps) (simp add: c_simps)
next
  case (Suc d)
  define h where "h = (if h1 + 1 = sz then 0 else h1 + 1)"
  have h: "unat h = (unat h1 + 1) mod unat sz"
    using Suc.prems(1) unat_u64_less_inc [of h1 sz]
    by (auto simp: h_def word_less_nat_alt word_unat_eq_iff)
  have sh: "(unat h + j) mod unat sz = (unat h1 + Suc j) mod unat sz" for j
    by (simp add: h mod_simps)
  have "unat h < unat sz" using Suc.prems(1) by (simp add: h)
  moreover have "\<not> stop (tab ! unat h1)" using Suc.prems(1,5) by force
  moreover have "\<exists>w. htab_probe stop tab sz h = Some w \<and> unat w = (unat h + d) mod unat sz"
    using Suc.prems calculation(1) by (intro Suc.IH) (auto simp: sh)
  ultimately show ?case
    using Suc.prems(1,2) by (subst htab_probe.simps) (simp add: c_simps Let_def sh flip: h_def)
qed

lemma ex_offset: "f < n \<Longrightarrow> h < n \<Longrightarrow> \<exists>d < n. (h + d) mod n = (f :: nat)"
  by (rule exI [of _ "(f + n - h) mod n"]) (simp add: mod_simps)

lemma ex_first_stop:
  assumes "f < n" "h < n" "stop (tab ! f)"
  shows "\<exists>d < n. stop (tab ! ((h + d) mod n)) \<and> (\<forall>j < d. \<not> stop (tab ! ((h + j) mod n)))"
proof -
  obtain d0 where "d0 < n" "(h + d0) mod n = f" using ex_offset [OF assms(1,2)] by blast
  then have "stop (tab ! ((h + d0) mod n))" using assms(3) by simp
  then show ?thesis
    using \<open>d0 < n\<close> exists_least_iff [of "\<lambda>d. stop (tab ! ((h + d) mod n))"]
    by (meson le_less_trans not_le)
qed

lemma nth_occupied_entries: "i < length tab \<Longrightarrow> occupied (tab ! i) \<Longrightarrow> tab ! i \<in> set (entries tab)"
  by (auto simp: entries_def)

lemma tab_map_Some:
  "distinct (map orig_addr (entries tab)) \<Longrightarrow>
   tab_map tab k = Some v \<longleftrightarrow> (\<exists>c \<in> set (entries tab). orig_addr c = k \<and> relo_addr c = v)"
  by (auto simp: tab_map_def comp_def intro!: map_of_eq_Some_iff [THEN iffD2])

lemma tab_map_None: "tab_map tab k = None \<longleftrightarrow> k \<notin> orig_addr ` set (entries tab)"
  by (force simp: tab_map_def map_of_eq_None_iff)

text \<open>The cell at which a lookup for \<open>k\<close> stops.\<close>

lemma lookup_cell:
  assumes inv: "tab_inv hf tab" and free: "f < length tab" "\<not> occupied (tab ! f)"
    and h: "hf k < length tab" and "k \<noteq> NULL"
  shows "\<exists>d < length tab. let c = tab ! ((hf k + d) mod length tab) in
    (\<not> occupied c \<or> orig_addr c = k) \<and>
    (\<forall>j < d. \<not> (\<not> occupied (tab ! ((hf k + j) mod length tab)) \<or>
                orig_addr (tab ! ((hf k + j) mod length tab)) = k)) \<and>
    tab_map tab k = (if occupied c then Some (relo_addr c) else None)"
proof -
  let ?n = "length tab" and ?stop = "\<lambda>c. \<not> occupied c \<or> orig_addr c = k"
  obtain d where d: "d < ?n" "?stop (tab ! ((hf k + d) mod ?n))"
      "\<forall>j < d. \<not> ?stop (tab ! ((hf k + j) mod ?n))"
    using ex_first_stop [of f ?n "hf k" ?stop tab] free h by blast
  define p where "p = (hf k + d) mod ?n"
  have p: "p < ?n" using h by (auto simp: p_def intro!: mod_less_divisor)
  have dist: "distinct (map orig_addr (entries tab))" using inv by (simp add: tab_inv_def)
  have "tab_map tab k = (if occupied (tab ! p) then Some (relo_addr (tab ! p)) else None)"
  proof (cases "occupied (tab ! p)")
    case True
    then have "orig_addr (tab ! p) = k" using d(2) by (simp add: p_def)
    then show ?thesis
      using True nth_occupied_entries [OF p True] tab_map_Some [OF dist] by auto
  next
    case False
    have "k \<notin> orig_addr ` set (entries tab)"
    proof
      assume "k \<in> orig_addr ` set (entries tab)"
      then obtain i where i: "i < ?n" "occupied (tab ! i)" "orig_addr (tab ! i) = k"
        by (auto simp: entries_def in_set_conv_nth)
      then obtain e where e: "e < ?n" "i = (hf k + e) mod ?n"
          "\<forall>j < e. occupied (tab ! ((hf k + j) mod ?n))"
        using inv by (auto simp: tab_inv_def chained_def Let_def)
      have "\<not> e < d" using d(3) e(2) i(3) by auto
      moreover have "\<not> d < e" using e(3) False by (auto simp: p_def)
      ultimately have "e = d" by simp
      then show False using e(2) i(2) False by (simp add: p_def)
    qed
    then show ?thesis using False by (simp add: tab_map_None)
  qed
  then show ?thesis using d by (auto simp: p_def Let_def)
qed

lemma entries_update:
  assumes "p < length tab" "\<not> occupied (tab ! p)" "occupied c"
  shows "mset (entries (tab[p := c])) = add_mset c (mset (entries tab))"
proof -
  have "entries tab = entries (take p tab @ tab ! p # drop (Suc p) tab)"
    using assms(1) by (simp flip: id_take_nth_drop)
  then have "entries tab = entries (take p tab) @ entries (drop (Suc p) tab)"
    using assms(2) by (simp add: entries_def)
  then show ?thesis
    using assms by (simp add: upd_conv_take_nth_drop entries_def)
qed

lemma chained_mono:
  assumes "chained hf tab i" "length tab' = length tab" "tab' ! i = tab ! i"
    and "\<And>j. j < length tab \<Longrightarrow> occupied (tab ! j) \<Longrightarrow> occupied (tab' ! j)"
  shows "chained hf tab' i"
proof -
  obtain d where "d < length tab" "i = (hf (orig_addr (tab ! i)) + d) mod length tab"
    "\<forall>j < d. occupied (tab ! ((hf (orig_addr (tab ! i)) + j) mod length tab))"
    using assms(1) by (auto simp: chained_def Let_def)
  moreover from this(1) have "0 < length tab" by linarith
  ultimately show ?thesis
    using assms(2-4) by (auto simp: chained_def Let_def)
qed

lemma insert_cell:
  assumes inv: "tab_inv hf tab" and ab: "a \<noteq> NULL" "b \<noteq> NULL" and new: "tab_map tab a = None"
    and d: "d < length tab" and p: "p = (hf a + d) mod length tab" "\<not> occupied (tab ! p)"
    and before: "\<forall>j < d. occupied (tab ! ((hf a + j) mod length tab))"
  defines "tab' \<equiv> tab[p := \<lparr>orig_addr = a, relo_addr = b\<rparr>]"
  shows "tab_inv hf tab'" "tab_map tab' = (tab_map tab)(a \<mapsto> b)"
    "length (entries tab') = Suc (length (entries tab))"
proof -
  let ?c = "\<lparr>orig_addr = a, relo_addr = b\<rparr>"
  have pn: "p < length tab" using d p(1) by (auto intro!: mod_less_divisor)
  have m: "mset (entries tab') = add_mset ?c (mset (entries tab))"
    unfolding tab'_def using entries_update [OF pn p(2), of ?c] ab by simp
  then have set': "set (entries tab') = insert ?c (set (entries tab))"
    by (metis set_mset_add_mset_insert set_mset_mset)
  have dist: "distinct (map orig_addr (entries tab))" using inv by (simp add: tab_inv_def)
  have fresh: "a \<notin> orig_addr ` set (entries tab)" using new by (simp add: tab_map_None)
  have "mset (map orig_addr (entries tab')) = add_mset a (mset (map orig_addr (entries tab)))"
    by (simp add: m)
  then have dist': "distinct (map orig_addr (entries tab'))"
    using dist fresh by (metis distinct.simps(2) mset.simps(2) mset_eq_imp_distinct_iff set_map)
  have occ: "occupied (tab' ! j)" if "j < length tab" "occupied (tab ! j)" for j
    using that ab pn by (auto simp: tab'_def nth_list_update)
  have "chained hf tab' i" if "i < length tab" "occupied (tab' ! i)" for i
  proof (cases "i = p")
    case True
    have "(hf a + j) mod length tab < length tab" for j
      using d by (auto intro!: mod_less_divisor)
    then have "\<forall>j < d. occupied (tab' ! ((hf a + j) mod length tab))"
      using before occ by blast
    then show ?thesis
      using True pn d p(1) by (auto simp: chained_def Let_def tab'_def)
  next
    case False
    then have same: "tab' ! i = tab ! i" "length tab' = length tab" by (simp_all add: tab'_def)
    have "chained hf tab i" using inv that same by (simp add: tab_inv_def)
    then show ?thesis using same(2,1) occ by (rule chained_mono)
  qed
  then show "tab_inv hf tab'"
    using inv dist' set' ab by (auto simp: tab_inv_def tab'_def)
  show "tab_map tab' = (tab_map tab)(a \<mapsto> b)"
  proof
    fix k
    have "\<forall>c \<in> set (entries tab). orig_addr c \<noteq> a" using fresh by (metis imageI)
    then have "tab_map tab' k = Some v \<longleftrightarrow> ((tab_map tab)(a \<mapsto> b)) k = Some v" for v
      using tab_map_Some [OF dist', of k v] tab_map_Some [OF dist, of k v] set' by auto
    then show "tab_map tab' k = ((tab_map tab)(a \<mapsto> b)) k"
      by (metis not_None_eq)
  qed
  show "length (entries tab') = Suc (length (entries tab))"
    using m by (metis size_add_mset size_mset)
qed

section \<open>Invariant of the table and correctness of the operations\<close>

text \<open>
  The load condition \<open>2 * used \<le> size + 2\<close> leaves a free cell as soon as the size is at
  least 3, which is what ends every probe loop. \<open>ht_room t k\<close>: the sizes computed while
  at most \<open>k\<close> entries are added do not wrap around.
\<close>

definition ht_inv :: "htab \<Rightarrow> bool" where
  "ht_inv t \<longleftrightarrow> (case ht_table t of None \<Rightarrow> False
     | Some tab \<Rightarrow> length tab = unat (ht_table_size t) \<and>
         tab_inv (\<lambda>k. unat (H k (ht_table_size t))) tab \<and>
         unat (ht_table_used t) = length (entries tab)) \<and>
     3 \<le> unat (ht_table_size t) \<and> 2 * unat (ht_table_used t) \<le> unat (ht_table_size t) + 2"

definition ht_map :: "htab \<Rightarrow> addr \<rightharpoonup> addr" where
  "ht_map t = (case ht_table t of None \<Rightarrow> Map.empty | Some tab \<Rightarrow> tab_map tab)"

definition ht_room :: "htab \<Rightarrow> nat \<Rightarrow> bool" where
  "ht_room t k \<longleftrightarrow> unat (ht_table_size t) < 2 ^ 59 \<and> 4 * (unat (ht_table_used t) + k) < 2 ^ 59"

lemma H_less: "0 < n \<Longrightarrow> unat (H k n) < unat n"
  by (simp add: H_def word_mod_less_divisor flip: word_less_nat_alt)

lemma free_cell:
  assumes "length (entries tab) < length tab"
  shows "\<exists>f < length tab. \<not> occupied (tab ! f)"
proof (rule ccontr)
  assume "\<not> (\<exists>f < length tab. \<not> occupied (tab ! f))"
  then have "entries tab = tab" by (auto simp: entries_def filter_id_conv in_set_conv_nth)
  then show False using assms by simp
qed

lemma ht_add_1_ok:
  assumes t: "ht_table t = Some tab" "length tab = unat (ht_table_size t)"
    and inv: "tab_inv (\<lambda>k. unat (H k (ht_table_size t))) tab"
    and used: "unat (ht_table_used t) = length (entries tab)" "length (entries tab) < length tab"
    and ab: "a \<noteq> NULL" "b \<noteq> NULL" "tab_map tab a = None"
  shows "\<exists>tab'. netsys_htab_add_1 t a b =
      Some (t\<lparr>ht_table := Some tab', ht_table_used := ht_table_used t + 1\<rparr>) \<and>
    length tab' = length tab \<and> tab_inv (\<lambda>k. unat (H k (ht_table_size t))) tab' \<and>
    tab_map tab' = (tab_map tab)(a \<mapsto> b) \<and> length (entries tab') = Suc (length (entries tab)) \<and>
    unat (ht_table_used t + 1) = length (entries tab')"
proof -
  let ?n = "ht_table_size t" and ?h = "unat (H a (ht_table_size t))"
  have n: "0 < ?n" using used(2) t(2) by (simp add: word_less_nat_alt)
  have h: "?h < unat ?n" using H_less [OF n] .
  obtain f where "f < length tab" "\<not> occupied (tab ! f)" using free_cell [OF used(2)] by blast
  then obtain d where d: "d < unat ?n" "\<not> occupied (tab ! ((?h + d) mod unat ?n))"
      "\<forall>j < d. occupied (tab ! ((?h + j) mod unat ?n))"
    using ex_first_stop [of f "unat ?n" ?h "\<lambda>c. \<not> occupied c" tab] h t(2) by auto
  define p where "p = (?h + d) mod unat ?n"
  obtain w where w: "htab_probe (\<lambda>c. orig_addr c = NULL) tab ?n (H a ?n) = Some w" "unat w = p"
    using probe_first [OF h t(2) d(1), of "\<lambda>c. orig_addr c = NULL"] d by (auto simp: p_def)
  let ?tab = "tab[p := \<lparr>orig_addr = a, relo_addr = b\<rparr>]"
  have ins: "tab_inv (\<lambda>k. unat (H k ?n)) ?tab" "tab_map ?tab = (tab_map tab)(a \<mapsto> b)"
      "length (entries ?tab) = Suc (length (entries tab))"
    using insert_cell [OF inv ab(1,2,3), of d p] d t(2) by (auto simp: p_def)
  have "p < length tab" using d(1) t(2) by (auto simp: p_def intro!: mod_less_divisor)
  moreover have "unat (ht_table_used t + 1) = Suc (unat (ht_table_used t))"
    using used t(2) unat_u64_less_inc [of "ht_table_used t" ?n] by (simp add: word_less_nat_alt)
  ultimately show ?thesis
    using t(1) n w ins used(1)
    by (intro exI [of _ ?tab]) (auto simp: netsys_htab_add_1_def wr_def)
qed

lemma lookup_ok:
  assumes "ht_inv t" "k \<noteq> NULL"
  shows "netsys_htab_lookup t k = Some (0, case ht_map t k of None \<Rightarrow> NULL | Some v \<Rightarrow> v)"
proof -
  obtain tab where t: "ht_table t = Some tab" "length tab = unat (ht_table_size t)"
      "tab_inv (\<lambda>k. unat (H k (ht_table_size t))) tab" "length (entries tab) < length tab"
    using assms(1) by (auto simp: ht_inv_def split: option.splits)
  let ?n = "ht_table_size t" and ?h = "unat (H k (ht_table_size t))"
  let ?stop = "\<lambda>c. orig_addr c = NULL \<or> orig_addr c = k"
  have n: "0 < ?n" using t(2,4) by (simp add: word_less_nat_alt)
  have h: "?h < unat ?n" using H_less [OF n] .
  obtain f where f: "f < length tab" "\<not> occupied (tab ! f)" using free_cell [OF t(4)] by blast
  obtain d where d: "d < unat ?n" "?stop (tab ! ((?h + d) mod unat ?n))"
      "\<forall>j < d. \<not> ?stop (tab ! ((?h + j) mod unat ?n))"
      "tab_map tab k = (if occupied (tab ! ((?h + d) mod unat ?n))
          then Some (relo_addr (tab ! ((?h + d) mod unat ?n))) else None)"
    using lookup_cell [OF t(3) f _ assms(2)] h t(2) by (auto simp: Let_def)
  obtain w where "htab_probe ?stop tab ?n (H k ?n) = Some w" "unat w = (?h + d) mod unat ?n"
    using probe_first [OF h t(2) d(1,2,3)] by blast
  moreover have "(?h + d) mod unat ?n < length tab" using d(1) t(2) by (auto intro!: mod_less_divisor)
  ultimately show ?thesis
    using t(1) n d(4) by (auto simp: netsys_htab_lookup_def ht_map_def rd_def)
qed

text \<open>What the operations keep, for a table that is already installed in \<open>t\<close>.\<close>

definition ht_core :: "htab \<Rightarrow> bool" where
  "ht_core t \<longleftrightarrow> (case ht_table t of None \<Rightarrow> False
     | Some tab \<Rightarrow> length tab = unat (ht_table_size t) \<and>
         tab_inv (\<lambda>k. unat (H k (ht_table_size t))) tab \<and>
         unat (ht_table_used t) = length (entries tab))"

lemma ht_core_add_1:
  assumes "ht_core t" "unat (ht_table_used t) < unat (ht_table_size t)"
    and "a \<noteq> NULL" "b \<noteq> NULL" "ht_map t a = None"
  shows "\<exists>t'. netsys_htab_add_1 t a b = Some t' \<and> ht_core t' \<and> ht_map t' = (ht_map t)(a \<mapsto> b) \<and>
    ht_table_size t' = ht_table_size t \<and> unat (ht_table_used t') = Suc (unat (ht_table_used t))"
proof -
  obtain tab where t: "ht_table t = Some tab" "length tab = unat (ht_table_size t)"
      "tab_inv (\<lambda>k. unat (H k (ht_table_size t))) tab" "unat (ht_table_used t) = length (entries tab)"
    using assms(1) by (auto simp: ht_core_def split: option.splits)
  have "length (entries tab) < length tab" "tab_map tab a = None"
    using assms(2,5) t by (auto simp: ht_map_def)
  from ht_add_1_ok [OF t(1-4) this(1) assms(3,4) this(2)] show ?thesis
    using t by (auto simp: ht_core_def ht_map_def)
qed

lemma entries_Cons: "entries (c # cs) = (if occupied c then c # entries cs else entries cs)"
  by (simp add: entries_def)

lemma rehash_ok:
  assumes "ht_core t" "unat (ht_table_used t) + length (entries cs) < unat (ht_table_size t)"
    and "distinct (map orig_addr (entries cs))" "\<forall>c \<in> set (entries cs). relo_addr c \<noteq> NULL"
    and "\<forall>c \<in> set (entries cs). ht_map t (orig_addr c) = None"
  shows "\<exists>t'. htab_rehash t cs = Some t' \<and> ht_core t' \<and> ht_map t' = ht_map t ++ tab_map cs \<and>
    ht_table_size t' = ht_table_size t \<and>
    unat (ht_table_used t') = unat (ht_table_used t) + length (entries cs)"
  using assms
proof (induction cs arbitrary: t)
  case Nil
  then show ?case by (simp add: entries_def tab_map_def)
next
  case (Cons c cs)
  show ?case
  proof (cases "occupied c")
    case False
    then show ?thesis using Cons.IH [of t] Cons.prems by (simp add: entries_Cons tab_map_def)
  next
    case True
    then obtain t1 where t1: "netsys_htab_add_1 t (orig_addr c) (relo_addr c) = Some t1" "ht_core t1"
        "ht_map t1 = (ht_map t)(orig_addr c \<mapsto> relo_addr c)" "ht_table_size t1 = ht_table_size t"
        "unat (ht_table_used t1) = Suc (unat (ht_table_used t))"
      using ht_core_add_1 [of t "orig_addr c" "relo_addr c"] Cons.prems by (auto simp: entries_Cons)
    have c: "orig_addr c \<notin> orig_addr ` set (entries cs)"
      using Cons.prems(3) True by (simp add: entries_Cons)
    then have "\<forall>c' \<in> set (entries cs). orig_addr c' \<noteq> orig_addr c" by (metis imageI)
    then have "\<forall>c' \<in> set (entries cs). ht_map t1 (orig_addr c') = None"
      using Cons.prems(5) True by (simp add: t1(3) entries_Cons)
    then obtain t2 where "htab_rehash t1 cs = Some t2" "ht_core t2" "ht_map t2 = ht_map t1 ++ tab_map cs"
        "ht_table_size t2 = ht_table_size t1"
        "unat (ht_table_used t2) = unat (ht_table_used t1) + length (entries cs)"
      using Cons.IH [OF t1(2)] Cons.prems True t1(4,5) by (auto simp: entries_Cons)
    moreover have "ht_map t1 ++ tab_map cs = ht_map t ++ tab_map (c # cs)"
    proof
      fix k
      show "(ht_map t1 ++ tab_map cs) k = (ht_map t ++ tab_map (c # cs)) k"
        using c True t1(3) tab_map_None [of cs "orig_addr c"]
        by (simp add: tab_map_def entries_Cons map_add_def split: option.splits)
    qed
    ultimately show ?thesis using t1 True by (auto simp: entries_Cons)
  qed
qed

lemma entries_null [simp]: "entries (replicate n null_cell) = []"
  by (simp add: entries_def null_cell_def)

lemma ht_core_null:
  "length tab = unat n \<Longrightarrow> entries tab = [] \<Longrightarrow>
   ht_core \<lparr>ht_table = Some tab, ht_table_size = n, ht_table_used = 0\<rparr> \<and>
   ht_map \<lparr>ht_table = Some tab, ht_table_size = n, ht_table_used = 0\<rparr> = Map.empty"
  using nth_occupied_entries [of _ tab] by (force simp: ht_core_def ht_map_def tab_inv_def tab_map_def)

lemma ht_inv_core: "ht_inv t \<longleftrightarrow> ht_core t \<and> 3 \<le> unat (ht_table_size t) \<and>
    2 * unat (ht_table_used t) \<le> unat (ht_table_size t) + 2"
  by (auto simp: ht_inv_def ht_core_def split: option.splits)

lemma zero_malloc_cells:
  assumes "malloc_cells 16 malloc (n * 16) = Some tab" "unat n < 2 ^ 60"
  shows "zero_cells n tab = Some (replicate (unat n) null_cell)"
proof -
  have "length tab = unat (n * 16) div 16" using assms(1) by (rule malloc_cells_length)
  also have "\<dots> = unat n" using assms(2) by (simp add: unat_word_ariths)
  finally show ?thesis by (simp add: zero_cells_def)
qed

lemma htab_grow_ok:
  assumes t: "ht_core t" and n: "ht_table_size t \<le> n" "unat n < 2 ^ 60"
    and used: "unat (ht_table_used t) < unat n"
  shows "\<exists>r t'. netsys_htab_grow malloc t n = Some (r, t') \<and>
    (r = -1 \<and> t' = t \<and> malloc (n * 16) = None \<or>
     r = 0 \<and> ht_core t' \<and> ht_map t' = ht_map t \<and> ht_table_size t' = n \<and>
       unat (ht_table_used t') = unat (ht_table_used t))"
proof (cases "malloc_cells 16 malloc (n * 16)")
  case None
  then show ?thesis using n(1) by (auto simp: netsys_htab_grow_def malloc_cells_def)
next
  case (Some tab1)
  let ?t1 = "\<lparr>ht_table = Some (replicate (unat n) null_cell), ht_table_size = n, ht_table_used = 0\<rparr>"
  obtain tab where tab: "ht_table t = Some tab" "length tab = unat (ht_table_size t)"
      "tab_inv (\<lambda>k. unat (H k (ht_table_size t))) tab" "unat (ht_table_used t) = length (entries tab)"
    using t by (auto simp: ht_core_def split: option.splits)
  have c: "ht_core ?t1" "ht_map ?t1 = Map.empty"
    using ht_core_null [of "replicate (unat n) null_cell" n] by simp_all
  then obtain t2 where "htab_rehash ?t1 tab = Some t2" "ht_core t2" "ht_map t2 = tab_map tab"
      "ht_table_size t2 = n" "unat (ht_table_used t2) = length (entries tab)"
    using rehash_ok [of ?t1 tab] tab(3,4) used by (auto simp: tab_inv_def)
  then show ?thesis
    using Some tab n zero_malloc_cells [OF Some n(2)]
    by (auto simp: netsys_htab_grow_def ht_map_def not_less)
qed

lemma add_ok:
  assumes "ht_inv t" "ht_room t (Suc k)" "a \<noteq> NULL" "b \<noteq> NULL" "ht_map t a = None"
  shows "\<exists>r t'. netsys_htab_add malloc t a b = Some (r, t') \<and> ht_inv t' \<and> ht_room t' k \<and>
    (r = 0 \<and> ht_map t' = (ht_map t)(a \<mapsto> b) \<or>
     r = -1 \<and> t' = t \<and> malloc (2 * ht_table_size t * 16) = None)"
proof -
  let ?n = "unat (ht_table_size t)" and ?u = "unat (ht_table_used t)"
  have core: "ht_core t" and n: "3 \<le> ?n" "2 * ?u \<le> ?n + 2"
    using assms(1) by (auto simp: ht_inv_core)
  have room: "?n < 2 ^ 59" "4 * (?u + Suc k) < 2 ^ 59" using assms(2) by (auto simp: ht_room_def)
  have u2: "unat (2 * ht_table_used t) = 2 * ?u" and n2: "unat (2 * ht_table_size t) = 2 * ?n"
    using room by (simp_all add: unat_word_ariths)
  show ?thesis
  proof (cases "2 * ht_table_used t > ht_table_size t")
    case False
    then have "2 * ?u \<le> ?n" by (simp add: word_less_nat_alt u2 not_less)
    then show ?thesis
      using False assms(3-5) room n ht_core_add_1 [OF core _ assms(3-5)]
      by (auto simp: netsys_htab_add_def ht_inv_core ht_room_def)
  next
    case True
    then have big: "?n < 2 * ?u" by (simp add: word_less_nat_alt u2)
    obtain r t' where g: "netsys_htab_grow malloc t (2 * ht_table_size t) = Some (r, t')"
      "r = -1 \<and> t' = t \<and> malloc (2 * ht_table_size t * 16) = None \<or>
       r = 0 \<and> ht_core t' \<and> ht_map t' = ht_map t \<and> ht_table_size t' = 2 * ht_table_size t \<and>
       unat (ht_table_used t') = ?u"
      using htab_grow_ok [OF core, of "2 * ht_table_size t" malloc] n n2 room
      by (auto simp: word_le_nat_alt)
    show ?thesis
    proof (cases "r = 0")
      case False
      then show ?thesis using g True assms by (auto simp: netsys_htab_add_def ht_room_def)
    next
      case r0: True
      then obtain t'' where "netsys_htab_add_1 t' a b = Some t''" "ht_core t''"
          "ht_map t'' = (ht_map t)(a \<mapsto> b)" "ht_table_size t'' = 2 * ht_table_size t"
          "unat (ht_table_used t'') = Suc ?u"
        using ht_core_add_1 [of t' a b] g(2) assms(3-5) n n2 by auto
      then show ?thesis
        using r0 g(1) True assms(3,4) n n2 room big by (auto simp: netsys_htab_add_def ht_inv_core ht_room_def)
    qed
  qed
qed

lemma htab_init_ok:
  assumes "3 \<le> unat n" "unat n < 2 ^ 60"
  shows "\<exists>r t. netsys_htab_init malloc n = Some (r, t) \<and>
    (r = 0 \<and> ht_inv t \<and> ht_map t = Map.empty \<and> ht_table_size t = n \<and> ht_table_used t = 0 \<or>
     r = -1 \<and> malloc (n * 16) = None)"
proof (cases "malloc_cells 16 malloc (n * 16)")
  case None
  then show ?thesis by (auto simp: netsys_htab_init_def netsys_htab_grow_def malloc_cells_def)
next
  case (Some tab)
  then show ?thesis
    using zero_malloc_cells [OF Some assms(2)] ht_core_null [of "replicate (unat n) null_cell" n] assms(1)
    by (simp add: netsys_htab_init_def netsys_htab_grow_def ht_inv_core)
qed

lemma htab_clear_ok:
  assumes "ht_inv t"
  shows "\<exists>t'. netsys_htab_clear t = Some t' \<and> ht_inv t' \<and> ht_map t' = Map.empty \<and>
    ht_table_size t' = ht_table_size t \<and> ht_table_used t' = 0"
proof -
  obtain tab where tab: "ht_table t = Some tab" "length tab = unat (ht_table_size t)"
    using assms by (auto simp: ht_inv_def split: option.splits)
  let ?tab = "replicate (unat (ht_table_size t)) null_cell"
  have "ht_core (t\<lparr>ht_table := Some ?tab, ht_table_used := 0\<rparr>)"
    "ht_map (t\<lparr>ht_table := Some ?tab, ht_table_used := 0\<rparr>) = Map.empty"
    using ht_core_null [of ?tab "ht_table_size t"] by (simp_all add: ht_core_def ht_map_def)
  then show ?thesis
    using tab assms by (auto simp: netsys_htab_clear_def zero_cells_def ht_inv_core)
qed

text \<open>A probe that returns has found a cell that stops it.\<close>

lemma htab_probe_stops:
  assumes "htab_probe stop tab sz h = Some w"
  shows "unat w < length tab \<and> stop (tab ! unat w)"
  by (rule htab_probe.raw_induct [where P = "\<lambda>stop tab sz h w. unat w < length tab \<and> stop (tab ! unat w)",
        OF _ assms])
    (auto simp: rd_def Let_def bind_eq_Some_conv split: if_splits, blast+)

section \<open>The dictionary interface\<close>

text \<open>
  What the value copier relies on: a partial map from addresses to non-null addresses whose
  insertion can fail for lack of memory, in which case nothing is changed.
\<close>

locale addr_dict =
  fixes inv :: "'d \<Rightarrow> bool"
    and abs :: "'d \<Rightarrow> addr \<rightharpoonup> addr"
    and room :: "'d \<Rightarrow> nat \<Rightarrow> bool"
    and add :: "'d \<Rightarrow> addr \<Rightarrow> addr \<Rightarrow> (int \<times> 'd) option"
    and lookup :: "'d \<Rightarrow> addr \<Rightarrow> (int \<times> addr) option"
  assumes lookup_law: "inv d \<Longrightarrow> k \<noteq> NULL \<Longrightarrow>
      lookup d k = Some (0, case abs d k of None \<Rightarrow> NULL | Some v \<Rightarrow> v)"
    and range_law: "inv d \<Longrightarrow> abs d k = Some v \<Longrightarrow> v \<noteq> NULL"
    and add_law: "inv d \<Longrightarrow> room d (Suc n) \<Longrightarrow> k \<noteq> NULL \<Longrightarrow> v \<noteq> NULL \<Longrightarrow> abs d k = None \<Longrightarrow>
      \<exists>r d'. add d k v = Some (r, d') \<and> inv d' \<and> room d' n \<and>
        (r = 0 \<and> abs d' = (abs d)(k \<mapsto> v) \<or> r = -1 \<and> d' = d)"
begin

lemma lookup_null_iff: "inv d \<Longrightarrow> k \<noteq> NULL \<Longrightarrow> lookup d k = Some (0, NULL) \<longleftrightarrow> abs d k = None"
  using lookup_law [of d k] range_law [of d k] by (auto split: option.splits)

lemma lookup_after_add:
  assumes "inv d" "room d (Suc n)" "k \<noteq> NULL" "v \<noteq> NULL" "lookup d k = Some (0, NULL)"
    and "add d k v = Some (0, d')" "k' \<noteq> NULL"
  shows "lookup d' k' = (if k' = k then Some (0, v) else lookup d k')"
proof -
  have "abs d k = None" using assms(1,3,5) by (simp add: lookup_null_iff)
  then have "inv d'" "abs d' = (abs d)(k \<mapsto> v)" using add_law [OF assms(1-4)] assms(6) by auto
  then show ?thesis using lookup_law [of d' k'] lookup_law [of d k'] assms(1,7) by auto
qed

end

lemma ht_map_range: "ht_inv t \<Longrightarrow> ht_map t k = Some v \<Longrightarrow> v \<noteq> NULL"
  by (auto simp: ht_inv_def ht_map_def tab_inv_def tab_map_Some split: option.splits)

interpretation ht: addr_dict ht_inv ht_map ht_room "netsys_htab_add malloc" netsys_htab_lookup
  for malloc
proof
  fix d n k v
  assume "ht_inv d" "ht_room d (Suc n)" "k \<noteq> NULL" "v \<noteq> NULL" "ht_map d k = None"
  then show "\<exists>r d'. netsys_htab_add malloc d k v = Some (r, d') \<and> ht_inv d' \<and> ht_room d' n \<and>
      (r = 0 \<and> ht_map d' = (ht_map d)(k \<mapsto> v) \<or> r = -1 \<and> d' = d)"
    using add_ok by blast
qed (simp_all add: lookup_ok ht_map_range)

section \<open>Properties\<close>

text \<open>
  Claim C13: \<^verbatim>\<open>netsys_htab_add\<close> and \<^verbatim>\<open>netsys_htab_lookup\<close> implement a map. Adding a key
  that is not in the table returns 0 and extends the map by exactly this pair, also when
  the table is doubled and every entry is rehashed; the only failure is a refused
  allocation, which leaves the table as it was. The probe loops end, and the invariant
  (every entry reachable on its probe path, at least one free cell) is kept.
\<close>

theorem netsys_htab_add_refines:
  assumes "ht_inv t" "ht_room t (Suc k)" "a \<noteq> NULL" "b \<noteq> NULL" "ht_map t a = None"
  shows "\<exists>r t'. netsys_htab_add malloc t a b = Some (r, t') \<and> ht_inv t' \<and> ht_room t' k \<and>
    (r = 0 \<and> ht_map t' = (ht_map t)(a \<mapsto> b) \<or>
     r = -1 \<and> t' = t \<and> malloc (2 * ht_table_size t * 16) = None)"
  using assms by (rule add_ok)

definition empty_htab4 :: htab where
  "empty_htab4 = \<lparr>ht_table = Some (replicate 4 null_cell), ht_table_size = 4, ht_table_used = 0\<rparr>"

lemma empty_htab4_ok: "ht_inv empty_htab4" "ht_room empty_htab4 10" "ht_map empty_htab4 = Map.empty"
  using ht_core_null [of "replicate 4 null_cell" 4]
  by (simp_all add: empty_htab4_def ht_inv_core ht_room_def)

theorem netsys_htab_add_refines_witness:
  "\<exists>r t'. netsys_htab_add malloc_fails empty_htab4 16 32 = Some (r, t') \<and> ht_inv t' \<and>
     (r = 0 \<and> ht_map t' = [16 \<mapsto> 32] \<or> r = -1 \<and> t' = empty_htab4)"
  using netsys_htab_add_refines [of empty_htab4 9 16 32 malloc_fails] empty_htab4_ok
  by (simp only: Suc_numeral) auto

text \<open>
  Claim C32: lookup after add. After an addition that returned 0 for a key that a lookup did
  not find, \<^verbatim>\<open>netsys_htab_lookup\<close> returns the new address for that key and its earlier
  result for every other key.
\<close>

theorem netsys_htab_lookup_add:
  assumes "ht_inv t" "ht_room t (Suc n)" "a \<noteq> NULL" "b \<noteq> NULL"
    and "netsys_htab_lookup t a = Some (0, NULL)" "netsys_htab_add malloc t a b = Some (0, t')"
    and "k \<noteq> NULL"
  shows "netsys_htab_lookup t' k = (if k = a then Some (0, b) else netsys_htab_lookup t k)"
  using assms by (rule ht.lookup_after_add)

definition htab4_1 :: htab where
  "htab4_1 = \<lparr>ht_table = Some ((replicate 4 null_cell)[unat (H 16 4) := \<lparr>orig_addr = 16, relo_addr = 32\<rparr>]),
     ht_table_size = 4, ht_table_used = 1\<rparr>"

lemma htab4_1_add: "netsys_htab_add malloc_fails empty_htab4 16 32 = Some (0, htab4_1)"
  by code_simp

theorem netsys_htab_lookup_add_witness:
  "netsys_htab_lookup htab4_1 16 = Some (0, 32) \<and> netsys_htab_lookup htab4_1 24 = Some (0, 0)"
proof -
  have "netsys_htab_lookup empty_htab4 a = Some (0, 0)" if "a \<noteq> 0" for a
    using lookup_ok [OF empty_htab4_ok(1) that] empty_htab4_ok(3) by simp
  moreover have "ht_room empty_htab4 (Suc 9)" using empty_htab4_ok(2) by (simp only: Suc_numeral) simp
  ultimately show ?thesis
    using netsys_htab_lookup_add [of empty_htab4 9 16 32 malloc_fails htab4_1] empty_htab4_ok htab4_1_add
    by simp
qed

text \<open>
  The load bound is needed for termination. On a full table a lookup of a key that
  is not in it never returns (nor does it fail), because the probe loop only stops at an
  empty or matching cell; \<^verbatim>\<open>netsys_htab_add\<close> fills a table of two cells completely, and
  \<^verbatim>\<open>netsys_htab_init\<close> accepts such a size.
\<close>

theorem netsys_htab_lookup_full_diverges:
  assumes "ht_table t = Some tab" "\<forall>c \<in> set tab. orig_addr c \<noteq> NULL \<and> orig_addr c \<noteq> a"
  shows "netsys_htab_lookup t a = None"
proof -
  have "htab_probe (\<lambda>c. orig_addr c = NULL \<or> orig_addr c = a) tab sz h = None" for sz h
    using htab_probe_stops [of "\<lambda>c. orig_addr c = NULL \<or> orig_addr c = a" tab sz h] assms(2) nth_mem
    by (cases "htab_probe (\<lambda>c. orig_addr c = NULL \<or> orig_addr c = a) tab sz h") blast+
  then show ?thesis by (simp add: netsys_htab_lookup_def assms(1))
qed

definition htab2_full :: htab where
  "htab2_full = \<lparr>ht_table = Some [\<lparr>orig_addr = 24, relo_addr = 40\<rparr>, \<lparr>orig_addr = 16, relo_addr = 32\<rparr>],
     ht_table_size = 2, ht_table_used = 2\<rparr>"

lemma htab2_full_reached:
  "do { (r0, t0) \<leftarrow> netsys_htab_init (malloc_fill null_cell) 2;
        (r1, t1) \<leftarrow> netsys_htab_add malloc_fails t0 16 32;
        (r2, t2) \<leftarrow> netsys_htab_add malloc_fails t1 24 40;
        Some (r0, r1, r2, t2) } = Some (0, 0, 0, htab2_full)"
  by code_simp

theorem netsys_htab_lookup_full_diverges_witness:
  "do { (r0, t0) \<leftarrow> netsys_htab_init (malloc_fill null_cell) 2;
        (r1, t1) \<leftarrow> netsys_htab_add malloc_fails t0 16 32;
        (r2, t2) \<leftarrow> netsys_htab_add malloc_fails t1 24 40;
        Some (r0, r1, r2, t2) } = Some (0, 0, 0, htab2_full) \<and>
   netsys_htab_lookup htab2_full 48 = None"
  using netsys_htab_lookup_full_diverges [of htab2_full _ 48] htab2_full_reached
  by (simp add: htab2_full_def)

end
