(* ===== verification/Netaccel.thy ===== *)
theory Netaccel
  imports Netsys_Prelude
begin

text \<open>
  The accelerators of \<^verbatim>\<open>src/src/netstring/netaccel_c.c\<close> for \<^verbatim>\<open>Netaux.ArrayAux\<close> and
  \<^verbatim>\<open>Netconversion\<close>: copying and summing integer arrays, and decoding ISO-8859-1 and UTF-8
  input into slices of code points.

  OCaml integer arrays live in a store from array identities to their tagged fields, so
  that the two array arguments of a primitive may be the same array. An access outside an
  array is \<open>None\<close>. Positions and lengths are the \<^verbatim>\<open>Long_val\<close> of OCaml integers: 63 bit
  numbers, whose sums do not overflow a C \<^verbatim>\<open>long\<close>.
\<close>

type_synonym int_store = "nat \<Rightarrow> u64 list"

section \<open>Integer arrays\<close>

primrec blit_up :: "nat \<Rightarrow> nat \<Rightarrow> nat \<Rightarrow> nat \<Rightarrow> nat \<Rightarrow> nat \<Rightarrow> int_store \<Rightarrow> int_store option" where
  "blit_up 0 i src sp dest dp h = Some h"
| "blit_up (Suc k) i src sp dest dp h =
     do {
       v \<leftarrow> rd (h src) (sp + i);
       d \<leftarrow> wr (h dest) (dp + i) v;
       blit_up k (Suc i) src sp dest dp (h(dest := d))
     }"

primrec blit_down :: "nat \<Rightarrow> nat \<Rightarrow> nat \<Rightarrow> nat \<Rightarrow> nat \<Rightarrow> int_store \<Rightarrow> int_store option" where
  "blit_down 0 src sp dest dp h = Some h"
| "blit_down (Suc i) src sp dest dp h =
     do {
       v \<leftarrow> rd (h src) (sp + i);
       d \<leftarrow> wr (h dest) (dp + i) v;
       blit_down i src sp dest dp (h(dest := d))
     }"

definition netstring_int_blit_ml ::
    "nat \<Rightarrow> int \<Rightarrow> nat \<Rightarrow> int \<Rightarrow> int \<Rightarrow> int_store \<Rightarrow> (exn + int_store) option" where
  "netstring_int_blit_ml src srcpos dest destpos len h =
     (if len < 0 \<or> srcpos < 0 \<or> srcpos + len > int (length (h src)) \<or>
         destpos < 0 \<or> destpos + len > int (length (h dest))
      then Some (Inl (Invalid_argument ''Netaccel.int_blit''))
      else if src \<noteq> dest \<or> destpos \<le> srcpos
      then map_option Inr (blit_up (nat len) 0 src (nat srcpos) dest (nat destpos) h)
      else map_option Inr (blit_down (nat len) src (nat srcpos) dest (nat destpos) h))"

primrec series_loop ::
    "nat \<Rightarrow> nat \<Rightarrow> nat \<Rightarrow> nat \<Rightarrow> nat \<Rightarrow> nat \<Rightarrow> u64 \<Rightarrow> int_store \<Rightarrow> int_store option" where
  "series_loop 0 i src sp dest dp s h = Some h"
| "series_loop (Suc k) i src sp dest dp s h =
     do {
       d \<leftarrow> wr (h dest) (dp + i) (Val_long s);
       v \<leftarrow> rd ((h(dest := d)) src) (sp + i);
       series_loop k (Suc i) src sp dest dp (s + Long_val v) (h(dest := d))
     }"

definition netstring_int_series_ml ::
    "nat \<Rightarrow> int \<Rightarrow> nat \<Rightarrow> int \<Rightarrow> int \<Rightarrow> u64 \<Rightarrow> int_store \<Rightarrow> (exn + int_store) option" where
  "netstring_int_series_ml src srcpos dest destpos len n h =
     (if len < 0 \<or> srcpos < 0 \<or> srcpos + len > int (length (h src)) \<or>
         destpos < 0 \<or> destpos + len > int (length (h dest))
      then Some (Inl (Invalid_argument ''Netaccel.int_series''))
      else map_option Inr (series_loop (nat len) 0 src (nat srcpos) dest (nat destpos) n h))"

section \<open>ISO-8859-1\<close>

primrec iso88591_loop ::
    "nat \<Rightarrow> nat \<Rightarrow> int \<Rightarrow> string \<Rightarrow> u8 list \<Rightarrow> nat \<Rightarrow> u64 list \<Rightarrow> (exn option \<times> u64 list) option" where
  "iso88591_loop 0 k maxcode enc s p sc = Some (None, sc)"
| "iso88591_loop (Suc r) k maxcode enc s p sc =
     do {
       ch \<leftarrow> rd s (p + k);
       if uint ch > maxcode
       then do {
         sc' \<leftarrow> wr sc k (Val_long (-1));
         Some (Some (Malformed_code_read k k enc), sc')
       }
       else do {
         sc' \<leftarrow> wr sc k (Val_long (ucast ch));
         iso88591_loop r (Suc k) maxcode enc s p sc'
       }
     }"

text \<open>The result is the returned triple or the raised exception, with the slice after the call.\<close>

definition netstring_read_iso88591_ml ::
    "int \<Rightarrow> string \<Rightarrow> u64 list \<Rightarrow> u64 list \<Rightarrow> u8 list \<Rightarrow> int \<Rightarrow> int \<Rightarrow>
     ((exn + nat \<times> nat \<times> string) \<times> u64 list) option" where
  "netstring_read_iso88591_ml maxcode enc slice_char slice_blen s_in p_in l_in =
     (if length slice_char \<noteq> length slice_blen
      then Some (Inl (Invalid_argument ''Netaccel.read_iso88591''), slice_char)
      else if p_in < 0 \<or> l_in < 0 \<or> p_in + l_in > int (length s_in)
      then Some (Inl (Invalid_argument ''Netaccel.read_iso88591''), slice_char)
      else let m = (if int (length slice_char) < l_in then length slice_char else nat l_in) in
        do {
          (e, sc) \<leftarrow> iso88591_loop m 0 maxcode enc s_in (nat p_in) slice_char;
          case e of
            Some x \<Rightarrow> Some (Inl x, sc)
          | None \<Rightarrow> do {
              sc' \<leftarrow> (if m < length slice_char then wr sc m (Val_long (-1)) else Some sc);
              Some (Inr (m, m, enc), sc')
            }
        })"

section \<open>UTF-8\<close>

datatype utf8_step = Malformed | Incomplete | Code nat nat

text \<open>
  The body of the decoder's loop up to the test of \<^verbatim>\<open>k_inc\<close>: the code point and the number
  of bytes of the character at \<open>p\<close>. The outer \<open>None\<close> is a read outside the string.
\<close>

definition utf8_char :: "bool \<Rightarrow> u8 list \<Rightarrow> nat \<Rightarrow> nat \<Rightarrow> utf8_step option" where
  "utf8_char is_java s p_max p =
     do {
       c \<leftarrow> rd s p;
       let ch = unat c;
       if ch = 0 then Some (if is_java then Malformed else Code 0 1)
       else if ch \<le> 127 then Some (Code ch 1)
       else if ch \<le> 223 then
         (if p + 1 < p_max then do {
            c2 \<leftarrow> rd s (p + 1);
            let ch2 = unat c2;
            if is_java \<and> ch = 0x80 \<and> ch2 = 0xc0 then Some (Code 0 2)
            else if ch2 < 0x80 \<or> ch2 \<ge> 0xc0 then Some Malformed
            else let cp = (push_bit 6 (ch AND 0x1f)) OR (ch2 AND 0x3f) in
              Some (if cp < 0x80 then Malformed else Code cp 2)
          } else Some Incomplete)
       else if ch \<le> 239 then
         (if p + 2 < p_max then do {
            c2 \<leftarrow> rd s (p + 1);
            c3 \<leftarrow> rd s (p + 2);
            let ch2 = unat c2;
            let ch3 = unat c3;
            if ch2 < 0x80 \<or> ch2 \<ge> 0xc0 then Some Malformed
            else if ch3 < 0x80 \<or> ch3 \<ge> 0xc0 then Some Malformed
            else let cp = (push_bit 12 (ch AND 0xf)) OR (push_bit 6 (ch2 AND 0x3f)) OR (ch3 AND 0x3f) in
              Some (if cp < 0x800 then Malformed
                    else if cp \<ge> 0xd800 \<and> cp < 0xe000 then Malformed
                    else if cp \<ge> 0xfffe \<and> cp \<le> 0xffff then Malformed
                    else Code cp 3)
          } else Some Incomplete)
       else if ch \<le> 247 then
         (if p + 3 < p_max then do {
            c2 \<leftarrow> rd s (p + 1);
            c3 \<leftarrow> rd s (p + 2);
            c4 \<leftarrow> rd s (p + 3);
            let ch2 = unat c2;
            let ch3 = unat c3;
            let ch4 = unat c4;
            if ch2 < 0x80 \<or> ch2 \<ge> 0xc0 then Some Malformed
            else if ch3 < 0x80 \<or> ch3 \<ge> 0xc0 then Some Malformed
            else if ch4 < 0x80 \<or> ch4 \<ge> 0xc0 then Some Malformed
            else let cp = (push_bit 18 (ch AND 7)) OR (push_bit 12 (ch2 AND 0x3f)) OR
                          (push_bit 6 (ch3 AND 0x3f)) OR (ch4 AND 0x3f) in
              Some (if cp < 0x10000 then Malformed
                    else if cp \<ge> 0x110000 then Malformed
                    else Code cp 4)
          } else Some Incomplete)
       else Some Malformed
     }"

text \<open>
  The loop itself, with the epilogues of the normal exit and of the label
  \<^verbatim>\<open>malformed_code\<close>. The result carries both slices.
\<close>

definition utf8_finish ::
    "nat \<Rightarrow> nat \<Rightarrow> nat \<Rightarrow> u64 list \<Rightarrow> u64 list \<Rightarrow>
     ((exn + nat \<times> nat \<times> string) \<times> u64 list \<times> u64 list) option" where
  "utf8_finish n_ret p p_in sc sb =
     do {
       sc' \<leftarrow> (if n_ret < length sc then wr sc n_ret (Val_long (-1)) else Some sc);
       Some (Inr (n_ret, p - p_in, ''Enc_utf8''), sc', sb)
     }"

function (sequential) utf8_loop ::
    "bool \<Rightarrow> u8 list \<Rightarrow> nat \<Rightarrow> nat \<Rightarrow> nat \<Rightarrow> nat \<Rightarrow> u64 list \<Rightarrow> u64 list \<Rightarrow>
     ((exn + nat \<times> nat \<times> string) \<times> u64 list \<times> u64 list) option" where
  "utf8_loop is_java s p_in p_max p n sc sb =
     (if p < p_max \<and> n < length sc
      then case utf8_char is_java s p_max p of
             None \<Rightarrow> None
           | Some Malformed \<Rightarrow> do {
               sc' \<leftarrow> wr sc n (Val_long (-1));
               Some (Inl (Malformed_code_read n (p - p_in) ''Enc_utf8''), sc', sb)
             }
           | Some Incomplete \<Rightarrow> utf8_finish n p p_in sc sb
           | Some (Code cp k_inc) \<Rightarrow>
               (if n < length sb
                then utf8_loop is_java s p_in p_max (p + k_inc) (Suc n)
                       (sc[n := Val_long (of_nat cp)]) (sb[n := Val_long (of_nat k_inc)])
                else None)
      else utf8_finish n p p_in sc sb)"
  by pat_completeness auto
termination
  by (relation "measure (\<lambda>(is_java, s, p_in, p_max, p, n, sc, sb). length sc - n)") auto

declare utf8_loop.simps [simp del]

definition netstring_read_utf8_ml ::
    "bool \<Rightarrow> u64 list \<Rightarrow> u64 list \<Rightarrow> u8 list \<Rightarrow> int \<Rightarrow> int \<Rightarrow>
     ((exn + nat \<times> nat \<times> string) \<times> u64 list \<times> u64 list) option" where
  "netstring_read_utf8_ml is_java slice_char slice_blen s_in p_in l_in =
     (if length slice_char \<noteq> length slice_blen
      then Some (Inl (Invalid_argument ''Netaccel.read_utf8''), slice_char, slice_blen)
      else if p_in < 0 \<or> l_in < 0 \<or> p_in + l_in > int (length s_in)
      then Some (Inl (Invalid_argument ''Netaccel.read_utf8''), slice_char, slice_blen)
      else utf8_loop is_java s_in (nat p_in) (nat (p_in + l_in)) (nat p_in) 0 slice_char slice_blen)"

section \<open>Copying and summing\<close>

text \<open>The contents of an array with \<open>X\<close> written from position \<open>d\<close> on.\<close>

definition overwrite :: "'a list \<Rightarrow> nat \<Rightarrow> 'a list \<Rightarrow> 'a list" where
  "overwrite D d X = take d D @ X @ drop (d + length X) D"

text \<open>\<open>D\<close> is \<open>E\<close> with the positions \<open>dp + lo, \<dots>, dp + hi - 1\<close> set by \<open>f\<close>.\<close>

definition patched :: "'a list \<Rightarrow> 'a list \<Rightarrow> nat \<Rightarrow> nat \<Rightarrow> nat \<Rightarrow> (nat \<Rightarrow> 'a) \<Rightarrow> bool" where
  "patched D E dp lo hi f \<longleftrightarrow> length D = length E \<and>
     (\<forall>j < length E. D ! j = (if dp + lo \<le> j \<and> j < dp + hi then f (j - dp) else E ! j))"

lemma patched_refl: "patched E E dp i i f"
  by (auto simp: patched_def)

lemma patched_up:
  "patched D (E[dp + i := f i]) dp (Suc i) n f \<Longrightarrow> i < n \<Longrightarrow> dp + n \<le> length E \<Longrightarrow> patched D E dp i n f"
  unfolding patched_def by (auto simp: nth_list_update le_eq_less_or_eq split: if_splits)

lemma patched_down:
  "patched D (E[dp + k := f k]) dp 0 k f \<Longrightarrow> dp + Suc k \<le> length E \<Longrightarrow> patched D E dp 0 (Suc k) f"
  unfolding patched_def by (auto simp: nth_list_update less_Suc_eq split: if_splits)

lemma patched_cong:
  "patched D E dp lo hi f \<Longrightarrow> (\<And>i. lo \<le> i \<Longrightarrow> i < hi \<Longrightarrow> f i = g i) \<Longrightarrow> patched D E dp lo hi g"
  by (auto simp: patched_def)

lemma patched_overwrite:
  assumes "patched D E dp 0 n f" "dp + n \<le> length E"
  shows "D = overwrite E dp (map f [0..<n])"
proof (rule nth_equalityI)
  show "length D = length (overwrite E dp (map f [0..<n]))"
    using assms by (simp add: overwrite_def patched_def)
next
  fix i assume "i < length D"
  then show "D ! i = overwrite E dp (map f [0..<n]) ! i"
    using assms by (cases "i < dp"; cases "i < dp + n") (auto simp: overwrite_def nth_append patched_def)
qed

lemma blit_up_ok:
  assumes "src \<noteq> dest \<or> dp \<le> sp" "sp + i + k \<le> length (h src)" "dp + i + k \<le> length (h dest)"
  shows "\<exists>D. blit_up k i src sp dest dp h = Some (h(dest := D)) \<and>
    patched D (h dest) dp i (i + k) (\<lambda>j. h src ! (sp + j))"
  using assms
proof (induction k arbitrary: i h)
  case 0
  show ?case by (rule exI [of _ "h dest"]) (simp add: patched_refl)
next
  case (Suc k)
  let ?h = "h(dest := (h dest)[dp + i := h src ! (sp + i)])"
  have "sp + Suc i + k \<le> length (?h src)" "dp + Suc i + k \<le> length (?h dest)"
    using Suc.prems(2,3) by auto
  from Suc.IH [of "Suc i" ?h, OF Suc.prems(1) this] obtain D where
    D: "blit_up k (Suc i) src sp dest dp ?h = Some (?h(dest := D))"
      "patched D (?h dest) dp (Suc i) (Suc i + k) (\<lambda>j. ?h src ! (sp + j))" by blast
  have "?h src ! (sp + j) = h src ! (sp + j)" if "Suc i \<le> j" for j
    using Suc.prems(1) that by auto
  then have "patched D (?h dest) dp (Suc i) (Suc i + k) (\<lambda>j. h src ! (sp + j))"
    using patched_cong [OF D(2)] by simp
  then have "patched D (h dest) dp i (i + Suc k) (\<lambda>j. h src ! (sp + j))"
    using patched_up [of D "h dest" dp i "\<lambda>j. h src ! (sp + j)" "i + Suc k"] Suc.prems(3) by simp
  moreover have "blit_up (Suc k) i src sp dest dp h = Some (h(dest := D))"
    using D(1) Suc.prems(2,3) by (simp add: c_simps)
  ultimately show ?case by blast
qed

lemma blit_down_ok:
  assumes "sp < dp" "dp + k \<le> length (h a)"
  shows "\<exists>D. blit_down k a sp a dp h = Some (h(a := D)) \<and>
    patched D (h a) dp 0 k (\<lambda>j. h a ! (sp + j))"
  using assms
proof (induction k arbitrary: h)
  case 0
  show ?case by (rule exI [of _ "h a"]) (simp add: patched_refl)
next
  case (Suc k)
  let ?h = "h(a := (h a)[dp + k := h a ! (sp + k)])"
  have "dp + k \<le> length (?h a)" using Suc.prems(2) by simp
  from Suc.IH [of ?h, OF Suc.prems(1) this] obtain D where
    D: "blit_down k a sp a dp ?h = Some (?h(a := D))"
      "patched D (?h a) dp 0 k (\<lambda>j. ?h a ! (sp + j))" by blast
  have "?h a ! (sp + j) = h a ! (sp + j)" if "j < k" for j
    using Suc.prems(1) that by auto
  then have "patched D (?h a) dp 0 k (\<lambda>j. h a ! (sp + j))"
    using patched_cong [OF D(2)] by simp
  then have "patched D (h a) dp 0 (Suc k) (\<lambda>j. h a ! (sp + j))"
    using patched_down [of D "h a" dp k "\<lambda>j. h a ! (sp + j)"] Suc.prems(2) by simp
  moreover have "blit_down (Suc k) a sp a dp h = Some (h(a := D))"
    using D(1) Suc.prems by (simp add: c_simps)
  ultimately show ?case by blast
qed

text \<open>The partial sums of the source range.\<close>

definition series_value :: "u64 \<Rightarrow> u64 list \<Rightarrow> nat \<Rightarrow> u64" where
  "series_value n xs i = Val_long (n + sum_list (map Long_val (take i xs)))"

lemma series_loop_ok:
  assumes "src \<noteq> dest \<or> dp < sp" "sp + i + k \<le> length (h src)" "dp + i + k \<le> length (h dest)"
  shows "\<exists>D. series_loop k i src sp dest dp s h = Some (h(dest := D)) \<and>
    patched D (h dest) dp i (i + k) (\<lambda>j. series_value s (drop (sp + i) (h src)) (j - i))"
  using assms
proof (induction k arbitrary: i s h)
  case 0
  show ?case by (rule exI [of _ "h dest"]) (simp add: patched_refl)
next
  case (Suc k)
  let ?h = "h(dest := (h dest)[dp + i := Val_long s])" and ?s = "s + Long_val (h src ! (sp + i))"
  let ?f = "\<lambda>j. series_value s (drop (sp + i) (h src)) (j - i)"
  have "sp + Suc i + k \<le> length (?h src)" "dp + Suc i + k \<le> length (?h dest)"
    using Suc.prems(2,3) by auto
  from Suc.IH [of "Suc i" ?h ?s, OF Suc.prems(1) this] obtain D where
    D: "series_loop k (Suc i) src sp dest dp ?s ?h = Some (?h(dest := D))"
      "patched D (?h dest) dp (Suc i) (Suc i + k)
         (\<lambda>j. series_value ?s (drop (sp + Suc i) (?h src)) (j - Suc i))" by blast
  have same: "?h src ! (sp + i) = h src ! (sp + i)"
      "drop (sp + Suc i) (?h src) = drop (sp + Suc i) (h src)"
    using Suc.prems(1) by auto
  have d: "drop (sp + i) (h src) = h src ! (sp + i) # drop (sp + Suc i) (h src)"
    using Suc.prems(2) by (simp add: Cons_nth_drop_Suc)
  have "series_value ?s (drop (sp + Suc i) (?h src)) (j - Suc i) = ?f j" if "Suc i \<le> j" for j
    unfolding same(2) d using that by (simp add: series_value_def take_Cons' add.assoc)
  then have "patched D (?h dest) dp (Suc i) (Suc i + k) ?f"
    using patched_cong [OF D(2)] by simp
  moreover have "?f i = Val_long s" by (simp add: series_value_def)
  ultimately have "patched D (h dest) dp i (i + Suc k) ?f"
    using patched_up [of D "h dest" dp i ?f "i + Suc k"] Suc.prems(3) by simp
  moreover have "series_loop (Suc k) i src sp dest dp s h = Some (h(dest := D))"
    using D(1) Suc.prems(2,3) same(1) by (auto simp: c_simps)
  ultimately show ?case by blast
qed

section \<open>Properties of the array accelerators\<close>

text \<open>
  Claim C33: \<^verbatim>\<open>netstring_int_blit_ml\<close> either raises \<^verbatim>\<open>Invalid_argument\<close> (exactly when the
  ranges are not inside the arrays) and changes nothing, or copies the source range, read
  before the call, into the destination range, also when source and destination are
  overlapping parts of one array. No access leaves the arrays.
\<close>

theorem netstring_int_blit_correct:
  "netstring_int_blit_ml src srcpos dest destpos len h =
     (if 0 \<le> len \<and> 0 \<le> srcpos \<and> 0 \<le> destpos \<and>
         srcpos + len \<le> int (length (h src)) \<and> destpos + len \<le> int (length (h dest))
      then Some (Inr (h(dest := overwrite (h dest) (nat destpos)
                  (take (nat len) (drop (nat srcpos) (h src))))))
      else Some (Inl (Invalid_argument ''Netaccel.int_blit'')))"
proof (cases "0 \<le> len \<and> 0 \<le> srcpos \<and> 0 \<le> destpos \<and>
         srcpos + len \<le> int (length (h src)) \<and> destpos + len \<le> int (length (h dest))")
  case False
  then show ?thesis by (auto simp: netstring_int_blit_ml_def)
next
  case True
  define sp dp k where "sp = nat srcpos" and "dp = nat destpos" and "k = nat len"
  have r: "sp + k \<le> length (h src)" "dp + k \<le> length (h dest)"
    using True by (auto simp: sp_def dp_def k_def)
  have "map (\<lambda>j. h src ! (sp + j)) [0..<k] = take k (drop sp (h src))"
    using r by (intro nth_equalityI) auto
  moreover have "\<exists>D. (if src \<noteq> dest \<or> dp \<le> sp then blit_up k 0 src sp dest dp h
          else blit_down k src sp dest dp h) = Some (h(dest := D)) \<and>
      patched D (h dest) dp 0 k (\<lambda>j. h src ! (sp + j))"
    using r blit_up_ok [of src dest dp sp 0 k h] blit_down_ok [of sp dp k h dest]
    by (cases "src \<noteq> dest \<or> dp \<le> sp") simp_all
  ultimately have "(if src \<noteq> dest \<or> dp \<le> sp then blit_up k 0 src sp dest dp h
          else blit_down k src sp dest dp h)
      = Some (h(dest := overwrite (h dest) dp (take k (drop sp (h src)))))"
    using patched_overwrite r(2) by metis
  moreover have "destpos \<le> srcpos \<longleftrightarrow> dp \<le> sp" using True by (auto simp: dp_def sp_def)
  ultimately show ?thesis
    using True by (auto simp: netstring_int_blit_ml_def simp flip: sp_def dp_def k_def split: if_splits)
qed

text \<open>
  \<^verbatim>\<open>netstring_int_series_ml\<close> writes the partial sums of the source range, starting
  with \<open>n\<close>, into the destination range, provided the arrays differ or the destination
  begins before the source; the sums are those of OCaml's 63 bit integers.
\<close>

theorem netstring_int_series_correct:
  assumes "0 \<le> len" "0 \<le> srcpos" "0 \<le> destpos"
    and "srcpos + len \<le> int (length (h src))" "destpos + len \<le> int (length (h dest))"
    and "src \<noteq> dest \<or> destpos < srcpos"
  shows "netstring_int_series_ml src srcpos dest destpos len n h =
     Some (Inr (h(dest := overwrite (h dest) (nat destpos)
       (map (\<lambda>i. Val_long (n + sum_list (map Long_val (take i (drop (nat srcpos) (h src))))))
            [0..<nat len]))))"
proof -
  define sp dp k where "sp = nat srcpos" and "dp = nat destpos" and "k = nat len"
  have r: "sp + k \<le> length (h src)" "dp + k \<le> length (h dest)" "src \<noteq> dest \<or> dp < sp"
    using assms by (auto simp: sp_def dp_def k_def)
  obtain D where D: "series_loop k 0 src sp dest dp n h = Some (h(dest := D))"
    "patched D (h dest) dp 0 k (series_value n (drop sp (h src)))"
    using series_loop_ok [of src dest dp sp 0 k h n] r by auto
  then show ?thesis
    using assms patched_overwrite [OF D(2) r(2)]
    by (simp add: netstring_int_series_ml_def series_value_def [abs_def] flip: sp_def dp_def k_def)
qed

theorem netstring_int_series_correct_witness:
  "netstring_int_series_ml 1 1 1 0 2 5 (\<lambda>_. map Val_long [10, 20, 30]) =
     Some (Inr ((\<lambda>_. map Val_long [10, 20, 30])(1 := map Val_long [5, 25, 30])))"
proof -
  have "netstring_int_series_ml 1 1 1 0 2 5 (\<lambda>_. map Val_long [10, 20, 30]) =
     Some (Inr ((\<lambda>_. map Val_long [10, 20, 30])(1 := overwrite (map Val_long [10, 20, 30]) (nat 0)
       (map (\<lambda>i. Val_long (5 + sum_list (map Long_val (take i (drop (nat 1) (map Val_long [10, 20, 30]))))))
            [0..<nat 2]))))"
    by (rule netstring_int_series_correct) simp_all
  moreover have "overwrite (map Val_long [10, 20, 30]) (nat 0)
       (map (\<lambda>i. Val_long (5 + sum_list (map Long_val (take i (drop (nat 1) (map Val_long [10, 20, 30]))))))
            [0..<nat 2]) = map Val_long [5, 25, 30]"
    by code_simp
  ultimately show ?thesis by simp
qed

section \<open>ISO-8859-1: correctness\<close>

lemma overwrite_Cons: "k < length E \<Longrightarrow> overwrite (E[k := x]) (Suc k) X = overwrite E k (x # X)"
  by (simp add: overwrite_def take_Suc_conv_app_nth)

lemma overwrite_Nil [simp]: "overwrite E k [] = E"
  by (simp add: overwrite_def)

lemma overwrite_single: "k < length E \<Longrightarrow> overwrite E k [x] = E[k := x]"
  by (simp add: overwrite_def upd_conv_take_nth_drop)

lemma overwrite_snoc:
  "length xs < length E \<Longrightarrow> (overwrite E 0 xs)[length xs := v] = overwrite E 0 (xs @ [v])"
  by (simp add: overwrite_def flip: Cons_nth_drop_Suc)

lemma iso88591_loop_ok:
  fixes maxcode :: int
  assumes "p + k + r \<le> length s" "k + r \<le> length sc"
  defines "good \<equiv> takeWhile (\<lambda>c. uint c \<le> maxcode) (take r (drop (p + k) s))"
  shows "iso88591_loop r k maxcode enc s p sc =
    Some (if length good = r then None
          else Some (Malformed_code_read (k + length good) (k + length good) enc),
      overwrite sc k (map (\<lambda>c. Val_long (ucast c)) good @ (if length good = r then [] else [Val_long (-1)])))"
  using assms(1,2) unfolding good_def
proof (induction r arbitrary: k sc)
  case 0
  then show ?case by simp
next
  case (Suc r)
  have d: "take (Suc r) (drop (p + k) s) = s ! (p + k) # take r (drop (p + Suc k) s)"
    using Suc.prems(1) by (simp add: Cons_nth_drop_Suc flip: take_Suc_Cons)
  have rd: "rd s (p + k) = Some (s ! (p + k))" using Suc.prems(1) by (simp add: c_simps)
  have k: "k < length sc" using Suc.prems(2) by simp
  show ?case
  proof (cases "uint (s ! (p + k)) \<le> maxcode")
    case False
    then show ?thesis using k rd by (simp add: d c_simps overwrite_single)
  next
    case True
    have "iso88591_loop (Suc r) k maxcode enc s p sc =
        iso88591_loop r (Suc k) maxcode enc s p (sc[k := Val_long (ucast (s ! (p + k)))])"
      using True rd k by (simp add: c_simps)
    then show ?thesis
      using Suc.IH [of "Suc k" "sc[k := Val_long (ucast (s ! (p + k)))]"] Suc.prems True k
      by (simp add: d overwrite_Cons)
  qed
qed

text \<open>
  \<^verbatim>\<open>netstring_read_iso88591_ml\<close> on a range inside the string. It stores the bytes of
  the range, as many as fit, as code points followed by the terminator -1 when there is
  room, and returns their number; at the first byte above \<open>maxcode\<close> it stores -1 at that
  position and raises \<^verbatim>\<open>Malformed_code_read\<close> with it. No access leaves the arrays.
\<close>

theorem netstring_read_iso88591_correct:
  fixes maxcode :: int
  assumes "length slice_char = length slice_blen" "0 \<le> p_in" "0 \<le> l_in" "p_in + l_in \<le> int (length s_in)"
  defines "m \<equiv> min (nat l_in) (length slice_char)"
  defines "good \<equiv> takeWhile (\<lambda>c. uint c \<le> maxcode) (take m (drop (nat p_in) s_in))"
  shows "netstring_read_iso88591_ml maxcode enc slice_char slice_blen s_in p_in l_in =
    Some (if length good = m then Inr (m, m, enc)
          else Inl (Malformed_code_read (length good) (length good) enc),
      overwrite slice_char 0 (map (\<lambda>c. Val_long (ucast c)) good @
        (if length good < length slice_char then [Val_long (-1)] else [])))"
proof -
  have b: "nat p_in + m \<le> length s_in" "m \<le> length slice_char"
    using assms(2-4) by (auto simp: m_def)
  have g: "length good \<le> m"
    using length_takeWhile_le [of "\<lambda>c. uint c \<le> maxcode" "take m (drop (nat p_in) s_in)"]
    by (simp add: good_def)
  have m': "(if int (length slice_char) < l_in then length slice_char else nat l_in) = m"
    using assms(3) by (auto simp: m_def)
  have len: "length (overwrite slice_char 0 (map f good)) = length slice_char" for f
    using b g by (simp add: overwrite_def)
  have loop: "iso88591_loop m 0 maxcode enc s_in (nat p_in) slice_char =
    Some (if length good = m then None else Some (Malformed_code_read (length good) (length good) enc),
      overwrite slice_char 0 (map (\<lambda>c. Val_long (ucast c)) good @ (if length good = m then [] else [Val_long (-1)])))"
    using iso88591_loop_ok [of "nat p_in" 0 m s_in slice_char maxcode enc] b by (simp add: good_def)
  show ?thesis
  proof (cases "length good = m")
    case True
    then show ?thesis
      using assms(1-4) overwrite_snoc [of "map (\<lambda>c. Val_long (ucast c)) good" slice_char "Val_long (-1)"]
      unfolding netstring_read_iso88591_ml_def m' Let_def loop by (auto simp: wr_def len)
  next
    case False
    then show ?thesis
      using assms(1-4) b(2) g unfolding netstring_read_iso88591_ml_def m' Let_def loop by auto
  qed
qed

theorem netstring_read_iso88591_correct_witness:
  "netstring_read_iso88591_ml 127 ''Enc_usascii'' [0, 0, 0] [0, 0, 0] [65, 66, 200, 67] 1 3 =
     Some (Inl (Malformed_code_read 1 1 ''Enc_usascii''), [Val_long 66, Val_long (-1), 0])"
proof -
  have g: "takeWhile (\<lambda>c. uint c \<le> 127) (take (min (nat 3) (length [0, 0, 0 :: u64]))
      (drop (nat 1) [65, 66, 200, 67])) = [66 :: u8]"
    by code_simp
  show ?thesis
    using netstring_read_iso88591_correct [of "[0, 0, 0]" "[0, 0, 0]" 1 3 "[65, 66, 200, 67]" 127
        "''Enc_usascii''"]
    unfolding g by (simp add: overwrite_def)
qed

section \<open>UTF-8: correctness\<close>

text \<open>The code points the decoder accepts, and their standard encoding.\<close>

definition valid_cp :: "nat \<Rightarrow> bool" where
  "valid_cp cp \<longleftrightarrow> cp < 0x110000 \<and> \<not> (0xd800 \<le> cp \<and> cp < 0xe000) \<and> cp \<noteq> 0xfffe \<and> cp \<noteq> 0xffff"

definition utf8_encode :: "nat \<Rightarrow> u8 list" where
  "utf8_encode cp =
     (if cp < 0x80 then [of_nat cp]
      else if cp < 0x800 then [of_nat (0xc0 + cp div 64), of_nat (0x80 + cp mod 64)]
      else if cp < 0x10000
      then [of_nat (0xe0 + cp div 4096), of_nat (0x80 + cp div 64 mod 64), of_nat (0x80 + cp mod 64)]
      else [of_nat (0xf0 + cp div 262144), of_nat (0x80 + cp div 4096 mod 64),
            of_nat (0x80 + cp div 64 mod 64), of_nat (0x80 + cp mod 64)])"

lemma and_masks:
  "(x :: nat) AND 31 = x mod 32" "(x :: nat) AND 63 = x mod 64"
  "(x :: nat) AND 15 = x mod 16" "(x :: nat) AND 7 = x mod 8"
  using take_bit_eq_mask [of 5 x] take_bit_eq_mask [of 6 x] take_bit_eq_mask [of 4 x]
    take_bit_eq_mask [of 3 x]
  by (simp_all add: take_bit_eq_mod mask_eq_exp_minus_1)

lemma push_bit_or: "b < 2 ^ n \<Longrightarrow> push_bit n a OR b = a * 2 ^ n + (b :: nat)"
proof -
  assume b: "b < 2 ^ n"
  have "\<not> bit (push_bit n a) m \<or> \<not> bit b m" for m
    using b by (auto simp: bit_push_bit_iff) (metis bit_take_bit_iff not_less take_bit_nat_eq_self)
  then have "push_bit n a + b = push_bit n a OR b" by (rule disjunctive_add)
  then show ?thesis by (simp add: push_bit_eq_mult)
qed

lemma utf8_bits2: "push_bit 6 (ch AND 0x1f) OR (ch2 AND 0x3f) = ch mod 32 * 64 + (ch2 :: nat) mod 64"
  by (simp add: and_masks push_bit_or)

lemma utf8_bits3:
  "push_bit 12 (ch AND 0xf) OR push_bit 6 (ch2 AND 0x3f) OR (ch3 AND 0x3f) =
   ch mod 16 * 4096 + ch2 mod 64 * 64 + (ch3 :: nat) mod 64"
proof -
  have "push_bit 6 (ch2 mod 64) OR (ch3 mod 64) = ch2 mod 64 * 64 + ch3 mod 64"
    by (simp add: push_bit_or)
  moreover have "ch2 mod 64 * 64 + ch3 mod 64 < 2 ^ 12"
    using mod_less_divisor [of 64 ch2] mod_less_divisor [of 64 ch3] by simp
  ultimately show ?thesis by (simp add: and_masks push_bit_or or.assoc)
qed

lemma utf8_bits4:
  "push_bit 18 (ch AND 7) OR push_bit 12 (ch2 AND 0x3f) OR push_bit 6 (ch3 AND 0x3f) OR (ch4 AND 0x3f) =
   ch mod 8 * 262144 + ch2 mod 64 * 4096 + ch3 mod 64 * 64 + (ch4 :: nat) mod 64"
proof -
  have "push_bit 6 (ch3 mod 64) OR (ch4 mod 64) = ch3 mod 64 * 64 + ch4 mod 64"
    by (simp add: push_bit_or)
  moreover have "ch3 mod 64 * 64 + ch4 mod 64 < 2 ^ 12"
    using mod_less_divisor [of 64 ch3] mod_less_divisor [of 64 ch4] by simp
  moreover have "ch2 mod 64 * 4096 + (ch3 mod 64 * 64 + ch4 mod 64) < 2 ^ 18"
    using calculation(2) mod_less_divisor [of 64 ch2] by simp
  ultimately show ?thesis by (simp add: and_masks push_bit_or or.assoc)
qed

lemmas utf8_bits = utf8_bits2 utf8_bits3 utf8_bits4

lemma utf8_char_safe:
  assumes "p < p_max" "p_max \<le> length s"
  shows "\<exists>r. utf8_char is_java s p_max p = Some r"
  using assms by (auto simp: utf8_char_def Let_def rd_def)

lemma utf8_char_range:
  assumes "utf8_char is_java s p_max p = Some (Code cp k)" "p < p_max"
  shows "valid_cp cp \<and> 1 \<le> k \<and> k \<le> 4 \<and> p + k \<le> p_max"
proof -
  obtain c where c: "rd s p = Some c" using assms(1) by (auto simp: utf8_char_def bind_eq_Some_conv)
  have b: "ch mod 32 * 64 + ch2 mod 64 < 0x800" "ch mod 16 * 4096 + ch2 mod 64 * 64 + ch3 mod 64 < 0x10000"
    for ch ch2 ch3 :: nat
    using mod_less_divisor [of 32 ch] mod_less_divisor [of 64 ch2] mod_less_divisor [of 64 ch3]
      mod_less_divisor [of 16 ch] by simp_all
  show ?thesis
    using assms c b unfolding utf8_char_def utf8_bits
    by (auto simp: Let_def valid_cp_def bind_eq_Some_conv split: if_splits)
qed

lemma overwrite_nth_length:
  "n + length X \<le> length E \<Longrightarrow> length (overwrite E n X) = length E"
  by (simp add: overwrite_def)

text \<open>
  What a run of the loop produces: \<open>cps\<close> are the decoded code points and \<open>ks\<close> their
  lengths in bytes.
\<close>

definition utf8_result ::
    "nat \<Rightarrow> nat \<Rightarrow> nat \<Rightarrow> nat \<Rightarrow> u64 list \<Rightarrow> u64 list \<Rightarrow> nat list \<Rightarrow> nat list \<Rightarrow>
     (exn + nat \<times> nat \<times> string) \<times> u64 list \<times> u64 list \<Rightarrow> bool" where
  "utf8_result p_in p_max p n sc sb cps ks res \<longleftrightarrow>
     length ks = length cps \<and> (\<forall>cp \<in> set cps. valid_cp cp) \<and> (\<forall>k \<in> set ks. 1 \<le> k \<and> k \<le> 4) \<and>
     p + sum_list ks \<le> p_max \<and> n + length cps \<le> length sc \<and>
     (let n' = n + length cps; q = p + sum_list ks - p_in in
       fst res \<in> {Inr (n', q, ''Enc_utf8''), Inl (Malformed_code_read n' q ''Enc_utf8'')} \<and>
       fst (snd res) = overwrite sc n (map (\<lambda>cp. Val_long (of_nat cp)) cps @
          (if n' < length sc then [Val_long (-1)] else [])) \<and>
       snd (snd res) = overwrite sb n (map (\<lambda>k. Val_long (of_nat k)) ks))"

lemma utf8_finish_result:
  assumes "p \<le> p_max" "n \<le> length sc"
  shows "\<exists>res. utf8_finish n p p_in sc sb = Some res \<and> utf8_result p_in p_max p n sc sb [] [] res"
  using assms by (auto simp: utf8_finish_def utf8_result_def wr_def overwrite_single Let_def)

lemma utf8_loop_result:
  assumes "p_max \<le> length s" "p \<le> p_max" "n \<le> length sc" "length sb = length sc"
  shows "\<exists>res cps ks. utf8_loop is_java s p_in p_max p n sc sb = Some res \<and>
    utf8_result p_in p_max p n sc sb cps ks res"
  using assms
proof (induction is_java s p_in p_max p n sc sb rule: utf8_loop.induct)
  case (1 is_java s p_in p_max p n sc sb)
  show ?case
  proof (cases "p < p_max \<and> n < length sc")
    case False
    then have "utf8_loop is_java s p_in p_max p n sc sb = utf8_finish n p p_in sc sb"
      by (subst utf8_loop.simps) auto
    then show ?thesis
      using utf8_finish_result [of p p_max n sc p_in sb] "1.prems" by metis
  next
    case True
    then obtain r where r: "utf8_char is_java s p_max p = Some r"
      using utf8_char_safe "1.prems"(1) by blast
    show ?thesis
    proof (cases r)
      case Malformed
      then have "utf8_loop is_java s p_in p_max p n sc sb =
          Some (Inl (Malformed_code_read n (p - p_in) ''Enc_utf8''), sc[n := Val_long (-1)], sb)"
        using r True by (subst utf8_loop.simps) (auto simp: c_simps)
      moreover have "utf8_result p_in p_max p n sc sb [] []
          (Inl (Malformed_code_read n (p - p_in) ''Enc_utf8''), sc[n := Val_long (-1)], sb)"
        using True "1.prems" by (simp add: utf8_result_def overwrite_single Let_def)
      ultimately show ?thesis by metis
    next
      case Incomplete
      then have "utf8_loop is_java s p_in p_max p n sc sb = utf8_finish n p p_in sc sb"
        using r True by (subst utf8_loop.simps) auto
      then show ?thesis
        using utf8_finish_result [of p p_max n sc p_in sb] "1.prems" by metis
    next
      case (Code cp k)
      then have range: "valid_cp cp" "1 \<le> k" "k \<le> 4" "p + k \<le> p_max"
        using utf8_char_range r True by auto
      let ?sc = "sc[n := Val_long (of_nat cp)]" and ?sb = "sb[n := Val_long (of_nat k)]"
      have eq: "utf8_loop is_java s p_in p_max p n sc sb = utf8_loop is_java s p_in p_max (p + k) (Suc n) ?sc ?sb"
        using r Code True "1.prems"(4) by (subst utf8_loop.simps) (simp add: c_simps)
      obtain res cps ks where "utf8_loop is_java s p_in p_max (p + k) (Suc n) ?sc ?sb = Some res"
        and res: "utf8_result p_in p_max (p + k) (Suc n) ?sc ?sb cps ks res"
        using "1.IH" [OF True r Code] True range "1.prems" by auto
      moreover have "utf8_result p_in p_max p n sc sb (cp # cps) (k # ks) res"
        using res range True "1.prems"(4)
        by (simp add: utf8_result_def Let_def overwrite_Cons add.assoc)
      ultimately show ?thesis using eq by metis
    qed
  qed
qed

text \<open>
  Claim C24: \<^verbatim>\<open>netstring_read_utf8_ml\<close> on arbitrary input. It never reads outside the string
  nor writes outside the slices. It raises \<^verbatim>\<open>Invalid_argument\<close> exactly when the slices differ
  in length or the range is not inside the string. Otherwise it stores a sequence of code
  points, all of them valid (below 0x110000, no surrogates, not FFFE or FFFF), with their
  byte lengths, followed by -1 when there is room; the reported byte count is the sum of
  the lengths and stays inside the range, whether it returns or raises
  \<^verbatim>\<open>Malformed_code_read\<close>.
\<close>

theorem netstring_read_utf8_safe:
  "\<exists>res. netstring_read_utf8_ml is_java sc sb s_in p_in l_in = Some res \<and>
    (if length sc = length sb \<and> 0 \<le> p_in \<and> 0 \<le> l_in \<and> p_in + l_in \<le> int (length s_in)
     then \<exists>cps ks. utf8_result (nat p_in) (nat (p_in + l_in)) (nat p_in) 0 sc sb cps ks res
     else res = (Inl (Invalid_argument ''Netaccel.read_utf8''), sc, sb))"
proof (cases "length sc = length sb \<and> 0 \<le> p_in \<and> 0 \<le> l_in \<and> p_in + l_in \<le> int (length s_in)")
  case True
  then have "nat (p_in + l_in) \<le> length s_in" "nat p_in \<le> nat (p_in + l_in)" "0 \<le> length sc"
      "length sb = length sc"
    by auto
  from utf8_loop_result [OF this] obtain res cps ks where
    "utf8_loop is_java s_in (nat p_in) (nat (p_in + l_in)) (nat p_in) 0 sc sb = Some res"
    "utf8_result (nat p_in) (nat (p_in + l_in)) (nat p_in) 0 sc sb cps ks res"
    by blast
  moreover have "netstring_read_utf8_ml is_java sc sb s_in p_in l_in =
      utf8_loop is_java s_in (nat p_in) (nat (p_in + l_in)) (nat p_in) 0 sc sb"
    using True by (simp add: netstring_read_utf8_ml_def)
  ultimately show ?thesis using True by (intro exI [of _ res]) auto
next
  case False
  then show ?thesis by (auto simp: netstring_read_utf8_ml_def)
qed

lemma rd_enc:
  assumes "drop p s = e @ rest" "i < length e"
  shows "rd s (p + i) = Some (e ! i)"
proof -
  have "p + i < length s" using assms by (metis add_diff_inverse_nat append_eq_conv_conj
      length_append length_drop less_diff_conv linorder_not_less nat_add_left_cancel_less trans_less_add1
      zero_less_diff add.commute)
  moreover have "s ! (p + i) = (drop p s) ! i" using calculation by simp
  ultimately show ?thesis using assms by (simp add: rd_def nth_append)
qed

lemma unat_of_nat_u8: "n < 256 \<Longrightarrow> unat (of_nat n :: u8) = n"
  by (simp add: unat_of_nat)

lemma utf8_mods:
  "(192 + x) mod 32 = (x :: nat) mod 32" "(128 + x) mod 64 = (x :: nat) mod 64"
  "(224 + x) mod 16 = (x :: nat) mod 16" "(240 + x) mod 8 = (x :: nat) mod 8"
  "\<not> 64 \<le> (x :: nat) mod 64"
  using mod_mult_self1 [of x 6 32] mod_mult_self1 [of x 2 64] mod_mult_self1 [of x 14 16]
    mod_mult_self1 [of x 30 8]
  by (simp_all add: add.commute not_le)

lemma div_mod_digits:
  "(cp :: nat) div 4096 * 4096 + cp div 64 mod 64 * 64 + cp mod 64 = cp"
  "(cp :: nat) div 262144 * 262144 + cp div 4096 mod 64 * 4096 + cp div 64 mod 64 * 64 + cp mod 64 = cp"
proof -
  have d: "cp div 4096 = cp div 64 div 64" "cp div 262144 = cp div 4096 div 64"
    by (simp_all flip: div_mult2_eq)
  show "cp div 4096 * 4096 + cp div 64 mod 64 * 64 + cp mod 64 = cp"
    using div_mult_mod_eq [of cp 64] div_mult_mod_eq [of "cp div 64" 64] d(1) by linarith
  then show "cp div 262144 * 262144 + cp div 4096 mod 64 * 4096 + cp div 64 mod 64 * 64 + cp mod 64 = cp"
    using div_mult_mod_eq [of "cp div 4096" 64] d(2) by linarith
qed

lemma utf8_char_encode:
  assumes "valid_cp cp" "is_java \<longrightarrow> cp \<noteq> 0" "drop p s = utf8_encode cp @ rest"
    and "p + length (utf8_encode cp) \<le> p_max"
  shows "utf8_char is_java s p_max p = Some (Code cp (length (utf8_encode cp)))"
proof -
  note rd = rd_enc [OF assms(3)]
  consider "cp < 0x80" | "0x80 \<le> cp" "cp < 0x800" | "0x800 \<le> cp" "cp < 0x10000"
    | "0x10000 \<le> cp" "cp < 0x110000"
    using assms(1) by (fastforce simp: valid_cp_def)
  then show ?thesis
  proof cases
    case 1
    then show ?thesis
      using rd [of 0] assms(2) by (auto simp: utf8_encode_def utf8_char_def unat_of_nat)
  next
    case 2
    have "cp div 64 < 32" using 2 by simp
    then show ?thesis
      using 2 rd [of 0] rd [of 1] assms(4) unfolding utf8_char_def utf8_bits
      by (simp add: utf8_encode_def unat_of_nat_u8 utf8_mods del: of_nat_add)
  next
    case 3
    have b: "cp div 4096 < 16" "cp div 64 mod 64 < 64" using 3 by simp_all
    show ?thesis
      using 3 b div_mod_digits(1) [of cp] rd [of 0] rd [of 1] rd [of 2] assms(1,4) unfolding utf8_char_def utf8_bits
      by (simp add: utf8_encode_def unat_of_nat_u8 utf8_mods valid_cp_def del: of_nat_add)
  next
    case 4
    have b: "cp div 262144 < 5" using 4 by simp
    show ?thesis
      using 4 b div_mod_digits(2) [of cp] rd [of 0] rd [of 1] rd [of 2] rd [of 3] assms(4) unfolding utf8_char_def utf8_bits
      by (simp add: utf8_encode_def unat_of_nat_u8 utf8_mods del: of_nat_add)
  qed
qed

lemma utf8_encode_nonempty: "0 < length (utf8_encode cp)"
  by (simp add: utf8_encode_def)

lemma utf8_loop_encode:
  assumes "\<forall>cp \<in> set cps. valid_cp cp \<and> (is_java \<longrightarrow> cp \<noteq> 0)"
    and "drop p s = concat (map utf8_encode cps) @ rest"
    and "p_max = p + length (concat (map utf8_encode cps))"
    and "n + length cps \<le> length sc" "length sb = length sc"
  shows "utf8_loop is_java s p_in p_max p n sc sb =
    utf8_finish (n + length cps) p_max p_in (overwrite sc n (map (\<lambda>cp. Val_long (of_nat cp)) cps))
      (overwrite sb n (map (\<lambda>cp. Val_long (of_nat (length (utf8_encode cp)))) cps))"
  using assms
proof (induction cps arbitrary: p n sc sb)
  case Nil
  then show ?case by (subst utf8_loop.simps) simp
next
  case (Cons cp cps)
  let ?k = "length (utf8_encode cp)"
  have "utf8_char is_java s p_max p = Some (Code cp ?k)"
    using Cons.prems by (intro utf8_char_encode [where rest = "concat (map utf8_encode cps) @ rest"]) auto
  then have "utf8_loop is_java s p_in p_max p n sc sb = utf8_loop is_java s p_in p_max (p + ?k) (Suc n)
      (sc[n := Val_long (of_nat cp)]) (sb[n := Val_long (of_nat ?k)])"
    using Cons.prems(3-5) utf8_encode_nonempty [of cp] by (subst utf8_loop.simps) simp
  also have "\<dots> = utf8_finish (Suc n + length cps) p_max p_in
      (overwrite (sc[n := Val_long (of_nat cp)]) (Suc n) (map (\<lambda>cp. Val_long (of_nat cp)) cps))
      (overwrite (sb[n := Val_long (of_nat ?k)]) (Suc n) (map (\<lambda>cp. Val_long (of_nat (length (utf8_encode cp)))) cps))"
  proof (rule Cons.IH)
    have "drop (p + ?k) s = drop ?k (drop p s)" by (simp add: add.commute)
    then show "drop (p + ?k) s = concat (map utf8_encode cps) @ rest"
      by (simp add: Cons.prems(2))
  qed (use Cons.prems in auto)
  finally show ?case using Cons.prems(4,5) by (simp add: overwrite_Cons)
qed

text \<open>
  Claim C23: round trip. For every list of valid code points (without NUL in the Java
  variant) that fits into the slices, reading its UTF-8 encoding, embedded in any string,
  returns the number of code points and of bytes and stores exactly these code points and
  the lengths of their encodings.
\<close>

theorem netstring_read_utf8_roundtrip:
  assumes "\<forall>cp \<in> set cps. valid_cp cp \<and> (is_java \<longrightarrow> cp \<noteq> 0)"
    and "length cps \<le> length sc" "length sb = length sc"
  defines "enc \<equiv> concat (map utf8_encode cps)"
  shows "netstring_read_utf8_ml is_java sc sb (pre @ enc @ post) (int (length pre)) (int (length enc)) =
    Some (Inr (length cps, length enc, ''Enc_utf8''),
      overwrite sc 0 (map (\<lambda>cp. Val_long (of_nat cp)) cps @
        (if length cps < length sc then [Val_long (-1)] else [])),
      overwrite sb 0 (map (\<lambda>cp. Val_long (of_nat (length (utf8_encode cp)))) cps))"
proof -
  let ?V = "map (\<lambda>cp. Val_long (of_nat cp)) cps"
  have "netstring_read_utf8_ml is_java sc sb (pre @ enc @ post) (int (length pre)) (int (length enc)) =
      utf8_loop is_java (pre @ enc @ post) (length pre) (length pre + length enc) (length pre) 0 sc sb"
    using assms(3) by (simp add: netstring_read_utf8_ml_def nat_int_add)
  also have "\<dots> = utf8_finish (0 + length cps) (length pre + length enc) (length pre) (overwrite sc 0 ?V)
      (overwrite sb 0 (map (\<lambda>cp. Val_long (of_nat (length (utf8_encode cp)))) cps))"
    using assms(1-3) by (intro utf8_loop_encode [where rest = post]) (auto simp: enc_def)
  moreover have "(overwrite sc 0 ?V)[length cps := Val_long (-1)] = overwrite sc 0 (?V @ [Val_long (-1)])"
    if "length cps < length sc"
    using that overwrite_snoc [of ?V sc "Val_long (-1)"] by simp
  ultimately show ?thesis
    using assms(2) by (auto simp: utf8_finish_def wr_def overwrite_nth_length)
qed

theorem netstring_read_utf8_roundtrip_witness:
  "netstring_read_utf8_ml False [0, 0, 0] [0, 0, 0] (concat (map utf8_encode [0x41, 0x20AC])) 0 4 =
     Some (Inr (2, 4, ''Enc_utf8''), [Val_long 0x41, Val_long 0x20AC, Val_long (-1)],
       [Val_long 1, Val_long 3, 0])"
proof -
  have l: "length (concat (map utf8_encode [0x41, 0x20AC])) = 4"
    "length (utf8_encode 0x41) = 1" "length (utf8_encode 0x20AC) = 3"
    by (simp_all add: utf8_encode_def)
  show ?thesis
    using netstring_read_utf8_roundtrip [of "[0x41, 0x20AC]" False "[0, 0, 0]" "[0, 0, 0]" "[]" "[]"]
    unfolding l by (simp add: valid_cp_def overwrite_def l)
qed

text \<open>
  Bytes that no UTF-8 text contains are accepted. A continuation byte
  0x81--0xBF where a character should begin is decoded like the two-byte lead byte with the
  same low five bits, and the Java form of NUL (bytes C0 80) is malformed while the exchanged bytes (80 C0) are read as
  NUL.
\<close>

theorem utf8_accepts_stray_continuation:
  assumes "0x80 < unat ch" "unat ch < 0xc0" "2 \<le> p_max"
  shows "utf8_char is_java (ch # ch2 # s) p_max 0 =
      utf8_char is_java (of_nat (0xc0 + unat ch mod 32) # ch2 # s) p_max 0 \<and>
    utf8_char True (0xc0 # 0x80 # s) p_max 0 = Some Malformed \<and>
    utf8_char True (0x80 # 0xc0 # s) p_max 0 = Some (Code 0 2)"
proof -
  define ld :: u8 where "ld = of_nat (0xc0 + unat ch mod 32)"
  have "unat ch mod 32 < 32" by simp
  then have le: "unat ch mod 32 \<le> 31" by linarith
  then have u: "unat ld = 0xc0 + unat ch mod 32" unfolding ld_def by (intro unat_of_nat_u8) simp
  have m: "(0xc0 + unat ch mod 32) mod 32 = unat ch mod 32" by (simp add: utf8_mods)
  have "utf8_char is_java (ch # ch2 # s) p_max 0 = utf8_char is_java (ld # ch2 # s) p_max 0"
    using assms unfolding utf8_char_def utf8_bits by (simp add: rd_def u m le Let_def)
  then show ?thesis
    using assms(3) unfolding utf8_char_def utf8_bits ld_def by (simp add: rd_def)
qed

theorem utf8_accepts_stray_continuation_witness:
  "utf8_char False [0x84, 0x80] 2 0 = utf8_char False [of_nat (0xc0 + 4), 0x80] 2 0 \<and>
   utf8_char False [0x84, 0x80] 2 0 = Some (Code 0x100 2)"
proof -
  have "utf8_char False [0x84, 0x80] 2 0 = Some (Code 0x100 2)"
    unfolding utf8_char_def utf8_bits by (simp add: rd_def)
  then show ?thesis
    using utf8_accepts_stray_continuation [of "0x84" 2 False "0x80" "[]"] by simp
qed

end
