(* ===== verification/Xdr.thy ===== *)
theory Xdr
  imports Netsys_Prelude
begin

text \<open>
  The XDR accelerators of \<^verbatim>\<open>src/src/netsys/netsys_c_xdr.c\<close>: 32 bit integers and arrays of
  strings, read from and written to OCaml strings without bounds checks. A string is the
  list of its bytes, an access outside it is \<open>None\<close>. The 64 bit configuration is modelled
  (the integer primitives exist only there).

  OCaml string blocks are modelled as the runtime lays them out: a multiple of eight bytes
  whose last byte is the number of padding bytes before it. The allocation function
  \<^verbatim>\<open>caml_alloc_string\<close> of the runtime and the contents of fresh memory
  (\<^verbatim>\<open>caml_alloc_shr\<close>) are parameters.
\<close>

section \<open>Integers\<close>

text \<open>\<open>load_be32\<close> is \<^verbatim>\<open>ntohl(*((unsigned int *) (s+p)))\<close>, \<open>store_be32\<close> its counterpart.\<close>

definition be32_of :: "u8 \<Rightarrow> u8 \<Rightarrow> u8 \<Rightarrow> u8 \<Rightarrow> u32" where
  "be32_of a b c d = push_bit 24 (ucast a) OR push_bit 16 (ucast b) OR push_bit 8 (ucast c) OR ucast d"

definition be32_bytes :: "u32 \<Rightarrow> u8 list" where
  "be32_bytes w = [ucast (drop_bit 24 w), ucast (drop_bit 16 w), ucast (drop_bit 8 w), ucast w]"

definition load_be32 :: "u8 list \<Rightarrow> int \<Rightarrow> u32 option" where
  "load_be32 s p =
     (if p < 0 then None
      else do {
        a \<leftarrow> rd s (nat p);
        b \<leftarrow> rd s (nat p + 1);
        c \<leftarrow> rd s (nat p + 2);
        d \<leftarrow> rd s (nat p + 3);
        Some (be32_of a b c d)
      })"

definition store_be32 :: "u8 list \<Rightarrow> int \<Rightarrow> u32 \<Rightarrow> u8 list option" where
  "store_be32 s p w = (if p < 0 then None else blit s (nat p) (be32_bytes w) 0 4)"

definition netsys_s_read_int4_64 :: "u8 list \<Rightarrow> int \<Rightarrow> u64 option" where
  "netsys_s_read_int4_64 s p = do { w \<leftarrow> load_be32 s p; Some (Val_long (scast w)) }"

definition netsys_s_write_int4_64 :: "u8 list \<Rightarrow> int \<Rightarrow> u64 \<Rightarrow> u8 list option" where
  "netsys_s_write_int4_64 s p iv = store_be32 s p (ucast (Long_val iv))"

section \<open>String blocks and arrays of strings\<close>

definition caml_string_length :: "u8 list \<Rightarrow> nat" where
  "caml_string_length b = length b - 1 - unat (b ! (length b - 1))"

definition string_of_block :: "u8 list \<Rightarrow> u8 list" where
  "string_of_block b = take (caml_string_length b) b"

definition netsys_alloc_string_shr :: "(nat \<Rightarrow> nat \<Rightarrow> u8) \<Rightarrow> nat \<Rightarrow> u8 list option" where
  "netsys_alloc_string_shr caml_alloc_shr len =
     (let wosize = (len + 8) div 8;
          result = map (caml_alloc_shr wosize) [0..<8 * wosize];
          offset_index = 8 * wosize - 1
      in do {
        b \<leftarrow> blit result (8 * (wosize - 1)) (replicate 8 0) 0 8;
        wr b offset_index (of_nat (offset_index - len))
      })"

primrec read_string_loop ::
    "(nat \<Rightarrow> nat \<Rightarrow> u8) \<Rightarrow> (nat \<Rightarrow> u8 list) \<Rightarrow> bool \<Rightarrow> u8 list \<Rightarrow> int \<Rightarrow> u32 \<Rightarrow>
     nat \<Rightarrow> nat \<Rightarrow> int \<Rightarrow> u8 list list \<Rightarrow> (int \<times> int \<times> nat \<times> u8 list list) option" where
  "read_string_loop shr alloc av_in_heap s l m 0 k p av = Some (0, p, k, av)"
| "read_string_loop shr alloc av_in_heap s l m (Suc r) k p av =
     (if p + 4 > l then Some (0, p, k, av)
      else do {
        e \<leftarrow> load_be32 s p;
        let p' = p + 4;
        let j = (word_of_int (l - p') :: u32);
        if e > j then Some (-1, p', k, av)
        else if e > m then Some (-2, p', k, av)
        else do {
          uv \<leftarrow> (if av_in_heap then netsys_alloc_string_shr shr (unat e) else Some (alloc (unat e)));
          uv' \<leftarrow> (if p' < 0 then None else blit uv 0 s (nat p') (unat e));
          av' \<leftarrow> wr av k uv';
          let p'' = p' + uint e;
          let p''' = (if e AND 3 \<noteq> 0 then p'' + (4 - uint (e AND 3)) else p'');
          read_string_loop shr alloc av_in_heap s l m r (Suc k) p''' av'
        }
      })"

definition netsys_s_read_string_array ::
    "(nat \<Rightarrow> nat \<Rightarrow> u8) \<Rightarrow> (nat \<Rightarrow> u8 list) \<Rightarrow> u8 list \<Rightarrow> int \<Rightarrow> int \<Rightarrow> u32 \<Rightarrow> u8 list list \<Rightarrow>
     (int \<times> u8 list list) option" where
  "netsys_s_read_string_array shr alloc s pv lv m av =
     (let n = length av;
          av_in_heap = (n > 5000 \<or> lv > 20000)
      in do {
        (err, p, k, av') \<leftarrow> read_string_loop shr alloc av_in_heap s (lv + pv) m n 0 pv av;
        Some (if k \<ge> n then p else err, av')
      })"

section \<open>Big-endian words\<close>

lemma be32_of_bytes:
  "be32_of (ucast (drop_bit 24 w)) (ucast (drop_bit 16 w)) (ucast (drop_bit 8 w)) (ucast w) = (w :: u32)"
proof (rule bit_word_eqI)
  fix n assume "n < LENGTH(32)"
  then have n: "n < 32" by simp
  show "bit (be32_of (ucast (drop_bit 24 w)) (ucast (drop_bit 16 w)) (ucast (drop_bit 8 w)) (ucast w)) n = bit w n"
    using n by (cases "n < 8"; cases "n < 16"; cases "n < 24")
      (simp_all add: be32_of_def bit_or_iff bit_push_bit_iff bit_ucast_iff bit_drop_bit_eq; arith)+
qed

lemma length_be32_bytes [simp]: "length (be32_bytes w) = 4"
  by (simp add: be32_bytes_def)

lemma load_be32_append:
  "p = int (length pre) \<Longrightarrow> load_be32 (pre @ be32_bytes w @ post) p = Some w"
  by (simp add: load_be32_def be32_bytes_def rd_def nth_append be32_of_bytes)

lemma load_be32_defined: "0 \<le> p \<Longrightarrow> p + 4 \<le> int (length s) \<Longrightarrow> \<exists>w. load_be32 s p = Some w"
  by (simp add: load_be32_def rd_def nat_less_iff)

lemma drop_eq_load_be32:
  assumes "drop p s = be32_bytes w @ rest"
  shows "load_be32 s (int p) = Some w"
proof -
  have "p \<le> length s" using assms by (metis drop_all length_be32_bytes append_is_Nil_conv length_0_conv
        nle_le numeral_neq_zero zero_neq_numeral)
  then show ?thesis
    using load_be32_append [of "int p" "take p s" w rest] assms by (metis append_take_drop_id length_take min.absorb2)
qed

section \<open>Integers: round trip\<close>

lemma scast_ucast_u32:
  assumes "- (2 ^ 31) \<le> i" "i < 2 ^ 31"
  shows "scast (ucast (word_of_int i :: u64) :: u32) = (word_of_int i :: u64)"
proof -
  have "(ucast (word_of_int i :: u64) :: u32) = word_of_int i"
    by (simp add: ucast_down_wi is_down)
  moreover have "sint (word_of_int i :: u32) = i"
    using assms by (intro sint_word_of_int) simp_all
  ultimately show ?thesis by (metis of_int_sint)
qed


section \<open>String blocks\<close>

definition string_block :: "u8 list \<Rightarrow> nat \<Rightarrow> bool" where
  "string_block b n \<longleftrightarrow> length b = 8 * ((n + 8) div 8) \<and> unat (b ! (length b - 1)) = length b - 1 - n"

definition alloc_string_ok :: "(nat \<Rightarrow> u8 list) \<Rightarrow> bool" where
  "alloc_string_ok alloc \<longleftrightarrow> (\<forall>n. string_block (alloc n) n)"

lemma string_block_length: "string_block b n \<Longrightarrow> n < length b \<and> caml_string_length b = n"
  by (auto simp: string_block_def caml_string_length_def)

lemma alloc_string_shr_ok: "\<exists>b. netsys_alloc_string_shr shr n = Some b \<and> string_block b n"
proof -
  have w: "(n + 8) div 8 = Suc (n div 8)" by simp
  define d where "d = 8 * Suc (n div 8) - 1 - n"
  have "8 * Suc (n div 8) \<le> n + 8" by simp
  then have "d < 256" unfolding d_def by linarith
  then have "unat (of_nat d :: u8) = d" by (simp add: unat_of_nat take_bit_eq_mod)
  moreover have "netsys_alloc_string_shr shr n = Some ((take (8 * (n div 8)) (map (shr (Suc (n div 8)))
      [0..<8 * Suc (n div 8)]) @ replicate 8 0)[8 * Suc (n div 8) - 1 := of_nat d])"
    unfolding netsys_alloc_string_shr_def w Let_def d_def by (simp add: blit_def wr_def)
  ultimately show ?thesis by (simp add: string_block_def w d_def)
qed

lemma string_block_fill:
  assumes "string_block b n" "blit b 0 s p n = Some b'"
  shows "string_block b' n \<and> string_of_block b' = take n (drop p s)"
proof -
  have n: "n < length b" and b': "b' = take n (drop p s) @ drop n b" and p: "p + n \<le> length s"
    using assms string_block_length [OF assms(1)] by (auto simp: blit_def split: if_splits)
  then have "b' ! (length b' - 1) = b ! (length b - 1)" and l: "length b' = length b"
    by (auto simp: nth_append)
  then have "string_block b' n" using assms(1) by (auto simp: string_block_def)
  then show ?thesis
    using string_block_length [of b' n] b' p by (simp add: string_of_block_def)
qed

lemma uint_and_3: "uint ((e :: u32) AND 3) = uint e mod 4"
proof -
  have m: "(3 :: int) = mask 2" by (simp add: mask_eq_exp_minus_1)
  have "uint (e AND 3) = uint e AND 3" by (simp add: unsigned_and_eq)
  also have "\<dots> = uint e mod 4" unfolding m by (simp only: flip: take_bit_eq_mask) (simp add: take_bit_eq_mod)
  finally show ?thesis .
qed

definition xdr_pad :: "nat \<Rightarrow> nat" where
  "xdr_pad n = (if n mod 4 = 0 then 0 else 4 - n mod 4)"

lemma pad_step:
  "(if (e :: u32) AND 3 \<noteq> 0 then q + (4 - uint (e AND 3)) else q) = q + int (xdr_pad (unat e))"
proof -
  have u: "uint (e AND 3) = int (unat e mod 4)"
    unfolding uint_and_3 by (simp add: zmod_int)
  have "e AND 3 = 0 \<longleftrightarrow> unat e mod 4 = 0"
    using uint_0_iff [of "e AND 3"] unfolding u by simp
  then show ?thesis unfolding u by (simp add: xdr_pad_def of_nat_diff)
qed

lemma xdr_pad_le: "xdr_pad n \<le> 3"
  by (simp add: xdr_pad_def) linarith

lemma uint_word_of_int_le: "0 \<le> x \<Longrightarrow> uint (word_of_int x :: u32) \<le> x"
  by (simp add: unsigned_of_int take_bit_int_less_eq_self_iff)

text \<open>One iteration of the loop, with the length and the limit respected.\<close>

lemma read_string_step:
  assumes "0 \<le> p" "p + 4 \<le> l" "l \<le> int (length s)" "load_be32 s p = Some e"
    and "e \<le> word_of_int (l - (p + 4))" "e \<le> m" "k < length av" "alloc_string_ok alloc"
  shows "\<exists>b. string_block b (unat e) \<and> string_of_block b = take (unat e) (drop (nat p + 4) s) \<and>
    p + 4 + int (unat e) \<le> l \<and>
    read_string_loop shr alloc hp s l m (Suc r) k p av =
    read_string_loop shr alloc hp s l m r (Suc k) (p + 4 + int (unat e) + int (xdr_pad (unat e))) (av[k := b])"
proof -
  obtain uv where uv: "(if hp then netsys_alloc_string_shr shr (unat e) else Some (alloc (unat e))) = Some uv"
      "string_block uv (unat e)"
    using alloc_string_shr_ok [of shr "unat e"] assms(8) by (cases hp) (auto simp: alloc_string_ok_def)
  have "uint e \<le> uint (word_of_int (l - (p + 4)) :: u32)"
    using assms(5) by (simp add: word_le_def)
  also have "\<dots> \<le> l - (p + 4)"
    using assms(2) by (intro uint_word_of_int_le) simp
  finally have e: "p + 4 + int (unat e) \<le> l" by simp
  have "nat (p + 4) + unat e \<le> length s"
    using e assms(1-3) by linarith
  then obtain b where b: "blit uv 0 s (nat (p + 4)) (unat e) = Some b"
    using e assms(1-3) string_block_length [OF uv(2)] by (auto simp: blit_def)
  have g: "\<not> l < p + 4" "\<not> word_of_int (l - (p + 4)) < e" "\<not> m < e" "\<not> p + 4 < 0"
    using assms(1,2,5,6) by (simp_all only: not_less)
  have "read_string_loop shr alloc hp s l m (Suc r) k p av =
    read_string_loop shr alloc hp s l m r (Suc k) (p + 4 + int (unat e) + int (xdr_pad (unat e))) (av[k := b])"
    unfolding read_string_loop.simps assms(4) pad_step Let_def bind.bind_lunit if_not_P [OF g(1)]
      if_not_P [OF g(2)] if_not_P [OF g(3)] if_not_P [OF g(4)] uv(1) b wr_Some [OF assms(7)] by simp
  then show ?thesis
    using string_block_fill [OF uv(2) b] e assms(1)
    by (intro exI [of _ b]) (simp add: nat_add_distrib del: read_string_loop.simps)
qed

lemma read_string_reject:
  assumes "\<not> p + 4 > l" "load_be32 s p = Some e" "\<not> (e \<le> word_of_int (l - (p + 4)) \<and> e \<le> m)"
  shows "\<exists>err. (err = -1 \<or> err = -2) \<and>
    read_string_loop shr alloc hp s l m (Suc r) k p av = Some (err, p + 4, k, av)"
  using assms by (auto simp: not_le Let_def simp del: of_int_diff of_int_add)


section \<open>The loop on arbitrary and on well-formed input\<close>

lemma read_string_loop_ok:
  assumes "0 \<le> p" "l \<le> int (length s)" "k + r \<le> length av" "alloc_string_ok alloc"
  shows "\<exists>err p' k' av'. read_string_loop shr alloc hp s l m r k p av = Some (err, p', k', av') \<and>
    k \<le> k' \<and> k' \<le> k + r \<and> length av' = length av \<and>
    (\<forall>i < length av. if k \<le> i \<and> i < k' then length (string_of_block (av' ! i)) \<le> unat m
       else av' ! i = av ! i) \<and>
    (err = 0 \<or> (err = -1 \<or> err = -2) \<and> k' < k + r) \<and> p \<le> p' \<and> (p' \<le> l + 3 \<or> p' = p)"
  using assms
proof (induction r arbitrary: k p av)
  case 0
  then show ?case by simp
next
  case (Suc r)
  show ?case
  proof (cases "p + 4 > l")
    case True
    then show ?thesis by simp
  next
    case False
    then obtain e where e: "load_be32 s p = Some e"
      using load_be32_defined [of p s] Suc.prems by auto
    show ?thesis
    proof (cases "e \<le> word_of_int (l - (p + 4)) \<and> e \<le> m")
      case True
      obtain b where b: "string_block b (unat e)" "string_of_block b = take (unat e) (drop (nat p + 4) s)"
          "p + 4 + int (unat e) \<le> l"
          "read_string_loop shr alloc hp s l m (Suc r) k p av =
           read_string_loop shr alloc hp s l m r (Suc k) (p + 4 + int (unat e) + int (xdr_pad (unat e))) (av[k := b])"
        using read_string_step [of p l s e m k av alloc shr hp r] True False Suc.prems e by auto
      let ?p = "p + 4 + int (unat e) + int (xdr_pad (unat e))"
      have le: "length (string_of_block b) \<le> unat m"
        using b(2) conjunct2 [OF True] by (simp add: word_le_nat_alt)
      have "0 \<le> ?p" "Suc k + r \<le> length (av[k := b])" using Suc.prems by auto
      from Suc.IH [OF this(1) Suc.prems(2) this(2) Suc.prems(4)] obtain err p' k' av' where
        ih: "read_string_loop shr alloc hp s l m r (Suc k) ?p (av[k := b]) = Some (err, p', k', av')"
          "Suc k \<le> k'" "k' \<le> Suc k + r" "length av' = length av"
          "\<forall>i < length av. if Suc k \<le> i \<and> i < k' then length (string_of_block (av' ! i)) \<le> unat m
            else av' ! i = av[k := b] ! i"
          "err = 0 \<or> (err = -1 \<or> err = -2) \<and> k' < Suc k + r" "?p \<le> p'" "p' \<le> l + 3 \<or> p' = ?p"
        by auto
      have "\<forall>i < length av. if k \<le> i \<and> i < k' then length (string_of_block (av' ! i)) \<le> unat m
          else av' ! i = av ! i"
        using ih(2,5) le Suc.prems(3) by (auto simp: nth_list_update le_eq_less_or_eq split: if_splits)
      moreover have "p' \<le> l + 3" using ih(8) b(3) xdr_pad_le [of "unat e"] by linarith
      moreover have "p \<le> p'" using ih(7) by linarith
      ultimately show ?thesis
        unfolding b(4) ih(1) using ih(2-4,6) by (intro exI conjI refl) auto
    next
      case False': False
      then show ?thesis
        using read_string_reject [OF False e, of m shr alloc hp r k av] False
        by (auto simp del: read_string_loop.simps)
    qed
  qed
qed

definition xdr_string :: "u8 list \<Rightarrow> u8 list" where
  "xdr_string x = be32_bytes (of_nat (length x)) @ x @ replicate (xdr_pad (length x)) 0"

lemma length_xdr_string: "length (xdr_string x) = 4 + length x + xdr_pad (length x)"
  by (simp add: xdr_string_def)

lemma read_string_loop_encoded:
  assumes "drop (nat p) s = concat (map xdr_string xs) @ rest" "0 \<le> p"
    and "p + int (length (concat (map xdr_string xs))) \<le> l" "l \<le> int (length s)" "l - p < 2 ^ 32"
    and "\<forall>x \<in> set xs. length x \<le> unat m" "k + length xs \<le> length av" "alloc_string_ok alloc"
  shows "\<exists>bs. read_string_loop shr alloc hp s l m (length xs + r) k p av =
      read_string_loop shr alloc hp s l m r (k + length xs) (p + int (length (concat (map xdr_string xs))))
        (take k av @ bs @ drop (k + length xs) av) \<and>
    map string_of_block bs = xs"
  using assms
proof (induction xs arbitrary: p k av)
  case Nil
  then show ?case by simp
next
  case (Cons x xs)
  let ?e = "of_nat (length x) :: u32"
  have l: "int (length x) < 2 ^ 32" "p + 4 + int (length x) \<le> l"
    using Cons.prems(3,5) by (simp_all add: length_xdr_string)
  then have "length x < 2 ^ 32" by (simp add: zless_nat_eq_int_zless)
  then have u: "unat ?e = length x" by (simp add: unat_of_nat take_bit_eq_mod)
  have ld: "load_be32 s p = Some ?e"
    using drop_eq_load_be32 [of "nat p" s ?e] Cons.prems(1,2) by (simp add: xdr_string_def)
  have j: "?e \<le> word_of_int (l - (p + 4))"
  proof -
    have "uint (word_of_int (l - (p + 4)) :: u32) = l - (p + 4)"
      using l(2) Cons.prems(5) by (simp add: unsigned_of_int take_bit_int_eq_self_iff del: of_int_diff of_int_add)
    moreover have "uint ?e = int (length x)" using u by (metis uint_nat)
    ultimately show ?thesis using l(2) by (simp add: word_le_def)
  qed
  have m: "?e \<le> m" using Cons.prems(6) u by (simp add: word_le_nat_alt)
  obtain b where b: "string_of_block b = take (length x) (drop (nat p + 4) s)"
      "read_string_loop shr alloc hp s l m (Suc (length xs + r)) k p av =
       read_string_loop shr alloc hp s l m (length xs + r) (Suc k)
         (p + 4 + int (length x) + int (xdr_pad (length x))) (av[k := b])"
    using read_string_step [OF Cons.prems(2) _ Cons.prems(4) ld j m, of k av alloc shr hp "length xs + r"]
      l(2) Cons.prems(7,8) u by auto
  let ?p = "p + 4 + int (length x) + int (xdr_pad (length x))"
  have np: "nat ?p = length (xdr_string x) + nat p"
    using Cons.prems(2) by (simp add: length_xdr_string)
  have "drop (nat ?p) s = drop (length (xdr_string x)) (drop (nat p) s)"
    unfolding np by simp
  then have d: "drop (nat ?p) s = concat (map xdr_string xs) @ rest"
    by (simp add: Cons.prems(1))
  have bx: "string_of_block b = x"
  proof -
    have "drop (nat p + 4) s = drop 4 (drop (nat p) s)" by (simp add: add.commute)
    then show ?thesis using b(1) by (simp add: Cons.prems(1) xdr_string_def)
  qed
  have "0 \<le> ?p" "?p + int (length (concat (map xdr_string xs))) \<le> l" "l - ?p < 2 ^ 32"
    "\<forall>x \<in> set xs. length x \<le> unat m" "Suc k + length xs \<le> length (av[k := b])"
    using Cons.prems(2,3,5-7) by (simp_all add: length_xdr_string)
  from Cons.IH [OF d this(1,2) Cons.prems(4) this(3-5) Cons.prems(8)] obtain bs where
    "read_string_loop shr alloc hp s l m (length xs + r) (Suc k) ?p (av[k := b]) =
      read_string_loop shr alloc hp s l m r (Suc k + length xs) (?p + int (length (concat (map xdr_string xs))))
        (take (Suc k) (av[k := b]) @ bs @ drop (Suc k + length xs) (av[k := b]))"
    "map string_of_block bs = xs" by blast
  then show ?case
    using b(2) bx Cons.prems(7)
    by (intro exI [of _ "b # bs"]) (simp add: length_xdr_string take_Suc_conv_app_nth add.assoc del: read_string_loop.simps)
qed


section \<open>Properties\<close>

text \<open>
  Writing an integer with \<^verbatim>\<open>netsys_s_write_int4_64\<close> at a position with four
  bytes of space changes only these bytes, and \<^verbatim>\<open>netsys_s_read_int4_64\<close> reads back the
  low 32 bits, sign-extended; an integer in the signed 32 bit range is read back unchanged.
\<close>

theorem netsys_s_int4_roundtrip:
  assumes "0 \<le> p" "p + 4 \<le> int (length s)"
  shows "\<exists>s'. netsys_s_write_int4_64 s p iv = Some s' \<and> length s' = length s \<and>
    (\<forall>i < length s. i < nat p \<or> nat p + 4 \<le> i \<longrightarrow> s' ! i = s ! i) \<and>
    netsys_s_read_int4_64 s' p = Some (Val_long (scast (ucast (Long_val iv) :: u32))) \<and>
    (\<forall>i. iv = Val_long (word_of_int i) \<and> - (2 ^ 31) \<le> i \<and> i < 2 ^ 31 \<longrightarrow>
       netsys_s_read_int4_64 s' p = Some iv)"
proof -
  let ?w = "ucast (Long_val iv) :: u32"
  let ?s = "take (nat p) s @ be32_bytes ?w @ drop (nat p + 4) s"
  have "nat p + 4 \<le> length s" using assms by linarith
  then have w: "netsys_s_write_int4_64 s p iv = Some ?s"
    using assms(1) by (simp add: netsys_s_write_int4_64_def store_be32_def blit_def add.commute)
  have r: "netsys_s_read_int4_64 ?s p = Some (Val_long (scast ?w))"
    using load_be32_append [of p "take (nat p) s" ?w "drop (nat p + 4) s"] assms
    by (simp add: netsys_s_read_int4_64_def)
  have n: "\<forall>i < length s. i < nat p \<or> nat p + 4 \<le> i \<longrightarrow> ?s ! i = s ! i"
    using assms by (auto simp: nth_append)
  have "netsys_s_read_int4_64 ?s p = Some iv"
    if "iv = Val_long (word_of_int i)" "- (2 ^ 31) \<le> i" "i < 2 ^ 31" for i
    using r Long_val_Val_long [of i] scast_ucast_u32 [of i] that by simp
  then show ?thesis using w r n assms by (intro exI [of _ ?s]) auto
qed

theorem netsys_s_int4_roundtrip_witness:
  "\<exists>s'. netsys_s_write_int4_64 [1, 2, 3, 4, 5, 6] 1 (Val_long (word_of_int (- 2))) = Some s' \<and>
    s' ! 0 = 1 \<and> s' ! 5 = 6 \<and> netsys_s_read_int4_64 s' 1 = Some (Val_long (word_of_int (- 2)))"
proof -
  let ?s = "[1, 2, 3, 4, 5, 6] :: u8 list" and ?v = "Val_long (word_of_int (- 2))"
  have "\<exists>s'. netsys_s_write_int4_64 ?s 1 ?v = Some s' \<and> length s' = length ?s \<and>
    (\<forall>i < length ?s. i < nat 1 \<or> nat 1 + 4 \<le> i \<longrightarrow> s' ! i = ?s ! i) \<and>
    netsys_s_read_int4_64 s' 1 = Some (Val_long (scast (ucast (Long_val ?v) :: u32))) \<and>
    (\<forall>i. ?v = Val_long (word_of_int i) \<and> - (2 ^ 31) \<le> i \<and> i < 2 ^ 31 \<longrightarrow>
       netsys_s_read_int4_64 s' 1 = Some ?v)"
    by (rule netsys_s_int4_roundtrip) simp_all
  then obtain s' where s': "netsys_s_write_int4_64 ?s 1 ?v = Some s'"
    "\<forall>i < length ?s. i < nat 1 \<or> nat 1 + 4 \<le> i \<longrightarrow> s' ! i = ?s ! i"
    "\<forall>i. ?v = Val_long (word_of_int i) \<and> - (2 ^ 31) \<le> i \<and> i < 2 ^ 31 \<longrightarrow>
       netsys_s_read_int4_64 s' 1 = Some ?v" by blast
  have "netsys_s_read_int4_64 s' 1 = Some ?v" by (rule s'(3) [rule_format, of "- 2"]) simp
  then show ?thesis using s'(1) s'(2) [rule_format, of 0] s'(2) [rule_format, of 5] by auto
qed

text \<open>
  Claim C25: \<^verbatim>\<open>netsys_s_read_string_array\<close> is memory safe on every input. For any bytes, any
  range inside the string and any limit it reads and writes only inside the string, the
  fresh string blocks and the array; it ends with -1, -2 or 0 before the array is complete
  or with a position (at most three padding bytes behind the range); the strings stored
  respect the limit and the other elements are unchanged. The runtime's allocator is only
  assumed to lay out blocks for the requested length.
\<close>

theorem netsys_s_read_string_array_safe:
  assumes "0 \<le> pv" "lv + pv \<le> int (length s)" "alloc_string_ok alloc"
  shows "\<exists>res k av'. netsys_s_read_string_array shr alloc s pv lv m av = Some (res, av') \<and>
    k \<le> length av \<and> length av' = length av \<and>
    (if k < length av then res \<in> {0, -1, -2} else pv \<le> res \<and> (res \<le> pv + lv + 3 \<or> res = pv)) \<and>
    (\<forall>i < length av. if i < k then length (string_of_block (av' ! i)) \<le> unat m else av' ! i = av ! i)"
proof -
  obtain err p' k av' where "read_string_loop shr alloc (length av > 5000 \<or> lv > 20000) s (lv + pv) m
      (length av) 0 pv av = Some (err, p', k, av')" "k \<le> length av" "length av' = length av"
    "\<forall>i < length av. if i < k then length (string_of_block (av' ! i)) \<le> unat m else av' ! i = av ! i"
    "err = 0 \<or> (err = -1 \<or> err = -2) \<and> k < length av" "pv \<le> p'" "p' \<le> lv + pv + 3 \<or> p' = pv"
    using read_string_loop_ok [of pv "lv + pv" s 0 "length av" av alloc shr
        "length av > 5000 \<or> lv > 20000" m] assms by auto
  then show ?thesis
    by (intro exI [of _ "if k \<ge> length av then p' else err"] exI [of _ k] exI [of _ av'])
      (auto simp: netsys_s_read_string_array_def add.commute)
qed

text \<open>An allocator with the layout of the runtime.\<close>

definition sample_alloc :: "nat \<Rightarrow> u8 list" where
  "sample_alloc n = the (netsys_alloc_string_shr (\<lambda>_ _. 0) n)"

lemma sample_alloc_ok: "alloc_string_ok sample_alloc"
  unfolding alloc_string_ok_def sample_alloc_def
  using alloc_string_shr_ok [of "\<lambda>_ _. 0"] by (metis option.sel)

theorem netsys_s_read_string_array_safe_witness:
  "\<exists>res k av'. netsys_s_read_string_array (\<lambda>_ _. 7) sample_alloc [0, 0, 0, 9, 1, 2] 0 6 4 [[8]] = Some (res, av') \<and>
    k \<le> length [[8 :: u8]] \<and> length av' = length [[8 :: u8]] \<and>
    (if k < length [[8 :: u8]] then res \<in> {0, -1, -2} else 0 \<le> res \<and> (res \<le> 0 + 6 + 3 \<or> res = 0)) \<and>
    (\<forall>i < length [[8 :: u8]]. if i < k then length (string_of_block (av' ! i)) \<le> unat (4 :: u32)
       else av' ! i = [[8]] ! i)"
  by (rule netsys_s_read_string_array_safe) (simp_all add: sample_alloc_ok)

text \<open>
  Claim C26: round trip of string arrays. Reading the XDR representation of a list of
  strings (a big-endian length, the bytes, zero padding to a multiple of four) into an array
  of the same length stores exactly these strings and returns the position behind the
  representation, wherever it stands in the string and whichever allocator is chosen, as
  long as the range is shorter than 4 GiB and the strings respect the limit.
\<close>

theorem netsys_s_read_string_array_roundtrip:
  assumes "\<forall>x \<in> set xs. length x \<le> unat m" "length av = length xs" "alloc_string_ok alloc"
  defines "enc \<equiv> concat (map xdr_string xs)"
  assumes "int (length enc) \<le> lv" "lv < 2 ^ 32" "lv \<le> int (length (enc @ post))"
  shows "\<exists>av'. netsys_s_read_string_array shr alloc (pre @ enc @ post) (int (length pre)) lv m av =
      Some (int (length (pre @ enc)), av') \<and> map string_of_block av' = xs"
proof -
  let ?s = "pre @ enc @ post" and ?p = "int (length pre)"
  have "\<exists>bs. read_string_loop shr alloc (length av > 5000 \<or> lv > 20000) ?s (lv + ?p) m (length xs + 0) 0 ?p av =
      read_string_loop shr alloc (length av > 5000 \<or> lv > 20000) ?s (lv + ?p) m 0 (0 + length xs)
        (?p + int (length enc)) (take 0 av @ bs @ drop (0 + length xs) av) \<and> map string_of_block bs = xs"
    unfolding enc_def by (rule read_string_loop_encoded [where rest = post]) (use assms in simp_all)
  then obtain bs where "read_string_loop shr alloc (length av > 5000 \<or> lv > 20000) ?s (lv + ?p) m
      (length av) 0 ?p av = Some (0, ?p + int (length enc), length xs, bs)" "map string_of_block bs = xs"
    using assms(2) by auto
  then show ?thesis using assms(2) by (simp add: netsys_s_read_string_array_def)
qed

theorem netsys_s_read_string_array_roundtrip_witness:
  "\<exists>av'. netsys_s_read_string_array (\<lambda>_ _. 7) sample_alloc (xdr_string [65, 66, 67] @ xdr_string []) 0 12 3 [[], []] =
     Some (12, av') \<and> map string_of_block av' = [[65, 66, 67], []]"
  using netsys_s_read_string_array_roundtrip [of "[[65, 66, 67], []]" 3 "[[], []]" sample_alloc 12 "[]" "\<lambda>_ _. 7" "[]"]
    sample_alloc_ok by (simp add: length_xdr_string xdr_pad_def)

text \<open>
  A range that ends in front of or inside a length field is not reported as an
  error. After the complete representations of fewer strings than the array has elements,
  with fewer than four bytes left, the function returns 0, neither -1 as its interface
  promises for a truncated representation nor a position behind the data.
\<close>

theorem netsys_s_read_string_array_truncated:
  assumes "\<forall>x \<in> set xs. length x \<le> unat m" "length xs < length av" "alloc_string_ok alloc"
  defines "enc \<equiv> concat (map xdr_string xs)"
  assumes "length post < 4" "length (enc @ post) < 2 ^ 32"
  shows "\<exists>av'. netsys_s_read_string_array shr alloc (pre @ enc @ post) (int (length pre))
      (int (length (enc @ post))) m av = Some (0, av')"
proof -
  let ?s = "pre @ enc @ post" and ?p = "int (length pre)" and ?l = "int (length (enc @ post))"
  obtain r where r: "length av = length xs + Suc r"
    using assms(2) less_iff_Suc_add by auto
  have "?l < int (2 ^ 32)" using assms(6) by (simp only: of_nat_less_iff)
  then have b: "?l < 2 ^ 32" by simp
  have "\<exists>bs. read_string_loop shr alloc (length av > 5000 \<or> ?l > 20000) ?s (?l + ?p) m (length xs + Suc r) 0 ?p av =
      read_string_loop shr alloc (length av > 5000 \<or> ?l > 20000) ?s (?l + ?p) m (Suc r) (0 + length xs)
        (?p + int (length enc)) (take 0 av @ bs @ drop (0 + length xs) av) \<and> map string_of_block bs = xs"
    using assms(1-3,5) b unfolding enc_def
    by (intro read_string_loop_encoded [where rest = post]) (simp_all add: enc_def)
  then obtain av' where "read_string_loop shr alloc (length av > 5000 \<or> ?l > 20000) ?s (?l + ?p) m
      (length av) 0 ?p av = Some (0, ?p + int (length enc), length xs, av')"
    using r assms(5) by auto
  then show ?thesis using assms(2) by (simp add: netsys_s_read_string_array_def)
qed

theorem netsys_s_read_string_array_truncated_witness:
  "\<exists>av'. netsys_s_read_string_array (\<lambda>_ _. 7) sample_alloc (xdr_string [65, 66, 67] @ [0, 0]) 0 10 3 [[], []] = Some (0, av')"
  using netsys_s_read_string_array_truncated [of "[[65, 66, 67]]" 3 "[[], []]" sample_alloc "[0, 0]" "\<lambda>_ _. 7" "[]"]
    sample_alloc_ok by (simp add: length_xdr_string xdr_pad_def)

end
