(* ===== verification/Subprocess.thy ===== *)
theory Subprocess
  imports Netsys_Prelude
begin

text \<open>
  The SIGCHLD handler and the list of watched subprocesses of
  \<^verbatim>\<open>src/src/netsys/netsys_c_subprocess.c\<close>, in the configuration with POSIX signals and
  POSIX threads.

  The record \<open>sp\<close> holds the static variables of the file. The operating system appears
  in two ways. What system calls answer is the record \<open>os\<close>, an argument of the functions
  that make such calls. What they change is kept in the state: the mutex, the signal mask,
  the set of open descriptors, the messages waiting in the helper thread's pipe, and a log of
  the descriptors closed (with a flag telling whether the descriptor was open), the signals
  sent and the messages printed.

  Results are \<open>None\<close> when the code dereferences a \<open>NULL\<close> list, accesses an element outside
  it, overflows the length of the list, or waits for a mutex that is never released. The
  modification counter wraps around.
\<close>

datatype os_event = Closed int bool | Killed int int | Stderr string

record sigchld_atom =
  sa_pid :: int
  sa_pgid :: int
  sa_kill_flag :: bool
  sa_terminated :: bool
  sa_status :: u32
  sa_ignore :: bool
  sa_pipe_fd :: int
  sa_kill_sent :: bool

record sp =
  sigchld_list :: "sigchld_atom list option"
  sigchld_list_len :: int
  sigchld_list_cnt :: u32
  sigchld_init :: bool
  sigchld_pipe_wr :: int
  sigchld_pipe_rd :: int
  sp_mutex :: bool
  sp_sig_blocked :: bool
  sp_handler :: bool
  sp_open :: "int set"
  sp_pipe :: "int list"
  sp_log :: "os_event list"

text \<open>
  Answers of the system calls: \<open>os_pipe i\<close> is the result of the i-th \<^verbatim>\<open>pipe\<close> of the call
  (an \<^verbatim>\<open>errno\<close> or the read and write ends), \<open>os_fcntl fd\<close> the error of
  \<^verbatim>\<open>fcntl(fd, F_SETFD, FD_CLOEXEC)\<close> if any, \<open>os_waitpid k pid\<close> the result, the status and
  the \<^verbatim>\<open>errno\<close> of the k-th \<^verbatim>\<open>waitpid(pid, _, WNOHANG)\<close>, \<open>os_malloc n\<close> the contents of a
  fresh block for \<open>n\<close> atoms.
\<close>

record os =
  os_pipe :: "nat \<Rightarrow> int + int \<times> int"
  os_fcntl :: "int \<Rightarrow> int option"
  os_pthread_create :: "int option"
  os_sigaction :: "int option"
  os_waitpid :: "nat \<Rightarrow> int \<Rightarrow> int \<times> u32 \<times> int"
  os_malloc :: "int \<Rightarrow> (nat \<Rightarrow> sigchld_atom) option"

definition sp_emit :: "os_event \<Rightarrow> sp \<Rightarrow> sp" where
  "sp_emit e s = s\<lparr>sp_log := sp_log s @ [e]\<rparr>"

definition sp_close :: "int \<Rightarrow> sp \<Rightarrow> sp" where
  "sp_close fd s = sp_emit (Closed fd (fd \<in> sp_open s)) (s\<lparr>sp_open := sp_open s - {fd}\<rparr>)"

definition sp_opened :: "int \<times> int \<Rightarrow> sp \<Rightarrow> sp" where
  "sp_opened p s = s\<lparr>sp_open := insert (fst p) (insert (snd p) (sp_open s))\<rparr>"

section \<open>Locking\<close>

definition sigchld_lock :: "bool \<Rightarrow> sp \<Rightarrow> sp option" where
  "sigchld_lock block_signal s =
     (if sp_mutex s then None
      else Some (s\<lparr>sp_mutex := True, sp_sig_blocked := sp_sig_blocked s \<or> block_signal\<rparr>))"

definition sigchld_unlock :: "bool \<Rightarrow> sp \<Rightarrow> sp" where
  "sigchld_unlock unblock_signal s =
     s\<lparr>sp_mutex := False, sp_sig_blocked := sp_sig_blocked s \<and> \<not> unblock_signal\<rparr>"

text \<open>Elements \<open>0, \<dots>, sigchld_list_len - 1\<close> of the list, as the loops visit them, and one element.\<close>

definition sp_atoms :: "sp \<Rightarrow> sigchld_atom list option" where
  "sp_atoms s =
     (if sigchld_list_len s \<le> 0 then Some []
      else do {
        l \<leftarrow> sigchld_list s;
        if nat (sigchld_list_len s) \<le> length l then Some (take (nat (sigchld_list_len s)) l) else None
      })"

definition sp_set_atoms :: "sigchld_atom list \<Rightarrow> sp \<Rightarrow> sp" where
  "sp_set_atoms xs s = s\<lparr>sigchld_list := map_option (\<lambda>l. xs @ drop (length xs) l) (sigchld_list s)\<rparr>"

definition sp_atom :: "int \<Rightarrow> sp \<Rightarrow> sigchld_atom option" where
  "sp_atom i s = do { l \<leftarrow> sigchld_list s; if i < 0 then None else rd l (nat i) }"

definition sp_set_atom :: "int \<Rightarrow> sigchld_atom \<Rightarrow> sp \<Rightarrow> sp" where
  "sp_set_atom i a s = s\<lparr>sigchld_list := map_option (\<lambda>l. l[nat i := a]) (sigchld_list s)\<rparr>"

section \<open>The signal handler and the helper thread\<close>

definition sigchld_check :: "os \<Rightarrow> nat \<Rightarrow> sigchld_atom \<Rightarrow> sp \<Rightarrow> sigchld_atom \<times> sp" where
  "sigchld_check os k atom s =
     (if sa_pid atom \<noteq> 0 \<and> \<not> sa_terminated atom
      then case os_waitpid os k (sa_pid atom) of
             (code, status, err) \<Rightarrow>
               let s1 = (if code = -1 then sp_emit (Stderr ''Netsys: waitpid returns error'') s else s)
               in if code > 0
                  then let s2 = (if \<not> sa_ignore atom then sp_close (sa_pipe_fd atom) s1 else s1);
                           a2 = atom\<lparr>sa_status := status, sa_terminated := True\<rparr>;
                           a3 = (if sa_ignore atom then a2\<lparr>sa_pid := 0\<rparr> else a2)
                       in (a3, s2)
                  else (atom, s1)
      else (atom, s))"

primrec sigchld_check_all :: "os \<Rightarrow> nat \<Rightarrow> sigchld_atom list \<Rightarrow> sp \<Rightarrow> sigchld_atom list \<times> sp" where
  "sigchld_check_all os k [] s = ([], s)"
| "sigchld_check_all os k (a # as) s =
     (case sigchld_check os k a s of
        (a', s') \<Rightarrow> case sigchld_check_all os (Suc k) as s' of (as', s'') \<Rightarrow> (a' # as', s''))"

definition sigchld_process :: "os \<Rightarrow> int \<Rightarrow> sp \<Rightarrow> sp option" where
  "sigchld_process os pid s =
     do {
       s1 \<leftarrow> sigchld_lock False s;
       let old_cnt = sigchld_list_cnt s1;
       as \<leftarrow> sp_atoms s1;
       let (as', s2) = sigchld_check_all os 0 as s1;
       let s3 = sp_set_atoms as' s2;
       let s4 = (if old_cnt \<noteq> sigchld_list_cnt s3
                 then sp_emit (Stderr ''Netsys: sigchld_process: bug in mutual exclusion'') s3 else s3);
       Some (sigchld_unlock False s4)
     }"

text \<open>
  The helper thread runs until \<^verbatim>\<open>read\<close> reports the end of the pipe or an error; the list
  holds the answers of the successive calls of \<^verbatim>\<open>read\<close>: the number of bytes, the \<^verbatim>\<open>errno\<close>
  and the process ID read, with the answers of the \<^verbatim>\<open>waitpid\<close> calls that follow. At the end
  of the list the thread waits in \<^verbatim>\<open>read\<close>. The flag of the result tells whether it ended.
\<close>

primrec sigchld_consumer :: "(int \<times> int \<times> int \<times> os) list \<Rightarrow> int \<Rightarrow> sp \<Rightarrow> (bool \<times> sp) option" where
  "sigchld_consumer [] EINTR s = Some (False, s)"
| "sigchld_consumer (r # rs) EINTR s =
     (case r of (n, errno, pid, os) \<Rightarrow>
        if n = 0 then Some (True, s)
        else if n = -1 \<and> errno = EINTR then sigchld_consumer rs EINTR s
        else if n = -1 \<or> n \<noteq> 4
        then Some (True, sp_emit (Stderr ''Netsys: sigchld_consumer thread terminates after error'') s)
        else do {
          s' \<leftarrow> sigchld_process os pid (s\<lparr>sp_pipe := tl (sp_pipe s)\<rparr>);
          sigchld_consumer rs EINTR s'
        })"

text \<open>The answers of \<^verbatim>\<open>write\<close>; \<open>None\<close> when it is interrupted in all of them.\<close>

primrec sigchld_producer_loop :: "(int \<times> int) list \<Rightarrow> int \<Rightarrow> int \<Rightarrow> sp \<Rightarrow> sp option" where
  "sigchld_producer_loop [] EINTR pid s = None"
| "sigchld_producer_loop (w # ws) EINTR pid s =
     (case w of (n, errno) \<Rightarrow>
        if n \<noteq> -1 \<or> errno \<noteq> EINTR
        then Some (if n = 4 then s\<lparr>sp_pipe := sp_pipe s @ [pid]\<rparr> else s)
        else sigchld_producer_loop ws EINTR pid s)"

definition sigchld_producer :: "(int \<times> int) list \<Rightarrow> int \<Rightarrow> int \<Rightarrow> sp \<Rightarrow> sp option" where
  "sigchld_producer ws EINTR pid s =
     (if \<not> sigchld_init s then Some s else sigchld_producer_loop ws EINTR pid s)"

datatype si_code = CLD_EXITED | CLD_KILLED | CLD_DUMPED | CLD_TRAPPED | CLD_STOPPED | CLD_CONTINUED

definition sigchld_action :: "(int \<times> int) list \<Rightarrow> int \<Rightarrow> si_code \<Rightarrow> int \<Rightarrow> sp \<Rightarrow> sp option" where
  "sigchld_action ws EINTR code si_pid s =
     (if code = CLD_EXITED \<or> code = CLD_KILLED \<or> code = CLD_DUMPED
      then sigchld_producer ws EINTR si_pid s else Some s)"

definition sigchld_init_mt :: "os \<Rightarrow> nat \<Rightarrow> sp \<Rightarrow> int \<times> int \<times> sp" where
  "sigchld_init_mt os i s =
     (if sigchld_init s then (0, 0, s)
      else case os_pipe os i of
        Inl e \<Rightarrow> (-1, e, s)
      | Inr fds \<Rightarrow>
          let s1 = sp_opened fds (s\<lparr>sigchld_pipe_rd := fst fds, sigchld_pipe_wr := snd fds\<rparr>);
              fail = (\<lambda>e. (-1, e, sp_close (sigchld_pipe_wr s1) (sp_close (sigchld_pipe_rd s1) s1)))
          in case os_fcntl os (sigchld_pipe_rd s1) of
               Some e \<Rightarrow> fail e
             | None \<Rightarrow>
                 (case os_fcntl os (sigchld_pipe_wr s1) of
                    Some e \<Rightarrow> fail e
                  | None \<Rightarrow>
                      (case os_pthread_create os of
                         Some e \<Rightarrow> fail e
                       | None \<Rightarrow> (0, 0, s1\<lparr>sigchld_init := True\<rparr>))))"

section \<open>The primitives\<close>

definition netsys_install_sigchld_handler :: "os \<Rightarrow> sp \<Rightarrow> ((exn + unit) \<times> sp) option" where
  "netsys_install_sigchld_handler os s =
     do {
       s1 \<leftarrow> sigchld_lock True s;
       let (ok, s2) =
         (case sigchld_list s1 of
            Some l \<Rightarrow> (True, s1)
          | None \<Rightarrow>
              (case os_malloc os 100 of
                 None \<Rightarrow> (False, s1\<lparr>sigchld_list_len := 100\<rparr>)
               | Some f \<Rightarrow> (True, s1\<lparr>sigchld_list_len := 100,
                     sigchld_list := Some (map (\<lambda>k. (f k)\<lparr>sa_pid := 0\<rparr>) [0..<100])\<rparr>)));
       if \<not> ok then Some (Inl (Failure ''Cannot allocate memory''), s2)
       else case os_sigaction os of
              Some e \<Rightarrow> Some (Inl (Unix_error e ''sigaction''), sigchld_unlock True s2)
            | None \<Rightarrow> Some (Inr (), sigchld_unlock True (s2\<lparr>sp_handler := True\<rparr>))
     }"

primrec close_watched :: "sigchld_atom list \<Rightarrow> sp \<Rightarrow> sp" where
  "close_watched [] s = s"
| "close_watched (a # as) s =
     close_watched as
       (if sa_pid a \<noteq> 0 \<and> \<not> sa_ignore a \<and> \<not> sa_terminated a then sp_close (sa_pipe_fd a) s else s)"

definition netsys_subprocess_cleanup_after_fork :: "os \<Rightarrow> sp \<Rightarrow> ((exn + unit) \<times> sp) option" where
  "netsys_subprocess_cleanup_after_fork os s =
     do {
       let reinit = (sigchld_list s \<noteq> None);
       s1 \<leftarrow> (if reinit
              then do {
                as \<leftarrow> sp_atoms s;
                Some ((close_watched as s)\<lparr>sigchld_list := None\<rparr>)
              }
              else Some s);
       let s2 = (if sigchld_init s1
                 then (sp_close (sigchld_pipe_wr s1) (sp_close (sigchld_pipe_rd s1) s1))
                        \<lparr>sigchld_init := False, sp_mutex := False\<rparr>
                 else s1);
       if reinit then netsys_install_sigchld_handler os s2 else Some (Inr (), s2)
     }"

primrec find_free :: "nat \<Rightarrow> sigchld_atom list \<Rightarrow> nat option" where
  "find_free k [] = None"
| "find_free k (a # as) = (if sa_pid a = 0 then Some k else find_free (Suc k) as)"

text \<open>
  The search for a free atom and the reallocation. The result is the index, or \<open>None\<close> when
  \<^verbatim>\<open>realloc\<close> returns \<open>NULL\<close>, in which case the list is lost.
\<close>

definition watch_slot :: "os \<Rightarrow> sp \<Rightarrow> (nat option \<times> sp) option" where
  "watch_slot os s =
     do {
       as \<leftarrow> sp_atoms s;
       case find_free 0 as of
         Some k \<Rightarrow> Some (Some k, s)
       | None \<Rightarrow>
           let old_size = sigchld_list_len s;
               len = old_size + old_size
           in if len \<ge> 2 ^ 31 then None
              else case os_malloc os len of
                     None \<Rightarrow> Some (None, s\<lparr>sigchld_list_len := len, sigchld_list := None\<rparr>)
                   | Some f \<Rightarrow>
                       let l = as @ map (\<lambda>k. (f k)\<lparr>sa_pid := 0\<rparr>) [nat old_size..<nat len] in
                       if nat old_size < length l
                       then Some (Some (nat old_size), s\<lparr>sigchld_list_len := len, sigchld_list := Some l\<rparr>)
                       else None
     }"

definition watch_enter ::
    "os \<Rightarrow> int \<Rightarrow> int \<Rightarrow> bool \<Rightarrow> int \<times> int \<Rightarrow> sp \<Rightarrow> ((exn + int \<times> int) \<times> sp) option" where
  "watch_enter os pid pgid kill_flag pfd s =
     do {
       (slot, s1) \<leftarrow> watch_slot os s;
       case slot of
         None \<Rightarrow> Some (Inl (Failure ''Cannot allocate memory''),
                       sp_close (snd pfd) (sp_close (fst pfd) (sigchld_unlock True s1)))
       | Some k \<Rightarrow>
           (case os_waitpid os 0 pid of
              (code, status, err) \<Rightarrow>
                if code = -1
                then Some (Inl (Unix_error err ''waitpid''),
                           sp_close (snd pfd) (sp_close (fst pfd) (sigchld_unlock True s1)))
                else do {
                  a \<leftarrow> sp_atom (int k) s1;
                  let a' = a\<lparr>sa_pid := pid, sa_pgid := pgid, sa_kill_flag := kill_flag, sa_ignore := False\<rparr>;
                  let s2 =
                    (if code = 0
                     then sp_set_atom (int k)
                            (a'\<lparr>sa_terminated := False, sa_status := 0, sa_pipe_fd := snd pfd\<rparr>) s1
                     else sp_set_atom (int k)
                            (a'\<lparr>sa_terminated := True, sa_status := status, sa_pipe_fd := -1\<rparr>)
                            (sp_close (snd pfd) s1));
                  let s3 = s2\<lparr>sigchld_list_cnt := sigchld_list_cnt s2 + 1\<rparr>;
                  Some (Inr (fst pfd, int k), sigchld_unlock True s3)
                })
     }"

definition netsys_watch_subprocess ::
    "os \<Rightarrow> int \<Rightarrow> int \<Rightarrow> bool \<Rightarrow> sp \<Rightarrow> ((exn + int \<times> int) \<times> sp) option" where
  "netsys_watch_subprocess os pid pgid kill_flag s =
     (if sigchld_list s = None
      then Some (Inl (Failure ''Netsys_posix.watch_subprocess: uninitialized''), s)
      else case os_pipe os 0 of
        Inl e \<Rightarrow> Some (Inl (Unix_error e ''pipe''), s)
      | Inr pfd \<Rightarrow>
          let s1 = sp_opened pfd s in
          (case (case os_fcntl os (fst pfd) of Some e \<Rightarrow> Some e | None \<Rightarrow> os_fcntl os (snd pfd)) of
             Some e \<Rightarrow> Some (Inl (Unix_error e ''set_close_on_exec''),
                             sp_close (snd pfd) (sp_close (fst pfd) s1))
           | None \<Rightarrow>
               do {
                 s2 \<leftarrow> sigchld_lock True s1;
                 let (code, e, s3) = sigchld_init_mt os 1 s2;
                 if code = -1
                 then Some (Inl (Unix_error e ''netsys_watch_subprocess [delayed init]''),
                            sigchld_unlock True s3)
                 else watch_enter os pid pgid kill_flag pfd s3
               }))"

definition netsys_ignore_subprocess :: "int \<Rightarrow> sp \<Rightarrow> sp option" where
  "netsys_ignore_subprocess atom_idx s =
     do {
       s1 \<leftarrow> sigchld_lock True s;
       atom \<leftarrow> sp_atom atom_idx s1;
       let s2 = (if \<not> sa_ignore atom \<and> \<not> sa_terminated atom then sp_close (sa_pipe_fd atom) s1 else s1);
       let s3 = sp_set_atom atom_idx (atom\<lparr>sa_ignore := True\<rparr>) s2;
       Some (sigchld_unlock True s3)
     }"

definition netsys_forget_subprocess :: "int \<Rightarrow> sp \<Rightarrow> sp option" where
  "netsys_forget_subprocess atom_idx s =
     do {
       s1 \<leftarrow> sigchld_lock True s;
       atom \<leftarrow> sp_atom atom_idx s1;
       let s2 = sp_set_atom atom_idx (atom\<lparr>sa_pid := 0\<rparr>) s1;
       let s3 = (if \<not> sa_ignore atom \<and> \<not> sa_terminated atom then sp_close (sa_pipe_fd atom) s2 else s2);
       Some (sigchld_unlock True s3)
     }"

datatype process_status = WEXITED u32 | WSIGNALED int

definition WTERMSIG :: "u32 \<Rightarrow> u32" where "WTERMSIG st = st AND 0x7f"
definition WIFEXITED :: "u32 \<Rightarrow> bool" where "WIFEXITED st \<longleftrightarrow> WTERMSIG st = 0"
definition WEXITSTATUS :: "u32 \<Rightarrow> u32" where "WEXITSTATUS st = drop_bit 8 (st AND 0xff00)"

definition netsys_get_subprocess_status ::
    "(u32 \<Rightarrow> int) \<Rightarrow> int \<Rightarrow> sp \<Rightarrow> (process_status option \<times> sp) option" where
  "netsys_get_subprocess_status rev_convert_signal_number atom_idx s =
     do {
       s1 \<leftarrow> sigchld_lock True s;
       copy \<leftarrow> sp_atom atom_idx s1;
       let s2 = sigchld_unlock True s1;
       Some (if sa_terminated copy
             then Some (if WIFEXITED (sa_status copy) then WEXITED (WEXITSTATUS (sa_status copy))
                        else WSIGNALED (rev_convert_signal_number (WTERMSIG (sa_status copy))))
             else None, s2)
     }"

definition netsys_kill_subprocess :: "int \<Rightarrow> int \<Rightarrow> sp \<Rightarrow> sp option" where
  "netsys_kill_subprocess sig atom_idx s =
     do {
       s1 \<leftarrow> sigchld_lock True s;
       atom \<leftarrow> sp_atom atom_idx s1;
       let s2 = (if \<not> sa_terminated atom then sp_emit (Killed (sa_pid atom) sig) s1 else s1);
       Some (sigchld_unlock True s2)
     }"

primrec pg_exists :: "sigchld_atom list \<Rightarrow> bool" where
  "pg_exists [] = False"
| "pg_exists (a # as) = (if sa_pid a \<noteq> 0 \<and> \<not> sa_terminated a then True else pg_exists as)"

definition netsys_killpg_subprocess :: "int \<Rightarrow> int \<Rightarrow> sp \<Rightarrow> sp option" where
  "netsys_killpg_subprocess sig atom_idx s =
     do {
       s1 \<leftarrow> sigchld_lock True s;
       atom \<leftarrow> sp_atom atom_idx s1;
       let pgid = sa_pgid atom;
       s2 \<leftarrow> (if pgid > 0
              then do {
                as \<leftarrow> sp_atoms s1;
                Some (if pg_exists as then sp_emit (Killed (- pgid) sig) s1 else s1)
              }
              else Some s1);
       Some (sigchld_unlock True s2)
     }"

primrec kill_all_loop :: "int \<Rightarrow> bool \<Rightarrow> bool \<Rightarrow> sigchld_atom list \<Rightarrow> sp \<Rightarrow> sp" where
  "kill_all_loop sig o_flag ng_flag [] s = s"
| "kill_all_loop sig o_flag ng_flag (a # as) s =
     kill_all_loop sig o_flag ng_flag as
       (if sa_pid a \<noteq> 0 \<and> \<not> sa_terminated a \<and> (\<not> ng_flag \<or> sa_pgid a = 0) \<and> (o_flag \<or> sa_kill_flag a)
        then sp_emit (Killed (sa_pid a) sig) s else s)"

definition netsys_kill_all_subprocesses ::
    "int \<Rightarrow> bool \<Rightarrow> bool \<Rightarrow> sp \<Rightarrow> ((exn + unit) \<times> sp) option" where
  "netsys_kill_all_subprocesses sig o_flag ng_flag s =
     (if sigchld_list s = None
      then Some (Inl (Failure ''Netsys_posix.watch_subprocess: uninitialized''), s)
      else do {
        s1 \<leftarrow> sigchld_lock True s;
        as \<leftarrow> sp_atoms s1;
        Some (Inr (), sigchld_unlock True (kill_all_loop sig o_flag ng_flag as s1))
      })"

definition mark_sent :: "int \<Rightarrow> sigchld_atom \<Rightarrow> sigchld_atom" where
  "mark_sent pgid a = (if sa_pid a \<noteq> 0 \<and> sa_pgid a = pgid then a\<lparr>sa_kill_sent := True\<rparr> else a)"

definition pg_selected :: "bool \<Rightarrow> sigchld_atom \<Rightarrow> bool" where
  "pg_selected o_flag a \<longleftrightarrow> sa_pid a \<noteq> 0 \<and> \<not> sa_terminated a \<and> sa_pgid a > 0 \<and> (o_flag \<or> sa_kill_flag a)"

function killpg_all_loop :: "int \<Rightarrow> bool \<Rightarrow> sigchld_atom list \<Rightarrow> sp \<Rightarrow> sigchld_atom list \<times> sp" where
  "killpg_all_loop sig o_flag [] s = ([], s)"
| "killpg_all_loop sig o_flag (a # as) s =
     (if pg_selected o_flag a \<and> \<not> sa_kill_sent a
      then case killpg_all_loop sig o_flag (map (mark_sent (sa_pgid a)) as)
                  (sp_emit (Killed (- sa_pgid a) sig) s) of (as', s') \<Rightarrow> (a # as', s')
      else case killpg_all_loop sig o_flag as s of (as', s') \<Rightarrow> (a # as', s'))"
  by pat_completeness auto
termination by (relation "measure (\<lambda>(sig, o_flag, as, s). length as)") auto

definition netsys_killpg_all_subprocesses :: "int \<Rightarrow> bool \<Rightarrow> sp \<Rightarrow> ((exn + unit) \<times> sp) option" where
  "netsys_killpg_all_subprocesses sig o_flag s =
     (if sigchld_list s = None
      then Some (Inl (Failure ''Netsys_posix.watch_subprocess: uninitialized''), s)
      else do {
        s1 \<leftarrow> sigchld_lock True s;
        as \<leftarrow> sp_atoms s1;
        let (as', s2) = killpg_all_loop sig o_flag (map (\<lambda>a. a\<lparr>sa_kill_sent := False\<rparr>) as) s1;
        Some (Inr (), sigchld_unlock True (sp_set_atoms as' s2))
      })"


section \<open>Descriptor ownership\<close>

definition sp_live :: "sigchld_atom \<Rightarrow> bool" where
  "sp_live a \<longleftrightarrow> sa_pid a \<noteq> 0 \<and> \<not> sa_ignore a \<and> \<not> sa_terminated a"

definition live_fds :: "sigchld_atom list \<Rightarrow> int list" where
  "live_fds as = map sa_pipe_fd (filter sp_live as)"

text \<open>The descriptors the module has to close: one per live atom and the helper thread's pipe.\<close>

definition sp_owned :: "sp \<Rightarrow> int list" where
  "sp_owned s = live_fds (case sigchld_list s of None \<Rightarrow> [] | Some l \<Rightarrow> l) @
     (if sigchld_init s then [sigchld_pipe_rd s, sigchld_pipe_wr s] else [])"

definition sp_data :: "sp \<Rightarrow> bool" where
  "sp_data s \<longleftrightarrow>
     (case sigchld_list s of None \<Rightarrow> True
      | Some l \<Rightarrow> sigchld_list_len s = int (length l) \<and> l \<noteq> []) \<and>
     distinct (sp_owned s) \<and> set (sp_owned s) \<subseteq> sp_open s \<and>
     (\<forall>fd. Closed fd False \<notin> set (sp_log s))"

definition sp_inv :: "sp \<Rightarrow> bool" where
  "sp_inv s \<longleftrightarrow> \<not> sp_mutex s \<and> \<not> sp_sig_blocked s \<and> sp_data s"

named_theorems sp_simps \<open>definitions of the elementary actions\<close>

lemmas sp_action_defs [sp_simps] =
  sp_emit_def sp_close_def sp_opened_def sigchld_lock_def sigchld_unlock_def sp_set_atom_def

lemma live_fds_simps [simp]:
  "live_fds [] = []"
  "live_fds (a # as) = (if sp_live a then sa_pipe_fd a # live_fds as else live_fds as)"
  "live_fds (as @ bs) = live_fds as @ live_fds bs"
  by (simp_all add: live_fds_def)

lemma live_fds_free [simp]: "(\<forall>a \<in> set as. sa_pid a = 0) \<Longrightarrow> live_fds as = []"
  by (induction as) (auto simp: sp_live_def)

lemma live_fds_update:
  assumes "i < length l"
  shows "live_fds (l[i := a]) = live_fds (take i l) @ live_fds [a] @ live_fds (drop (Suc i) l)"
    and "live_fds l = live_fds (take i l) @ live_fds [l ! i] @ live_fds (drop (Suc i) l)"
  using assms by (simp_all only: upd_conv_take_nth_drop live_fds_simps(3) [symmetric] append_Cons append_Nil
      id_take_nth_drop [symmetric])

lemma sp_dataE:
  assumes "sp_data s" "sigchld_list s = Some l"
  shows "sp_atoms s = Some l" "sigchld_list_len s = int (length l)" "0 < length l"
    "sp_owned s = live_fds l @ (if sigchld_init s then [sigchld_pipe_rd s, sigchld_pipe_wr s] else [])"
  using assms by (auto simp: sp_data_def sp_atoms_def sp_owned_def)

lemma sp_atom_Some_iff:
  "sp_atom i s = Some a \<longleftrightarrow> (\<exists>l. sigchld_list s = Some l \<and> 0 \<le> i \<and> nat i < length l \<and> l ! nat i = a)"
  by (auto simp: sp_atom_def rd_def bind_eq_Some_conv)

section \<open>The handler\<close>

text \<open>What one run of the loop in \<^verbatim>\<open>sigchld_process\<close> does to an atom and to its descriptor.\<close>

definition reaped :: "os \<Rightarrow> nat \<Rightarrow> sigchld_atom \<Rightarrow> bool" where
  "reaped os k a \<longleftrightarrow> sa_pid a \<noteq> 0 \<and> \<not> sa_terminated a \<and> fst (os_waitpid os k (sa_pid a)) > 0"

definition reap :: "os \<Rightarrow> nat \<Rightarrow> sigchld_atom \<Rightarrow> sigchld_atom" where
  "reap os k a =
     (if reaped os k a
      then (a\<lparr>sa_status := fst (snd (os_waitpid os k (sa_pid a))), sa_terminated := True\<rparr>)
             \<lparr>sa_pid := if sa_ignore a then 0 else sa_pid a\<rparr>
      else a)"

primrec reap_all :: "os \<Rightarrow> nat \<Rightarrow> sigchld_atom list \<Rightarrow> sigchld_atom list" where
  "reap_all os k [] = []"
| "reap_all os k (a # as) = reap os k a # reap_all os (Suc k) as"

primrec reap_fds :: "os \<Rightarrow> nat \<Rightarrow> sigchld_atom list \<Rightarrow> int list" where
  "reap_fds os k [] = []"
| "reap_fds os k (a # as) =
     (if reaped os k a \<and> \<not> sa_ignore a then sa_pipe_fd a # reap_fds os (Suc k) as else reap_fds os (Suc k) as)"

lemma reap_all_length [simp]: "length (reap_all os k as) = length as"
  by (induction as arbitrary: k) auto

lemma reap_all_nth: "i < length as \<Longrightarrow> reap_all os k as ! i = reap os (k + i) (as ! i)"
  by (induction as arbitrary: k i) (auto simp: nth_Cons split: nat.splits)

lemma reap_fds_live: "set (reap_fds os k as) \<subseteq> set (live_fds as)"
  by (induction as arbitrary: k) (auto simp: reaped_def sp_live_def)

lemma reap_fds_distinct: "distinct (live_fds as) \<Longrightarrow> distinct (reap_fds os k as)"
  using reap_fds_live by (induction as arbitrary: k) (auto simp: reaped_def sp_live_def split: if_splits)

lemma reap_live:
  "sp_live (reap os k a) \<longleftrightarrow> sp_live a \<and> \<not> reaped os k a"
  "sa_pipe_fd (reap os k a) = sa_pipe_fd a"
  by (auto simp: reap_def sp_live_def)

lemma live_fds_reap_all:
  "distinct (live_fds as) \<Longrightarrow> distinct (live_fds (reap_all os k as)) \<and>
   set (live_fds (reap_all os k as)) = set (live_fds as) - set (reap_fds os k as)"
proof (induction as arbitrary: k)
  case Nil
  then show ?case by simp
next
  case (Cons a as)
  have "reaped os k a \<Longrightarrow> \<not> sa_ignore a \<Longrightarrow> sp_live a" by (simp add: reaped_def sp_live_def)
  moreover have "sp_live a \<Longrightarrow> \<not> sa_ignore a" by (simp add: sp_live_def)
  ultimately show ?case
    using Cons.IH [of "Suc k"] Cons.prems reap_fds_live [of os "Suc k" as]
    by (auto simp: reap_live split: if_splits)
qed

lemma sigchld_check_all_ok:
  assumes "sigchld_check_all os k as s = (as', s')"
    and "distinct (live_fds as)" "set (live_fds as) \<subseteq> sp_open s"
  shows "as' = reap_all os k as \<and> (\<exists>new. s' = s\<lparr>sp_open := sp_open s - set (reap_fds os k as), sp_log := sp_log s @ new\<rparr> \<and>
    (\<forall>fd b. Closed fd b \<in> set new \<longrightarrow> b) \<and> [fd. Closed fd b \<leftarrow> new] = reap_fds os k as \<and>
    (\<forall>p sig. Killed p sig \<notin> set new))"
  using assms
proof (induction as arbitrary: k s as' s')
  case Nil
  then show ?case by (intro conjI exI [of _ "[]"]) simp_all
next
  case (Cons a as)
  obtain code st e where w: "os_waitpid os k (sa_pid a) = (code, st, e)" by (cases "os_waitpid os k (sa_pid a)")
  obtain a1 s1 where a1: "sigchld_check os k a s = (a1, s1)" by fastforce
  obtain as2 s2 where as2: "sigchld_check_all os (Suc k) as s1 = (as2, s2)" by fastforce
  define cl where "cl = (if reaped os k a \<and> \<not> sa_ignore a then [sa_pipe_fd a] else [])"
  define msg where "msg = (if sa_pid a \<noteq> 0 \<and> \<not> sa_terminated a \<and> code = -1
    then [Stderr ''Netsys: waitpid returns error''] else [])"
  have live: "cl \<noteq> [] \<Longrightarrow> sp_live a" by (simp add: cl_def reaped_def sp_live_def split: if_splits)
  then have cl_open: "set cl \<subseteq> sp_open s" using Cons.prems(3) by (auto simp: cl_def split: if_splits)
  have s1: "a1 = reap os k a" "s1 = s\<lparr>sp_open := sp_open s - set cl,
      sp_log := sp_log s @ msg @ map (\<lambda>fd. Closed fd True) cl\<rparr>"
    using a1 w cl_open by (auto simp: sigchld_check_def reap_def reaped_def cl_def msg_def sp_simps Let_def split: if_splits)
  have "set (live_fds as) \<subseteq> sp_open s1" "distinct (live_fds as)"
    using Cons.prems(2,3) live by (auto simp: s1 cl_def split: if_splits)
  from Cons.IH [OF as2 this(2,1)] obtain new where
    new: "as2 = reap_all os (Suc k) as"
      "s2 = s1\<lparr>sp_open := sp_open s1 - set (reap_fds os (Suc k) as), sp_log := sp_log s1 @ new\<rparr>"
      "\<forall>fd b. Closed fd b \<in> set new \<longrightarrow> b" "[fd. Closed fd b \<leftarrow> new] = reap_fds os (Suc k) as"
      "\<forall>p sig. Killed p sig \<notin> set new" by blast
  have "as' = a1 # as2" "s' = s2" using Cons.prems(1) by (simp_all add: a1 as2)
  moreover have fds: "reap_fds os k (a # as) = cl @ reap_fds os (Suc k) as" by (simp add: cl_def)
  moreover have "sp_open s - set cl - set (reap_fds os (Suc k) as) = sp_open s - set (reap_fds os k (a # as))"
    unfolding fds by auto
  moreover have "[fd. Closed fd b \<leftarrow> msg @ map (\<lambda>fd. Closed fd True) cl] = cl"
    by (simp add: msg_def cl_def)
  ultimately show ?case
    using new s1(1) by (intro conjI exI [of _ "msg @ map (\<lambda>fd. Closed fd True) cl @ new"])
      (auto simp: s1(2) msg_def)
qed


lemma sp_data_lock [simp]:
  "sp_data (s\<lparr>sp_mutex := m\<rparr>) = sp_data s" "sp_data (s\<lparr>sp_sig_blocked := b\<rparr>) = sp_data s"
  "sp_data (s\<lparr>sigchld_list_cnt := c\<rparr>) = sp_data s" "sp_data (s\<lparr>sp_handler := h\<rparr>) = sp_data s"
  "sp_data (s\<lparr>sp_pipe := q\<rparr>) = sp_data s"
  by (simp_all add: sp_data_def sp_owned_def cong: option.case_cong)

lemma sp_data_log:
  "\<forall>fd. Closed fd False \<notin> set lg \<Longrightarrow> sp_data (s\<lparr>sp_log := sp_log s @ lg\<rparr>) = sp_data s"
  by (cases "sigchld_init s") (simp_all add: sp_data_def sp_owned_def cong: option.case_cong)

lemma sp_data_kill [simp]: "sp_data (sp_emit (Killed p sig) s) = sp_data s"
  by (simp add: sp_data_def sp_owned_def sp_emit_def cong: option.case_cong)

lemma sigchld_process_ok:
  assumes "sp_inv s" "sigchld_list s = Some l"
  shows "\<exists>new. sigchld_process os pid s =
      Some (s\<lparr>sigchld_list := Some (reap_all os 0 l), sp_open := sp_open s - set (reap_fds os 0 l),
              sp_log := sp_log s @ new\<rparr>) \<and>
    (\<forall>fd b. Closed fd b \<in> set new \<longrightarrow> b) \<and> [fd. Closed fd b \<leftarrow> new] = reap_fds os 0 l \<and>
    (\<forall>p sig. Killed p sig \<notin> set new)"
proof -
  let ?s = "s\<lparr>sp_mutex := True, sp_sig_blocked := False\<rparr>"
  obtain as' s' where c: "sigchld_check_all os 0 l ?s = (as', s')" by fastforce
  have d: "distinct (live_fds l)" "set (live_fds l) \<subseteq> sp_open ?s"
    using assms by (auto simp: sp_inv_def sp_data_def sp_owned_def)
  from sigchld_check_all_ok [OF c d] obtain new where
    "as' = reap_all os 0 l"
    "s' = s\<lparr>sp_mutex := True, sp_sig_blocked := False, sp_open := sp_open s - set (reap_fds os 0 l), sp_log := sp_log s @ new\<rparr>"
    "\<forall>fd b. Closed fd b \<in> set new \<longrightarrow> b" "[fd. Closed fd b \<leftarrow> new] = reap_fds os 0 l"
    "\<forall>p sig. Killed p sig \<notin> set new" by auto
  moreover have "sp_atoms ?s = Some l"
    using assms by (intro sp_dataE(1)) (simp_all add: sp_inv_def)
  moreover have "s\<lparr>sp_mutex := False, sp_sig_blocked := False\<rparr> = s"
    using assms by (simp add: sp_inv_def)
  ultimately show ?thesis
    using assms c by (intro exI [of _ new])
      (simp add: sigchld_process_def sigchld_lock_def sigchld_unlock_def sp_set_atoms_def sp_inv_def Let_def)
qed

lemma sp_inv_reap:
  assumes "sp_inv s" "sigchld_list s = Some l" "\<forall>fd b. Closed fd b \<in> set new \<longrightarrow> b"
  shows "sp_inv (s\<lparr>sigchld_list := Some (reap_all os 0 l), sp_open := sp_open s - set (reap_fds os 0 l),
              sp_log := sp_log s @ new\<rparr>)"
proof -
  have d: "distinct (live_fds l @ (if sigchld_init s then [sigchld_pipe_rd s, sigchld_pipe_wr s] else []))"
    "set (live_fds l @ (if sigchld_init s then [sigchld_pipe_rd s, sigchld_pipe_wr s] else [])) \<subseteq> sp_open s"
    using assms by (auto simp: sp_inv_def sp_data_def sp_owned_def)
  then have "distinct (live_fds l)" by simp
  from live_fds_reap_all [OF this, of os 0] have r: "distinct (live_fds (reap_all os 0 l))"
    "set (live_fds (reap_all os 0 l)) = set (live_fds l) - set (reap_fds os 0 l)" by auto
  have "set (reap_fds os 0 l) \<subseteq> set (live_fds l)" by (rule reap_fds_live)
  moreover have "l \<noteq> [] \<Longrightarrow> reap_all os 0 l \<noteq> []" by (cases l) auto
  ultimately show ?thesis
    using assms d r by (auto simp: sp_inv_def sp_data_def sp_owned_def)
qed

section \<open>Releasing an atom\<close>

text \<open>
  A handle of the OCaml side: \<^verbatim>\<open>Netsys_posix\<close> marks a handle as stale when it is ignored or
  forgotten, so the primitives see only indices of occupied atoms that are not ignored.
\<close>

definition sp_handle :: "int \<Rightarrow> sp \<Rightarrow> bool" where
  "sp_handle i s \<longleftrightarrow> (case sp_atom i s of None \<Rightarrow> False | Some a \<Rightarrow> sa_pid a \<noteq> 0 \<and> \<not> sa_ignore a)"

definition sp_release :: "int \<Rightarrow> sigchld_atom \<Rightarrow> sigchld_atom \<Rightarrow> sp \<Rightarrow> sp" where
  "sp_release i a a' s =
     s\<lparr>sigchld_list := map_option (\<lambda>l. l[nat i := a']) (sigchld_list s),
       sp_open := (if sa_terminated a then sp_open s else sp_open s - {sa_pipe_fd a}),
       sp_log := (if sa_terminated a then sp_log s else sp_log s @ [Closed (sa_pipe_fd a) True])\<rparr>"

lemma sp_release_inv:
  assumes "sp_inv s" "sp_atom i s = Some a" "sa_pid a \<noteq> 0" "\<not> sa_ignore a" "\<not> sp_live a'"
  shows "sp_inv (sp_release i a a' s)"
proof -
  obtain l where l: "sigchld_list s = Some l" "0 \<le> i" "nat i < length l" "l ! nat i = a"
    using assms(2) by (auto simp: sp_atom_Some_iff)
  have live: "sp_live a \<longleftrightarrow> \<not> sa_terminated a" using assms(3,4) by (simp add: sp_live_def)
  let ?h = "if sigchld_init s then [sigchld_pipe_rd s, sigchld_pipe_wr s] else []"
  have d: "distinct (live_fds l @ ?h)" "set (live_fds l @ ?h) \<subseteq> sp_open s"
    using assms(1) l by (simp_all add: sp_inv_def sp_data_def sp_owned_def)
  have u: "live_fds (l[nat i := a']) = live_fds (take (nat i) l) @ live_fds (drop (Suc (nat i)) l)"
    using live_fds_update(1) [OF l(3), of a'] assms(5) by simp
  have v: "live_fds l = live_fds (take (nat i) l) @ (if sa_terminated a then [] else [sa_pipe_fd a]) @
      live_fds (drop (Suc (nat i)) l)"
    using live_fds_update(2) [OF l(3)] l(4) live by simp
  have "distinct (live_fds (l[nat i := a']) @ ?h)"
    using d(1) unfolding u v by auto
  moreover have "set (live_fds (l[nat i := a']) @ ?h) \<subseteq> sp_open (sp_release i a a' s)"
    using d unfolding u v sp_release_def by (cases "sa_terminated a") auto
  ultimately show ?thesis
    using assms(1) l
    by (cases "sigchld_init s") (simp_all add: sp_release_def sp_inv_def sp_data_def sp_owned_def)
qed

lemma handle_open:
  assumes "sp_inv s" "sp_atom i s = Some a" "sa_pid a \<noteq> 0" "\<not> sa_ignore a" "\<not> sa_terminated a"
  shows "sa_pipe_fd a \<in> sp_open s"
proof -
  obtain l where l: "sigchld_list s = Some l" "a \<in> set l"
    using assms(2) by (auto simp: sp_atom_Some_iff)
  have "sa_pipe_fd a \<in> set (live_fds l)"
    using l(2) assms(3-5) by (auto simp: live_fds_def sp_live_def)
  then show ?thesis using assms(1) l by (auto simp: sp_inv_def sp_data_def sp_owned_def)
qed

lemma netsys_ignore_ok:
  assumes "sp_inv s" "sp_atom i s = Some a" "sa_pid a \<noteq> 0" "\<not> sa_ignore a"
  shows "netsys_ignore_subprocess i s = Some (sp_release i a (a\<lparr>sa_ignore := True\<rparr>) s)"
proof -
  have "sp_atom i (s\<lparr>sp_mutex := True, sp_sig_blocked := True\<rparr>) = Some a"
    using assms(2) by (simp add: sp_atom_def)
  then show ?thesis
    using assms handle_open [OF assms] unfolding sp_inv_def
    by (cases "sa_terminated a") (simp_all add: netsys_ignore_subprocess_def sp_release_def sp_simps)
qed

lemma netsys_forget_ok:
  assumes "sp_inv s" "sp_atom i s = Some a" "sa_pid a \<noteq> 0" "\<not> sa_ignore a"
  shows "netsys_forget_subprocess i s = Some (sp_release i a (a\<lparr>sa_pid := 0\<rparr>) s)"
proof -
  have "sp_atom i (s\<lparr>sp_mutex := True, sp_sig_blocked := True\<rparr>) = Some a"
    using assms(2) by (simp add: sp_atom_def)
  then show ?thesis
    using assms handle_open [OF assms] unfolding sp_inv_def
    by (cases "sa_terminated a") (simp_all add: netsys_forget_subprocess_def sp_release_def sp_simps)
qed


section \<open>Sending signals\<close>

lemma kill_all_loop_eq:
  "kill_all_loop sig o_flag ng_flag as s =
   s\<lparr>sp_log := sp_log s @ map (\<lambda>a. Killed (sa_pid a) sig)
      (filter (\<lambda>a. sa_pid a \<noteq> 0 \<and> \<not> sa_terminated a \<and> (\<not> ng_flag \<or> sa_pgid a = 0) \<and>
         (o_flag \<or> sa_kill_flag a)) as)\<rparr>"
  by (induction as arbitrary: s) (auto simp: sp_emit_def)

text \<open>The process groups \<^verbatim>\<open>netsys_killpg_all_subprocesses\<close> signals, in order.\<close>

fun pg_targets :: "bool \<Rightarrow> sigchld_atom list \<Rightarrow> int list" where
  "pg_targets o_flag [] = []"
| "pg_targets o_flag (a # as) =
     (if pg_selected o_flag a \<and> \<not> sa_kill_sent a
      then sa_pgid a # pg_targets o_flag (map (mark_sent (sa_pgid a)) as)
      else pg_targets o_flag as)"

definition atom_core :: "sigchld_atom \<Rightarrow> sigchld_atom" where
  "atom_core a = a\<lparr>sa_kill_sent := False\<rparr>"

lemma mark_sent_simps [simp]:
  "pg_selected f (mark_sent g a) = pg_selected f a" "sa_pgid (mark_sent g a) = sa_pgid a"
  "sp_live (mark_sent g a) = sp_live a" "sa_pipe_fd (mark_sent g a) = sa_pipe_fd a"
  "atom_core (mark_sent g a) = atom_core a"
  by (simp_all add: mark_sent_def pg_selected_def sp_live_def atom_core_def)

lemma mark_sent_sent:
  "pg_selected f a \<Longrightarrow> sa_kill_sent (mark_sent g a) \<longleftrightarrow> sa_kill_sent a \<or> sa_pgid a = g"
  by (auto simp: mark_sent_def pg_selected_def)

lemma killpg_all_loop_eq:
  "\<exists>as'. killpg_all_loop sig o_flag as s =
     (as', s\<lparr>sp_log := sp_log s @ map (\<lambda>g. Killed (- g) sig) (pg_targets o_flag as)\<rparr>) \<and>
   map atom_core as' = map atom_core as"
proof (induction o_flag as arbitrary: s rule: pg_targets.induct)
  case (1 o_flag)
  then show ?case by simp
next
  case (2 o_flag a as)
  show ?case
  proof (cases "pg_selected o_flag a \<and> \<not> sa_kill_sent a")
    case True
    obtain as' where "killpg_all_loop sig o_flag (map (mark_sent (sa_pgid a)) as) (sp_emit (Killed (- sa_pgid a) sig) s)
        = (as', sp_emit (Killed (- sa_pgid a) sig) s\<lparr>sp_log := sp_log (sp_emit (Killed (- sa_pgid a) sig) s) @
             map (\<lambda>g. Killed (- g) sig) (pg_targets o_flag (map (mark_sent (sa_pgid a)) as))\<rparr>)"
      "map atom_core as' = map atom_core as"
      using "2.IH"(1) [OF True, of "sp_emit (Killed (- sa_pgid a) sig) s"] by (auto simp: o_def)
    then show ?thesis using True by (simp add: sp_emit_def)
  next
    case False
    obtain as' where "killpg_all_loop sig o_flag as s
        = (as', s\<lparr>sp_log := sp_log s @ map (\<lambda>g. Killed (- g) sig) (pg_targets o_flag as)\<rparr>)"
      "map atom_core as' = map atom_core as"
      using "2.IH"(2) [OF False, of s] by auto
    then show ?thesis using False by auto
  qed
qed

lemma pg_targets_props:
  "distinct (pg_targets o_flag as) \<and>
   set (pg_targets o_flag as) = sa_pgid ` {a \<in> set as. pg_selected o_flag a \<and> \<not> sa_kill_sent a}"
proof (induction o_flag as rule: pg_targets.induct)
  case (1 o_flag)
  then show ?case by simp
next
  case (2 o_flag a as)
  show ?case
  proof (cases "pg_selected o_flag a \<and> \<not> sa_kill_sent a")
    case True
    let ?as = "map (mark_sent (sa_pgid a)) as"
    have "set (pg_targets o_flag ?as) =
        sa_pgid ` {b \<in> set as. pg_selected o_flag b \<and> \<not> sa_kill_sent b \<and> sa_pgid b \<noteq> sa_pgid a}"
    proof -
      have "{b \<in> set ?as. pg_selected o_flag b \<and> \<not> sa_kill_sent b} =
          mark_sent (sa_pgid a) ` {b \<in> set as. pg_selected o_flag b \<and> \<not> sa_kill_sent b \<and> sa_pgid b \<noteq> sa_pgid a}"
        using mark_sent_sent [of o_flag _ "sa_pgid a"] by auto
      then show ?thesis using "2.IH"(1) [OF True] by (simp add: image_image)
    qed
    then show ?thesis using True "2.IH"(1) [OF True] by auto
  next
    case False
    then show ?thesis using "2.IH"(2) [OF False] by auto
  qed
qed

lemma live_fds_core: "map atom_core as = map atom_core bs \<Longrightarrow> live_fds as = live_fds bs"
proof (induction as arbitrary: bs)
  case Nil
  then show ?case by simp
next
  case (Cons a as)
  then obtain b bs' where b: "bs = b # bs'" "atom_core a = atom_core b" "map atom_core as = map atom_core bs'"
    by (cases bs) auto
  have "sp_live a = sp_live (atom_core a)" "sp_live b = sp_live (atom_core b)"
    "sa_pipe_fd a = sa_pipe_fd (atom_core a)" "sa_pipe_fd b = sa_pipe_fd (atom_core b)"
    by (simp_all add: atom_core_def sp_live_def)
  then show ?case using Cons.IH [OF b(3)] b by simp
qed

lemma netsys_kill_all_ok:
  assumes "sp_inv s" "sigchld_list s = Some l"
  shows "netsys_kill_all_subprocesses sig o_flag ng_flag s =
    Some (Inr (), s\<lparr>sp_log := sp_log s @ map (\<lambda>a. Killed (sa_pid a) sig)
      (filter (\<lambda>a. sa_pid a \<noteq> 0 \<and> \<not> sa_terminated a \<and> (\<not> ng_flag \<or> sa_pgid a = 0) \<and>
         (o_flag \<or> sa_kill_flag a)) l)\<rparr>)"
proof -
  have "sp_atoms (s\<lparr>sp_mutex := True, sp_sig_blocked := True\<rparr>) = Some l"
    using assms by (intro sp_dataE(1)) (simp_all add: sp_inv_def)
  then show ?thesis
    using assms by (simp add: netsys_kill_all_subprocesses_def sp_simps kill_all_loop_eq sp_inv_def)
qed

lemma netsys_killpg_all_ok:
  assumes "sp_inv s" "sigchld_list s = Some l"
  shows "\<exists>l'. netsys_killpg_all_subprocesses sig o_flag s =
    Some (Inr (), s\<lparr>sigchld_list := Some l', sp_log := sp_log s @
      map (\<lambda>g. Killed (- g) sig) (pg_targets o_flag (map atom_core l))\<rparr>) \<and>
    map atom_core l' = map atom_core l"
proof -
  let ?s = "s\<lparr>sp_mutex := True, sp_sig_blocked := True\<rparr>"
  have a: "sp_atoms ?s = Some l"
    using assms by (intro sp_dataE(1)) (simp_all add: sp_inv_def)
  obtain l' where l': "killpg_all_loop sig o_flag (map atom_core l) ?s =
      (l', ?s\<lparr>sp_log := sp_log ?s @ map (\<lambda>g. Killed (- g) sig) (pg_targets o_flag (map atom_core l))\<rparr>)"
    "map atom_core l' = map atom_core (map atom_core l)"
    using killpg_all_loop_eq [of sig o_flag "map atom_core l" ?s] by blast
  have e: "map (\<lambda>a. a\<lparr>sa_kill_sent := False\<rparr>) l = map atom_core l" by (simp add: atom_core_def)
  have "map atom_core (map atom_core l) = map atom_core l" by (simp add: atom_core_def)
  moreover from this l'(2) have "length l' = length l" by (metis length_map)
  ultimately show ?thesis
    using assms a l' by (intro exI [of _ l'])
      (simp add: netsys_killpg_all_subprocesses_def sp_simps sp_inv_def sp_set_atoms_def e)
qed


section \<open>Watching a process\<close>

lemma find_free_Some:
  "find_free k as = Some j \<Longrightarrow> k \<le> j \<and> j - k < length as \<and> sa_pid (as ! (j - k)) = 0"
  by (induction as arbitrary: k) (fastforce simp: nth_Cons' split: if_splits)+

lemma find_free_None: "find_free k as = None \<Longrightarrow> \<forall>a \<in> set as. sa_pid a \<noteq> 0"
  by (induction as arbitrary: k) (auto split: if_splits)

lemma watch_slot_ok:
  assumes "sp_data s" "sigchld_list s = Some l" "length l < 2 ^ 30"
  shows "\<exists>slot s1. watch_slot os s = Some (slot, s1) \<and>
    (case slot of
       None \<Rightarrow> s1 = s\<lparr>sigchld_list_len := 2 * int (length l), sigchld_list := None\<rparr> \<and>
         (\<forall>a \<in> set l. sa_pid a \<noteq> 0) \<and> os_malloc os (2 * int (length l)) = None
     | Some k \<Rightarrow> \<exists>ext. s1 = s\<lparr>sigchld_list_len := int (length (l @ ext)), sigchld_list := Some (l @ ext)\<rparr> \<and>
         (\<forall>a \<in> set ext. sa_pid a = 0) \<and> k < length (l @ ext) \<and> sa_pid ((l @ ext) ! k) = 0)"
proof -
  note d = sp_dataE [OF assms(1,2)]
  show ?thesis
  proof (cases "find_free 0 l")
    case (Some k)
    have "s = s\<lparr>sigchld_list_len := int (length l), sigchld_list := Some l\<rparr>"
      using assms(2) d(2) by simp
    then show ?thesis
      using Some d find_free_Some [OF Some]
      by (intro exI [of _ "Some k"] exI [of _ s]) (auto simp: watch_slot_def intro!: exI [of _ "[]"])
  next
    case None
    have len: "sigchld_list_len s + sigchld_list_len s = 2 * int (length l)" "2 * int (length l) < 2 ^ 31"
      using d assms(3) by auto
    show ?thesis
    proof (cases "os_malloc os (2 * int (length l))")
      case None': None
      then show ?thesis
        using None d(1) len find_free_None [OF None] by (simp add: watch_slot_def)
    next
      case (Some f)
      define ext where "ext = map (\<lambda>k. (f k)\<lparr>sa_pid := 0\<rparr>) [length l..<nat (2 * int (length l))]"
      have e: "length ext = length l" by (simp add: ext_def nat_mult_distrib)
      then have "sa_pid (ext ! 0) = 0" using d(3) by (simp add: ext_def nat_mult_distrib)
      then have "\<forall>a \<in> set ext. sa_pid a = 0" "sa_pid ((l @ ext) ! length l) = 0"
        by (auto simp: ext_def nth_append)
      moreover have "watch_slot os s =
          Some (Some (length l), s\<lparr>sigchld_list_len := int (length (l @ ext)), sigchld_list := Some (l @ ext)\<rparr>)"
        using Some None d len e by (simp add: watch_slot_def flip: ext_def)
      ultimately show ?thesis
        using d(3) e by (intro exI [of _ "Some (length l)"] exI
            [of _ "s\<lparr>sigchld_list_len := int (length (l @ ext)), sigchld_list := Some (l @ ext)\<rparr>"])
          (auto intro!: exI [of _ ext])
    qed
  qed
qed

text \<open>
  The failures after the initialisation: there is no free atom and \<^verbatim>\<open>realloc\<close> is refused, then the list is lost; or
  \<^verbatim>\<open>waitpid\<close> fails, then the list is kept, perhaps with free atoms added.
\<close>

definition enter_failure :: "os \<Rightarrow> int \<Rightarrow> sigchld_atom list \<Rightarrow> exn \<Rightarrow> sigchld_atom list option \<Rightarrow> bool" where
  "enter_failure os pid l e l' \<longleftrightarrow>
     e = Failure ''Cannot allocate memory'' \<and> (\<forall>a \<in> set l. sa_pid a \<noteq> 0) \<and> os_malloc os (2 * int (length l)) = None \<and>
       l' = None \<or>
     (\<exists>st n. os_waitpid os 0 pid = (-1, st, n) \<and> e = Unix_error n ''waitpid'') \<and>
       (\<exists>ext. l' = Some (l @ ext) \<and> (\<forall>a \<in> set ext. sa_pid a = 0))"

text \<open>What an atom holds after its process has been entered.\<close>

definition watched :: "os \<Rightarrow> int \<Rightarrow> int \<Rightarrow> bool \<Rightarrow> int \<Rightarrow> sigchld_atom \<Rightarrow> bool" where
  "watched os pid pgid kill_flag w a \<longleftrightarrow>
     sa_pid a = pid \<and> sa_pgid a = pgid \<and> sa_kill_flag a = kill_flag \<and> \<not> sa_ignore a \<and>
     (case os_waitpid os 0 pid of (code, status, e) \<Rightarrow>
        if code = 0 then \<not> sa_terminated a \<and> sa_pipe_fd a = w
        else sa_terminated a \<and> sa_status a = status)"

lemma sp_data_enter:
  assumes "sp_data s" "sigchld_list s = Some l" "\<forall>a \<in> set ext. sa_pid a = 0"
    and "k < length (l @ ext)" "sa_pid ((l @ ext) ! k) = 0"
    and "sp_live a' \<longrightarrow> sa_pipe_fd a' \<in> opn \<and> sa_pipe_fd a' \<notin> set (sp_owned s)"
    and "set (sp_owned s) \<subseteq> opn" "\<forall>fd b. Closed fd b \<in> set lg \<longrightarrow> b"
  shows "sp_data (s\<lparr>sigchld_list_len := int (length (l @ ext)), sigchld_list := Some ((l @ ext)[k := a']),
    sp_open := opn, sp_log := sp_log s @ lg\<rparr>)"
proof -
  let ?h = "if sigchld_init s then [sigchld_pipe_rd s, sigchld_pipe_wr s] else []"
  have own: "sp_owned s = live_fds (l @ ext) @ ?h"
    using assms(2,3) by (simp add: sp_owned_def)
  have d: "distinct (live_fds (l @ ext) @ ?h)" using assms(1) own unfolding sp_data_def by metis
  have nl: "live_fds (l @ ext) = live_fds (take k (l @ ext)) @ live_fds (drop (Suc k) (l @ ext))"
    using live_fds_update(2) [OF assms(4)] assms(5) by (simp add: sp_live_def)
  have "distinct (live_fds ((l @ ext)[k := a']) @ ?h)" "set (live_fds ((l @ ext)[k := a']) @ ?h) \<subseteq> opn"
    using assms(6,7) d unfolding live_fds_update(1) [OF assms(4), of a'] own nl by auto
  then show ?thesis
    using assms(1,2,8) by (auto simp: sp_data_def sp_owned_def split: if_splits)
qed

lemma watch_enter_slot:
  assumes "sp_data s" "sigchld_list s = Some l" "r \<noteq> w" "{r, w} \<subseteq> sp_open s" "w \<notin> set (sp_owned s)" "set (sp_owned s) \<subseteq> sp_open s - {r, w}"
    and slot: "watch_slot os s = Some (Some k, s\<lparr>sigchld_list_len := int (length (l @ ext)), sigchld_list := Some (l @ ext)\<rparr>)"
    and ext: "\<forall>a \<in> set ext. sa_pid a = 0" "k < length (l @ ext)" "sa_pid ((l @ ext) ! k) = 0"
  shows "\<exists>res s'. watch_enter os pid pgid kill_flag (r, w) s = Some (res, s') \<and>
    sp_data s' \<and> \<not> sp_mutex s' \<and> \<not> sp_sig_blocked s' \<and>
    (case res of
       Inl e \<Rightarrow> sp_open s' = sp_open s - {r, w} \<and> sigchld_list s' = Some (l @ ext) \<and>
         (\<exists>st n. os_waitpid os 0 pid = (-1, st, n) \<and> e = Unix_error n ''waitpid'')
     | Inr (fd, i) \<Rightarrow> \<exists>a. fd = r \<and> i = int k \<and> sigchld_list s' = Some ((l @ ext)[k := a]) \<and> watched os pid pgid kill_flag w a \<and>
         sp_open s' = (if sa_terminated a then sp_open s - {w} else sp_open s))"
proof -
  obtain code st e where wp: "os_waitpid os 0 pid = (code, st, e)" by (cases "os_waitpid os 0 pid")
  let ?D = "\<lambda>a' opn lg. s\<lparr>sigchld_list_len := int (length (l @ ext)), sigchld_list := Some ((l @ ext)[k := a']),
    sp_open := opn, sp_log := sp_log s @ lg\<rparr>"
  note D = sp_data_enter [OF assms(1,2) ext]
  show ?thesis
  proof (cases "code = -1")
    case True
    have "sp_data (?D ((l @ ext) ! k) (sp_open s - {r, w}) [Closed r True, Closed w True])"
      using assms(6) ext(3) by (intro D) (auto simp: sp_live_def)
    moreover have o: "sp_open s - {r, w} = sp_open s - {r} - {w}" "r \<in> sp_open s" "w \<in> sp_open s - {r}" using assms(3,4) by auto
    moreover have "(l @ ext)[k := (l @ ext) ! k] = l @ ext" by (rule list_update_id)
    moreover have eq: "watch_enter os pid pgid kill_flag (r, w) s = Some (Inl (Unix_error e ''waitpid''),
        (?D ((l @ ext) ! k) (sp_open s - {r, w}) [Closed r True, Closed w True])\<lparr>sp_mutex := False, sp_sig_blocked := False\<rparr>)"
      using True wp slot o by (simp add: watch_enter_def sp_simps)
    ultimately show ?thesis unfolding eq using True wp by auto
  next
    case False
    define a' where "a' = ((l @ ext) ! k)\<lparr>sa_pid := pid, sa_pgid := pgid, sa_kill_flag := kill_flag, sa_ignore := False,
      sa_terminated := (code \<noteq> 0), sa_status := (if code = 0 then 0 else st), sa_pipe_fd := (if code = 0 then w else -1)\<rparr>"
    let ?s = "?D a' (if code = 0 then sp_open s else sp_open s - {w}) (if code = 0 then [] else [Closed w True])"
    have "sp_data ?s" using assms(4-6) by (intro D) (auto simp: a'_def sp_live_def)
    moreover have "watch_enter os pid pgid kill_flag (r, w) s = Some (Inr (r, int k),
        ?s\<lparr>sigchld_list_cnt := sigchld_list_cnt s + 1, sp_mutex := False, sp_sig_blocked := False\<rparr>)"
      using False wp slot ext(2) assms(4) by (simp add: watch_enter_def sp_simps sp_atom_def rd_def a'_def)
    moreover have "watched os pid pgid kill_flag w a'" using False wp by (simp add: watched_def a'_def)
    ultimately show ?thesis by (auto simp: a'_def)
  qed
qed

lemma watch_enter_ok:
  assumes "sp_data s" "sigchld_list s = Some l" "length l < 2 ^ 30" "r \<noteq> w" "{r, w} \<subseteq> sp_open s"
    and "r \<notin> set (sp_owned s)" "w \<notin> set (sp_owned s)"
  shows "\<exists>res s'. watch_enter os pid pgid kill_flag (r, w) s = Some (res, s') \<and>
    sp_data s' \<and> \<not> sp_mutex s' \<and> \<not> sp_sig_blocked s' \<and>
    (case res of
       Inl e \<Rightarrow> sp_open s' = sp_open s - {r, w} \<and> enter_failure os pid l e (sigchld_list s')
     | Inr (fd, i) \<Rightarrow> \<exists>k ext a. fd = r \<and> i = int k \<and> k < length (l @ ext) \<and> sa_pid ((l @ ext) ! k) = 0 \<and>
         (\<forall>a \<in> set ext. sa_pid a = 0) \<and>
         sigchld_list s' = Some ((l @ ext)[k := a]) \<and> watched os pid pgid kill_flag w a \<and>
         sp_open s' = (if sa_terminated a then sp_open s - {w} else sp_open s))"
proof -
  obtain slot s1 where slot: "watch_slot os s = Some (slot, s1)" and
    c: "case slot of
       None \<Rightarrow> s1 = s\<lparr>sigchld_list_len := 2 * int (length l), sigchld_list := None\<rparr> \<and>
         (\<forall>a \<in> set l. sa_pid a \<noteq> 0) \<and> os_malloc os (2 * int (length l)) = None
     | Some k \<Rightarrow> \<exists>ext. s1 = s\<lparr>sigchld_list_len := int (length (l @ ext)), sigchld_list := Some (l @ ext)\<rparr> \<and>
         (\<forall>a \<in> set ext. sa_pid a = 0) \<and> k < length (l @ ext) \<and> sa_pid ((l @ ext) ! k) = 0"
    using watch_slot_ok [OF assms(1-3), of os] by blast
  have own: "set (sp_owned s) \<subseteq> sp_open s - {r, w}"
    using assms(1,5-7) by (auto simp: sp_data_def)
  show ?thesis
  proof (cases slot)
    case None
    then show ?thesis
      using slot c assms(1,2,4,5) own
      by (auto simp: watch_enter_def sp_simps sp_data_def sp_owned_def enter_failure_def)
  next
    case (Some k)
    then obtain ext where ext: "s1 = s\<lparr>sigchld_list_len := int (length (l @ ext)), sigchld_list := Some (l @ ext)\<rparr>"
      "\<forall>a \<in> set ext. sa_pid a = 0" "k < length (l @ ext)" "sa_pid ((l @ ext) ! k) = 0"
      using c by auto
    obtain res s' where e: "watch_enter os pid pgid kill_flag (r, w) s = Some (res, s')" "sp_data s'" "\<not> sp_mutex s'" "\<not> sp_sig_blocked s'"
      "case res of
         Inl e \<Rightarrow> sp_open s' = sp_open s - {r, w} \<and> sigchld_list s' = Some (l @ ext) \<and>
           (\<exists>st n. os_waitpid os 0 pid = (-1, st, n) \<and> e = Unix_error n ''waitpid'')
       | Inr (fd, i) \<Rightarrow> \<exists>a. fd = r \<and> i = int k \<and> sigchld_list s' = Some ((l @ ext)[k := a]) \<and> watched os pid pgid kill_flag w a \<and>
           sp_open s' = (if sa_terminated a then sp_open s - {w} else sp_open s)"
      using watch_enter_slot [OF assms(1,2,4,5,7) own slot [unfolded Some ext(1)] ext(2-4), of pid pgid kill_flag] by blast
    show ?thesis
    proof (intro exI conjI)
      show "case res of
         Inl e \<Rightarrow> sp_open s' = sp_open s - {r, w} \<and> enter_failure os pid l e (sigchld_list s')
       | Inr (fd, i) \<Rightarrow> \<exists>k ext a. fd = r \<and> i = int k \<and> k < length (l @ ext) \<and> sa_pid ((l @ ext) ! k) = 0 \<and>
           (\<forall>a \<in> set ext. sa_pid a = 0) \<and>
           sigchld_list s' = Some ((l @ ext)[k := a]) \<and> watched os pid pgid kill_flag w a \<and>
           sp_open s' = (if sa_terminated a then sp_open s - {w} else sp_open s)"
      proof (cases res)
        case (Inr fi)
        then show ?thesis using e(5) ext(2-4) by (cases fi) (simp only: sum.case prod.case, blast)
      qed (use e(5) ext(2) in \<open>simp add: enter_failure_def\<close>)
    qed (use e in simp_all)
  qed
qed

text \<open>Fresh descriptors: what \<^verbatim>\<open>pipe\<close> returns is not open before.\<close>

definition pipe_fds :: "os \<Rightarrow> nat \<Rightarrow> int list" where
  "pipe_fds os i = (case os_pipe os i of Inl e \<Rightarrow> [] | Inr (r, w) \<Rightarrow> [r, w])"

definition os_fresh :: "os \<Rightarrow> sp \<Rightarrow> bool" where
  "os_fresh os s \<longleftrightarrow> distinct (pipe_fds os 0 @ pipe_fds os 1) \<and>
     (\<forall>fd \<in> set (pipe_fds os 0 @ pipe_fds os 1). fd \<notin> sp_open s)"

lemma sigchld_init_mt_ok:
  assumes "sp_data s" "distinct (pipe_fds os i)" "\<forall>fd \<in> set (pipe_fds os i). fd \<notin> sp_open s"
  shows "\<exists>code e s'. sigchld_init_mt os i s = (code, e, s') \<and> sp_data s' \<and>
    sigchld_list s' = sigchld_list s \<and> sp_mutex s' = sp_mutex s \<and> sp_sig_blocked s' = sp_sig_blocked s \<and>
    (code = -1 \<and> \<not> sigchld_init s \<and> sp_open s' = sp_open s \<and> sp_owned s' = sp_owned s \<or>
     code = 0 \<and> sigchld_init s' \<and> (\<exists>new. set new \<subseteq> set (pipe_fds os i) \<and>
       sp_open s' = sp_open s \<union> set new \<and> set (sp_owned s') = set (sp_owned s) \<union> set new))"
proof (cases "sigchld_init s")
  case True
  then show ?thesis using assms(1) by (auto simp: sigchld_init_mt_def intro: exI [of _ "[]"])
next
  case False
  show ?thesis
  proof (cases "os_pipe os i")
    case (Inl e)
    then show ?thesis using assms(1) False by (simp add: sigchld_init_mt_def)
  next
    case (Inr fds)
    obtain r w where rw: "fds = (r, w)" by (cases fds)
    have f: "r \<noteq> w" "r \<notin> sp_open s" "w \<notin> sp_open s" using assms(2,3) Inr rw by (auto simp: pipe_fds_def)
    then have o: "insert r (insert w (sp_open s)) - {r} - {w} = sp_open s" by auto
    let ?ok = "os_fcntl os r = None \<and> os_fcntl os w = None \<and> os_pthread_create os = None"
    have own: "r \<notin> set (sp_owned s)" "w \<notin> set (sp_owned s)"
      using f assms(1) by (auto simp: sp_data_def)
    show ?thesis
    proof (cases ?ok)
      case True
      then show ?thesis
        using False Inr rw assms(1) f own
        by (auto simp: sigchld_init_mt_def sp_opened_def sp_data_def sp_owned_def pipe_fds_def Let_def
            intro!: exI [of _ "[r, w]"] split: option.splits)
    next
      case False': False
      let ?s = "sp_opened fds (s\<lparr>sigchld_pipe_rd := r, sigchld_pipe_wr := w\<rparr>)"
      have "sp_close w (sp_close r ?s) = s\<lparr>sigchld_pipe_wr := w, sigchld_pipe_rd := r,
          sp_log := sp_log s @ [Closed r True, Closed w True]\<rparr>"
        using rw f o by (simp add: sp_simps)
      moreover have "\<exists>e. sigchld_init_mt os i s = (-1, e, sp_close w (sp_close r ?s))"
        using False False' Inr rw
        by (cases "os_fcntl os r"; cases "os_fcntl os w"; cases "os_pthread_create os")
          (simp_all add: sigchld_init_mt_def sp_opened_def Let_def)
      ultimately obtain e where e: "sigchld_init_mt os i s = (-1, e, s\<lparr>sigchld_pipe_wr := w, sigchld_pipe_rd := r,
          sp_log := sp_log s @ [Closed r True, Closed w True]\<rparr>)" by auto
      then show ?thesis
        using False assms(1) by (simp add: sp_data_def sp_owned_def cong: option.case_cong)
    qed
  qed
qed


lemma watch_cloexec_fails:
  assumes "sp_inv s" "sigchld_list s = Some l" "os_pipe os 0 = Inr (r, w)"
    and "r \<noteq> w" "r \<notin> sp_open s" "w \<notin> sp_open s" "\<not> (os_fcntl os r = None \<and> os_fcntl os w = None)"
  shows "\<exists>e s'. netsys_watch_subprocess os pid pgid kill_flag s =
      Some (Inl (Unix_error e ''set_close_on_exec''), s') \<and> sp_inv s' \<and> (os_fcntl os r = Some e \<or> os_fcntl os w = Some e) \<and>
    sigchld_list s' = sigchld_list s \<and> sp_open s' = sp_open s"
proof -
  let ?s1 = "sp_opened (r, w) s"
  have "insert r (insert w (sp_open s)) - {r} - {w} = sp_open s" using assms(5,6) by auto
  then have c: "sp_close w (sp_close r ?s1) = s\<lparr>sp_log := sp_log s @ [Closed r True, Closed w True]\<rparr>"
    using assms(4) by (simp add: sp_simps)
  have "\<exists>e. netsys_watch_subprocess os pid pgid kill_flag s =
      Some (Inl (Unix_error e ''set_close_on_exec''), sp_close w (sp_close r ?s1)) \<and>
      (os_fcntl os r = Some e \<or> os_fcntl os w = Some e)"
    using assms(2,3,7) by (cases "os_fcntl os r"; cases "os_fcntl os w")
      (simp_all add: netsys_watch_subprocess_def)
  moreover have "sp_inv (s\<lparr>sp_log := sp_log s @ [Closed r True, Closed w True]\<rparr>)"
    using assms(1) by (simp add: sp_inv_def sp_data_log)
  ultimately show ?thesis unfolding c by auto
qed

text \<open>
  All failures with their causes, the list of atoms afterwards and what becomes of the new pipe: no pipe; the close-on-exec
  flag cannot be set; the helper thread cannot be started (then the new pipe stays open); or one of the failures above.
\<close>

definition watch_failure :: "os \<Rightarrow> int \<Rightarrow> sigchld_atom list \<Rightarrow> sp \<Rightarrow> exn \<Rightarrow> sp \<Rightarrow> bool" where
  "watch_failure os pid l s e s' \<longleftrightarrow>
     (\<exists>n. os_pipe os 0 = Inl n \<and> e = Unix_error n ''pipe'' \<and> s' = s) \<or>
     (\<exists>r w. os_pipe os 0 = Inr (r, w) \<and>
        ((\<exists>n. (os_fcntl os r = Some n \<or> os_fcntl os w = Some n) \<and> e = Unix_error n ''set_close_on_exec'') \<and>
           sigchld_list s' = Some l \<and> sp_open s' = sp_open s \<or>
         (\<exists>n. e = Unix_error n ''netsys_watch_subprocess [delayed init]'') \<and> \<not> sigchld_init s \<and>
           sigchld_list s' = Some l \<and> sp_open s' = {r, w} \<union> sp_open s \<or>
         enter_failure os pid l e (sigchld_list s') \<and> r \<notin> sp_open s' \<and> w \<notin> sp_open s'))"

lemma netsys_watch_ok:
  assumes "sp_inv s" "sigchld_list s = Some l" "length l < 2 ^ 30" "os_fresh os s"
  shows "\<exists>res s'. netsys_watch_subprocess os pid pgid kill_flag s = Some (res, s') \<and> sp_inv s' \<and>
    (case res of
       Inl e \<Rightarrow> watch_failure os pid l s e s'
     | Inr (fd, i) \<Rightarrow> \<exists>k ext a w. os_pipe os 0 = Inr (fd, w) \<and> fd \<in> sp_open s' \<and> i = int k \<and>
         k < length (l @ ext) \<and> sa_pid ((l @ ext) ! k) = 0 \<and> (\<forall>a \<in> set ext. sa_pid a = 0) \<and>
         sigchld_list s' = Some ((l @ ext)[k := a]) \<and> watched os pid pgid kill_flag w a \<and>
         (w \<in> sp_open s' \<longleftrightarrow> \<not> sa_terminated a))"
proof (cases "os_pipe os 0")
  case (Inl e)
  then show ?thesis using assms by (simp add: netsys_watch_subprocess_def watch_failure_def)
next
  case (Inr pfd)
  obtain r w where rw: "pfd = (r, w)" by (cases pfd)
  have f: "r \<noteq> w" "r \<notin> sp_open s" "w \<notin> sp_open s" "pipe_fds os 0 = [r, w]"
    using assms(4) Inr rw by (auto simp: os_fresh_def pipe_fds_def)
  have d: "sp_data s" "\<not> sp_mutex s" "\<not> sp_sig_blocked s" using assms(1) by (auto simp: sp_inv_def)
  let ?s1 = "sp_opened (r, w) s"
  have d1: "sp_data ?s1" "r \<notin> set (sp_owned s)" "w \<notin> set (sp_owned s)" "sp_owned ?s1 = sp_owned s"
    using d(1) f by (auto simp: sp_data_def sp_owned_def sp_opened_def cong: option.case_cong)
  show ?thesis
  proof (cases "os_fcntl os r = None \<and> os_fcntl os w = None")
    case False
    from watch_cloexec_fails [OF assms(1,2) Inr [unfolded rw] f(1-3) this, of pid pgid kill_flag] f(2-4) assms(2)
    show ?thesis using Inr rw by (auto simp: watch_failure_def)
  next
    case True
    let ?s2 = "?s1\<lparr>sp_mutex := True, sp_sig_blocked := True\<rparr>"
    have fr: "distinct (pipe_fds os 1)" "\<forall>fd \<in> set (pipe_fds os 1). fd \<notin> sp_open ?s2"
      "r \<notin> set (pipe_fds os 1)" "w \<notin> set (pipe_fds os 1)"
      using assms(4) f(4) by (auto simp: os_fresh_def sp_opened_def)
    have own2: "sp_owned ?s2 = sp_owned s" by (simp add: sp_owned_def sp_opened_def)
    obtain code e s3 where i: "sigchld_init_mt os 1 ?s2 = (code, e, s3)" "sp_data s3"
      "sigchld_list s3 = Some l" and
      c: "code = -1 \<and> \<not> sigchld_init s \<and> sp_open s3 = sp_open ?s2 \<and> sp_owned s3 = sp_owned s \<or>
       code = 0 \<and> (\<exists>new. set new \<subseteq> set (pipe_fds os 1) \<and> sp_open s3 = sp_open ?s2 \<union> set new \<and>
         set (sp_owned s3) = set (sp_owned s) \<union> set new)"
      using sigchld_init_mt_ok [OF _ fr(1,2)] d1(1) assms(2) own2 by (auto simp: sp_opened_def)
    have w: "netsys_watch_subprocess os pid pgid kill_flag s =
        (if code = -1 then Some (Inl (Unix_error e ''netsys_watch_subprocess [delayed init]''), sigchld_unlock True s3)
         else watch_enter os pid pgid kill_flag (r, w) s3)"
      using True assms(2) Inr rw i(1) d by (simp add: netsys_watch_subprocess_def sigchld_lock_def sp_opened_def)
    show ?thesis
    proof (cases "code = -1")
      case True
      then show ?thesis
        using w c i(2,3) Inr rw by (auto simp: sp_inv_def sigchld_unlock_def sp_opened_def watch_failure_def)
    next
      case False
      then obtain new where new: "set new \<subseteq> set (pipe_fds os 1)" "sp_open s3 = sp_open ?s2 \<union> set new"
        "set (sp_owned s3) = set (sp_owned s) \<union> set new" using c by auto
      have "{r, w} \<subseteq> sp_open s3" "r \<notin> set (sp_owned s3)" "w \<notin> set (sp_owned s3)"
        using new fr(3,4) d1(2,3) by (auto simp: sp_opened_def)
      from watch_enter_ok [OF i(2,3) assms(3) f(1) this, of os pid pgid kill_flag]
      obtain res s' where e: "watch_enter os pid pgid kill_flag (r, w) s3 = Some (res, s')" "sp_inv s'"
        "case res of
           Inl e \<Rightarrow> sp_open s' = sp_open s3 - {r, w} \<and> enter_failure os pid l e (sigchld_list s')
         | Inr (fd, i) \<Rightarrow> \<exists>k ext a. fd = r \<and> i = int k \<and> k < length (l @ ext) \<and> sa_pid ((l @ ext) ! k) = 0 \<and>
             (\<forall>a \<in> set ext. sa_pid a = 0) \<and>
             sigchld_list s' = Some ((l @ ext)[k := a]) \<and> watched os pid pgid kill_flag w a \<and>
             sp_open s' = (if sa_terminated a then sp_open s3 - {w} else sp_open s3)"
        unfolding sp_inv_def by blast
      have "netsys_watch_subprocess os pid pgid kill_flag s = Some (res, s')" using w False e(1) by simp
      then show ?thesis
        using e(2,3) Inr rw f(1) \<open>{r, w} \<subseteq> sp_open s3\<close>
        by (cases res) (fastforce simp: watch_failure_def split: prod.splits)+
    qed
  qed
qed


section \<open>Installation and fork\<close>

lemma netsys_install_ok:
  assumes "sp_inv s" "sigchld_list s \<noteq> None \<or> os_malloc os 100 \<noteq> None"
  shows "\<exists>res s' l. netsys_install_sigchld_handler os s = Some (res, s') \<and> sp_inv s' \<and>
    sigchld_list s' = Some l \<and> sp_owned s' = sp_owned s \<and> sp_open s' = sp_open s \<and>
    (res = Inr () \<or> (\<exists>e. res = Inl (Unix_error e ''sigaction''))) \<and>
    (case sigchld_list s of Some l0 \<Rightarrow> l = l0 | None \<Rightarrow> length l = 100 \<and> (\<forall>a \<in> set l. sa_pid a = 0))"
proof -
  have u: "\<not> sp_mutex s" "\<not> sp_sig_blocked s" "sp_data s" using assms(1) by (auto simp: sp_inv_def)
  show ?thesis
  proof (cases "sigchld_list s")
    case (Some l)
    have "netsys_install_sigchld_handler os s =
      (case os_sigaction os of Some e \<Rightarrow> Some (Inl (Unix_error e ''sigaction''), s)
       | None \<Rightarrow> Some (Inr (), s\<lparr>sp_handler := True\<rparr>))"
      using Some u by (cases "os_sigaction os") (simp_all add: netsys_install_sigchld_handler_def sp_simps)
    then show ?thesis
      using Some u assms(1) by (cases "os_sigaction os") (auto simp: sp_inv_def sp_owned_def)
  next
    case None
    then obtain f where f: "os_malloc os 100 = Some f" using assms(2) by auto
    define l where "l = map (\<lambda>k. (f k)\<lparr>sa_pid := 0\<rparr>) [0..<100]"
    have l: "length l = 100" "\<forall>a \<in> set l. sa_pid a = 0" by (auto simp: l_def)
    let ?s = "s\<lparr>sigchld_list_len := 100, sigchld_list := Some l\<rparr>"
    have e: "netsys_install_sigchld_handler os s =
      (case os_sigaction os of Some e \<Rightarrow> Some (Inl (Unix_error e ''sigaction''), ?s)
       | None \<Rightarrow> Some (Inr (), ?s\<lparr>sp_handler := True\<rparr>))"
      using None u f by (cases "os_sigaction os")
        (simp_all add: netsys_install_sigchld_handler_def sp_simps flip: l_def)
    have o: "sp_owned ?s = sp_owned s" using l None by (simp add: sp_owned_def)
    then have "sp_data ?s" using u(3) l by (auto simp: sp_data_def)
    then show ?thesis
      using None l u o by (cases "os_sigaction os") (auto simp: e sp_inv_def sp_owned_def)
  qed
qed

lemma close_watched_eq:
  assumes "distinct (live_fds as)" "set (live_fds as) \<subseteq> sp_open s"
  shows "close_watched as s = s\<lparr>sp_open := sp_open s - set (live_fds as),
    sp_log := sp_log s @ map (\<lambda>fd. Closed fd True) (live_fds as)\<rparr>"
  using assms
proof (induction as arbitrary: s)
  case Nil
  then show ?case by simp
next
  case (Cons a as)
  show ?case
  proof (cases "sp_live a")
    case True
    let ?s = "sp_close (sa_pipe_fd a) s"
    have "set (live_fds as) \<subseteq> sp_open ?s" using Cons.prems True by (auto simp: sp_simps)
    then have "close_watched as ?s = ?s\<lparr>sp_open := sp_open ?s - set (live_fds as),
        sp_log := sp_log ?s @ map (\<lambda>fd. Closed fd True) (live_fds as)\<rparr>"
      using Cons.prems True by (intro Cons.IH) auto
    moreover have "sp_open s - {sa_pipe_fd a} - set (live_fds as) = sp_open s - set (live_fds (a # as))"
      using True by auto
    ultimately show ?thesis using True Cons.prems by (simp add: sp_live_def sp_simps)
  next
    case False
    then have "close_watched (a # as) s = close_watched as s" by (auto simp: sp_live_def)
    then show ?thesis using Cons False by simp
  qed
qed

lemma cleanup_closes:
  assumes "sp_inv s" "sigchld_list s = Some l"
  shows "\<exists>lg. close_watched l s\<lparr>sigchld_list := None\<rparr> =
      s\<lparr>sigchld_list := None, sp_open := sp_open s - set (live_fds l), sp_log := sp_log s @ lg\<rparr> \<and>
    (\<forall>fd. Closed fd False \<notin> set lg)"
  using close_watched_eq [of l s] assms
  by (intro exI [of _ "map (\<lambda>fd. Closed fd True) (live_fds l)"])
    (auto simp: sp_inv_def sp_data_def sp_owned_def)

lemma cleanup_released:
  assumes "sp_inv s"
  shows "\<exists>s2. netsys_subprocess_cleanup_after_fork os s =
      (if sigchld_list s \<noteq> None then netsys_install_sigchld_handler os s2 else Some (Inr (), s2)) \<and>
    sp_inv s2 \<and> sigchld_list s2 = None \<and> sp_owned s2 = [] \<and> sp_open s2 = sp_open s - set (sp_owned s)"
proof -
  define l where "l = (case sigchld_list s of None \<Rightarrow> [] | Some l \<Rightarrow> l)"
  let ?h = "if sigchld_init s then [sigchld_pipe_rd s, sigchld_pipe_wr s] else []"
  have own: "sp_owned s = live_fds l @ ?h" by (simp add: sp_owned_def l_def)
  obtain lg where lg: "\<forall>fd. Closed fd False \<notin> set lg" and
    s1: "(if sigchld_list s \<noteq> None
              then do {
                as \<leftarrow> sp_atoms s;
                Some ((close_watched as s)\<lparr>sigchld_list := None\<rparr>)
              }
              else Some s) =
      Some (s\<lparr>sigchld_list := None, sp_open := sp_open s - set (live_fds l), sp_log := sp_log s @ lg\<rparr>)"
  proof (cases "sigchld_list s")
    case None
    then show ?thesis using that [of "[]"] by (simp add: l_def)
  next
    case (Some l')
    then show ?thesis
      using that cleanup_closes [OF assms Some] sp_dataE(1) [OF _ Some] assms
      by (auto simp: l_def sp_inv_def)
  qed
  have d: "distinct (sp_owned s)" "set (sp_owned s) \<subseteq> sp_open s" using assms by (auto simp: sp_inv_def sp_data_def)
  define lg2 where "lg2 = map (\<lambda>fd. Closed fd True) ?h"
  let ?s2 = "s\<lparr>sigchld_list := None, sigchld_init := False, sp_open := sp_open s - set (sp_owned s), sp_log := sp_log s @ lg @ lg2\<rparr>"
  have o: "sp_open s - set (live_fds l) - {sigchld_pipe_rd s} - {sigchld_pipe_wr s} = sp_open s - set (sp_owned s)"
    if "sigchld_init s" using that own by auto
  have o': "sigchld_pipe_rd s \<in> sp_open s - set (live_fds l)"
    "sigchld_pipe_wr s \<in> sp_open s - set (live_fds l) - {sigchld_pipe_rd s}" if "sigchld_init s"
    using that d own by auto
  let ?s1 = "s\<lparr>sigchld_list := None, sp_open := sp_open s - set (live_fds l), sp_log := sp_log s @ lg\<rparr>"
  have s2: "(if sigchld_init ?s1
             then (sp_close (sigchld_pipe_wr ?s1) (sp_close (sigchld_pipe_rd ?s1) ?s1))
                     \<lparr>sigchld_init := False, sp_mutex := False\<rparr>
             else ?s1) = ?s2"
    using o o' own assms by (cases "sigchld_init s") (simp_all add: sp_simps lg2_def sp_inv_def)
  have "netsys_subprocess_cleanup_after_fork os s =
      (if sigchld_list s \<noteq> None then netsys_install_sigchld_handler os ?s2 else Some (Inr (), ?s2))"
    unfolding netsys_subprocess_cleanup_after_fork_def Let_def s1 bind.bind_lunit s2 ..
  moreover have "sp_inv ?s2" "sp_owned ?s2 = []"
    using assms lg by (auto simp: sp_inv_def sp_data_def sp_owned_def lg2_def)
  ultimately show ?thesis by (intro exI [of _ ?s2]) simp
qed

lemma netsys_cleanup_ok:
  assumes "sp_inv s" "sigchld_list s = None \<or> os_malloc os 100 \<noteq> None"
  shows "\<exists>res s'. netsys_subprocess_cleanup_after_fork os s = Some (res, s') \<and> sp_inv s' \<and>
    sp_owned s' = [] \<and> sp_open s' = sp_open s - set (sp_owned s) \<and>
    (res = Inr () \<or> (\<exists>e. res = Inl (Unix_error e ''sigaction'')))"
proof -
  obtain s2 where s2: "netsys_subprocess_cleanup_after_fork os s =
      (if sigchld_list s \<noteq> None then netsys_install_sigchld_handler os s2 else Some (Inr (), s2))"
    "sp_inv s2" "sigchld_list s2 = None" "sp_owned s2 = []" "sp_open s2 = sp_open s - set (sp_owned s)"
    using cleanup_released [OF assms(1), of os] by blast
  show ?thesis
  proof (cases "sigchld_list s")
    case None
    then show ?thesis using s2 by auto
  next
    case (Some l)
    then have "sigchld_list s2 \<noteq> None \<or> os_malloc os 100 \<noteq> None" using assms(2) by simp
    from netsys_install_ok [OF s2(2) this] show ?thesis using s2 Some by auto
  qed
qed


section \<open>Single processes\<close>

lemma netsys_kill_ok:
  assumes "sp_inv s" "sp_atom i s = Some a"
  shows "netsys_kill_subprocess sig i s =
    Some (s\<lparr>sp_log := sp_log s @ (if sa_terminated a then [] else [Killed (sa_pid a) sig])\<rparr>)"
proof -
  have "sp_atom i (s\<lparr>sp_mutex := True, sp_sig_blocked := True\<rparr>) = Some a"
    using assms(2) by (simp add: sp_atom_def)
  then show ?thesis
    using assms(1) by (simp add: netsys_kill_subprocess_def sp_simps sp_inv_def)
qed

lemma pg_exists_iff: "pg_exists as \<longleftrightarrow> (\<exists>a \<in> set as. sa_pid a \<noteq> 0 \<and> \<not> sa_terminated a)"
  by (induction as) auto

lemma netsys_killpg_ok:
  assumes "sp_inv s" "sigchld_list s = Some l" "sp_atom i s = Some a"
  shows "netsys_killpg_subprocess sig i s =
    Some (s\<lparr>sp_log := sp_log s @ (if sa_pgid a > 0 \<and> (\<exists>b \<in> set l. sa_pid b \<noteq> 0 \<and> \<not> sa_terminated b)
      then [Killed (- sa_pgid a) sig] else [])\<rparr>)"
proof -
  let ?s = "s\<lparr>sp_mutex := True, sp_sig_blocked := True\<rparr>"
  have "sp_atom i ?s = Some a" "sp_atoms ?s = Some l"
    using assms by (auto simp: sp_atom_def sp_inv_def intro!: sp_dataE(1))
  then show ?thesis
    using assms(1) unfolding pg_exists_iff [symmetric]
    by (cases "sa_pgid a > 0"; cases "pg_exists l")
      (simp_all add: netsys_killpg_subprocess_def sp_simps sp_inv_def)
qed

lemma netsys_status_ok:
  assumes "sp_inv s" "sp_atom i s = Some a"
  shows "netsys_get_subprocess_status rcs i s =
    Some (if sa_terminated a
          then Some (if WIFEXITED (sa_status a) then WEXITED (WEXITSTATUS (sa_status a))
                     else WSIGNALED (rcs (WTERMSIG (sa_status a)))) else None, s)"
proof -
  have "sp_atom i (s\<lparr>sp_mutex := True, sp_sig_blocked := True\<rparr>) = Some a"
    using assms(2) by (simp add: sp_atom_def)
  then show ?thesis
    using assms(1) by (simp add: netsys_get_subprocess_status_def sp_simps sp_inv_def)
qed

lemma sigchld_producer_loop_ok:
  "sigchld_producer_loop ws EINTR pid s = Some s' \<Longrightarrow> \<exists>q. s' = s\<lparr>sp_pipe := sp_pipe s @ q\<rparr>"
  by (induction ws) (auto split: if_splits prod.splits intro: exI [of _ "[]"])

lemma sigchld_action_ok:
  "sigchld_action ws EINTR code pid s = Some s' \<Longrightarrow> \<exists>q. s' = s\<lparr>sp_pipe := sp_pipe s @ q\<rparr>"
  using sigchld_producer_loop_ok [of ws EINTR pid s s']
  by (auto simp: sigchld_action_def sigchld_producer_def split: if_splits intro: exI [of _ "[]"])

section \<open>Reachable states\<close>

text \<open>
  One call of the module: an operation of the OCaml side, a signal, a run of the helper
  thread, or code outside the module that opens and closes descriptors of its own. The calls
  are serialised by the mutex: a call that would wait for it forever is no step. The flag tells
  whether the call was an installation (on its own or by the clean-up after a fork) whose allocation was refused.
  More than \<open>2 ^ 30\<close> atoms are excluded (the length overflows).
\<close>

inductive sp_step :: "bool \<Rightarrow> sp \<Rightarrow> sp \<Rightarrow> bool" where
  step_install: "netsys_install_sigchld_handler os s = Some (r, s') \<Longrightarrow>
    sp_step (sigchld_list s = None \<and> os_malloc os 100 = None) s s'"
| step_cleanup: "netsys_subprocess_cleanup_after_fork os s = Some (r, s') \<Longrightarrow>
    sp_step (sigchld_list s \<noteq> None \<and> os_malloc os 100 = None) s s'"
| step_watch: "netsys_watch_subprocess os pid pgid kill_flag s = Some (r, s') \<Longrightarrow>
    os_fresh os s \<Longrightarrow> sigchld_list_len s < 2 ^ 30 \<Longrightarrow> sp_step False s s'"
| step_process: "sigchld_process os pid s = Some s' \<Longrightarrow> sp_step False s s'"
| step_signal: "sigchld_action ws EINTR code pid s = Some s' \<Longrightarrow> sp_step False s s'"
| step_ignore: "netsys_ignore_subprocess i s = Some s' \<Longrightarrow> sp_handle i s \<Longrightarrow> sp_step False s s'"
| step_forget: "netsys_forget_subprocess i s = Some s' \<Longrightarrow> sp_handle i s \<Longrightarrow> sp_step False s s'"
| step_status: "netsys_get_subprocess_status rcs i s = Some (r', s') \<Longrightarrow> sp_handle i s \<Longrightarrow> sp_step False s s'"
| step_kill: "netsys_kill_subprocess sig i s = Some s' \<Longrightarrow> sp_handle i s \<Longrightarrow> sp_step False s s'"
| step_killpg: "netsys_killpg_subprocess sig i s = Some s' \<Longrightarrow> sp_handle i s \<Longrightarrow> sp_step False s s'"
| step_kill_all: "netsys_kill_all_subprocesses sig o_flag ng_flag s = Some (r'', s') \<Longrightarrow> sp_step False s s'"
| step_killpg_all: "netsys_killpg_all_subprocesses sig o_flag s = Some (r'', s') \<Longrightarrow> sp_step False s s'"
| step_other: "set (sp_owned s) \<subseteq> fds \<Longrightarrow> sp_step False s (s\<lparr>sp_open := fds\<rparr>)"

definition sp_start :: "int set \<Rightarrow> sp" where
  "sp_start fds = \<lparr>sigchld_list = None, sigchld_list_len = 0, sigchld_list_cnt = 0, sigchld_init = False,
     sigchld_pipe_wr = -1, sigchld_pipe_rd = -1, sp_mutex = False, sp_sig_blocked = False, sp_handler = False,
     sp_open = fds, sp_pipe = [], sp_log = []\<rparr>"

text \<open>The reachable states, with the flag whether the allocation of an installation has been refused on the way.\<close>

inductive sp_reachable :: "bool \<Rightarrow> sp \<Rightarrow> bool" where
  reach_start: "sp_reachable False (sp_start fds)"
| reach_step: "sp_reachable b s \<Longrightarrow> sp_step c s s' \<Longrightarrow> sp_reachable (b \<or> c) s'"

text \<open>
  After a refused installation the signal stays blocked, and the mutex is held until a clean-up after a fork makes a
  new one; the list does not exist.
\<close>

definition sp_held :: "sp \<Rightarrow> bool" where
  "sp_held s \<longleftrightarrow> sp_sig_blocked s \<and> sigchld_list s = None \<and> sp_data s"

definition sp_safe :: "bool \<Rightarrow> sp \<Rightarrow> bool" where
  "sp_safe b s \<longleftrightarrow> sp_inv s \<or> b \<and> sp_held s"

lemma install_refused:
  assumes "sp_data s" "sigchld_list s = None" "os_malloc os 100 = None" "netsys_install_sigchld_handler os s = Some (r, s')"
  shows "sp_held s'"
  using assms by (auto simp: netsys_install_sigchld_handler_def sigchld_lock_def sp_held_def sp_data_def sp_owned_def
      split: if_splits)

lemma install_safe:
  assumes "netsys_install_sigchld_handler os s = Some (r, s')" "sp_inv s \<or> sp_held s"
  shows "sp_safe (sigchld_list s = None \<and> os_malloc os 100 = None) s'"
proof (cases "sigchld_list s = None \<and> os_malloc os 100 = None")
  case True
  then show ?thesis using install_refused [OF _ _ _ assms(1)] assms(2) by (auto simp: sp_safe_def sp_inv_def sp_held_def)
next
  case False
  then have m: "sigchld_list s \<noteq> None \<or> os_malloc os 100 \<noteq> None" by simp
  show ?thesis
  proof (cases "sp_inv s")
    case True
    then show ?thesis using netsys_install_ok [OF True m] assms(1) by (auto simp: sp_safe_def)
  next
    case False
    let ?s = "s\<lparr>sp_sig_blocked := False\<rparr>"
    have s: "sp_sig_blocked s" "sigchld_list s = None" "sp_data s" using False assms(2) by (auto simp: sp_held_def)
    then have mx: "\<not> sp_mutex s"
      using assms(1) by (auto simp: netsys_install_sigchld_handler_def sigchld_lock_def)
    then have "sp_inv ?s" using s by (cases "sigchld_init s") (simp_all add: sp_inv_def sp_data_def sp_owned_def)
    moreover have "netsys_install_sigchld_handler os ?s = netsys_install_sigchld_handler os s"
      using mx by (simp add: netsys_install_sigchld_handler_def sigchld_lock_def)
    ultimately show ?thesis using netsys_install_ok [of ?s os] m s(2) assms(1) by (auto simp: sp_safe_def)
  qed
qed

lemma cleanup_safe:
  assumes "netsys_subprocess_cleanup_after_fork os s = Some (r, s')" "sp_inv s"
  shows "sp_safe (sigchld_list s \<noteq> None \<and> os_malloc os 100 = None) s'"
proof -
  obtain s2 where s2: "netsys_subprocess_cleanup_after_fork os s =
      (if sigchld_list s \<noteq> None then netsys_install_sigchld_handler os s2 else Some (Inr (), s2))"
    "sp_inv s2" "sigchld_list s2 = None"
    using cleanup_released [OF assms(2), of os] by blast
  show ?thesis
  proof (cases "sigchld_list s")
    case None
    then show ?thesis using s2 assms(1) by (simp add: sp_safe_def)
  next
    case (Some l)
    then show ?thesis using install_safe [of os s2 r s'] s2 assms(1) by simp
  qed
qed

lemma cleanup_held:
  assumes "netsys_subprocess_cleanup_after_fork os s = Some (r, s')" "sp_held s"
  shows "sp_held s'"
proof (cases "sigchld_init s")
  case True
  then have "sigchld_pipe_rd s \<in> sp_open s" "sigchld_pipe_wr s \<in> sp_open s" "sigchld_pipe_rd s \<noteq> sigchld_pipe_wr s"
    using assms(2) by (auto simp: sp_held_def sp_data_def sp_owned_def)
  then show ?thesis
    using True assms by (auto simp: netsys_subprocess_cleanup_after_fork_def sp_held_def sp_simps sp_data_def sp_owned_def)
qed (use assms in \<open>auto simp: netsys_subprocess_cleanup_after_fork_def sp_held_def\<close>)

lemma sp_handleE:
  assumes "sp_handle i s"
  obtains a l where "sp_atom i s = Some a" "sa_pid a \<noteq> 0" "\<not> sa_ignore a" "sigchld_list s = Some l"
  using assms by (auto simp: sp_handle_def sp_atom_Some_iff split: option.splits)

lemma sp_inv_log: "sp_inv s \<Longrightarrow> \<forall>fd. Closed fd False \<notin> set lg \<Longrightarrow> sp_inv (s\<lparr>sp_log := sp_log s @ lg\<rparr>)"
  by (simp add: sp_inv_def sp_data_log)

lemma sp_inv_process: "sp_inv s \<Longrightarrow> sigchld_process os pid s = Some s' \<Longrightarrow> sp_inv s'"
proof (cases "sigchld_list s")
  case None
  assume "sp_inv s" "sigchld_process os pid s = Some s'"
  then have "s' = s"
    using None by (cases "sigchld_list_len s \<le> 0")
      (auto simp: sigchld_process_def sp_simps sp_atoms_def sp_set_atoms_def sp_inv_def)
  then show ?thesis using \<open>sp_inv s\<close> by simp
next
  case (Some l)
  assume "sp_inv s" "sigchld_process os pid s = Some s'"
  then show ?thesis using sigchld_process_ok [OF _ Some, of os pid] sp_inv_reap [OF _ Some] by force
qed

lemma sp_inv_killpg_all:
  assumes "sp_inv s" "netsys_killpg_all_subprocesses sig o_flag s = Some (r, s')"
  shows "sp_inv s'"
proof (cases "sigchld_list s")
  case None
  then show ?thesis using assms by (simp add: netsys_killpg_all_subprocesses_def)
next
  case (Some l)
  obtain l' where l': "s' = s\<lparr>sigchld_list := Some l', sp_log := sp_log s @
      map (\<lambda>g. Killed (- g) sig) (pg_targets o_flag (map atom_core l))\<rparr>" "map atom_core l' = map atom_core l"
    using netsys_killpg_all_ok [OF assms(1) Some, of sig o_flag] assms(2) by auto
  have "live_fds l' = live_fds l" "length l' = length l"
    using live_fds_core [OF l'(2)] l'(2) map_eq_imp_length_eq by auto
  then show ?thesis
    using assms(1) Some l'(1) by (auto simp: sp_inv_def sp_data_def sp_owned_def)
qed

lemma sp_step_inv:
  assumes "sp_step c s s'" "sp_inv s" "\<not> c"
  shows "sp_inv s'"
  using assms(1)
proof (cases rule: sp_step.cases)
  case (step_watch os pid pgid kill_flag r)
  show ?thesis
  proof (cases "sigchld_list s")
    case None
    then show ?thesis using step_watch assms(2) by (simp add: netsys_watch_subprocess_def)
  next
    case (Some l)
    have "length l < 2 ^ 30"
      using step_watch(4) sp_dataE(2) [OF _ Some] assms(2) by (simp add: sp_inv_def)
    from netsys_watch_ok [OF assms(2) Some this step_watch(3), of pid pgid kill_flag]
    show ?thesis using step_watch(2) by auto
  qed
next
  case (step_process os pid)
  then show ?thesis using sp_inv_process assms(2) by blast
next
  case (step_signal ws EINTR code pid)
  then show ?thesis using sigchld_action_ok assms(2) by (fastforce simp: sp_inv_def)
next
  case (step_ignore i)
  then obtain a where "sp_atom i s = Some a" "sa_pid a \<noteq> 0" "\<not> sa_ignore a" by (blast elim: sp_handleE)
  moreover have "\<not> sp_live (a\<lparr>sa_ignore := True\<rparr>)" by (simp add: sp_live_def)
  ultimately show ?thesis
    using netsys_ignore_ok [OF assms(2)] sp_release_inv [OF assms(2)] step_ignore(2) by auto
next
  case (step_forget i)
  then obtain a where "sp_atom i s = Some a" "sa_pid a \<noteq> 0" "\<not> sa_ignore a" by (blast elim: sp_handleE)
  moreover have "\<not> sp_live (a\<lparr>sa_pid := 0\<rparr>)" by (simp add: sp_live_def)
  ultimately show ?thesis
    using netsys_forget_ok [OF assms(2)] sp_release_inv [OF assms(2)] step_forget(2) by auto
next
  case (step_kill_all sig o_flag ng_flag r)
  then show ?thesis
    using netsys_kill_all_ok [OF assms(2), of _ sig o_flag ng_flag] assms(2)
    by (cases "sigchld_list s") (auto simp: netsys_kill_all_subprocesses_def intro!: sp_inv_log)
next
  case (step_killpg_all sig o_flag r)
  then show ?thesis using sp_inv_killpg_all assms(2) by blast
next
  case (step_other fds)
  then show ?thesis
    using assms(2) by (cases "sigchld_init s")
      (simp_all add: sp_inv_def sp_data_def sp_owned_def cong: option.case_cong)
next
  case (step_install os r)
  then show ?thesis using install_safe [OF step_install(2)] assms(2,3) by (auto simp: sp_safe_def)
next
  case (step_cleanup os r)
  then show ?thesis using cleanup_safe [OF step_cleanup(2) assms(2)] assms(3) by (auto simp: sp_safe_def)
next
  case (step_status rcs i r)
  then obtain a where "sp_atom i s = Some a" by (blast elim: sp_handleE)
  then show ?thesis using step_status(2) netsys_status_ok [OF assms(2), of i a rcs] assms(2) by simp
next
  case (step_kill sig i)
  then obtain a where "sp_atom i s = Some a" by (blast elim: sp_handleE)
  then show ?thesis
    using step_kill(2) netsys_kill_ok [OF assms(2), of i a sig] assms(2)
    by (auto intro!: sp_inv_log split: if_splits)
next
  case (step_killpg sig i)
  then obtain a l where "sp_atom i s = Some a" "sigchld_list s = Some l" by (blast elim: sp_handleE)
  then show ?thesis
    using step_killpg(2) netsys_killpg_ok [OF assms(2), of l i a sig] assms(2)
    by (auto intro!: sp_inv_log split: if_splits)
qed

lemma sp_step_refused:
  assumes "sp_step c s s'" "sp_inv s" c
  shows "sp_held s' \<or> sp_inv s'"
  using assms(1)
proof (cases rule: sp_step.cases)
  case (step_install os r)
  then show ?thesis using install_safe [OF step_install(2)] assms(2) by (auto simp: sp_safe_def)
next
  case (step_cleanup os r)
  then show ?thesis using cleanup_safe [OF step_cleanup(2) assms(2)] by (auto simp: sp_safe_def)
qed (use assms(3) in simp_all)

lemma sp_step_held:
  assumes "sp_step c s s'" "sp_held s"
  shows "sp_held s' \<or> sp_inv s'"
  using assms(1)
proof (cases rule: sp_step.cases)
  case (step_install os r)
  then show ?thesis using install_safe [OF step_install(2)] assms(2) by (auto simp: sp_safe_def)
next
  case (step_cleanup os r)
  then show ?thesis using cleanup_held assms(2) by blast
next
  case (step_process os pid)
  then show ?thesis
    using assms(2) by (auto simp: sigchld_process_def sigchld_lock_def sigchld_unlock_def sp_atoms_def sp_held_def
        sp_set_atoms_def sp_data_def sp_owned_def split: if_splits)
next
  case (step_signal ws EINTR code pid)
  then show ?thesis using sigchld_action_ok assms(2) by (fastforce simp: sp_held_def)
next
  case (step_other fds)
  then show ?thesis using assms(2) by (auto simp: sp_held_def sp_data_def sp_owned_def)
qed (use assms(2) in \<open>auto simp: sp_held_def netsys_watch_subprocess_def netsys_kill_all_subprocesses_def
      netsys_killpg_all_subprocesses_def elim: sp_handleE\<close>)

interpretation watching: step_system "\<lambda>(b, s). \<not> b \<and> (\<exists>fds. s = sp_start fds)"
  "\<lambda>(b, s) (b', s'). \<exists>c. sp_step c s s' \<and> b' = (b \<or> c)" "\<lambda>(b, s). sp_safe b s"
proof (unfold_locales, goal_cases)
  case (1 bs)
  then show ?case by (auto simp: sp_start_def sp_safe_def sp_inv_def sp_data_def sp_owned_def)
next
  case (2 bs bs')
  then show ?case
    using sp_step_inv sp_step_refused sp_step_held by (cases bs; cases bs') (fastforce simp: sp_safe_def)
qed

lemma sp_reachable_sp_safe: "sp_reachable b s \<Longrightarrow> sp_safe b s"
proof (induction rule: sp_reachable.induct)
  case (reach_start fds)
  then show ?case using watching.initial_inv [of "(False, sp_start fds)"] by auto
next
  case (reach_step b s c s')
  then show ?case using watching.step_inv [of "(b, s)" "(b \<or> c, s')"] by auto
qed

lemma reap_fds_set:
  "set (reap_fds os k as) = {sa_pipe_fd (as ! i) | i. i < length as \<and> reaped os (k + i) (as ! i) \<and> \<not> sa_ignore (as ! i)}"
proof (induction as arbitrary: k)
  case Nil
  then show ?case by simp
next
  case (Cons a as)
  have "{sa_pipe_fd ((a # as) ! i) | i. i < length (a # as) \<and> reaped os (k + i) ((a # as) ! i) \<and> \<not> sa_ignore ((a # as) ! i)} =
      (if reaped os k a \<and> \<not> sa_ignore a then {sa_pipe_fd a} else {}) \<union>
      {sa_pipe_fd (as ! i) | i. i < length as \<and> reaped os (Suc k + i) (as ! i) \<and> \<not> sa_ignore (as ! i)}" (is "?L = ?A \<union> ?B")
  proof (intro set_eqI iffI)
    fix x assume "x \<in> ?L"
    then obtain i where "x = sa_pipe_fd ((a # as) ! i)" "i < length (a # as)" "reaped os (k + i) ((a # as) ! i)"
      "\<not> sa_ignore ((a # as) ! i)" by blast
    then show "x \<in> ?A \<union> ?B" by (cases i) auto
  next
    fix x assume "x \<in> ?A \<union> ?B"
    then consider "reaped os k a" "\<not> sa_ignore a" "x = sa_pipe_fd a"
      | i where "x = sa_pipe_fd (as ! i)" "i < length as" "reaped os (Suc k + i) (as ! i)" "\<not> sa_ignore (as ! i)"
      by (auto split: if_splits)
    then show "x \<in> ?L"
    proof cases
      case 1
      then show ?thesis by (intro CollectI exI [of _ 0]) simp
    next
      case (2 i)
      then show ?thesis by (intro CollectI exI [of _ "Suc i"]) simp
    qed
  qed
  then show ?case using Cons.IH [of "Suc k"] by simp
qed

section \<open>Properties\<close>

text \<open>
  Claim C4: descriptor safety. In every state reachable through the operations of the
  module, signals, runs of the helper thread and foreign descriptor traffic, whatever system calls and allocations fail,
  the descriptors the module still has to close (the write end
  of every process that is watched and neither ignored nor terminated, and the ends of the
  helper pipe) are open and pairwise different, and no descriptor that was not open, in
  particular none twice, has ever been closed. The mutex and the signal mask are released between the operations, unless
  the allocation of the list was refused to an installation on the way: only then they may stay held, and only while
  there is no list.
\<close>

theorem sp_reachable_safe:
  assumes "sp_reachable refused s"
  shows "distinct (sp_owned s) \<and> set (sp_owned s) \<subseteq> sp_open s \<and> (\<forall>fd. Closed fd False \<notin> set (sp_log s)) \<and>
    (sp_mutex s \<or> sp_sig_blocked s \<longrightarrow> refused \<and> sigchld_list s = None)"
  using sp_reachable_sp_safe [OF assms] by (auto simp: sp_safe_def sp_inv_def sp_held_def sp_data_def)

text \<open>
  A sample state: one running process, one ignored running process, one terminated process,
  one running process of the same group as the first, one free atom.
\<close>

definition sample_atom :: sigchld_atom where
  "sample_atom = \<lparr>sa_pid = 0, sa_pgid = 0, sa_kill_flag = True, sa_terminated = False, sa_status = 0,
     sa_ignore = False, sa_pipe_fd = 0, sa_kill_sent = False\<rparr>"

definition sample_atoms :: "sigchld_atom list" where
  "sample_atoms = [sample_atom\<lparr>sa_pid := 100, sa_pgid := 100, sa_pipe_fd := 11\<rparr>,
     sample_atom\<lparr>sa_pid := 101, sa_ignore := True\<rparr>,
     sample_atom\<lparr>sa_pid := 102, sa_terminated := True, sa_status := 0x300\<rparr>,
     sample_atom\<lparr>sa_pid := 103, sa_pgid := 100, sa_pipe_fd := 14\<rparr>, sample_atom]"

definition sample_sp :: sp where
  "sample_sp = (sp_start {0, 1, 2, 5, 6, 11, 14})\<lparr>sigchld_list := Some sample_atoms, sigchld_list_len := 5,
     sigchld_init := True, sigchld_pipe_rd := 5, sigchld_pipe_wr := 6\<rparr>"

definition sample_os :: os where
  "sample_os = \<lparr>os_pipe = (\<lambda>i. Inr (20 + 2 * int i, 21 + 2 * int i)), os_fcntl = (\<lambda>fd. None),
     os_pthread_create = None, os_sigaction = None, os_waitpid = (\<lambda>k pid. if pid \<le> 101 then (pid, 9, 0) else (0, 0, 0)),
     os_malloc = (\<lambda>n. Some (\<lambda>k. sample_atom))\<rparr>"

lemma sample_sp_ok:
  "sp_inv sample_sp" "sigchld_list sample_sp = Some sample_atoms" "os_fresh sample_os sample_sp"
  "length sample_atoms < 2 ^ 30"
  by (simp_all add: sample_sp_def sp_start_def sp_inv_def sp_data_def sp_owned_def sample_atoms_def
      sample_atom_def sp_live_def os_fresh_def pipe_fds_def sample_os_def)

theorem sp_reachable_safe_witness:
  "\<exists>s l. sp_reachable False s \<and> \<not> sp_mutex s \<and> sigchld_list s = Some l \<and> sa_pid (l ! 0) = 102 \<and> sp_owned s = [21, 22, 23] \<and>
    distinct (sp_owned s) \<and> set (sp_owned s) \<subseteq> sp_open s"
proof -
  have r0: "sp_reachable False (sp_start {0})" by (rule reach_start)
  let ?l = "replicate 100 sample_atom"
  let ?s1 = "(sp_start {0})\<lparr>sigchld_list_len := 100, sigchld_list := Some ?l, sp_handler := True\<rparr>"
  have rep: "map (\<lambda>k. sample_atom\<lparr>sa_pid := 0\<rparr>) [0..<100] = ?l"
    by (simp add: sample_atom_def map_replicate_const)
  have i: "netsys_install_sigchld_handler sample_os (sp_start {0}) = Some (Inr (), ?s1)"
    by (simp add: netsys_install_sigchld_handler_def sp_simps sp_start_def sample_os_def rep)
  have r1: "sp_reachable False ?s1"
    using reach_step [OF r0 step_install [OF i]] by (simp add: sample_os_def)
  let ?a = "sample_atom\<lparr>sa_pid := 102, sa_pipe_fd := 21\<rparr>"
  let ?s2 = "?s1\<lparr>sigchld_list := Some (?l[0 := ?a]), sigchld_list_cnt := 1, sigchld_init := True,
    sigchld_pipe_rd := 22, sigchld_pipe_wr := 23, sp_open := {0, 20, 21, 22, 23}\<rparr>"
  have o: "{22, 23, 20, 21, 0} = {0, 20, 21, 22, 23 :: int}" by auto
  have l: "?l = sample_atom # replicate 99 sample_atom" by (simp flip: replicate_Suc)
  have w: "netsys_watch_subprocess sample_os 102 0 True ?s1 = Some (Inr (20, 0), ?s2)"
    unfolding l by (simp add: netsys_watch_subprocess_def sp_simps sp_start_def sample_os_def sigchld_init_mt_def
        watch_enter_def watch_slot_def sp_atoms_def sp_atom_def rd_def sample_atom_def o)
  have "os_fresh sample_os ?s1"
    by (simp add: os_fresh_def pipe_fds_def sample_os_def sp_start_def)
  then have r2: "sp_reachable False ?s2"
    using reach_step [OF r1 step_watch [OF w]] by simp
  have "sp_owned ?s2 = [21, 22, 23]"
    unfolding l by (simp add: sp_owned_def sp_live_def sample_atom_def)
  then show ?thesis using sp_reachable_safe [OF r2] r2 by auto
qed




text \<open>
  Claim C22: \<^verbatim>\<open>sigchld_process\<close> notices exactly the processes that \<^verbatim>\<open>waitpid\<close> reports.
  Their atoms become terminated with the reported status, which
  \<^verbatim>\<open>netsys_get_subprocess_status\<close> then returns; the ignored ones among them are freed; the
  write ends of the others are closed, which is what the reader of the pipe waits for; all
  other atoms and descriptors are unchanged.
\<close>

theorem sigchld_process_correct:
  assumes "sp_inv s" "sigchld_list s = Some l"
  shows "\<exists>s'. sigchld_process os pid s = Some s' \<and> sp_inv s' \<and>
    sp_open s' = sp_open s - {sa_pipe_fd (l ! i) | i. i < length l \<and> reaped os i (l ! i) \<and> \<not> sa_ignore (l ! i)} \<and>
    (\<forall>i < length l. sp_atom (int i) s' = Some (reap os i (l ! i)) \<and>
      (reaped os i (l ! i) \<longrightarrow>
       (let st = fst (snd (os_waitpid os i (sa_pid (l ! i)))) in
        netsys_get_subprocess_status rcs (int i) s' =
          Some (Some (if WIFEXITED st then WEXITED (WEXITSTATUS st) else WSIGNALED (rcs (WTERMSIG st))), s'))))"
proof -
  obtain new where new: "sigchld_process os pid s =
      Some (s\<lparr>sigchld_list := Some (reap_all os 0 l), sp_open := sp_open s - set (reap_fds os 0 l),
              sp_log := sp_log s @ new\<rparr>)" (is "_ = Some ?s'") "\<forall>fd b. Closed fd b \<in> set new \<longrightarrow> b"
    using sigchld_process_ok [OF assms, of os pid] by blast
  have inv: "sp_inv ?s'" by (rule sp_inv_reap [OF assms new(2)])
  have a: "sp_atom (int i) ?s' = Some (reap os i (l ! i))" if "i < length l" for i
    using that by (simp add: sp_atom_def rd_def reap_all_nth)
  have st: "sa_terminated (reap os i (l ! i))"
    "sa_status (reap os i (l ! i)) = fst (snd (os_waitpid os i (sa_pid (l ! i))))" if "reaped os i (l ! i)" for i
    using that by (simp_all add: reap_def)
  show ?thesis
    using new(1) inv a st netsys_status_ok [OF inv a] reap_fds_set [of os 0 l] by (intro exI [of _ ?s']) simp
qed

theorem sigchld_process_correct_witness:
  "\<exists>s'. sigchld_process sample_os 7 sample_sp = Some s' \<and> sp_inv s' \<and> 14 \<in> sp_open s' \<and>
    netsys_get_subprocess_status (\<lambda>n. - sint n) 0 s' = Some (Some (WSIGNALED (- 9)), s')"
proof -
  obtain s' where s': "sigchld_process sample_os 7 sample_sp = Some s'" "sp_inv s'"
    "sp_open s' = sp_open sample_sp - {sa_pipe_fd (sample_atoms ! i) | i. i < length sample_atoms \<and>
       reaped sample_os i (sample_atoms ! i) \<and> \<not> sa_ignore (sample_atoms ! i)}"
    "\<forall>i < length sample_atoms. sp_atom (int i) s' = Some (reap sample_os i (sample_atoms ! i)) \<and>
      (reaped sample_os i (sample_atoms ! i) \<longrightarrow>
       (let st = fst (snd (os_waitpid sample_os i (sa_pid (sample_atoms ! i)))) in
        netsys_get_subprocess_status (\<lambda>n. - sint n) (int i) s' =
          Some (Some (if WIFEXITED st then WEXITED (WEXITSTATUS st) else WSIGNALED (- sint (WTERMSIG st))), s')))"
    using sigchld_process_correct [OF sample_sp_ok(1,2), of sample_os 7 "\<lambda>n. - sint n"] by blast
  have r: "reaped sample_os 0 (sample_atoms ! 0)"
    by (simp add: reaped_def sample_os_def sample_atoms_def sample_atom_def)
  have "WTERMSIG 9 = 9" by (simp add: WTERMSIG_def)
  then have "netsys_get_subprocess_status (\<lambda>n. - sint n) 0 s' = Some (Some (WSIGNALED (- 9)), s')"
    using s'(4) [rule_format, of 0] r
    by (simp add: sample_os_def sample_atoms_def sample_atom_def WIFEXITED_def)
  moreover have "14 \<noteq> sa_pipe_fd (sample_atoms ! i)"
    if "i < length sample_atoms" "reaped sample_os i (sample_atoms ! i)" for i
    using that by (auto simp: reaped_def sample_os_def sample_atoms_def sample_atom_def less_Suc_eq numeral_nat)
  then have "14 \<in> sp_open s'" unfolding s'(3) by (auto simp: sample_sp_def sp_start_def)
  ultimately show ?thesis using s'(1,2) by blast
qed


text \<open>
  \<^verbatim>\<open>netsys_killpg_all_subprocesses\<close> sends the signal exactly once to each process
  group that has a watched process which still runs and is selected (override flag or its
  kill flag), and to no other group; it closes nothing.
\<close>

theorem netsys_killpg_all_correct:
  assumes "sp_inv s" "sigchld_list s = Some l"
  shows "\<exists>s' gs. netsys_killpg_all_subprocesses sig o_flag s = Some (Inr (), s') \<and> sp_inv s' \<and>
    sp_log s' = sp_log s @ map (\<lambda>g. Killed (- g) sig) gs \<and> sp_open s' = sp_open s \<and> distinct gs \<and>
    set gs = sa_pgid ` {a \<in> set l. sa_pid a \<noteq> 0 \<and> \<not> sa_terminated a \<and> sa_pgid a > 0 \<and> (o_flag \<or> sa_kill_flag a)}"
proof -
  obtain l' where l': "netsys_killpg_all_subprocesses sig o_flag s =
    Some (Inr (), s\<lparr>sigchld_list := Some l', sp_log := sp_log s @
      map (\<lambda>g. Killed (- g) sig) (pg_targets o_flag (map atom_core l))\<rparr>)" (is "_ = Some (_, ?s')")
    using netsys_killpg_all_ok [OF assms, of sig o_flag] by blast
  have "{a \<in> set (map atom_core l). pg_selected o_flag a \<and> \<not> sa_kill_sent a} =
      atom_core ` {a \<in> set l. pg_selected o_flag a}"
    by (auto simp: atom_core_def pg_selected_def)
  then have "set (pg_targets o_flag (map atom_core l)) = sa_pgid ` {a \<in> set l. pg_selected o_flag a}"
    using pg_targets_props [of o_flag "map atom_core l"] by (simp add: image_image atom_core_def)
  then show ?thesis
    using l' sp_inv_killpg_all [OF assms(1) l'] pg_targets_props [of o_flag "map atom_core l"]
    by (intro exI [of _ ?s'] exI [of _ "pg_targets o_flag (map atom_core l)"]) (simp add: pg_selected_def)
qed

theorem netsys_killpg_all_correct_witness:
  "\<exists>s' gs. netsys_killpg_all_subprocesses 15 False sample_sp = Some (Inr (), s') \<and>
    sp_log s' = map (\<lambda>g. Killed (- g) 15) gs \<and> distinct gs \<and> set gs = {100}"
proof -
  have "sa_pgid ` {a \<in> set sample_atoms. sa_pid a \<noteq> 0 \<and> \<not> sa_terminated a \<and> sa_pgid a > 0 \<and>
      (False \<or> sa_kill_flag a)} =
      set (map sa_pgid (filter (\<lambda>a. sa_pid a \<noteq> 0 \<and> \<not> sa_terminated a \<and> sa_pgid a > 0 \<and> sa_kill_flag a) sample_atoms))"
    by auto
  also have "\<dots> = {100}" by (simp add: sample_atoms_def sample_atom_def)
  finally have "sa_pgid ` {a \<in> set sample_atoms. sa_pid a \<noteq> 0 \<and> \<not> sa_terminated a \<and> sa_pgid a > 0 \<and>
      (False \<or> sa_kill_flag a)} = {100}" .
  then show ?thesis
    using netsys_killpg_all_correct [OF sample_sp_ok(1,2), of 15 False]
    by (auto simp: sample_sp_def sp_start_def)
qed

text \<open>
  After a \<^verbatim>\<open>fork\<close> the child closes exactly the descriptors the module owned, so
  that the parent's notification pipes are not held open, and reinstalls the handler with an
  empty list.
\<close>

theorem netsys_subprocess_cleanup_correct:
  assumes "sp_inv s" "sigchld_list s = None \<or> os_malloc os 100 \<noteq> None"
  shows "\<exists>res s'. netsys_subprocess_cleanup_after_fork os s = Some (res, s') \<and> sp_inv s' \<and>
    sp_owned s' = [] \<and> sp_open s' = sp_open s - set (sp_owned s) \<and>
    (res = Inr () \<or> (\<exists>e. res = Inl (Unix_error e ''sigaction'')))"
  using assms by (rule netsys_cleanup_ok)

theorem netsys_subprocess_cleanup_correct_witness:
  "\<exists>res s'. netsys_subprocess_cleanup_after_fork sample_os sample_sp = Some (res, s') \<and> sp_inv s' \<and>
    sp_owned s' = [] \<and> sp_open s' = {0, 1, 2}"
proof -
  have "sp_open sample_sp - set (sp_owned sample_sp) = {0, 1, 2}"
    by (auto simp: sample_sp_def sp_start_def sp_owned_def sample_atoms_def sample_atom_def sp_live_def)
  then show ?thesis
    using netsys_subprocess_cleanup_correct [OF sample_sp_ok(1), of sample_os] by (auto simp: sample_os_def)
qed

text \<open>
  When the installation cannot allocate the list it raises \<^verbatim>\<open>Failure\<close> while holding
  the mutex (and with the signal blocked). Every later operation of this process, a second installation
  included, waits for it forever.
\<close>

theorem install_failure_deadlocks:
  assumes "\<not> sp_mutex s" "sigchld_list s = None" "os_malloc os 100 = None"
  shows "\<exists>s'. netsys_install_sigchld_handler os s = Some (Inl (Failure ''Cannot allocate memory''), s') \<and>
    sp_sig_blocked s' \<and> netsys_install_sigchld_handler os' s' = None \<and> sigchld_process os' pid s' = None \<and>
    netsys_forget_subprocess i s' = None"
  using assms
  by (simp add: netsys_install_sigchld_handler_def sigchld_lock_def sigchld_process_def netsys_forget_subprocess_def)

theorem install_failure_deadlocks_witness:
  "\<exists>s'. netsys_install_sigchld_handler (sample_os\<lparr>os_malloc := \<lambda>n. None\<rparr>) (sp_start {0}) =
      Some (Inl (Failure ''Cannot allocate memory''), s') \<and>
    netsys_install_sigchld_handler sample_os s' = None"
  using install_failure_deadlocks [of "sp_start {0}" "sample_os\<lparr>os_malloc := \<lambda>n. None\<rparr>" sample_os 0 0]
  by (auto simp: sp_start_def)

text \<open>
  The limits of releasing and of killing process groups. Ignoring a process that
  has already terminated leaves its atom occupied, and no later run of the handler frees it.
  A signal for the process group of a handle is sent as long as any watched process runs,
  even when no process of this group is left.
\<close>

theorem ignore_terminated_leaks:
  assumes "sp_inv s" "sp_atom i s = Some a" "sa_pid a \<noteq> 0" "\<not> sa_ignore a" "sa_terminated a"
  shows "\<exists>s' a'. netsys_ignore_subprocess i s = Some s' \<and> sp_atom i s' = Some a' \<and> sa_pid a' \<noteq> 0 \<and>
    (\<exists>s''. sigchld_process os pid s' = Some s'' \<and> sp_atom i s'' = Some a') \<and>
    (0 < sa_pgid a \<and> (\<exists>l b. sigchld_list s = Some l \<and> b \<in> set l \<and> sa_pid b \<noteq> 0 \<and> \<not> sa_terminated b) \<longrightarrow>
     netsys_killpg_subprocess sig i s = Some (s\<lparr>sp_log := sp_log s @ [Killed (- sa_pgid a) sig]\<rparr>))"
proof -
  obtain l where l: "sigchld_list s = Some l" "0 \<le> i" "nat i < length l" "l ! nat i = a"
    using assms(2) by (auto simp: sp_atom_Some_iff)
  let ?a = "a\<lparr>sa_ignore := True\<rparr>"
  let ?s = "sp_release i a ?a s"
  have inv: "sp_inv ?s"
    using assms by (intro sp_release_inv) (simp_all add: sp_live_def)
  have l': "sigchld_list ?s = Some (l[nat i := ?a])" using l(1) by (simp add: sp_release_def)
  then have a': "sp_atom i ?s = Some ?a" using l by (simp add: sp_atom_Some_iff)
  obtain s'' where "sigchld_process os pid ?s = Some s''"
      "\<forall>j < length (l[nat i := ?a]). sp_atom (int j) s'' = Some (reap os j (l[nat i := ?a] ! j))"
    using sigchld_process_ok [OF inv l', of os pid] by (auto simp: sp_atom_def rd_def reap_all_nth)
  moreover have "reap os (nat i) ?a = ?a" using assms(5) by (simp add: reap_def reaped_def)
  ultimately have "sigchld_process os pid ?s = Some s''" "sp_atom i s'' = Some ?a"
    using l(2,3) by force+
  moreover have "netsys_killpg_subprocess sig i s = Some (s\<lparr>sp_log := sp_log s @ [Killed (- sa_pgid a) sig]\<rparr>)"
    if "0 < sa_pgid a" "b \<in> set l" "sa_pid b \<noteq> 0" "\<not> sa_terminated b" for b
    using netsys_killpg_ok [OF assms(1) l(1) assms(2), of sig] that by auto
  ultimately show ?thesis
    using netsys_ignore_ok [OF assms(1-4)] a' assms(3) l(1) by (intro exI [of _ ?s] exI [of _ ?a]) auto
qed

theorem ignore_terminated_leaks_witness:
  "\<exists>s' a'. netsys_ignore_subprocess 2 sample_sp = Some s' \<and> sp_atom 2 s' = Some a' \<and> sa_pid a' \<noteq> 0 \<and>
    (\<exists>s''. sigchld_process sample_os 0 s' = Some s'' \<and> sp_atom 2 s'' = Some a')"
proof -
  let ?a = "sample_atom\<lparr>sa_pid := 102, sa_terminated := True, sa_status := 0x300\<rparr>"
  have "sp_atom 2 sample_sp = Some ?a"
    by (simp add: sp_atom_def rd_def sample_sp_def sp_start_def sample_atoms_def)
  from ignore_terminated_leaks [OF sample_sp_ok(1) this, of sample_os 0]
  show ?thesis by (auto simp: sample_atom_def)
qed

end
