(* ===== verification/Not_event.thy ===== *)
theory Not_event
  imports Netsys_Prelude
begin

text \<open>
  Notification events, \<^verbatim>\<open>src/src/netsys/netsys_c_event.c\<close> and \<^verbatim>\<open>netsys_c_event.h\<close>: a
  flag that one thread or a signal handler sets and another one waits for, built on a
  pipe or on an \<^verbatim>\<open>eventfd\<close>. Both configurations are modelled (\<open>have_eventfd\<close>), with
  \<^verbatim>\<open>poll\<close>, POSIX threads, \<^verbatim>\<open>timerfd\<close> and the compare-and-swap builtin.

  The kernel state \<open>nk\<close> has the open descriptors, for every descriptor the amount of data
  that can be read from it (bytes in the pipe, or the counter of an eventfd or timerfd),
  the read end that belongs to a write end, and the nonblocking descriptors. System calls that
  can fail for reasons outside this state get their answers from the record \<open>ne_os\<close>. An
  operation whose result is \<open>None\<close> waits in a blocking system call.
\<close>

datatype not_event_type = NE_PIPE | NE_EVENTFD | NE_TIMERFD

record not_event =
  ne_type :: not_event_type
  ne_state :: bool
  ne_fd1 :: int
  ne_fd2 :: int
  ne_allow_user_add :: bool

record nk =
  nk_open :: "int set"
  nk_data :: "int \<Rightarrow> nat"
  nk_peer :: "int \<Rightarrow> int"
  nk_nonblock :: "int set"

record ne_os =
  no_mutex_init :: "int option"
  no_eventfd :: "int + int"
  no_pipe :: "int + int \<times> int"
  no_timerfd :: "int + int"
  no_dup :: "int + int"
  no_cloexec :: "int \<Rightarrow> int option"
  no_setfl :: "int option"
  no_poll :: "int option"
  no_EAGAIN :: int
  no_EINVAL :: int

definition nk_close :: "int \<Rightarrow> nk \<Rightarrow> nk" where
  "nk_close fd k = k\<lparr>nk_open := nk_open k - {fd}\<rparr>"

definition nk_new :: "int \<Rightarrow> nk \<Rightarrow> nk" where
  "nk_new fd k = k\<lparr>nk_open := insert fd (nk_open k), nk_data := (nk_data k)(fd := 0),
     nk_nonblock := nk_nonblock k - {fd}\<rparr>"

section \<open>Destroying and signalling\<close>

definition netsys_destroy_not_event :: "not_event \<Rightarrow> nk \<Rightarrow> not_event \<times> nk" where
  "netsys_destroy_not_event p k =
     (let k1 = (if ne_fd1 p \<ge> 0 then nk_close (ne_fd1 p) k else k);
          k2 = (if ne_fd2 p \<ge> 0 then nk_close (ne_fd2 p) k1 else k1)
      in (p\<lparr>ne_fd1 := -1, ne_fd2 := -1\<rparr>, k2))"

text \<open>\<^verbatim>\<open>write(fd2, "X", 1)\<close>: fails silently on a closed descriptor.\<close>

definition pipe_write :: "int \<Rightarrow> nk \<Rightarrow> nk" where
  "pipe_write fd k =
     (if fd \<in> nk_open k
      then k\<lparr>nk_data := (nk_data k)(nk_peer k fd := nk_data k (nk_peer k fd) + 1)\<rparr> else k)"

text \<open>\<^verbatim>\<open>write(fd1, &buf, 8)\<close> with the value 1 on an eventfd; it waits when the counter is at its maximum.\<close>

definition eventfd_write :: "int \<Rightarrow> nk \<Rightarrow> nk option" where
  "eventfd_write fd k =
     (if fd \<notin> nk_open k then Some k
      else if nk_data k fd + 1 \<le> 2 ^ 64 - 2
      then Some (k\<lparr>nk_data := (nk_data k)(fd := nk_data k fd + 1)\<rparr>)
      else if fd \<in> nk_nonblock k then Some k else None)"

text \<open>The two atomic actions of the pipe variant: the compare-and-swap and the \<^verbatim>\<open>write\<close>.\<close>

definition signal_cas :: "not_event \<Rightarrow> bool \<times> not_event" where
  "signal_cas ne = (if \<not> ne_state ne then (True, ne\<lparr>ne_state := True\<rparr>) else (False, ne))"

definition signal_write :: "not_event \<Rightarrow> nk \<Rightarrow> nk" where
  "signal_write ne k = (if ne_fd2 ne \<ge> 0 then pipe_write (ne_fd2 ne) k else k)"

definition netsys_not_event_signal :: "not_event \<Rightarrow> nk \<Rightarrow> (not_event \<times> nk) option" where
  "netsys_not_event_signal ne k =
     (case ne_type ne of
        NE_PIPE \<Rightarrow>
          (case signal_cas ne of (won, ne') \<Rightarrow> Some (ne', if won then signal_write ne' k else k))
      | NE_EVENTFD \<Rightarrow>
          (if ne_fd1 ne \<ge> 0 then do { k' \<leftarrow> eventfd_write (ne_fd1 ne) k; Some (ne, k') }
           else Some (ne, k))
      | NE_TIMERFD \<Rightarrow> Some (ne, k))"

section \<open>Creation\<close>

definition create_eventfd :: "ne_os \<Rightarrow> not_event \<Rightarrow> nk \<Rightarrow> (exn + not_event) \<times> nk" where
  "create_eventfd os p k =
     (case no_eventfd os of
        Inl e \<Rightarrow> (Inl (Unix_error e ''eventfd''), k)
      | Inr fd \<Rightarrow>
          let k1 = nk_new fd k in
          (case no_cloexec os fd of
             Some e \<Rightarrow> (Inl (Unix_error e ''fcntl''), nk_close fd k1)
           | None \<Rightarrow> (Inr (p\<lparr>ne_type := NE_EVENTFD, ne_fd1 := fd\<rparr>), k1)))"

definition create_pipe :: "ne_os \<Rightarrow> not_event \<Rightarrow> nk \<Rightarrow> (exn + not_event) \<times> nk" where
  "create_pipe os p k =
     (case no_pipe os of
        Inl e \<Rightarrow> (Inl (Unix_error e ''pipe''), k)
      | Inr (fd1, fd2) \<Rightarrow>
          let k1 = (nk_new fd2 (nk_new fd1 k))\<lparr>nk_peer := (nk_peer k)(fd2 := fd1)\<rparr> in
          (case no_cloexec os fd1 of
             Some e \<Rightarrow> (Inl (Unix_error e ''fcntl''), nk_close fd2 (nk_close fd1 k1))
           | None \<Rightarrow>
               (case no_cloexec os fd2 of
                  Some e \<Rightarrow> (Inl (Unix_error e ''fcntl''), nk_close fd2 (nk_close fd1 k1))
                | None \<Rightarrow> (Inr (p\<lparr>ne_type := NE_PIPE, ne_fd1 := fd1, ne_fd2 := fd2\<rparr>), k1))))"

definition netsys_create_not_event ::
    "bool \<Rightarrow> ne_os \<Rightarrow> bool \<Rightarrow> nk \<Rightarrow> (exn + not_event) \<times> nk" where
  "netsys_create_not_event have_eventfd os allow_user_add k =
     (let p = \<lparr>ne_type = NE_PIPE, ne_state = False, ne_fd1 = -1, ne_fd2 = -1,
               ne_allow_user_add = allow_user_add\<rparr>
      in case no_mutex_init os of
           Some e \<Rightarrow> (Inl (Unix_error e ''pthread_mutex_init''), k)
         | None \<Rightarrow> if have_eventfd then create_eventfd os p k else create_pipe os p k)"

definition netsys_not_event_timerfd :: "ne_os \<Rightarrow> nk \<Rightarrow> (exn + not_event) \<times> nk" where
  "netsys_not_event_timerfd os k =
     (let p = \<lparr>ne_type = NE_TIMERFD, ne_state = False, ne_fd1 = -1, ne_fd2 = -1, ne_allow_user_add = False\<rparr>
      in case no_timerfd os of
           Inl e \<Rightarrow> (Inl (Unix_error e ''timerfd_create''), k)
         | Inr fd \<Rightarrow>
             let k1 = nk_new fd k in
             (case no_cloexec os fd of
                Some e \<Rightarrow> (Inl (Unix_error e ''fcntl''), nk_close fd k1)
              | None \<Rightarrow> (Inr (p\<lparr>ne_fd1 := fd\<rparr>), k1)))"

section \<open>Accessors, setting, waiting, consuming\<close>

definition netsys_set_nonblock_not_event :: "ne_os \<Rightarrow> not_event \<Rightarrow> nk \<Rightarrow> (exn + unit) \<times> nk" where
  "netsys_set_nonblock_not_event os ne k =
     (if ne_fd1 ne = -1 then (Inl (Failure ''Netsys_posix.set_nonblock_event: already destroyed''), k)
      else case no_setfl os of
             Some e \<Rightarrow> (Inl (Unix_error e ''fcntl''), k)
           | None \<Rightarrow> (Inr (), k\<lparr>nk_nonblock := insert (ne_fd1 ne) (nk_nonblock k)\<rparr>))"

definition netsys_get_not_event_fd :: "ne_os \<Rightarrow> not_event \<Rightarrow> nk \<Rightarrow> (exn + int) \<times> nk" where
  "netsys_get_not_event_fd os ne k =
     (if ne_fd1 ne = -1 then (Inl (Failure ''Netsys_posix.get_event_fd: already destroyed''), k)
      else case no_dup os of
             Inl e \<Rightarrow> (Inl (Unix_error e ''dup''), k)
           | Inr fd \<Rightarrow>
               let k1 = k\<lparr>nk_open := insert fd (nk_open k)\<rparr> in
               (case no_cloexec os fd of
                  Some e \<Rightarrow> (Inl (Unix_error e ''fcntl''), k1)
                | None \<Rightarrow> (Inr fd, k1)))"

definition netsys_return_not_event_fd :: "not_event \<Rightarrow> exn + int" where
  "netsys_return_not_event_fd ne =
     (if ne_fd1 ne = -1 then Inl (Failure ''Netsys_posix.get_event_fd: already destroyed'')
      else Inr (ne_fd1 ne))"

definition netsys_return_all_not_event_fd :: "not_event \<Rightarrow> int list" where
  "netsys_return_all_not_event_fd ne =
     (let v1 = (if ne_fd1 ne \<noteq> -1 then [ne_fd1 ne] else [])
      in if ne_fd2 ne \<noteq> -1 then ne_fd2 ne # v1 else v1)"

definition netsys_set_not_event :: "not_event \<Rightarrow> nk \<Rightarrow> ((exn + unit) \<times> not_event \<times> nk) option" where
  "netsys_set_not_event ne k =
     (if ne_fd1 ne = -1 then Some (Inl (Failure ''Netsys_posix.set_event: already destroyed''), ne, k)
      else if \<not> ne_allow_user_add ne
      then Some (Inl (Failure ''Netsys_posix.set_event: not allowed for this type of event''), ne, k)
      else do { (ne', k') \<leftarrow> netsys_not_event_signal ne k; Some (Inr (), ne', k') })"

text \<open>\<^verbatim>\<open>poll\<close> with an infinite timeout: interrupted (\<open>no_poll\<close>), or waits until data is there.\<close>

definition netsys_wait_not_event :: "ne_os \<Rightarrow> not_event \<Rightarrow> nk \<Rightarrow> (exn + unit) option" where
  "netsys_wait_not_event os ne k =
     (if ne_fd1 ne = -1 then Some (Inl (Failure ''Netsys_posix.wait_event: already destroyed''))
      else case no_poll os of
             Some e \<Rightarrow> Some (Inl (Unix_error e ''poll''))
           | None \<Rightarrow> if 0 < nk_data k (ne_fd1 ne) then Some (Inr ()) else None)"

text \<open>
  \<^verbatim>\<open>read\<close> of one byte from a pipe and of the 8 byte counter from an eventfd or timerfd: the number of
  bytes or an \<^verbatim>\<open>errno\<close>, and the kernel state after it.
\<close>

definition ne_read :: "ne_os \<Rightarrow> not_event \<Rightarrow> nk \<Rightarrow> ((int + int) \<times> nk) option" where
  "ne_read os ne k =
     (let fd = ne_fd1 ne in
      if nk_data k fd = 0 then (if fd \<in> nk_nonblock k then Some (Inl (no_EAGAIN os), k) else None)
      else case ne_type ne of
             NE_PIPE \<Rightarrow> Some (Inr 1, k\<lparr>nk_data := (nk_data k)(fd := nk_data k fd - 1)\<rparr>)
           | _ \<Rightarrow> Some (Inr 8, k\<lparr>nk_data := (nk_data k)(fd := 0)\<rparr>))"

definition netsys_consume_not_event ::
    "ne_os \<Rightarrow> not_event \<Rightarrow> nk \<Rightarrow> ((exn + unit) \<times> not_event \<times> nk) option" where
  "netsys_consume_not_event os ne k =
     (if ne_fd1 ne = -1 then Some (Inl (Failure ''Netsys_posix.consume_event: already destroyed''), ne, k)
      else do {
        (r, k') \<leftarrow> ne_read os ne k;
        case r of
          Inl e \<Rightarrow> Some (Inl (Unix_error e ''read''), ne, k')
        | Inr code \<Rightarrow>
            let ok = (case ne_type ne of NE_PIPE \<Rightarrow> code = 1 | _ \<Rightarrow> code = 8) in
            if \<not> ok then Some (Inl (Unix_error (no_EINVAL os) ''read (result invalid)''), ne, k')
            else Some (Inr (), ne\<lparr>ne_state := False\<rparr>, k')
      })"

section \<open>The event as a flag\<close>

text \<open>
  A usable event: its descriptors are open, and for a pipe the flag is set exactly when a
  byte is in the pipe. \<open>ne_set\<close> is the abstract value.
\<close>

definition ne_ok :: "not_event \<Rightarrow> nk \<Rightarrow> bool" where
  "ne_ok ne k \<longleftrightarrow> 0 \<le> ne_fd1 ne \<and> ne_fd1 ne \<in> nk_open k \<and>
     (case ne_type ne of
        NE_PIPE \<Rightarrow> 0 \<le> ne_fd2 ne \<and> ne_fd2 ne \<in> nk_open k \<and> nk_peer k (ne_fd2 ne) = ne_fd1 ne \<and>
          nk_data k (ne_fd1 ne) = (if ne_state ne then 1 else 0)
      | NE_EVENTFD \<Rightarrow> ne_fd2 ne = -1
      | NE_TIMERFD \<Rightarrow> ne_fd2 ne = -1)"

definition ne_set :: "not_event \<Rightarrow> nk \<Rightarrow> bool" where
  "ne_set ne k \<longleftrightarrow> 0 < nk_data k (ne_fd1 ne)"

lemma create_ok:
  assumes "netsys_create_not_event have_eventfd os allow k = (Inr ne, k')"
    and "\<forall>fd. no_eventfd os = Inr fd \<longrightarrow> 0 \<le> fd"
    and "\<forall>fd1 fd2. no_pipe os = Inr (fd1, fd2) \<longrightarrow> 0 \<le> fd1 \<and> 0 \<le> fd2 \<and> fd1 \<noteq> fd2"
  shows "ne_ok ne k' \<and> \<not> ne_set ne k' \<and> ne_allow_user_add ne = allow \<and>
    ne_type ne = (if have_eventfd then NE_EVENTFD else NE_PIPE)"
  using assms
  by (auto simp: netsys_create_not_event_def create_eventfd_def create_pipe_def nk_new_def ne_ok_def ne_set_def
      Let_def split: option.splits sum.splits if_splits)

lemma signal_ok:
  assumes "ne_ok ne k" "ne_type ne \<noteq> NE_TIMERFD" "nk_data k (ne_fd1 ne) < 2 ^ 64 - 2"
  shows "\<exists>ne' k'. netsys_not_event_signal ne k = Some (ne', k') \<and> ne_ok ne' k' \<and> ne_set ne' k' \<and>
    ne' = ne\<lparr>ne_state := ne_state ne'\<rparr> \<and> nk_open k' = nk_open k \<and> nk_nonblock k' = nk_nonblock k \<and>
    nk_data k' (ne_fd1 ne) \<le> nk_data k (ne_fd1 ne) + 1"
  using assms
  by (cases "ne_type ne"; cases "ne_state ne")
    (auto simp: netsys_not_event_signal_def signal_cas_def signal_write_def pipe_write_def eventfd_write_def
      ne_ok_def ne_set_def)

lemma consume_ok:
  assumes "ne_ok ne k" "ne_set ne k"
  shows "\<exists>k'. netsys_consume_not_event os ne k = Some (Inr (), ne\<lparr>ne_state := False\<rparr>, k') \<and>
    ne_ok (ne\<lparr>ne_state := False\<rparr>) k' \<and> \<not> ne_set (ne\<lparr>ne_state := False\<rparr>) k' \<and>
    nk_open k' = nk_open k \<and> nk_nonblock k' = nk_nonblock k"
  using assms
  by (cases "ne_type ne"; cases "ne_state ne")
    (auto simp: netsys_consume_not_event_def ne_read_def ne_ok_def ne_set_def)


primrec signal_n :: "nat \<Rightarrow> not_event \<Rightarrow> nk \<Rightarrow> (not_event \<times> nk) option" where
  "signal_n 0 ne k = Some (ne, k)"
| "signal_n (Suc n) ne k = do { (ne', k') \<leftarrow> netsys_not_event_signal ne k; signal_n n ne' k' }"

lemma signal_n_ok:
  assumes "ne_ok ne k" "ne_type ne \<noteq> NE_TIMERFD" "nk_data k (ne_fd1 ne) + n \<le> 2 ^ 64 - 2"
  shows "\<exists>ne' k'. signal_n n ne k = Some (ne', k') \<and> ne_ok ne' k' \<and> (0 < n \<or> ne_set ne k \<longrightarrow> ne_set ne' k') \<and>
    ne' = ne\<lparr>ne_state := ne_state ne'\<rparr> \<and> nk_open k' = nk_open k \<and> nk_nonblock k' = nk_nonblock k"
  using assms
proof (induction n arbitrary: ne k)
  case 0
  then show ?case by simp
next
  case (Suc n)
  obtain ne1 k1 where s: "netsys_not_event_signal ne k = Some (ne1, k1)" "ne_ok ne1 k1" "ne_set ne1 k1"
    "ne1 = ne\<lparr>ne_state := ne_state ne1\<rparr>" "nk_open k1 = nk_open k" "nk_nonblock k1 = nk_nonblock k"
    "nk_data k1 (ne_fd1 ne) \<le> nk_data k (ne_fd1 ne) + 1"
    using signal_ok [OF Suc.prems(1,2)] Suc.prems(3) by auto
  have f: "ne_type ne1 = ne_type ne" "ne_fd1 ne1 = ne_fd1 ne"
    by (subst s(4), simp)+
  have "ne_type ne1 \<noteq> NE_TIMERFD" "nk_data k1 (ne_fd1 ne1) + n \<le> 2 ^ 64 - 2"
    using Suc.prems(2,3) s(7) f by auto
  from Suc.IH [OF s(2) this] obtain ne' k' where
    t: "signal_n n ne1 k1 = Some (ne', k')" "ne_ok ne' k'" "ne_set ne' k'"
      "ne' = ne1\<lparr>ne_state := ne_state ne'\<rparr>" "nk_open k' = nk_open k1" "nk_nonblock k' = nk_nonblock k1"
    using s(3) by auto
  have "ne' = ne\<lparr>ne_state := ne_state ne'\<rparr>"
    using t(4) s(4) by (metis not_event.surjective not_event.update_convs(2))
  then show ?case using s t by simp
qed

section \<open>Interleavings of the pipe variant\<close>

text \<open>
  Threads and signal handlers call \<^verbatim>\<open>netsys_not_event_signal\<close> and
  \<^verbatim>\<open>netsys_consume_not_event\<close> concurrently. The atomic actions are the compare-and-swap and
  the \<^verbatim>\<open>write\<close> of a signaller, and the \<^verbatim>\<open>read\<close> and the reset of the flag of a consumer.
  \<open>w\<close> signallers stand between their two actions, \<open>c\<close> consumers between theirs.
\<close>

record ne_conc =
  nc_event :: not_event
  nc_kernel :: nk
  nc_writers :: nat
  nc_consumers :: nat

inductive ne_step :: "ne_conc \<Rightarrow> ne_conc \<Rightarrow> bool" where
  ne_cas: "signal_cas (nc_event s) = (won, ne') \<Longrightarrow>
    ne_step s (s\<lparr>nc_event := ne', nc_writers := (if won then nc_writers s + 1 else nc_writers s)\<rparr>)"
| ne_write: "nc_writers s = Suc w \<Longrightarrow>
    ne_step s (s\<lparr>nc_kernel := signal_write (nc_event s) (nc_kernel s), nc_writers := w\<rparr>)"
| ne_reads: "ne_read os (nc_event s) (nc_kernel s) = Some (Inr code, k') \<Longrightarrow>
    ne_step s (s\<lparr>nc_kernel := k', nc_consumers := nc_consumers s + 1\<rparr>)"
| ne_reset: "nc_consumers s = Suc c \<Longrightarrow>
    ne_step s (s\<lparr>nc_event := (nc_event s)\<lparr>ne_state := False\<rparr>, nc_consumers := c\<rparr>)"

definition nc_inv :: "ne_conc \<Rightarrow> bool" where
  "nc_inv s \<longleftrightarrow>
     (let ne = nc_event s; k = nc_kernel s in
      ne_type ne = NE_PIPE \<and> 0 \<le> ne_fd1 ne \<and> 0 \<le> ne_fd2 ne \<and> {ne_fd1 ne, ne_fd2 ne} \<subseteq> nk_open k \<and>
      nk_peer k (ne_fd2 ne) = ne_fd1 ne \<and>
      nk_data k (ne_fd1 ne) + nc_writers s + nc_consumers s = (if ne_state ne then 1 else 0))"

lemma nc_inv_step: "ne_step s s' \<Longrightarrow> nc_inv s \<Longrightarrow> nc_inv s'"
proof (induction rule: ne_step.induct)
  case (ne_cas s won ne')
  then show ?case by (auto simp: nc_inv_def signal_cas_def Let_def split: if_splits)
next
  case (ne_write s w)
  then show ?case by (auto simp: nc_inv_def signal_write_def pipe_write_def Let_def split: if_splits)
next
  case (ne_reads os s code k')
  then show ?case by (auto simp: nc_inv_def ne_read_def Let_def split: if_splits)
next
  case (ne_reset s c)
  then show ?case by (auto simp: nc_inv_def Let_def split: if_splits)
qed

definition nc_start :: "not_event \<Rightarrow> nk \<Rightarrow> ne_conc" where
  "nc_start ne k = \<lparr>nc_event = ne, nc_kernel = k, nc_writers = 0, nc_consumers = 0\<rparr>"

lemma nc_inv_start: "ne_ok ne k \<Longrightarrow> ne_type ne = NE_PIPE \<Longrightarrow> nc_inv (nc_start ne k)"
  by (simp add: nc_inv_def nc_start_def ne_ok_def Let_def)

interpretation nc: step_system "\<lambda>s. \<exists>ne k. ne_ok ne k \<and> ne_type ne = NE_PIPE \<and> s = nc_start ne k" ne_step nc_inv
  by (unfold_locales, use nc_inv_start in blast, rule nc_inv_step)

section \<open>The event contract\<close>

definition ne_set_op :: "not_event \<times> nk \<Rightarrow> (not_event \<times> nk) option" where
  "ne_set_op s = (case netsys_set_not_event (fst s) (snd s) of Some (Inr u, ne, k) \<Rightarrow> Some (ne, k) | _ \<Rightarrow> None)"

definition ne_clear_op :: "ne_os \<Rightarrow> not_event \<times> nk \<Rightarrow> (not_event \<times> nk) option" where
  "ne_clear_op os s = (case netsys_consume_not_event os (fst s) (snd s) of Some (Inr u, ne, k) \<Rightarrow> Some (ne, k) | _ \<Rightarrow> None)"

definition ne_usable :: "not_event \<times> nk \<Rightarrow> bool" where
  "ne_usable s \<longleftrightarrow> ne_ok (fst s) (snd s) \<and> ne_type (fst s) = NE_PIPE \<and> ne_allow_user_add (fst s)"

interpretation pipe_event: event_flag ne_usable "\<lambda>s. ne_set (fst s) (snd s)" ne_set_op "ne_clear_op os" for os
proof
  fix s :: "not_event \<times> nk"
  assume u: "ne_usable s"
  obtain ne k where s: "s = (ne, k)" by fastforce
  have "nk_data k (ne_fd1 ne) \<le> 1" "ne_fd1 ne \<noteq> -1" using u s by (auto simp: ne_usable_def ne_ok_def)
  then obtain ne' k' where n: "netsys_not_event_signal ne k = Some (ne', k')" "ne_ok ne' k'" "ne_set ne' k'" "ne' = ne\<lparr>ne_state := ne_state ne'\<rparr>"
    using signal_ok [of ne k] u s by (auto simp: ne_usable_def)
  have "ne_type ne' = ne_type ne" "ne_allow_user_add ne' = ne_allow_user_add ne" by (subst n(4), simp)+
  then show "\<exists>s'. ne_set_op s = Some s' \<and> ne_usable s' \<and> ne_set (fst s') (snd s')"
    using n(1-3) u s \<open>ne_fd1 ne \<noteq> -1\<close> by (auto simp: ne_set_op_def netsys_set_not_event_def ne_usable_def)
next
  fix s :: "not_event \<times> nk"
  assume u: "ne_usable s" "ne_set (fst s) (snd s)"
  then show "\<exists>s'. ne_clear_op os s = Some s' \<and> ne_usable s' \<and> \<not> ne_set (fst s') (snd s')"
    using consume_ok [of "fst s" "snd s" os] by (auto simp: ne_clear_op_def ne_usable_def)
qed

section \<open>Properties\<close>

text \<open>
  A notification event, on a pipe or on an eventfd, is a flag. After one or more
  signals \<^verbatim>\<open>netsys_wait_not_event\<close> returns at once, a single \<^verbatim>\<open>netsys_consume_not_event\<close>
  succeeds and clears the event, so that the next wait blocks until it is signalled again;
  the event stays usable and its descriptors open.
\<close>

theorem not_event_flag:
  assumes "ne_ok ne k" "ne_type ne \<noteq> NE_TIMERFD" "nk_data k (ne_fd1 ne) + Suc n \<le> 2 ^ 64 - 2"
    and "no_poll os = None"
  shows "\<exists>ne1 k1 k2. signal_n (Suc n) ne k = Some (ne1, k1) \<and> netsys_wait_not_event os ne1 k1 = Some (Inr ()) \<and>
    netsys_consume_not_event os ne1 k1 = Some (Inr (), ne1\<lparr>ne_state := False\<rparr>, k2) \<and>
    netsys_wait_not_event os (ne1\<lparr>ne_state := False\<rparr>) k2 = None \<and>
    ne_ok (ne1\<lparr>ne_state := False\<rparr>) k2 \<and> nk_open k2 = nk_open k"
proof -
  obtain ne1 k1 where s: "signal_n (Suc n) ne k = Some (ne1, k1)" "ne_ok ne1 k1" "ne_set ne1 k1"
    "nk_open k1 = nk_open k"
    using signal_n_ok [OF assms(1-3)] by auto
  obtain k2 where c: "netsys_consume_not_event os ne1 k1 = Some (Inr (), ne1\<lparr>ne_state := False\<rparr>, k2)"
    "ne_ok (ne1\<lparr>ne_state := False\<rparr>) k2" "\<not> ne_set (ne1\<lparr>ne_state := False\<rparr>) k2" "nk_open k2 = nk_open k1"
    using consume_ok [OF s(2,3), of os] by blast
  have "ne_fd1 ne1 \<noteq> -1" using s(2) by (simp add: ne_ok_def)
  then show ?thesis
    using s c assms(4) by (intro exI [of _ ne1] exI [of _ k1] exI [of _ k2])
      (simp add: netsys_wait_not_event_def ne_set_def)
qed

definition sample_nk :: nk where
  "sample_nk = \<lparr>nk_open = {0, 1, 2}, nk_data = (\<lambda>fd. 7), nk_peer = (\<lambda>fd. -1), nk_nonblock = {}\<rparr>"

definition sample_ne_os :: ne_os where
  "sample_ne_os = \<lparr>no_mutex_init = None, no_eventfd = Inr 3, no_pipe = Inr (3, 4), no_timerfd = Inl 38,
     no_dup = Inr 5, no_cloexec = (\<lambda>fd. None), no_setfl = None, no_poll = None, no_EAGAIN = 11, no_EINVAL = 22\<rparr>"

definition sample_ne :: not_event where
  "sample_ne = \<lparr>ne_type = NE_PIPE, ne_state = False, ne_fd1 = 3, ne_fd2 = 4, ne_allow_user_add = True\<rparr>"

definition sample_ne_nk :: nk where
  "sample_ne_nk = \<lparr>nk_open = {0, 1, 2, 3, 4}, nk_data = (\<lambda>fd. 7)(3 := 0, 4 := 0), nk_peer = (\<lambda>fd. -1)(4 := 3),
     nk_nonblock = {}\<rparr>"

lemma sample_ne_created:
  "netsys_create_not_event False sample_ne_os True sample_nk = (Inr sample_ne, sample_ne_nk)"
  by (simp add: netsys_create_not_event_def create_pipe_def sample_ne_os_def sample_nk_def nk_new_def
      sample_ne_def sample_ne_nk_def insert_commute)

lemma sample_ne_ok: "ne_ok sample_ne sample_ne_nk"
  by (simp add: ne_ok_def sample_ne_def sample_ne_nk_def)

theorem not_event_flag_witness:
  "\<exists>ne1 k1 k2. signal_n 3 sample_ne sample_ne_nk = Some (ne1, k1) \<and>
    netsys_wait_not_event sample_ne_os ne1 k1 = Some (Inr ()) \<and>
    netsys_consume_not_event sample_ne_os ne1 k1 = Some (Inr (), ne1\<lparr>ne_state := False\<rparr>, k2) \<and>
    netsys_wait_not_event sample_ne_os (ne1\<lparr>ne_state := False\<rparr>) k2 = None"
proof -
  have "Suc 2 = (3 :: nat)" by simp
  moreover have "ne_type sample_ne \<noteq> NE_TIMERFD" "nk_data sample_ne_nk (ne_fd1 sample_ne) + Suc 2 \<le> 2 ^ 64 - 2"
    "no_poll sample_ne_os = None"
    by (simp_all add: sample_ne_def sample_ne_nk_def sample_ne_os_def)
  ultimately show ?thesis
    using not_event_flag [of sample_ne sample_ne_nk 2 sample_ne_os] sample_ne_ok by auto
qed

text \<open>
  Claim C5: the pipe variant under concurrency. In every interleaving of the atomic actions
  of any number of signalling threads, signal handlers and consumers, the pipe holds at most
  one byte (so no signaller ever blocks in \<^verbatim>\<open>write\<close>), at most one signaller is about to write,
  and no signal is lost: when the flag is set and no consumer is between its read and its
  reset, the byte is in the pipe or about to be written; when the flag is clear the pipe is
  empty.
\<close>

theorem not_event_concurrent:
  assumes "ne_step\<^sup>*\<^sup>* (nc_start ne k) s" "ne_ok ne k" "ne_type ne = NE_PIPE"
  defines "d \<equiv> nk_data (nc_kernel s) (ne_fd1 (nc_event s))"
  shows "d \<le> 1 \<and> nc_writers s \<le> 1 \<and>
    (ne_state (nc_event s) \<and> nc_consumers s = 0 \<longrightarrow> d = 1 \<or> nc_writers s = 1) \<and>
    (\<not> ne_state (nc_event s) \<longrightarrow> d = 0 \<and> nc_writers s = 0)"
  using nc.steps_inv [OF assms(1) nc_inv_start [OF assms(2,3)]] by (auto simp: nc_inv_def d_def Let_def split: if_splits)

theorem not_event_concurrent_witness:
  "\<exists>s. ne_step\<^sup>*\<^sup>* (nc_start sample_ne sample_ne_nk) s \<and> ne_state (nc_event s) \<and> nc_writers s = 1 \<and>
    nk_data (nc_kernel s) (ne_fd1 (nc_event s)) \<le> 1"
proof -
  let ?s = "\<lparr>nc_event = sample_ne\<lparr>ne_state := True\<rparr>, nc_kernel = sample_ne_nk, nc_writers = 1, nc_consumers = 0\<rparr>"
  have "signal_cas (nc_event (nc_start sample_ne sample_ne_nk)) = (True, sample_ne\<lparr>ne_state := True\<rparr>)"
    by (simp add: nc_start_def signal_cas_def sample_ne_def)
  from ne_cas [OF this] have "ne_step (nc_start sample_ne sample_ne_nk) ?s"
    by (simp add: nc_start_def)
  then have r: "ne_step\<^sup>*\<^sup>* (nc_start sample_ne sample_ne_nk) ?s" by (rule r_into_rtranclp)
  have "ne_type sample_ne = NE_PIPE" by (simp add: sample_ne_def)
  from not_event_concurrent [OF r sample_ne_ok this] r show ?thesis by force
qed

text \<open>
  Destroying an event closes its descriptors and nothing else; a second call
  changes nothing, and afterwards every primitive raises \<^verbatim>\<open>Failure\<close> without touching the
  kernel state, so that a recycled descriptor number is never used.
\<close>

theorem not_event_destroyed:
  assumes "netsys_destroy_not_event ne k = (ne', k')" "ne_ok ne k"
  shows "nk_open k' = nk_open k - set (netsys_return_all_not_event_fd ne) \<and> netsys_destroy_not_event ne' k'' = (ne', k'') \<and>
    netsys_return_all_not_event_fd ne' = [] \<and>
    (\<exists>m1 m2 m3 m4. netsys_set_not_event ne' k'' = Some (Inl (Failure m1), ne', k'') \<and>
      netsys_wait_not_event os ne' k'' = Some (Inl (Failure m2)) \<and>
      netsys_consume_not_event os ne' k'' = Some (Inl (Failure m3), ne', k'') \<and>
      netsys_get_not_event_fd os ne' k'' = (Inl (Failure m4), k''))"
proof -
  have "ne_fd2 ne = -1 \<or> 0 \<le> ne_fd2 ne" using assms(2) by (auto simp: ne_ok_def split: not_event_type.splits)
  then show ?thesis
    using assms
    by (auto simp: netsys_destroy_not_event_def nk_close_def ne_ok_def netsys_return_all_not_event_fd_def
        netsys_set_not_event_def netsys_wait_not_event_def netsys_consume_not_event_def netsys_get_not_event_fd_def
        Let_def split: if_splits not_event_type.splits)
qed


theorem not_event_destroyed_witness:
  "\<exists>ne' k'. netsys_destroy_not_event sample_ne sample_ne_nk = (ne', k') \<and> nk_open k' = {0, 1, 2} \<and>
    (\<exists>m. netsys_wait_not_event sample_ne_os ne' k' = Some (Inl (Failure m)))"
proof -
  obtain ne' k' where d: "netsys_destroy_not_event sample_ne sample_ne_nk = (ne', k')" by fastforce
  have "nk_open sample_ne_nk - set (netsys_return_all_not_event_fd sample_ne) = {0, 1, 2}"
    by (auto simp: sample_ne_nk_def sample_ne_def netsys_return_all_not_event_fd_def)
  then show ?thesis using not_event_destroyed [OF d sample_ne_ok, of k' sample_ne_os] d by auto
qed

end
