(* ===== verification/Poll.thy ===== *)
theory Poll
  imports Netsys_Prelude
begin

text \<open>
  \<^verbatim>\<open>src/src/netsys/netsys_c_poll.c\<close>: arrays of \<^verbatim>\<open>struct pollfd\<close> behind an OCaml custom block
  and the event aggregator on top of \<^verbatim>\<open>epoll\<close>, in the configuration with \<^verbatim>\<open>poll\<close>, \<^verbatim>\<open>epoll\<close> and
  \<^verbatim>\<open>eventfd\<close>.

  Poll arrays live in a store, since \<^verbatim>\<open>netsys_blit_poll_mem\<close> may get the same array twice. The
  arguments are kept as OCaml values (tagged words) because two of the primitives use a value
  without untagging it. The kernel state \<open>ek\<close> has the open descriptors, the interest lists of
  the epoll descriptors (events, user data and whether the entry is armed) and the
  counters of the eventfds; the record \<open>ep_os\<close> holds the answers of system calls.
\<close>

section \<open>Poll arrays\<close>

record pollfd =
  pf_fd :: u32
  pf_events :: "16 word"
  pf_revents :: "16 word"

type_synonym poll_store = "nat \<Rightarrow> pollfd list"

definition netsys_pollfd_size :: u64 where
  "netsys_pollfd_size = Val_long 8"

definition alloc_poll_mem :: "(nat \<Rightarrow> pollfd) \<Rightarrow> u32 \<Rightarrow> exn + pollfd list" where
  "alloc_poll_mem caml_stat_alloc n =
     (if sint n < 0 then Inl Out_of_memory else Inr (map caml_stat_alloc [0..<unat n]))"

primrec poll_fill :: "nat \<Rightarrow> nat \<Rightarrow> pollfd \<Rightarrow> pollfd list \<Rightarrow> pollfd list option" where
  "poll_fill 0 k p s = Some s"
| "poll_fill (Suc r) k p s = do { s' \<leftarrow> wr s k p; poll_fill r (Suc k) p s' }"

text \<open>The argument is the tagged value: it is passed and compared without \<^verbatim>\<open>Int_val\<close>.\<close>

definition netsys_mk_poll_mem :: "(nat \<Rightarrow> pollfd) \<Rightarrow> u64 \<Rightarrow> (exn + pollfd list) option" where
  "netsys_mk_poll_mem caml_stat_alloc n =
     (case alloc_poll_mem caml_stat_alloc (ucast n) of
        Inl e \<Rightarrow> Some (Inl e)
      | Inr s \<Rightarrow>
          map_option Inr (poll_fill (nat (sint n)) 0 \<lparr>pf_fd = 0, pf_events = 0, pf_revents = 0\<rparr> s))"

definition netsys_set_poll_mem ::
    "nat \<Rightarrow> u64 \<Rightarrow> u64 \<Rightarrow> u64 \<Rightarrow> u64 \<Rightarrow> poll_store \<Rightarrow> poll_store option" where
  "netsys_set_poll_mem s k fd ev rv h =
     (let p = \<lparr>pf_fd = Int_val fd, pf_events = ucast (Int_val ev), pf_revents = ucast (Int_val rv)\<rparr>
      in if sint (Int_val k) < 0 then None
         else do { c \<leftarrow> wr (h s) (nat (sint (Int_val k))) p; Some (h(s := c)) })"

definition netsys_get_poll_mem :: "nat \<Rightarrow> u64 \<Rightarrow> poll_store \<Rightarrow> (u64 \<times> u64 \<times> u64) option" where
  "netsys_get_poll_mem s k h =
     (if sint (Int_val k) < 0 then None
      else do {
        p \<leftarrow> rd (h s) (nat (sint (Int_val k)));
        Some (Val_long (scast (pf_fd p)), Val_long (scast (pf_events p)), Val_long (scast (pf_revents p)))
      })"

text \<open>The byte count of the \<^verbatim>\<open>memmove\<close> is computed from the tagged length.\<close>

definition netsys_blit_poll_mem ::
    "nat \<Rightarrow> u64 \<Rightarrow> nat \<Rightarrow> u64 \<Rightarrow> u64 \<Rightarrow> poll_store \<Rightarrow> poll_store option" where
  "netsys_blit_poll_mem s1 k1 s2 k2 l h =
     (if sint (Int_val k1) < 0 \<or> sint (Int_val k2) < 0 then None
      else do {
        c \<leftarrow> blit (h s2) (nat (sint (Int_val k2))) (h s1) (nat (sint (Int_val k1))) (unat (l * 8) div 8);
        Some (h(s2 := c))
      })"

definition POLLIN :: u32 where "POLLIN = 1"
definition POLLPRI :: u32 where "POLLPRI = 2"
definition POLLOUT :: u32 where "POLLOUT = 4"
definition POLLERR :: u32 where "POLLERR = 8"
definition POLLHUP :: u32 where "POLLHUP = 0x10"
definition POLLNVAL :: u32 where "POLLNVAL = 0x20"

definition netsys_poll_constants :: "u32 list" where
  "netsys_poll_constants = [POLLIN, POLLPRI, POLLOUT, POLLERR, POLLHUP, POLLNVAL]"

text \<open>
  \<^verbatim>\<open>poll\<close> writes \<^verbatim>\<open>revents\<close> of the first \<open>n\<close> cells; its answer gives the number of ready
  cells and the events, or an error.
\<close>

definition netsys_poll ::
    "(pollfd list \<Rightarrow> int \<Rightarrow> int + int \<times> (nat \<Rightarrow> 16 word)) \<Rightarrow> nat \<Rightarrow> u64 \<Rightarrow> u64 \<Rightarrow> poll_store \<Rightarrow>
     ((exn + int) \<times> poll_store) option" where
  "netsys_poll poll s nv tv h =
     (let n = sint (Int_val nv) in
      if n < 0 \<or> nat n > length (h s) then None
      else case poll (take (nat n) (h s)) (sint (Long_val tv)) of
             Inl e \<Rightarrow> Some (Inl (Unix_error e ''poll''), h)
           | Inr (r, rv) \<Rightarrow>
               Some (Inr r, h(s := map (\<lambda>i. (h s ! i)\<lparr>pf_revents := rv i\<rparr>) [0..<nat n] @ drop (nat n) (h s))))"

section \<open>The event aggregator\<close>

record poll_aggreg =
  pa_fd :: int
  pa_need_cancel :: bool
  pa_cancel_fd :: int

record ek =
  ek_open :: "int set"
  ek_interest :: "int \<Rightarrow> int \<Rightarrow> (u32 \<times> u64 \<times> bool) option"
  ek_counter :: "int \<Rightarrow> nat"

record ep_os =
  eo_epoll_create :: "int + int"
  eo_eventfd :: "int + int"
  eo_cloexec :: "int \<Rightarrow> int option"
  eo_close :: "int \<Rightarrow> int option"
  eo_ctl :: "int \<Rightarrow> int option"
  eo_wait :: "int + (int \<times> u32) list"
  eo_EEXIST :: int
  eo_ENOENT :: int

definition netsys_have_event_aggregation :: bool where
  "netsys_have_event_aggregation = True"

definition EPOLLIN :: u32 where "EPOLLIN = 1"
definition EPOLLPRI :: u32 where "EPOLLPRI = 2"
definition EPOLLOUT :: u32 where "EPOLLOUT = 4"
definition EPOLLERR :: u32 where "EPOLLERR = 8"
definition EPOLLHUP :: u32 where "EPOLLHUP = 0x10"
definition EPOLLONESHOT :: u32 where "EPOLLONESHOT = 0x40000000"

definition ek_close :: "int \<Rightarrow> ek \<Rightarrow> ek" where
  "ek_close fd k = k\<lparr>ek_open := ek_open k - {fd}\<rparr>"

text \<open>\<^verbatim>\<open>epoll_ctl\<close> with its three operations, on the interest list of \<open>epfd\<close>.\<close>

definition epoll_add :: "ep_os \<Rightarrow> int \<Rightarrow> int \<Rightarrow> u32 \<Rightarrow> u64 \<Rightarrow> ek \<Rightarrow> int + ek" where
  "epoll_add os epfd fd ev data k =
     (case eo_ctl os fd of
        Some e \<Rightarrow> Inl e
      | None \<Rightarrow>
          if ek_interest k epfd fd \<noteq> None then Inl (eo_EEXIST os)
          else Inr (k\<lparr>ek_interest := (ek_interest k)(epfd := (ek_interest k epfd)(fd \<mapsto> (ev, data, True)))\<rparr>))"

definition epoll_mod :: "ep_os \<Rightarrow> int \<Rightarrow> int \<Rightarrow> u32 \<Rightarrow> u64 \<Rightarrow> ek \<Rightarrow> int + ek" where
  "epoll_mod os epfd fd ev data k =
     (case eo_ctl os fd of
        Some e \<Rightarrow> Inl e
      | None \<Rightarrow>
          if ek_interest k epfd fd = None then Inl (eo_ENOENT os)
          else Inr (k\<lparr>ek_interest := (ek_interest k)(epfd := (ek_interest k epfd)(fd \<mapsto> (ev, data, True)))\<rparr>))"

definition epoll_del :: "ep_os \<Rightarrow> int \<Rightarrow> int \<Rightarrow> ek \<Rightarrow> int + ek" where
  "epoll_del os epfd fd k =
     (case eo_ctl os fd of
        Some e \<Rightarrow> Inl e
      | None \<Rightarrow>
          if ek_interest k epfd fd = None then Inl (eo_ENOENT os)
          else Inr (k\<lparr>ek_interest := (ek_interest k)(epfd := (ek_interest k epfd)(fd := None))\<rparr>))"

text \<open>
  \<^verbatim>\<open>epoll_wait\<close>: the answer lists descriptors with the events that are pending on them. The
  kernel reports those with an armed entry whose events (errors and hangups are always included) are pending, with
  the user data of the entry, at most \<open>m\<close> of them, and disarms oneshot entries.
\<close>

fun epoll_collect :: "int \<Rightarrow> nat \<Rightarrow> (int \<times> u32) list \<Rightarrow> ek \<Rightarrow> (u32 \<times> u64) list \<times> ek" where
  "epoll_collect epfd m [] k = ([], k)"
| "epoll_collect epfd 0 evs k = ([], k)"
| "epoll_collect epfd (Suc m) ((fd, pending) # evs) k =
     (case ek_interest k epfd fd of
        None \<Rightarrow> epoll_collect epfd (Suc m) evs k
      | Some (ev, data, armed) \<Rightarrow>
          let r = pending AND (ev OR EPOLLERR OR EPOLLHUP) in
          if \<not> armed \<or> r = 0 then epoll_collect epfd (Suc m) evs k
          else let armed' = (ev AND EPOLLONESHOT = 0);
                   k' = k\<lparr>ek_interest := (ek_interest k)(epfd := (ek_interest k epfd)(fd \<mapsto> (ev, data, armed')))\<rparr>
               in (case epoll_collect epfd m evs k' of (rs, k'') \<Rightarrow> ((r, data) # rs, k'')))"

definition create_cancel :: "ep_os \<Rightarrow> poll_aggreg \<Rightarrow> ek \<Rightarrow> (exn + poll_aggreg) \<times> ek" where
  "create_cancel os pa k =
     (case eo_eventfd os of
        Inl e \<Rightarrow> (Inl (Unix_error e ''eventfd''), ek_close (pa_fd pa) k)
      | Inr cfd \<Rightarrow>
          let k1 = k\<lparr>ek_open := insert cfd (ek_open k), ek_counter := (ek_counter k)(cfd := 0)\<rparr> in
          (case eo_cloexec os cfd of
             Some e \<Rightarrow> (Inl (Unix_error e ''fcntl''), ek_close cfd (ek_close (pa_fd pa) k1))
           | None \<Rightarrow>
               (case epoll_add os (pa_fd pa) cfd EPOLLIN 1 k1 of
                  Inl e \<Rightarrow> (Inl (Unix_error e ''epoll_ctl (ADD)''), ek_close cfd (ek_close (pa_fd pa) k1))
                | Inr k2 \<Rightarrow> (Inr (pa\<lparr>pa_cancel_fd := cfd\<rparr>), k2))))"

definition netsys_create_event_aggreg :: "ep_os \<Rightarrow> bool \<Rightarrow> ek \<Rightarrow> (exn + poll_aggreg) \<times> ek" where
  "netsys_create_event_aggreg os cancelv k =
     (case eo_epoll_create os of
        Inl e \<Rightarrow> (Inl (Unix_error e ''epoll_create''), k)
      | Inr fd \<Rightarrow>
          let k1 = k\<lparr>ek_open := insert fd (ek_open k), ek_interest := (ek_interest k)(fd := Map.empty)\<rparr> in
          (case eo_cloexec os fd of
             Some e \<Rightarrow> (Inl (Unix_error e ''fcntl''), ek_close fd k1)
           | None \<Rightarrow>
               let pa = \<lparr>pa_fd = fd, pa_need_cancel = cancelv, pa_cancel_fd = -1\<rparr> in
               if pa_need_cancel pa then create_cancel os pa k1 else (Inr pa, k1)))"

definition netsys_destroy_event_aggreg :: "ep_os \<Rightarrow> poll_aggreg \<Rightarrow> ek \<Rightarrow> (exn + unit) \<times> ek" where
  "netsys_destroy_event_aggreg os pa k =
     (case eo_close os (pa_fd pa) of
        Some e \<Rightarrow> (Inl (Unix_error e ''close''), k)
      | None \<Rightarrow>
          let k1 = ek_close (pa_fd pa) k in
          if pa_cancel_fd pa \<ge> 0
          then (case eo_close os (pa_cancel_fd pa) of
                  Some e \<Rightarrow> (Inl (Unix_error e ''close''), k1)
                | None \<Rightarrow> (Inr (), ek_close (pa_cancel_fd pa) k1))
          else (Inr (), k1))"

definition netsys_event_aggreg_fd :: "poll_aggreg \<Rightarrow> int" where
  "netsys_event_aggreg_fd pa = pa_fd pa"

definition translate_to_epoll_events :: "u32 \<Rightarrow> u32" where
  "translate_to_epoll_events i =
     (let o1 = (if i AND POLLIN \<noteq> 0 then 0 OR EPOLLIN else 0);
          o2 = (if i AND POLLOUT \<noteq> 0 then o1 OR EPOLLOUT else o1);
          o3 = (if i AND POLLPRI \<noteq> 0 then o2 OR EPOLLPRI else o2)
      in o3)"

definition translate_to_poll_events :: "u32 \<Rightarrow> u32" where
  "translate_to_poll_events i =
     (let o1 = (if i AND EPOLLIN \<noteq> 0 then 0 OR POLLIN else 0);
          o2 = (if i AND EPOLLOUT \<noteq> 0 then o1 OR POLLOUT else o1);
          o3 = (if i AND EPOLLPRI \<noteq> 0 then o2 OR POLLPRI else o2)
      in o3)"

text \<open>An event source as pushed by the OCaml side: identifier, descriptor, requested events.\<close>

type_synonym ev_source = "u64 \<times> int \<times> u64"

definition source_events :: "ev_source \<Rightarrow> u32" where
  "source_events src = translate_to_epoll_events (Int_val (snd (snd src))) OR EPOLLONESHOT"

definition source_data :: "ev_source \<Rightarrow> u64" where
  "source_data src = push_bit 1 (Long_val (fst src))"

definition netsys_add_event_source :: "ep_os \<Rightarrow> poll_aggreg \<Rightarrow> ev_source \<Rightarrow> ek \<Rightarrow> (exn + unit) \<times> ek" where
  "netsys_add_event_source os pa src k =
     (case epoll_add os (pa_fd pa) (fst (snd src)) (source_events src) (source_data src) k of
        Inl e \<Rightarrow> (Inl (Unix_error e ''epoll_ctl (ADD)''), k)
      | Inr k' \<Rightarrow> (Inr (), k'))"

definition netsys_del_event_source :: "ep_os \<Rightarrow> poll_aggreg \<Rightarrow> int \<Rightarrow> ek \<Rightarrow> (exn + unit) \<times> ek" where
  "netsys_del_event_source os pa fd k =
     (case epoll_del os (pa_fd pa) fd k of
        Inl e \<Rightarrow> (Inl (Unix_error e ''epoll_ctl (DEL)''), k)
      | Inr k' \<Rightarrow> (Inr (), k'))"

definition netsys_interrupt_aggreg :: "poll_aggreg \<Rightarrow> ek \<Rightarrow> ek" where
  "netsys_interrupt_aggreg pa k =
     (if pa_cancel_fd pa \<ge> 0
      then k\<lparr>ek_counter := (ek_counter k)(pa_cancel_fd pa := ek_counter k (pa_cancel_fd pa) + 1)\<rparr>
      else k)"

primrec netsys_push_event_sources ::
    "ep_os \<Rightarrow> poll_aggreg \<Rightarrow> ev_source list \<Rightarrow> ek \<Rightarrow> (exn + unit) \<times> ek" where
  "netsys_push_event_sources os pa [] k = (Inr (), k)"
| "netsys_push_event_sources os pa (src # srcs) k =
     (case epoll_mod os (pa_fd pa) (fst (snd src)) (source_events src) (source_data src) k of
        Inl e \<Rightarrow> (Inl (Unix_error e ''epoll_ctl (MOD)''), k)
      | Inr k' \<Rightarrow> netsys_push_event_sources os pa srcs k')"

text \<open>
  The loop over the reported events. The \<^verbatim>\<open>read\<close> of the cancel descriptor resets its counter;
  it waits if the counter is zero.
\<close>

primrec collect_sources ::
    "int \<Rightarrow> (u32 \<times> u64) list \<Rightarrow> (u64 \<times> u64 \<times> u64) list \<Rightarrow> ek \<Rightarrow> ((u64 \<times> u64 \<times> u64) list \<times> ek) option" where
  "collect_sources cfd [] r k = Some (r, k)"
| "collect_sources cfd (ee # ees) r k =
     (case ee of (ev, data) \<Rightarrow>
        if data = 1
        then (if ek_counter k cfd = 0 then None
              else collect_sources cfd ees r (k\<lparr>ek_counter := (ek_counter k)(cfd := 0)\<rparr>))
        else collect_sources cfd ees
               ((Val_long (drop_bit 1 data), Val_long 0, Val_long (scast (translate_to_poll_events ev))) # r) k)"

definition netsys_poll_event_sources ::
    "ep_os \<Rightarrow> poll_aggreg \<Rightarrow> ek \<Rightarrow> ((exn + (u64 \<times> u64 \<times> u64) list) \<times> ek) option" where
  "netsys_poll_event_sources os pa k =
     (case eo_wait os of
        Inl e \<Rightarrow> Some (Inl (Unix_error e ''epoll_wait''), k)
      | Inr evs \<Rightarrow>
          (case epoll_collect (pa_fd pa) 128 evs k of
             (ees, k') \<Rightarrow> do {
               (r, k'') \<leftarrow> collect_sources (pa_cancel_fd pa) ees [] k';
               Some (Inr r, k'')
             }))"


section \<open>Poll arrays: lemmas\<close>

lemma poll_fill_ok:
  "k + r \<le> length s \<Longrightarrow> poll_fill r k p s = Some (take k s @ replicate r p @ drop (k + r) s)"
proof (induction r arbitrary: k s)
  case 0
  then show ?case by simp
next
  case (Suc r)
  have "take (Suc k) (s[k := p]) = take k s @ [p]"
    using Suc.prems by (simp add: take_Suc_conv_app_nth)
  moreover have "drop (Suc k + r) (s[k := p]) = drop (Suc k + r) s" by (simp add: drop_update_cancel)
  ultimately show ?case
    using Suc.IH [of "Suc k" "s[k := p]"] Suc.prems by (simp add: wr_def)
qed

lemma Val_long_of_nat: "Val_long (of_nat n) = of_nat (2 * n + 1)"
  by (simp add: Val_long_def push_bit_eq_mult)

lemma tagged_small:
  assumes "n < 2 ^ 30"
  shows "sint (Val_long (of_nat n)) = 2 * int n + 1" "sint (ucast (Val_long (of_nat n)) :: u32) = 2 * int n + 1"
    "unat (ucast (Val_long (of_nat n)) :: u32) = 2 * n + 1" "unat (Val_long (of_nat n)) = 2 * n + 1"
proof -
  have "int n < int (2 ^ 30)" using assms by (simp only: of_nat_less_iff)
  then have n: "2 * int n + 1 < 2 ^ 31" by simp
  have v: "Val_long (of_nat n) = word_of_int (2 * int n + 1)" by (simp add: Val_long_of_nat)
  have u: "(ucast (Val_long (of_nat n)) :: u32) = word_of_int (2 * int n + 1)"
    unfolding v by (rule ucast_down_wi) (simp add: is_down)
  have u': "(ucast (Val_long (of_nat n)) :: u32) = of_nat (2 * n + 1)" unfolding u by simp
  show "sint (Val_long (of_nat n)) = 2 * int n + 1"
    unfolding v using n by (intro sint_word_of_int) simp_all
  show "sint (ucast (Val_long (of_nat n)) :: u32) = 2 * int n + 1"
    unfolding u using n by (intro sint_word_of_int) simp_all
  define m where "m = 2 * n + 1"
  have "m < 2 ^ 31" using assms by (simp add: m_def)
  then have "unat (of_nat m :: u32) = m" "unat (of_nat m :: u64) = m"
    by (simp_all add: unat_of_nat take_bit_eq_mod)
  then show "unat (ucast (Val_long (of_nat n)) :: u32) = 2 * n + 1" "unat (Val_long (of_nat n)) = 2 * n + 1"
    unfolding u' unfolding Val_long_of_nat m_def by blast+
qed

definition zero_pollfd :: pollfd where
  "zero_pollfd = \<lparr>pf_fd = 0, pf_events = 0, pf_revents = 0\<rparr>"

lemma mk_poll_mem_ok:
  assumes "n < 2 ^ 30"
  shows "netsys_mk_poll_mem f (Val_long (of_nat n)) = Some (Inr (replicate (2 * n + 1) zero_pollfd))"
  using poll_fill_ok [of 0 "2 * n + 1" "map f [0..<2 * n + 1]" zero_pollfd] tagged_small [OF assms]
  by (simp add: netsys_mk_poll_mem_def alloc_poll_mem_def zero_pollfd_def nat_add_distrib nat_mult_distrib)

lemma nat_sint_Int_val: "k < 2 ^ 31 \<Longrightarrow> nat (sint (Int_val (Val_long (of_nat k)))) = k \<and>
    \<not> sint (Int_val (Val_long (of_nat k))) < 0"
  by (simp add: Int_val_Val_long(2))

lemma blit_cells:
  assumes "len < 2 ^ 30"
  shows "unat (Val_long (of_nat len) * 8) div 8 = 2 * len + 1"
  using tagged_small(4) [OF assms] assms by (simp add: unat_word_ariths)

section \<open>Events and identifiers: lemmas\<close>

lemma translate_eq:
  "translate_to_epoll_events i = i AND 7" "translate_to_poll_events i = i AND 7"
proof -
  have c: "i AND 1 \<noteq> 0 \<longleftrightarrow> bit i 0" "i AND 4 \<noteq> 0 \<longleftrightarrow> bit i 2" "i AND 2 \<noteq> 0 \<longleftrightarrow> bit i 1"
    using bit_iff_and_push_bit_not_eq_0 [of i 0] bit_iff_and_push_bit_not_eq_0 [of i 1]
      bit_iff_and_push_bit_not_eq_0 [of i 2] by simp_all
  have s: "(7 :: u32) = mask 3" by (simp add: mask_eq_exp_minus_1)
  have e: "(let o1 = (if bit i 0 then 0 OR 1 else 0); o2 = (if bit i 2 then o1 OR 4 else o1);
      o3 = (if bit i 1 then o2 OR 2 else o2) in o3) = i AND 7"
  proof (rule bit_word_eqI)
    fix n assume "n < LENGTH(32)"
    then have n: "n < 32" by simp
    have b7: "bit (i AND 7) n \<longleftrightarrow> bit i n \<and> n < 3"
      unfolding s bit_and_iff bit_mask_iff using n by auto
    have b: "bit (1 :: u32) n \<longleftrightarrow> n = 0" "bit (4 :: u32) n \<longleftrightarrow> n = 2" "bit (2 :: u32) n \<longleftrightarrow> n = 1"
      using bit_exp_iff [of 2 n, where 'a = u32] bit_exp_iff [of 1 n, where 'a = u32] n by (auto simp: bit_1_iff)
    consider "n = 0" | "n = 1" | "n = 2" | "3 \<le> n" by linarith
    then show "bit (let o1 = (if bit i 0 then 0 OR 1 else 0); o2 = (if bit i 2 then o1 OR 4 else o1);
        o3 = (if bit i 1 then o2 OR 2 else o2) in (o3 :: u32)) n = bit (i AND 7) n"
    proof cases
      case 4
      then have "\<not> bit (1 :: u32) n" "\<not> bit (4 :: u32) n" "\<not> bit (2 :: u32) n" "\<not> bit (0 :: u32) n"
        unfolding b by auto
      then show ?thesis
        using 4 unfolding b7 Let_def
        by (cases "bit i 0"; cases "bit i 1"; cases "bit i 2")
          (simp_all only: if_True if_False bit_or_iff not_less [symmetric] simp_thms)
    qed (unfold b7 Let_def, auto simp: bit_or_iff b)
  qed
  show "translate_to_epoll_events i = i AND 7" "translate_to_poll_events i = i AND 7"
    unfolding translate_to_epoll_events_def translate_to_poll_events_def POLLIN_def POLLOUT_def POLLPRI_def
      EPOLLIN_def EPOLLOUT_def EPOLLPRI_def c by (rule e)+
qed

lemma reported_events:
  "translate_to_poll_events (p AND (source_events (i, fd, ev) OR EPOLLERR OR EPOLLHUP)) = p AND Int_val ev AND 7"
proof -
  have "(p AND ((Int_val ev AND 7) OR 0x40000000 OR 8 OR 0x10)) AND 7 = p AND ((Int_val ev AND 7) AND 7)"
    by (simp add: bit.conj_disj_distrib bit.conj_disj_distrib2 and.assoc)
  then show ?thesis
    by (simp add: translate_eq source_events_def EPOLLONESHOT_def EPOLLERR_def EPOLLHUP_def and.assoc or.assoc)
qed

lemma source_data_even: "source_data src \<noteq> 1"
proof
  assume "source_data src = 1"
  then have "bit (source_data src) 0" by simp
  then show False by (simp add: source_data_def bit_0)
qed

lemma source_id_roundtrip:
  assumes "bit i 0"
  shows "Val_long (drop_bit 1 (source_data (i, fd, ev))) = i"
proof -
  have "Val_long x = push_bit 1 x OR 1" for x
    unfolding Val_long_def by (rule disjunctive_add) (auto simp only: bit_push_bit_iff bit_1_iff)
  note v = this
  show ?thesis
  proof (rule bit_word_eqI)
    fix n assume n: "n < LENGTH(64)"
    show "bit (Val_long (drop_bit 1 (source_data (i, fd, ev)))) n = bit i n"
    proof (cases n)
      case 0
      then show ?thesis using assms by (simp add: v bit_or_iff)
    next
      case (Suc m)
      then have "m < 63" using n by simp
      then show ?thesis
        unfolding v Suc source_data_def Long_val_def fst_conv
        by (simp add: bit_or_iff bit_1_iff bit_signed_drop_bit_iff bit_drop_bit_eq bit_push_bit_iff
            del: push_bit_Suc)
    qed
  qed
qed


section \<open>The aggregator: lemmas\<close>

text \<open>
  The interest list of an aggregator: the sources registered for each descriptor, with the
  descriptors whose entry is armed, and the entry of the cancel descriptor.
\<close>

definition ea_inv :: "poll_aggreg \<Rightarrow> (int \<rightharpoonup> ev_source) \<Rightarrow> int set \<Rightarrow> ek \<Rightarrow> bool" where
  "ea_inv pa src armed k \<longleftrightarrow>
     (\<forall>fd. ek_interest k (pa_fd pa) fd =
        (if fd = pa_cancel_fd pa \<and> 0 \<le> pa_cancel_fd pa then Some (EPOLLIN, 1, True)
         else map_option (\<lambda>s. (source_events s, source_data s, fd \<in> armed)) (src fd))) \<and>
     (0 \<le> pa_cancel_fd pa \<longrightarrow> src (pa_cancel_fd pa) = None) \<and>
     (\<forall>fd s. src fd = Some s \<longrightarrow> fst (snd s) = fd \<and> bit (fst s) 0)"

lemma add_source_ok:
  assumes "ea_inv pa src armed k" "netsys_add_event_source os pa (i, fd, ev) k = (Inr (), k')" "bit i 0"
  shows "ea_inv pa (src(fd \<mapsto> (i, fd, ev))) (insert fd armed) k' \<and> ek_counter k' = ek_counter k"
  using assms
  by (auto simp: netsys_add_event_source_def epoll_add_def ea_inv_def split: option.splits if_splits sum.splits)

lemma push_sources_ok:
  assumes "ea_inv pa src armed k" "netsys_push_event_sources os pa srcs k = (Inr (), k')"
    and "\<forall>s \<in> set srcs. bit (fst s) 0 \<and> fst (snd s) \<in> dom src"
  shows "ea_inv pa (src ++ map_of (rev (map (\<lambda>s. (fst (snd s), s)) srcs))) (armed \<union> (fst \<circ> snd) ` set srcs) k' \<and>
    ek_counter k' = ek_counter k"
  using assms
proof (induction srcs arbitrary: src armed k)
  case Nil
  then show ?case by simp
next
  case (Cons s srcs)
  obtain i fd ev where s: "s = (i, fd, ev)" by (cases s) auto
  have d: "bit i 0" "fd \<in> dom src" using Cons.prems(3) s by auto
  then have fd: "fd \<noteq> pa_cancel_fd pa \<or> \<not> 0 \<le> pa_cancel_fd pa" using Cons.prems(1) by (auto simp: ea_inv_def)
  obtain k1 where k1: "epoll_mod os (pa_fd pa) fd (source_events s) (source_data s) k = Inr k1"
    "netsys_push_event_sources os pa srcs k1 = (Inr (), k')"
    using Cons.prems(2) s by (auto split: sum.splits)
  have inv: "ea_inv pa (src(fd \<mapsto> s)) (insert fd armed) k1" and c: "ek_counter k1 = ek_counter k"
    using Cons.prems(1) k1(1) d fd s by (auto simp: epoll_mod_def ea_inv_def split: option.splits if_splits)
  have p: "\<forall>t \<in> set srcs. bit (fst t) 0 \<and> fst (snd t) \<in> dom (src(fd \<mapsto> s))" using Cons.prems(3) by auto
  let ?m = "\<lambda>srcs. map_of (rev (map (\<lambda>s. (fst (snd s), s)) srcs))"
  have "src ++ ?m (s # srcs) = (src(fd \<mapsto> s)) ++ ?m srcs" by (simp add: s)
  moreover have "armed \<union> (fst \<circ> snd) ` set (s # srcs) = insert fd armed \<union> (fst \<circ> snd) ` set srcs"
    by (simp add: s)
  ultimately show ?case using Cons.IH [OF inv k1(2) p] c by metis
qed

text \<open>The reported events of a list of pending ones.\<close>

definition ea_ready :: "poll_aggreg \<Rightarrow> (int \<rightharpoonup> ev_source) \<Rightarrow> int set \<Rightarrow> int \<times> u32 \<Rightarrow> bool" where
  "ea_ready pa src armed x \<longleftrightarrow>
     (case x of (fd, p) \<Rightarrow>
        case src fd of
          Some s \<Rightarrow> fd \<in> armed \<and> p AND (source_events s OR EPOLLERR OR EPOLLHUP) \<noteq> 0
        | None \<Rightarrow> fd = pa_cancel_fd pa \<and> 0 \<le> pa_cancel_fd pa \<and> p AND (EPOLLIN OR EPOLLERR OR EPOLLHUP) \<noteq> 0)"

definition ea_event :: "(int \<rightharpoonup> ev_source) \<Rightarrow> int \<times> u32 \<Rightarrow> u32 \<times> u64" where
  "ea_event src x =
     (case x of (fd, p) \<Rightarrow>
        case src fd of
          Some s \<Rightarrow> (p AND (source_events s OR EPOLLERR OR EPOLLHUP), source_data s)
        | None \<Rightarrow> (p AND (EPOLLIN OR EPOLLERR OR EPOLLHUP), 1))"

lemma ea_inv_cong:
  "ea_inv pa src A k \<Longrightarrow> (\<And>fd. src fd \<noteq> None \<Longrightarrow> fd \<in> A \<longleftrightarrow> fd \<in> B) \<Longrightarrow> ea_inv pa src B k"
  unfolding ea_inv_def by (auto split: if_splits intro!: option.map_cong0)

lemma source_oneshot: "source_events s AND EPOLLONESHOT \<noteq> 0"
proof
  assume "source_events s AND EPOLLONESHOT = 0"
  then have "(source_events s AND EPOLLONESHOT) AND 0x40000000 = 0" by simp
  then show False
    by (simp add: source_events_def EPOLLONESHOT_def bit.conj_disj_distrib2)
qed

lemma epoll_collect_ok:
  assumes "ea_inv pa src armed k" "distinct (map fst evs)" "length evs \<le> m"
  shows "\<exists>k'. epoll_collect (pa_fd pa) m evs k = (map (ea_event src) (filter (ea_ready pa src armed) evs), k') \<and>
    ea_inv pa src (armed - fst ` {x \<in> set evs. ea_ready pa src armed x}) k' \<and> ek_counter k' = ek_counter k"
  using assms
proof (induction evs arbitrary: armed k m)
  case Nil
  then show ?case by simp
next
  case (Cons x evs)
  obtain fd p where x: "x = (fd, p)" by (cases x)
  obtain m' where m': "m = Suc m'" "length evs \<le> m'" using Cons.prems(3) by (cases m) auto
  have intr: "ek_interest k (pa_fd pa) fd = (if fd = pa_cancel_fd pa \<and> 0 \<le> pa_cancel_fd pa then Some (EPOLLIN, 1, True)
         else map_option (\<lambda>s. (source_events s, source_data s, fd \<in> armed)) (src fd))"
    using Cons.prems(1) by (simp add: ea_inv_def)
  have canc: "src fd = None" if "fd = pa_cancel_fd pa" "0 \<le> pa_cancel_fd pa"
    using that Cons.prems(1) by (simp add: ea_inv_def)
  have fresh: "ea_ready pa src (armed - {fd}) y = ea_ready pa src armed y" if "y \<in> set evs" for y
    using that Cons.prems(2) x by (force simp: ea_ready_def split: prod.splits option.splits)
  show ?case
  proof (cases "ea_ready pa src armed x")
    case False
    have "epoll_collect (pa_fd pa) m (x # evs) k = epoll_collect (pa_fd pa) m evs k"
      using False intr canc m' by (auto simp: x ea_ready_def Let_def split: option.splits if_splits)
    moreover have "{y \<in> set (x # evs). ea_ready pa src armed y} = {y \<in> set evs. ea_ready pa src armed y}"
      using False by auto
    ultimately show ?thesis
      using Cons.IH [OF Cons.prems(1), of m] Cons.prems(2,3) False by simp
  next
    case True
    let ?c = "fd = pa_cancel_fd pa \<and> 0 \<le> pa_cancel_fd pa"
    define armed' where "armed' = (if ?c then armed else armed - {fd})"
    define e where "e = (if ?c then (EPOLLIN, 1, True) else
      (source_events (the (src fd)), source_data (the (src fd)), False))"
    define k1 where "k1 = k\<lparr>ek_interest := (ek_interest k)(pa_fd pa := (ek_interest k (pa_fd pa))(fd \<mapsto> e))\<rparr>"
    have one: "EPOLLIN AND EPOLLONESHOT = 0" by (simp add: EPOLLIN_def EPOLLONESHOT_def)
    have col: "epoll_collect (pa_fd pa) m (x # evs) k =
        (case epoll_collect (pa_fd pa) m' evs k1 of (rs, k'') \<Rightarrow> (ea_event src x # rs, k''))"
      using True intr canc m' source_oneshot
      by (auto simp: x ea_ready_def ea_event_def Let_def e_def k1_def one split: option.splits if_splits)
    have src: "?c \<or> src fd \<noteq> None" using True by (auto simp: x ea_ready_def split: option.splits)
    have inv1: "ea_inv pa src armed' k1"
      using Cons.prems(1) src canc by (auto simp: ea_inv_def k1_def e_def armed'_def)
    have r: "ea_ready pa src armed' y = ea_ready pa src armed y" if "y \<in> set evs" for y
      using fresh [OF that] by (simp add: armed'_def)
    have f: "filter (ea_ready pa src armed') evs = filter (ea_ready pa src armed) evs"
      "{y \<in> set evs. ea_ready pa src armed' y} = {y \<in> set evs. ea_ready pa src armed y}"
      using r by (auto cong: filter_cong)
    obtain k' where k': "epoll_collect (pa_fd pa) m' evs k1 = (map (ea_event src) (filter (ea_ready pa src armed) evs), k')"
      "ea_inv pa src (armed' - fst ` {y \<in> set evs. ea_ready pa src armed y}) k'" "ek_counter k' = ek_counter k"
      using Cons.IH [OF inv1 _ m'(2)] Cons.prems(2) by (auto simp: f k1_def)
    have set_eq: "fst ` {y \<in> set (x # evs). ea_ready pa src armed y} =
        insert fd (fst ` {y \<in> set evs. ea_ready pa src armed y})"
      using True by (force simp: x)
    have "ea_inv pa src (armed - fst ` {y \<in> set (x # evs). ea_ready pa src armed y}) k'"
      unfolding set_eq by (rule ea_inv_cong [OF k'(2)]) (use canc in \<open>auto simp: armed'_def\<close>)
    then show ?thesis using col k' True by simp
  qed
qed

text \<open>The list the loop of \<^verbatim>\<open>netsys_poll_event_sources\<close> builds.\<close>

definition ea_result :: "(int \<rightharpoonup> ev_source) \<Rightarrow> int \<times> u32 \<Rightarrow> u64 \<times> u64 \<times> u64" where
  "ea_result src x = (case x of (fd, p) \<Rightarrow>
     (fst (the (src fd)), Val_long 0, Val_long (scast (p AND Int_val (snd (snd (the (src fd)))) AND 7))))"

lemma collect_sources_ok:
  assumes "ea_inv pa src armed k" "\<forall>x \<in> set evs. src (fst x) \<noteq> None \<or> 0 < ek_counter k (pa_cancel_fd pa)"
    and "distinct (map fst evs)" "\<forall>x \<in> set evs. src (fst x) = None \<longrightarrow> fst x = pa_cancel_fd pa"
  shows "collect_sources (pa_cancel_fd pa) (map (ea_event src) evs) r k =
    Some (rev (map (ea_result src) (filter (\<lambda>x. src (fst x) \<noteq> None) evs)) @ r,
      if \<exists>x \<in> set evs. src (fst x) = None then k\<lparr>ek_counter := (ek_counter k)(pa_cancel_fd pa := 0)\<rparr> else k)"
  using assms
proof (induction evs arbitrary: r k)
  case Nil
  then show ?case by simp
next
  case (Cons x evs)
  obtain fd p where x: "x = (fd, p)" by (cases x)
  show ?case
  proof (cases "src fd")
    case None
    have "fd = pa_cancel_fd pa" "fd \<notin> fst ` set evs" using Cons.prems(3,4) None x by auto
    then have "\<forall>y \<in> set evs. src (fst y) \<noteq> None" using Cons.prems(4) by (metis image_eqI list.set_intros(2))
    moreover have "ea_inv pa src armed (k\<lparr>ek_counter := (ek_counter k)(pa_cancel_fd pa := 0)\<rparr>)"
      using Cons.prems(1) by (simp add: ea_inv_def)
    ultimately show ?thesis
      using Cons.IH [of "k\<lparr>ek_counter := (ek_counter k)(pa_cancel_fd pa := 0)\<rparr>" r] Cons.prems None x
      by (auto simp: ea_event_def)
  next
    case (Some s)
    obtain i fd' ev where s: "s = (i, fd', ev)" by (cases s) auto
    have "bit i 0" using Cons.prems(1) Some s by (force simp: ea_inv_def)
    then have "ea_result src x = (Val_long (drop_bit 1 (source_data s)), Val_long 0,
        Val_long (scast (translate_to_poll_events (p AND (source_events s OR EPOLLERR OR EPOLLHUP)))))"
      unfolding s reported_events using source_id_roundtrip [of i fd' ev]
      by (simp add: ea_result_def x Some s)
    then have step: "collect_sources (pa_cancel_fd pa) (map (ea_event src) (x # evs)) r k =
        collect_sources (pa_cancel_fd pa) (map (ea_event src) evs) (ea_result src x # r) k"
      using source_data_even [of s] by (simp add: ea_event_def x Some)
    have prems: "\<forall>x \<in> set evs. src (fst x) \<noteq> None \<or> 0 < ek_counter k (pa_cancel_fd pa)"
      "distinct (map fst evs)" "\<forall>x \<in> set evs. src (fst x) = None \<longrightarrow> fst x = pa_cancel_fd pa"
      using Cons.prems(2-4) by auto
    show ?thesis
      unfolding step Cons.IH [OF Cons.prems(1) prems] by (simp add: x Some s)
  qed
qed


section \<open>Properties\<close>

text \<open>
  Claim C20: the event aggregator reports what is pending. For pending events on pairwise
  different descriptors, at most 128 of them, \<^verbatim>\<open>netsys_poll_event_sources\<close> returns, in reverse
  order, exactly the armed sources whose requested events (or an error or a hangup) are
  pending, each with the identifier it was registered with and with the pending part of its
  requested input, output and priority events; the cancel descriptor is never reported as
  a source, its counter is reset; the reported sources are disarmed and all
  others keep their state. It never waits for the cancel descriptor.
\<close>

theorem netsys_poll_event_sources_correct:
  assumes "ea_inv pa src armed k" "eo_wait os = Inr evs" "distinct (map fst evs)" "length evs \<le> 128"
    and "\<forall>x \<in> set evs. fst x = pa_cancel_fd pa \<longrightarrow> 0 < ek_counter k (pa_cancel_fd pa)"
  shows "\<exists>k'. netsys_poll_event_sources os pa k =
      Some (Inr (rev (map (ea_result src) (filter (\<lambda>x. src (fst x) \<noteq> None \<and> ea_ready pa src armed x) evs))), k') \<and>
    ea_inv pa src (armed - fst ` {x \<in> set evs. ea_ready pa src armed x}) k' \<and>
    (\<forall>fd. fd \<noteq> pa_cancel_fd pa \<longrightarrow> ek_counter k' fd = ek_counter k fd) \<and>
    ((\<exists>x \<in> set evs. src (fst x) = None \<and> ea_ready pa src armed x) \<longrightarrow> ek_counter k' (pa_cancel_fd pa) = 0)"
proof -
  let ?evs = "filter (ea_ready pa src armed) evs"
  define C where "C \<longleftrightarrow> (\<exists>x \<in> set evs. src (fst x) = None \<and> ea_ready pa src armed x)"
  have C: "(\<exists>x \<in> set ?evs. src (fst x) = None) = C" unfolding C_def set_filter by blast
  obtain k1 where k1: "epoll_collect (pa_fd pa) 128 evs k = (map (ea_event src) ?evs, k1)"
    "ea_inv pa src (armed - fst ` {x \<in> set evs. ea_ready pa src armed x}) k1" "ek_counter k1 = ek_counter k"
    using epoll_collect_ok [OF assms(1,3,4)] by blast
  have c: "\<forall>x \<in> set ?evs. src (fst x) = None \<longrightarrow> fst x = pa_cancel_fd pa"
    by (auto simp: ea_ready_def split: prod.splits option.splits)
  then have "\<forall>x \<in> set ?evs. src (fst x) \<noteq> None \<or> 0 < ek_counter k1 (pa_cancel_fd pa)"
    using assms(5) unfolding k1(3) by (metis filter_is_subset subset_iff)
  moreover have "distinct (map fst ?evs)" using assms(3) by (rule distinct_map_filter)
  ultimately have "collect_sources (pa_cancel_fd pa) (map (ea_event src) ?evs) [] k1 =
    Some (rev (map (ea_result src) (filter (\<lambda>x. src (fst x) \<noteq> None) ?evs)) @ [],
      if \<exists>x \<in> set ?evs. src (fst x) = None then k1\<lparr>ek_counter := (ek_counter k1)(pa_cancel_fd pa := 0)\<rparr> else k1)"
    using collect_sources_ok [OF k1(2) _ _ c] by blast
  moreover have "ea_inv pa src (armed - fst ` {x \<in> set evs. ea_ready pa src armed x})
      (k1\<lparr>ek_counter := (ek_counter k1)(pa_cancel_fd pa := 0)\<rparr>)"
    using k1(2) by (simp add: ea_inv_def)
  ultimately show ?thesis
    using k1 assms(2) unfolding C C_def [symmetric]
    by (cases C) (simp_all add: netsys_poll_event_sources_def conj_commute)
qed

definition sample_pa :: poll_aggreg where
  "sample_pa = \<lparr>pa_fd = 3, pa_need_cancel = True, pa_cancel_fd = 4\<rparr>"

definition sample_src :: "int \<rightharpoonup> ev_source" where
  "sample_src = [7 \<mapsto> (Val_long 12, 7, Val_long 1), 8 \<mapsto> (Val_long 13, 8, Val_long 5)]"

definition sample_ek :: ek where
  "sample_ek = \<lparr>ek_open = {3, 4, 7, 8},
     ek_interest = (\<lambda>_. Map.empty)(3 := [4 \<mapsto> (EPOLLIN, 1, True),
       7 \<mapsto> (source_events (Val_long 12, 7, Val_long 1), source_data (Val_long 12, 7, Val_long 1), True),
       8 \<mapsto> (source_events (Val_long 13, 8, Val_long 5), source_data (Val_long 13, 8, Val_long 5), True)]),
     ek_counter = (\<lambda>_. 0)(4 := 1)\<rparr>"

definition sample_ep_os :: ep_os where
  "sample_ep_os = \<lparr>eo_epoll_create = Inr 3, eo_eventfd = Inr 4, eo_cloexec = (\<lambda>_. None), eo_close = (\<lambda>_. None),
     eo_ctl = (\<lambda>_. None), eo_wait = Inr [(4, 1), (8, 5), (7, 4)], eo_EEXIST = 17, eo_ENOENT = 2\<rparr>"

lemma sample_ea_inv: "ea_inv sample_pa sample_src {7, 8} sample_ek"
  by (auto simp: ea_inv_def sample_pa_def sample_src_def sample_ek_def Val_long_def bit_0)

theorem netsys_poll_event_sources_correct_witness:
  "\<exists>k'. netsys_poll_event_sources sample_ep_os sample_pa sample_ek =
      Some (Inr [(Val_long 13, Val_long 0, Val_long 5)], k') \<and> ek_counter k' 4 = 0"
proof -
  let ?evs = "[(4, 1), (8, 5), (7, 4)] :: (int \<times> u32) list"
  have iv: "Int_val (Val_long 1) = 1" "Int_val (Val_long 5) = 5"
    using Int_val_Val_long(1) [of 1] Int_val_Val_long(1) [of 5] by simp_all
  have ev: "source_events (Val_long 12, 7, Val_long 1) OR EPOLLERR OR EPOLLHUP = 0x40000019"
    "source_events (Val_long 13, 8, Val_long 5) OR EPOLLERR OR EPOLLHUP = 0x4000001d"
    by (simp_all add: source_events_def translate_eq iv EPOLLONESHOT_def EPOLLERR_def EPOLLHUP_def)
  have rd: "ea_ready sample_pa sample_src {7, 8} (4, 1)" "ea_ready sample_pa sample_src {7, 8} (8, 5)"
    "\<not> ea_ready sample_pa sample_src {7, 8} (7, 4)"
    using ev by (simp_all add: ea_ready_def sample_src_def sample_pa_def EPOLLIN_def EPOLLERR_def EPOLLHUP_def)
  have s: "sample_src 4 = None" "sample_src 8 = Some (Val_long 13, 8, Val_long 5)"
    by (simp_all add: sample_src_def)
  have w: "eo_wait sample_ep_os = Inr ?evs" "distinct (map fst ?evs)" "length ?evs \<le> 128"
    "\<forall>x \<in> set ?evs. fst x = pa_cancel_fd sample_pa \<longrightarrow> 0 < ek_counter sample_ek (pa_cancel_fd sample_pa)"
    by (simp_all add: sample_ep_os_def sample_pa_def sample_ek_def)
  have "ea_result sample_src (8, 5) = (Val_long 13, Val_long 0, Val_long 5)"
    by (simp add: ea_result_def s iv)
  then show ?thesis
    using netsys_poll_event_sources_correct [OF sample_ea_inv w] rd s
    by (auto simp: sample_pa_def)
qed

text \<open>
  The life cycle of a source. A source added to an aggregator, or pushed again, is
  registered and armed with its identifier and events; pushing re-arms the sources that
  were disarmed by a report, and the last of several pushes for a descriptor wins.
\<close>

theorem event_source_registration:
  assumes "ea_inv pa src armed k" "netsys_add_event_source os pa (i, fd, ev) k = (Inr (), k1)" "bit i 0"
    and "netsys_push_event_sources os' pa srcs k1 = (Inr (), k2)"
    and "\<forall>s \<in> set srcs. bit (fst s) 0 \<and> fst (snd s) \<in> insert fd (dom src)"
  shows "ea_inv pa (src(fd \<mapsto> (i, fd, ev)) ++ map_of (rev (map (\<lambda>s. (fst (snd s), s)) srcs)))
    (insert fd armed \<union> (fst \<circ> snd) ` set srcs) k2"
  using push_sources_ok [OF _ assms(4), of "src(fd \<mapsto> (i, fd, ev))" "insert fd armed"]
    add_source_ok [OF assms(1-3)] assms(5) by simp

theorem event_source_registration_witness:
  "\<exists>k1 k2. netsys_add_event_source sample_ep_os sample_pa (Val_long 14, 9, Val_long 4) sample_ek = (Inr (), k1) \<and>
    netsys_push_event_sources sample_ep_os sample_pa [(Val_long 14, 9, Val_long 1)] k1 = (Inr (), k2) \<and>
    ea_inv sample_pa (sample_src(9 \<mapsto> (Val_long 14, 9, Val_long 1))) {7, 8, 9} k2"
proof -
  have "\<exists>k1. netsys_add_event_source sample_ep_os sample_pa (Val_long 14, 9, Val_long 4) sample_ek = (Inr (), k1) \<and>
      ek_interest k1 3 9 \<noteq> None"
    by (auto simp: netsys_add_event_source_def epoll_add_def sample_ep_os_def sample_ek_def sample_pa_def)
  then obtain k1 where k1: "netsys_add_event_source sample_ep_os sample_pa (Val_long 14, 9, Val_long 4) sample_ek = (Inr (), k1)"
    "ek_interest k1 3 9 \<noteq> None" by blast
  obtain k2 where k2: "netsys_push_event_sources sample_ep_os sample_pa [(Val_long 14, 9, Val_long 1)] k1 = (Inr (), k2)"
    using k1(2) by (simp add: epoll_mod_def sample_ep_os_def sample_pa_def)
  have "bit (Val_long 14) 0" by (simp add: Val_long_def bit_0)
  then show ?thesis
    using event_source_registration [OF sample_ea_inv k1(1) _ k2] k1(1) k2 by (simp add: insert_commute)
qed

text \<open>
  Poll arrays. An array created for \<open>n\<close> cells has \<open>2 n + 1\<close> cells, all zero (the
  size is taken from the tagged integer), so that every cell the OCaml side may use exists.
  A cell that is set is read back with its descriptor and events, and no other
  cell changes.
\<close>

theorem poll_mem_roundtrip:
  assumes "n < 2 ^ 30" "k < n" "fd < 2 ^ 31" "ev < 2 ^ 15" "length (h s) = 2 * n + 1"
  shows "netsys_mk_poll_mem f (Val_long (of_nat n)) = Some (Inr (replicate (2 * n + 1) zero_pollfd)) \<and>
    (\<exists>h'. netsys_set_poll_mem s (Val_long (of_nat k)) (Val_long (of_nat fd)) (Val_long (of_nat ev)) (Val_long 0) h = Some h' \<and>
      netsys_get_poll_mem s (Val_long (of_nat k)) h' = Some (Val_long (of_nat fd), Val_long (of_nat ev), Val_long 0) \<and>
      (\<forall>s' i. s' \<noteq> s \<or> i \<noteq> k \<longrightarrow> h' s' ! i = h s' ! i) \<and> (\<forall>s'. length (h' s') = length (h s')))"
proof -
  have k: "nat (sint (Int_val (Val_long (of_nat k)))) = k" "\<not> sint (Int_val (Val_long (of_nat k))) < 0"
    using nat_sint_Int_val [of k] assms(1,2) by auto
  have f: "Int_val (Val_long (of_nat fd)) = of_nat fd" "Int_val (Val_long (of_nat ev)) = of_nat ev"
    "Int_val (Val_long 0) = 0"
    using Int_val_Val_long(1) [of fd] Int_val_Val_long(1) [of ev] Int_val_Val_long(1) [of 0] assms(3,4) by simp_all
  have sf: "sint (of_nat fd :: u32) = int fd"
    using Int_val_Val_long(2) [OF assms(3)] f(1) by simp
  then have cf: "scast (of_nat fd :: u32) = (of_nat fd :: u64)"
    by (metis of_int_of_nat_eq of_int_sint)
  have ce: "scast (ucast (of_nat ev :: u32) :: 16 word) = (of_nat ev :: u64)"
  proof -
    have "int ev < int (2 ^ 15)" using assms(4) by (simp only: of_nat_less_iff)
    then have "sint (word_of_int (int ev) :: 16 word) = int ev" by (intro sint_word_of_int) simp_all
    moreover have "(ucast (word_of_int (int ev) :: u32) :: 16 word) = word_of_int (int ev)"
      by (rule ucast_down_wi) (simp add: is_down)
    ultimately show ?thesis by (metis of_int_of_nat_eq of_int_sint)
  qed
  show ?thesis
    using mk_poll_mem_ok [OF assms(1)] assms(2,5) k f cf ce
    by (auto simp: netsys_set_poll_mem_def netsys_get_poll_mem_def wr_def rd_def Let_def nth_list_update)
qed

theorem poll_mem_roundtrip_witness:
  "netsys_mk_poll_mem (\<lambda>i. zero_pollfd) (Val_long (of_nat 2)) = Some (Inr (replicate 5 zero_pollfd)) \<and>
   (\<exists>h'. netsys_set_poll_mem 0 (Val_long (of_nat 1)) (Val_long (of_nat 5)) (Val_long (of_nat 3)) (Val_long 0)
       (\<lambda>s. replicate 5 zero_pollfd) = Some h' \<and>
     netsys_get_poll_mem 0 (Val_long (of_nat 1)) h' = Some (Val_long (of_nat 5), Val_long (of_nat 3), Val_long 0))"
  using poll_mem_roundtrip [of 2 1 5 3 "\<lambda>s. replicate 5 zero_pollfd" 0 "\<lambda>i. zero_pollfd"] by fastforce

text \<open>
  What \<^verbatim>\<open>netsys_blit_poll_mem\<close> copies. For a copy of \<open>len\<close> cells that the OCaml
  side admits (both ranges inside the arrays) it moves \<open>2 len + 1\<close> cells, because the length
  is not untagged. The surplus cells of the arrays keep this inside the memory blocks,
  but the \<open>len + 1\<close> cells behind the destination range are overwritten as well.
\<close>

theorem blit_poll_mem_copies:
  assumes "n1 < 2 ^ 30" "n2 < 2 ^ 30" "length (h s1) = 2 * n1 + 1" "length (h s2) = 2 * n2 + 1"
    and "k1 + len \<le> n1" "k2 + len \<le> n2"
  shows "netsys_blit_poll_mem s1 (Val_long (of_nat k1)) s2 (Val_long (of_nat k2)) (Val_long (of_nat len)) h =
    Some (h(s2 := take k2 (h s2) @ take (2 * len + 1) (drop k1 (h s1)) @ drop (k2 + (2 * len + 1)) (h s2)))"
proof -
  have "k1 < 2 ^ 31" "k2 < 2 ^ 31" "len < 2 ^ 30" using assms by auto
  then show ?thesis
    using assms nat_sint_Int_val [of k1] nat_sint_Int_val [of k2] blit_cells [of len]
    by (simp add: netsys_blit_poll_mem_def blit_def)
qed

theorem blit_poll_mem_copies_witness:
  "\<exists>h. netsys_blit_poll_mem 0 (Val_long (of_nat 0)) 1 (Val_long (of_nat 0)) (Val_long (of_nat 1))
      ((\<lambda>_. [])(0 := replicate 5 zero_pollfd, 1 := replicate 5 (zero_pollfd\<lparr>pf_fd := 9\<rparr>))) = Some h \<and>
    pf_fd (h 1 ! 1) = 0 \<and> pf_fd (h 1 ! 3) = 9"
proof -
  let ?h = "(\<lambda>_. [])(0 :: nat := replicate 5 zero_pollfd, 1 := replicate 5 (zero_pollfd\<lparr>pf_fd := 9\<rparr>))"
  have "?h 0 = replicate 5 zero_pollfd" "?h 1 = replicate 5 (zero_pollfd\<lparr>pf_fd := 9\<rparr>)" by simp_all
  then show ?thesis
    using blit_poll_mem_copies [of 2 2 ?h 0 1 0 1 0] by (simp add: zero_pollfd_def nth_append)
qed

end
