(* ===== verification/Bytemem.thy ===== *)
theory Bytemem
  imports Netsys_Prelude
begin

text \<open>
  Byte-addressed memory of a 64 bit little-endian machine: a partial map from addresses to bytes, an
  access to an unmapped byte is \<open>None\<close>. Reading and writing byte ranges, 64 bit words,
  \<^verbatim>\<open>memmove\<close> and \<^verbatim>\<open>memcpy\<close> (undefined for overlapping ranges), C strings, and the laws
  the memory clients use.
\<close>

type_synonym bytes = "u64 \<Rightarrow> u8 option"

definition mread :: "bytes \<Rightarrow> addr \<Rightarrow> nat \<Rightarrow> u8 list option" where
  "mread m a n =
     (if list_all (\<lambda>i. m (a + of_nat i) \<noteq> None) [0..<n]
      then Some (map (\<lambda>i. the (m (a + of_nat i))) [0..<n]) else None)"

definition mwrite :: "bytes \<Rightarrow> addr \<Rightarrow> u8 list \<Rightarrow> bytes option" where
  "mwrite m a bs =
     (if list_all (\<lambda>i. m (a + of_nat i) \<noteq> None) [0..<length bs]
      then Some (\<lambda>x. if unat (x - a) < length bs then Some (bs ! unat (x - a)) else m x) else None)"

definition le64_of :: "u8 list \<Rightarrow> u64" where
  "le64_of bs = foldr (\<lambda>b w. push_bit 8 w OR ucast b) bs 0"

definition le64_bytes :: "u64 \<Rightarrow> u8 list" where
  "le64_bytes w = map (\<lambda>i. ucast (drop_bit (8 * i) w)) [0..<8]"

definition load64 :: "bytes \<Rightarrow> addr \<Rightarrow> u64 option" where
  "load64 m a = map_option le64_of (mread m a 8)"

definition store64 :: "bytes \<Rightarrow> addr \<Rightarrow> u64 \<Rightarrow> bytes option" where
  "store64 m a w = mwrite m a (le64_bytes w)"

definition memmove :: "bytes \<Rightarrow> addr \<Rightarrow> addr \<Rightarrow> u64 \<Rightarrow> bytes option" where
  "memmove m d s n = do { bs \<leftarrow> mread m s (unat n); mwrite m d bs }"

definition memcpy :: "bytes \<Rightarrow> addr \<Rightarrow> addr \<Rightarrow> u64 \<Rightarrow> bytes option" where
  "memcpy m d s n = (if d - s < n \<or> s - d < n then None else memmove m d s n)"

text \<open>\<^verbatim>\<open>strcmp(p, str) == 0\<close> for a constant \<open>str\<close>.\<close>

primrec cstr_eq :: "bytes \<Rightarrow> addr \<Rightarrow> u8 list \<Rightarrow> bool option" where
  "cstr_eq m p [] = do { b \<leftarrow> m p; Some (b = 0) }"
| "cstr_eq m p (c # cs) = do { b \<leftarrow> m p; if b = c then cstr_eq m (p + 1) cs else Some False }"

section \<open>Ranges\<close>

definition in_range :: "addr \<Rightarrow> addr \<Rightarrow> nat \<Rightarrow> bool" where
  "in_range x a n \<longleftrightarrow> unat a \<le> unat x \<and> unat x < unat a + n"

definition range_ok :: "bytes \<Rightarrow> addr \<Rightarrow> nat \<Rightarrow> bool" where
  "range_ok m a n \<longleftrightarrow> unat a + n \<le> 2 ^ 64 \<and> (\<forall>x. in_range x a n \<longrightarrow> m x \<noteq> None)"

definition range_disjoint :: "addr \<Rightarrow> nat \<Rightarrow> addr \<Rightarrow> nat \<Rightarrow> bool" where
  "range_disjoint a n b k \<longleftrightarrow> unat a + n \<le> unat b \<or> unat b + k \<le> unat a"

lemma unat_add_of_nat: "unat (a :: u64) + i < 2 ^ 64 \<Longrightarrow> unat (a + of_nat i) = unat a + i"
  by (simp add: unat_word_ariths unat_of_nat take_bit_eq_mod)

lemma unat_diff_range:
  assumes "unat a + n \<le> 2 ^ 64"
  shows "unat (x - a) < n \<longleftrightarrow> in_range x a n"
proof (cases "a \<le> x")
  case True
  then show ?thesis
    by (auto simp: in_range_def unat_sub word_le_nat_alt)
next
  case False
  then have l: "unat x < unat a" by (simp add: word_le_nat_alt)
  have "unat (x - a) = 2 ^ 64 - unat a + unat x"
    using l unat_u64_bound [of a] by (simp add: unat_sub_if')
  then show ?thesis using l assms by (auto simp: in_range_def)
qed

lemma in_range_index:
  "in_range x a n \<Longrightarrow> unat a + n \<le> 2 ^ 64 \<Longrightarrow> x = a + of_nat (unat x - unat a) \<and> unat (x - a) = unat x - unat a"
  by (simp add: in_range_def unat_sub word_le_nat_alt word_unat_eq_iff unat_add_of_nat)

lemma range_ok_iff:
  assumes "unat a + n \<le> 2 ^ 64"
  shows "list_all (\<lambda>i. m (a + of_nat i) \<noteq> None) [0..<n] \<longleftrightarrow> range_ok m a n"
proof
  assume l: "list_all (\<lambda>i. m (a + of_nat i) \<noteq> None) [0..<n]"
  have "m x \<noteq> None" if "in_range x a n" for x
  proof -
    have "unat x - unat a < n" using that by (auto simp: in_range_def)
    then show ?thesis using l in_range_index [OF that assms] by (metis (mono_tags, lifting) atLeastLessThan_iff le0 list_all_iff set_upt)
  qed
  then show "range_ok m a n" using assms by (simp add: range_ok_def)
next
  assume r: "range_ok m a n"
  have "m (a + of_nat i) \<noteq> None" if "i < n" for i
  proof -
    have "unat (a + of_nat i) = unat a + i" using that assms by (intro unat_add_of_nat) simp
    then show ?thesis using r that by (auto simp: range_ok_def in_range_def)
  qed
  then show "list_all (\<lambda>i. m (a + of_nat i) \<noteq> None) [0..<n]" by (auto simp: list_all_iff)
qed

lemma mread_ok:
  "range_ok m a n \<Longrightarrow> mread m a n = Some (map (\<lambda>i. the (m (a + of_nat i))) [0..<n])"
  using range_ok_iff [of a n m] by (simp add: mread_def range_ok_def)

lemma mread_cong: "(\<And>j. j < k \<Longrightarrow> m' (a + of_nat j) = m (b + of_nat j)) \<Longrightarrow> mread m' a k = mread m b k"
  by (auto simp: mread_def list_all_iff)

lemma mwrite_ok:
  "range_ok m a (length bs) \<Longrightarrow>
   mwrite m a bs = Some (\<lambda>x. if in_range x a (length bs) then Some (bs ! (unat x - unat a)) else m x)"
proof -
  assume r: "range_ok m a (length bs)"
  then have b: "unat a + length bs \<le> 2 ^ 64" by (simp add: range_ok_def)
  have "list_all (\<lambda>i. m (a + of_nat i) \<noteq> None) [0..<length bs]"
    using range_ok_iff [OF b, of m] r by blast
  then have "mwrite m a bs = Some (\<lambda>x. if unat (x - a) < length bs then Some (bs ! unat (x - a)) else m x)"
    by (simp add: mwrite_def)
  also have "\<dots> = Some (\<lambda>x. if in_range x a (length bs) then Some (bs ! (unat x - unat a)) else m x)"
    using unat_diff_range [OF b] in_range_index [OF _ b] by (auto simp: fun_eq_iff)
  finally show ?thesis .
qed

lemma range_ok_sub:
  "range_ok m a n \<Longrightarrow> unat a \<le> unat b \<Longrightarrow> unat b + k \<le> unat a + n \<Longrightarrow> range_ok m b k"
  by (auto simp: range_ok_def in_range_def)

definition same_domain :: "bytes \<Rightarrow> bytes \<Rightarrow> bool" where
  "same_domain m m' \<longleftrightarrow> (\<forall>x. m x = None \<longleftrightarrow> m' x = None)"

lemma same_domain_refl [simp]: "same_domain m m" by (simp add: same_domain_def)

lemma same_domain_trans: "same_domain m m' \<Longrightarrow> same_domain m' m'' \<Longrightarrow> same_domain m m''"
  by (simp add: same_domain_def)

lemma range_ok_same: "same_domain m m' \<Longrightarrow> range_ok m a n = range_ok m' a n"
  by (simp add: same_domain_def range_ok_def)

text \<open>\<open>m'\<close> differs from \<open>m\<close> only inside a range.\<close>

definition agrees_outside :: "bytes \<Rightarrow> bytes \<Rightarrow> addr \<Rightarrow> nat \<Rightarrow> bool" where
  "agrees_outside m m' a n \<longleftrightarrow> (\<forall>x. \<not> in_range x a n \<longrightarrow> m' x = m x)"

lemma mread_agrees:
  assumes "agrees_outside m m' a n" "range_disjoint a n b k" "unat b + k \<le> 2 ^ 64"
  shows "mread m' b k = mread m b k"
proof -
  have "m' (b + of_nat i) = m (b + of_nat i)" if "i < k" for i
  proof -
    have "unat (b + of_nat i) = unat b + i" using that assms(3) by (intro unat_add_of_nat) simp
    then have "\<not> in_range (b + of_nat i) a n" using assms(2) that by (auto simp: in_range_def range_disjoint_def)
    then show ?thesis using assms(1) by (simp add: agrees_outside_def)
  qed
  then show ?thesis by (auto simp: mread_def list_all_iff)
qed

lemma load64_agrees:
  "agrees_outside m m' a n \<Longrightarrow> range_disjoint a n b 8 \<Longrightarrow> unat b + 8 \<le> 2 ^ 64 \<Longrightarrow> load64 m' b = load64 m b"
  using mread_agrees [of m m' a n b 8] by (simp add: load64_def)

section \<open>Words\<close>

lemma length_le64_bytes [simp]: "length (le64_bytes w) = 8"
  by (simp add: le64_bytes_def)

lemma bit_le64_of:
  "n < 64 \<Longrightarrow> bit (le64_of bs) n \<longleftrightarrow> n div 8 < length bs \<and> bit (bs ! (n div 8)) (n mod 8)"
proof (induction bs arbitrary: n)
  case Nil
  then show ?case by (simp add: le64_of_def)
next
  case (Cons b bs)
  have c: "le64_of (b # bs) = push_bit 8 (le64_of bs) OR ucast b" by (simp add: le64_of_def)
  show ?case
  proof (cases "n < 8")
    case True
    then show ?thesis by (simp add: c bit_or_iff bit_push_bit_iff bit_ucast_iff)
  next
    case False
    then obtain k where k: "n = k + 8" by (metis add.commute le_Suc_ex not_less)
    have "k < 64" using Cons.prems k by simp
    moreover have "\<not> bit b (k + 8)" using bit_imp_le_length [of b "k + 8"] by auto
    moreover have "(k + 8) div 8 = Suc (k div 8)" "(k + 8) mod 8 = k mod 8" by simp_all
    ultimately show ?thesis
      using Cons.IH [of k] Cons.prems unfolding c k by (simp add: bit_or_iff bit_push_bit_iff bit_ucast_iff)
  qed
qed

lemma le64_of_bytes: "le64_of (le64_bytes w) = w"
proof (rule bit_word_eqI)
  fix n assume "n < LENGTH(64)"
  then have n: "n < 64" by simp
  then have "n div 8 < 8" by simp
  then show "bit (le64_of (le64_bytes w)) n = bit w n"
    unfolding bit_le64_of [OF n] by (simp add: le64_bytes_def bit_ucast_iff bit_drop_bit_eq)
qed

lemma load64_ok: "range_ok m a 8 \<Longrightarrow> \<exists>w. load64 m a = Some w"
  by (simp add: load64_def mread_ok)

lemma store64_ok:
  assumes "range_ok m a 8"
  shows "\<exists>m'. store64 m a w = Some m' \<and> same_domain m m' \<and> agrees_outside m m' a 8 \<and> load64 m' a = Some w"
proof -
  let ?m = "\<lambda>x. if in_range x a 8 then Some (le64_bytes w ! (unat x - unat a)) else m x"
  have s: "store64 m a w = Some ?m"
    using mwrite_ok [of m a "le64_bytes w"] assms by (simp add: store64_def)
  have d: "same_domain m ?m" using assms by (auto simp: same_domain_def range_ok_def)
  have u: "unat (a + of_nat i) = unat a + i" if "i < 8" for i
    using that assms by (intro unat_add_of_nat) (simp add: range_ok_def)
  have "mread ?m a 8 = Some (map (\<lambda>i. the (?m (a + of_nat i))) [0..<8])"
    using assms d by (intro mread_ok) (simp add: range_ok_same)
  also have "map (\<lambda>i. the (?m (a + of_nat i))) [0..<8] = map (\<lambda>i. le64_bytes w ! i) [0..<8]"
    using u by (intro map_cong) (auto simp: in_range_def)
  also have "\<dots> = le64_bytes w" using map_nth [of "le64_bytes w"] by simp
  finally have "load64 ?m a = Some w" by (simp add: load64_def le64_of_bytes)
  then show ?thesis using s d by (auto simp: agrees_outside_def)
qed

section \<open>Copying\<close>

lemma no_overlap:
  assumes "range_disjoint d (unat n) s (unat n)" "unat d + unat n \<le> 2 ^ 64" "unat s + unat n \<le> 2 ^ 64" "n \<noteq> 0"
  shows "\<not> (d - s < n \<or> s - d < n)"
  using unat_diff_range [OF assms(2), of s] unat_diff_range [OF assms(3), of d] assms(1,4)
  by (auto simp: word_less_nat_alt in_range_def range_disjoint_def unat_gt_0)

lemma memcpy_ok:
  assumes "range_ok m s (unat n)" "range_ok m d (unat n)" "range_disjoint d (unat n) s (unat n)"
  shows "\<exists>m'. memcpy m d s n = Some m' \<and> same_domain m m' \<and> agrees_outside m m' d (unat n) \<and>
    (\<forall>i k. i + k \<le> unat n \<longrightarrow> mread m' (d + of_nat i) k = mread m (s + of_nat i) k)"
proof -
  let ?n = "unat n"
  define bs where "bs = map (\<lambda>i. the (m (s + of_nat i))) [0..<?n]"
  let ?m = "\<lambda>x. if in_range x d ?n then Some (bs ! (unat x - unat d)) else m x"
  have b: "unat d + ?n \<le> 2 ^ 64" "unat s + ?n \<le> 2 ^ 64" using assms(1,2) by (simp_all add: range_ok_def)
  have "mread m s ?n = Some bs" using mread_ok [OF assms(1)] by (simp add: bs_def)
  moreover have "mwrite m d bs = Some ?m" using mwrite_ok [of m d bs] assms(2) by (simp add: bs_def)
  moreover have "\<not> (d - s < n \<or> s - d < n)"
    using no_overlap [OF assms(3) b] by (cases "n = 0") auto
  ultimately have c: "memcpy m d s n = Some ?m" by (simp add: memcpy_def memmove_def)
  have pt: "?m (d + of_nat (i + j)) = m (s + of_nat (i + j))" if "i + j < ?n" for i j
  proof -
    have "unat (d + of_nat (i + j)) = unat d + (i + j)" using that b by (intro unat_add_of_nat) simp
    moreover have "unat (s + of_nat (i + j)) = unat s + (i + j)" using that b by (intro unat_add_of_nat) simp
    then have "m (s + of_nat (i + j)) \<noteq> None" using assms(1) that by (auto simp: range_ok_def in_range_def)
    ultimately show ?thesis using that by (auto simp: in_range_def bs_def simp del: of_nat_add)
  qed
  have "mread ?m (d + of_nat i) k = mread m (s + of_nat i) k" if "i + k \<le> ?n" for i k
  proof (rule mread_cong)
    fix j assume "j < k"
    then show "?m (d + of_nat i + of_nat j) = m (s + of_nat i + of_nat j)"
      using pt [of i j] that unfolding add.assoc of_nat_add [symmetric] by simp
  qed
  moreover have "same_domain m ?m" using assms(2) by (auto simp: same_domain_def range_ok_def)
  ultimately show ?thesis using c by (auto simp: agrees_outside_def)
qed

lemma memcpy_load64:
  "\<forall>i k. i + k \<le> n \<longrightarrow> mread m' (d + of_nat i) k = mread m (s + of_nat i) k \<Longrightarrow> i + 8 \<le> n \<Longrightarrow>
   load64 m' (d + of_nat i) = load64 m (s + of_nat i)"
  by (simp add: load64_def)

end
