(* ===== verification/Init_value.thy ===== *)
theory Init_value
  imports Bytemem Nqueue Htab
begin

text \<open>
  The value copier of \<^verbatim>\<open>src/src/netsys/netsys_c_mem.c\<close>: \<^verbatim>\<open>netsys_init_value_1\<close> copies an OCaml
  value with everything reachable from it into a memory region, in two passes: the first
  copies the blocks breadth-first and records where each went in the hash table, the second
  redirects the pointers of the copies. \<^verbatim>\<open>netsys_init_value\<close> and \<^verbatim>\<open>netsys_copy_value\<close> are
  its clients, with the static table and queue they keep between calls.

  OCaml values are 64 bit words over the byte memory. The queue and the hash table are those
  of \<open>Nqueue\<close> and \<open>Htab\<close>. Results carry an exception or the integer code of the C function
  (0 is success; inside the loops 0 is ``go on''); \<open>None\<close> is an invalid memory access or a loop
  that does not end. The loop counters of the source are \<^verbatim>\<open>int\<close>; here they are naturals, as for
  blocks of less than 2^31 words.

  What the code takes from the C library and from the OCaml runtime is in the record \<open>iv_env\<close>:
  \<^verbatim>\<open>malloc\<close> for the tables and for the two static structs (with whatever the fresh struct
  contains), \<^verbatim>\<open>stat_alloc\<close> for bigarray data, the contents of freshly allocated memory for names,
  the element sizes of the bigarray kinds, and the runtime's allocation functions, which may run the
  garbage collector: they return the new address of the value being copied and the new memory.
\<close>

section \<open>Headers and tags\<close>

abbreviation (input) "No_scan_tag \<equiv> (251 :: u64)"
abbreviation (input) "Lazy_tag \<equiv> (246 :: u64)"
abbreviation (input) "Closure_tag \<equiv> (247 :: u64)"
abbreviation (input) "Object_tag \<equiv> (248 :: u64)"
abbreviation (input) "Forward_tag \<equiv> (250 :: u64)"
abbreviation (input) "Abstract_tag \<equiv> (251 :: u64)"
abbreviation (input) "String_tag \<equiv> (252 :: u64)"
abbreviation (input) "Double_tag \<equiv> (253 :: u64)"
abbreviation (input) "Double_array_tag \<equiv> (254 :: u64)"
abbreviation (input) "Custom_tag \<equiv> (255 :: u64)"

definition Tag_hd :: "u64 \<Rightarrow> u64" where "Tag_hd hdr = hdr AND 0xff"
definition Wosize_hd :: "u64 \<Rightarrow> u64" where "Wosize_hd hdr = drop_bit 10 hdr"
definition Bhsize_hd :: "u64 \<Rightarrow> u64" where "Bhsize_hd hdr = (Wosize_hd hdr + 1) * 8"
definition Color_hd :: "u64 \<Rightarrow> u64" where "Color_hd hdr = hdr AND 0x300"
definition Whitehd_hd :: "u64 \<Rightarrow> u64" where "Whitehd_hd hdr = hdr AND NOT 0x300"

record target_ops =
  to_bigarray :: addr
  to_int32 :: addr
  to_int64 :: addr
  to_nativeint :: addr

record iv_par =
  ip_dest :: addr
  ip_dest_end :: addr
  ip_enable_bigarrays :: int
  ip_enable_customs :: bool
  ip_enable_atoms :: int
  ip_enable_cc :: bool
  ip_simulation :: bool
  ip_target_addr :: addr
  ip_cc :: u64
  ip_color :: u64

record iv_env =
  ie_malloc_tab :: "htab_cell allocator"
  ie_malloc_queue :: "addr allocator"
  ie_stat_alloc :: "bytes \<Rightarrow> u64 \<Rightarrow> (addr \<times> bytes) option"
  ie_element_size :: "u64 \<Rightarrow> u64"
  ie_malloc_htab :: "htab option"
  ie_malloc_nqueue :: "nqueue option"
  ie_fresh_name :: "nat \<Rightarrow> u8 list"
  ie_custom_ops :: "bytes \<Rightarrow> addr \<Rightarrow> target_ops \<times> addr \<times> bytes"
  ie_alloc_block :: "bytes \<Rightarrow> addr \<Rightarrow> u64 \<Rightarrow> addr \<times> addr \<times> bytes"
  ie_alloc_for_heap :: "bytes \<Rightarrow> u64 \<Rightarrow> (addr \<times> bytes) option"
  ie_allocation_color :: "addr \<Rightarrow> u64"

record ivs =
  iv_mem :: bytes
  iv_tab :: htab
  iv_queue :: nqueue
  iv_cur :: addr

type_synonym iv_result = "((exn + int) \<times> ivs) option"

text \<open>Sequencing: a code different from 0 and an exception leave the function.\<close>

definition iv_seq :: "iv_result \<Rightarrow> (ivs \<Rightarrow> iv_result) \<Rightarrow> iv_result" where
  "iv_seq r f = (case r of None \<Rightarrow> None | Some (c, s) \<Rightarrow> if c = Inr 0 then f s else Some (c, s))"

definition iv_queue_add :: "iv_env \<Rightarrow> addr \<Rightarrow> ivs \<Rightarrow> iv_result" where
  "iv_queue_add env x s =
     do { (code, q) \<leftarrow> netsys_queue_add (ie_malloc_queue env) (iv_queue s) x;
          Some (Inr code, s\<lparr>iv_queue := q\<rparr>) }"

text \<open>After \<^verbatim>\<open>netsys_htab_add\<close> only negative codes are errors.\<close>

definition iv_htab_add :: "iv_env \<Rightarrow> addr \<Rightarrow> addr \<Rightarrow> ivs \<Rightarrow> iv_result" where
  "iv_htab_add env a b s =
     do { (code, t) \<leftarrow> netsys_htab_add (ie_malloc_tab env) (iv_tab s) a b;
          Some (Inr (if code < 0 then code else 0), s\<lparr>iv_tab := t\<rparr>) }"

section \<open>First pass\<close>

text \<open>The \<^verbatim>\<open>while\<close> loop over the list of target operations.\<close>

fun find_target_ops :: "(u8 list \<times> addr) list \<Rightarrow> target_ops \<Rightarrow> target_ops" where
  "find_target_ops [] ops = ops"
| "find_target_ops ((name, p) # rest) ops =
     find_target_ops rest
       (if name = [95, 98, 105, 103, 97, 114, 114, 97, 121] then ops\<lparr>to_bigarray := p\<rparr>
        else if name = [95, 105] then ops\<lparr>to_int32 := p\<rparr>
        else if name = [95, 106] then ops\<lparr>to_int64 := p\<rparr>
        else if name = [95, 110] then ops\<lparr>to_nativeint := p\<rparr>
        else ops)"

text \<open>The loop over the list \<^verbatim>\<open>cc\<close> of address ranges that are not copied.\<close>

partial_function (option) cc_covers :: "bytes \<Rightarrow> u64 \<Rightarrow> u64 \<Rightarrow> bool option" where
  "cc_covers m cc_rest field =
     (if Is_block cc_rest
      then do {
        cc_pair \<leftarrow> load64 m cc_rest;
        f0 \<leftarrow> load64 m cc_pair;
        f1 \<leftarrow> load64 m (cc_pair + 8);
        if sint field \<ge> sint (push_bit 1 (Long_val f0)) \<and> sint field < sint (push_bit 1 (Long_val f1))
        then Some True
        else do { rest \<leftarrow> load64 m (cc_rest + 8); cc_covers m rest field }
      }
      else Some False)"

text \<open>
  Copying a block with its header and setting the color. The result has the address of the copy
  (of the original in a simulation).
\<close>

definition copy_block :: "iv_par \<Rightarrow> addr \<Rightarrow> ivs \<Rightarrow> ((exn + int) \<times> addr \<times> ivs) option" where
  "copy_block par work s =
     do {
       hdr \<leftarrow> load64 (iv_mem s) (work - 8);
       let copy_header = iv_cur s;
       let s1 = s\<lparr>iv_cur := iv_cur s + Bhsize_hd hdr\<rparr>;
       if iv_cur s1 > ip_dest_end par \<and> \<not> ip_simulation par then Some (Inr (-4), 0, s1)
       else if ip_simulation par then Some (Inr 0, work, s1)
       else do {
         m1 \<leftarrow> memcpy (iv_mem s1) copy_header (work - 8) (Bhsize_hd hdr);
         let copy = copy_header + 8;
         chd \<leftarrow> load64 m1 (copy - 8);
         m2 \<leftarrow> store64 m1 (copy - 8) (Whitehd_hd chd OR ip_color par);
         Some (Inr 0, copy, s1\<lparr>iv_mem := m2\<rparr>)
       }
     }"

primrec scan_fields :: "iv_env \<Rightarrow> iv_par \<Rightarrow> addr \<Rightarrow> nat \<Rightarrow> nat \<Rightarrow> ivs \<Rightarrow> iv_result" where
  "scan_fields env par work 0 i s = Some (Inr 0, s)"
| "scan_fields env par work (Suc r) i s =
     do {
       field \<leftarrow> load64 (iv_mem s) (work + 8 * of_nat i);
       skip \<leftarrow> (if \<not> Is_block field then Some True
                else if ip_enable_cc par then cc_covers (iv_mem s) (ip_cc par) field
                else Some False);
       if skip then scan_fields env par work r (Suc i) s
       else iv_seq (iv_queue_add env field s) (scan_fields env par work r (Suc i))
     }"

definition pass1_scanned :: "iv_env \<Rightarrow> iv_par \<Rightarrow> addr \<Rightarrow> u64 \<Rightarrow> ivs \<Rightarrow> iv_result" where
  "pass1_scanned env par work hdr s =
     (let work_tag = Tag_hd hdr; work_words = Wosize_hd hdr in
      if work_tag \<in> {Object_tag, Closure_tag, Lazy_tag, Forward_tag} then Some (Inr (-2), s)
      else if work_words = 0 \<and> ip_enable_atoms par = 0 then Some (Inr (-2), s)
      else if work_words = 0 \<and> ip_enable_atoms par = 1 then Some (Inr 0, s)
      else do {
        (code, copy, s1) \<leftarrow> copy_block par work s;
        if code \<noteq> Inr 0 then Some (code, s1)
        else iv_seq (iv_htab_add env work copy s1) (scan_fields env par work (unat work_words) 0)
      })"

text \<open>
  The identification of custom blocks: \<open>Inr id\<close> is the value of \<^verbatim>\<open>caml_id\<close>, \<open>Inl code\<close> the
  \<^verbatim>\<open>return\<close>. The case of \<^verbatim>\<open>'b'\<close> falls through when the identifier is not that of bigarrays.
\<close>

definition custom_id :: "iv_par \<Rightarrow> bytes \<Rightarrow> addr \<Rightarrow> (int + u8) option" where
  "custom_id par m work =
     do {
       ops \<leftarrow> load64 m work;
       ident \<leftarrow> load64 m ops;
       c0 \<leftarrow> m ident;
       if c0 \<noteq> 95 then Some (Inl (-2))
       else do {
         c1 \<leftarrow> m (ident + 1);
         if c1 = 98 \<and> ip_enable_bigarrays par = 0 then Some (Inl (-2))
         else do {
           isb \<leftarrow> (if c1 = 98 then cstr_eq m ident [95, 98, 105, 103, 97, 114, 114, 97, 121] else Some False);
           if isb then Some (Inr 98)
           else if c1 \<in> {98, 105, 106, 110}
           then (if \<not> ip_enable_customs par then Some (Inl (-2))
                 else do {
                   c2 \<leftarrow> m (ident + 2);
                   if c2 = 0 then Some (Inr c1) else Some (Inl (-2))
                 })
           else Some (Inl (-2))
         }
       }
     }"

definition opaque_id :: "iv_par \<Rightarrow> bytes \<Rightarrow> addr \<Rightarrow> u64 \<Rightarrow> (int + bool \<times> u8) option" where
  "opaque_id par m work tag =
     (if tag = Abstract_tag then Some (Inl (-2))
      else if tag \<in> {String_tag, Double_tag, Double_array_tag} then Some (Inr (True, 32))
      else if tag = Custom_tag
      then do { r \<leftarrow> custom_id par m work;
                case r of Inl c \<Rightarrow> Some (Inl c) | Inr i \<Rightarrow> Some (Inr (i \<in> {98, 105, 106, 110}, i)) }
      else Some (Inr (False, 32)))"

primrec ba_dims :: "bytes \<Rightarrow> addr \<Rightarrow> nat \<Rightarrow> u64 \<Rightarrow> u64 option" where
  "ba_dims m p 0 sz = Some sz"
| "ba_dims m p (Suc r) sz = do { d \<leftarrow> load64 m p; ba_dims m (p + 8) r (sz * d) }"

text \<open>
  The postprocessing of bigarrays. \<^verbatim>\<open>struct caml_ba_array\<close> starts behind the operations
  pointer: \<^verbatim>\<open>data\<close>, \<^verbatim>\<open>num_dims\<close>, \<^verbatim>\<open>flags\<close>, \<^verbatim>\<open>proxy\<close>, \<^verbatim>\<open>dim[]\<close>.
\<close>

definition ba_size :: "iv_env \<Rightarrow> bytes \<Rightarrow> addr \<Rightarrow> u64 option" where
  "ba_size env m work =
     do {
       num_dims \<leftarrow> load64 m (work + 16);
       sz \<leftarrow> ba_dims m (work + 40) (nat (sint num_dims)) 1;
       flags \<leftarrow> load64 m (work + 24);
       Some (sz * ie_element_size env (flags AND 0xff))
     }"

definition ba_finish ::
    "iv_par \<Rightarrow> addr \<Rightarrow> addr \<Rightarrow> addr \<Rightarrow> addr \<Rightarrow> u64 \<Rightarrow> u64 \<Rightarrow> ivs \<Rightarrow> iv_result" where
  "ba_finish par work copy data_header data_copy sz size_words s =
     (if iv_cur s > ip_dest_end par then Some (Inr (-4), s)
      else do {
        m1 \<leftarrow> (if data_header \<noteq> NULL
               then do { m \<leftarrow> store64 (iv_mem s) data_header Abstract_tag; store64 m (data_header + 8) size_words }
               else Some (iv_mem s));
        wdata \<leftarrow> load64 m1 (work + 8);
        m2 \<leftarrow> memcpy m1 data_copy wdata sz;
        m3 \<leftarrow> store64 m2 (copy + 8) data_copy;
        m4 \<leftarrow> store64 m3 (copy + 32) NULL;
        fl \<leftarrow> load64 m4 (copy + 24);
        m5 \<leftarrow> store64 m4 (copy + 24)
                ((fl AND NOT 0x600) OR (if ip_enable_bigarrays par = 2 then 0 else 0x200));
        Some (Inr 0, s\<lparr>iv_mem := m5\<rparr>)
      })"

definition copy_bigarray :: "iv_env \<Rightarrow> iv_par \<Rightarrow> addr \<Rightarrow> addr \<Rightarrow> ivs \<Rightarrow> iv_result" where
  "copy_bigarray env par work copy s =
     do {
       sz \<leftarrow> ba_size env (iv_mem s) work;
       let size_aligned = (if sz mod 8 \<noteq> 0 then sz + (8 - sz mod 8) else sz);
       let size_words = size_aligned div 8;
       if ip_enable_bigarrays par = 2
       then let data_header = iv_cur s;
                data_copy = data_header + 16;
                s1 = s\<lparr>iv_cur := data_copy + size_aligned\<rparr>
            in if ip_simulation par then Some (Inr 0, s1)
               else ba_finish par work copy data_header data_copy sz size_words s1
       else if ip_simulation par then Some (Inr 0, s)
       else case ie_stat_alloc env (iv_mem s) size_aligned of
              None \<Rightarrow> Some (Inl Out_of_memory, s)
            | Some (data_copy, m) \<Rightarrow> ba_finish par work copy NULL data_copy sz size_words (s\<lparr>iv_mem := m\<rparr>)
     }"

definition pass1_opaque :: "iv_env \<Rightarrow> iv_par \<Rightarrow> target_ops \<Rightarrow> addr \<Rightarrow> u64 \<Rightarrow> ivs \<Rightarrow> iv_result" where
  "pass1_opaque env par ops work hdr s =
     do {
       r \<leftarrow> opaque_id par (iv_mem s) work (Tag_hd hdr);
       case r of
         Inl c \<Rightarrow> Some (Inr c, s)
       | Inr (do_copy, caml_id) \<Rightarrow>
           if \<not> do_copy then Some (Inr 0, s)
           else
             let target = (if caml_id = 98 then to_bigarray ops
                           else if caml_id = 105 then to_int32 ops
                           else if caml_id = 106 then to_int64 ops
                           else if caml_id = 110 then to_nativeint ops else NULL)
             in do {
               (code, copy, s1) \<leftarrow> copy_block par work s;
               if code \<noteq> Inr 0 then Some (code, s1)
               else do {
                 m \<leftarrow> (if target \<noteq> NULL \<and> \<not> ip_simulation par
                       then store64 (iv_mem s1) copy target else Some (iv_mem s1));
                 iv_seq (iv_htab_add env work copy (s1\<lparr>iv_mem := m\<rparr>))
                   (\<lambda>s2. if caml_id = 98 then copy_bigarray env par work copy s2 else Some (Inr 0, s2))
               }
             }
     }"

definition pass1_body :: "iv_env \<Rightarrow> iv_par \<Rightarrow> target_ops \<Rightarrow> addr \<Rightarrow> ivs \<Rightarrow> iv_result" where
  "pass1_body env par ops work_addr s =
     do {
       (code, copy_addr) \<leftarrow> netsys_htab_lookup (iv_tab s) work_addr;
       if code \<noteq> 0 then Some (Inr code, s)
       else if copy_addr \<noteq> NULL then Some (Inr 0, s)
       else do {
         hdr \<leftarrow> load64 (iv_mem s) (work_addr - 8);
         if Tag_hd hdr < No_scan_tag then pass1_scanned env par work_addr hdr s
         else pass1_opaque env par ops work_addr hdr s
       }
     }"

partial_function (option) pass1_loop :: "iv_env \<Rightarrow> iv_par \<Rightarrow> target_ops \<Rightarrow> ivs \<Rightarrow> iv_result" where
  "pass1_loop env par ops s =
     do {
       (code, work_addr, q) \<leftarrow> netsys_queue_take (iv_queue s);
       let s1 = s\<lparr>iv_queue := q\<rparr>;
       if code = -3 then Some (Inr 0, s1)
       else if code \<noteq> 0 then Some (Inr code, s1)
       else case pass1_body env par ops work_addr s1 of
              None \<Rightarrow> None
            | Some (c, s2) \<Rightarrow> if c = Inr 0 then pass1_loop env par ops s2 else Some (c, s2)
     }"

section \<open>Second pass\<close>

primrec fixup_fields :: "u64 \<Rightarrow> addr \<Rightarrow> nat \<Rightarrow> nat \<Rightarrow> ivs \<Rightarrow> iv_result" where
  "fixup_fields addr_delta copy 0 i s = Some (Inr 0, s)"
| "fixup_fields addr_delta copy (Suc r) i s =
     do {
       field \<leftarrow> load64 (iv_mem s) (copy + 8 * of_nat i);
       if \<not> Is_block field then fixup_fields addr_delta copy r (Suc i) s
       else do {
         (code, fixup_addr) \<leftarrow> netsys_htab_lookup (iv_tab s) field;
         if code \<noteq> 0 then Some (Inr code, s)
         else if fixup_addr \<noteq> NULL
         then do {
           m \<leftarrow> store64 (iv_mem s) (copy + 8 * of_nat i) (fixup_addr + addr_delta);
           fixup_fields addr_delta copy r (Suc i) (s\<lparr>iv_mem := m\<rparr>)
         }
         else fixup_fields addr_delta copy r (Suc i) s
       }
     }"

partial_function (option) pass2_loop :: "u64 \<Rightarrow> addr \<Rightarrow> ivs \<Rightarrow> iv_result" where
  "pass2_loop addr_delta dest_ptr s =
     (if dest_ptr < iv_cur s
      then do {
        hdr \<leftarrow> load64 (iv_mem s) dest_ptr;
        if Tag_hd hdr < No_scan_tag
        then case fixup_fields addr_delta (dest_ptr + 8) (unat (Wosize_hd hdr)) 0 s of
               None \<Rightarrow> None
             | Some (c, s1) \<Rightarrow>
                 if c = Inr 0 then pass2_loop addr_delta (dest_ptr + (Wosize_hd hdr + 1) * 8) s1 else Some (c, s1)
        else do {
          copy_words \<leftarrow> (if Tag_hd hdr = Abstract_tag \<and> Wosize_hd hdr = 0
                         then do { w \<leftarrow> load64 (iv_mem s) (dest_ptr + 8); Some (w + 1) }
                         else Some (Wosize_hd hdr));
          pass2_loop addr_delta (dest_ptr + (copy_words + 1) * 8) s
        }
      }
      else Some (Inr 0, s))"

text \<open>
  The whole function; on success the result has the start offset and the length. The table
  and the queue are changed in place.
\<close>

definition netsys_init_value_1 ::
    "iv_env \<Rightarrow> iv_par \<Rightarrow> (u8 list \<times> addr) list \<Rightarrow> u64 \<Rightarrow> htab \<Rightarrow> nqueue \<Rightarrow> bytes \<Rightarrow>
     ((exn + int) \<times> u64 \<times> u64 \<times> ivs) option" where
  "netsys_init_value_1 env par target_custom_ops orig t q m =
     (let s = \<lparr>iv_mem = m, iv_tab = t, iv_queue = q, iv_cur = ip_dest par\<rparr>;
          addr_delta = ip_target_addr par - ip_dest par
      in if ip_dest par \<ge> ip_dest_end par \<and> \<not> ip_simulation par then Some (Inr (-4), 0, 0, s)
         else if \<not> Is_block orig then Some (Inr (-2), 0, 0, s)
         else do {
           (c, s') \<leftarrow> iv_seq (iv_queue_add env orig s) (\<lambda>s1.
             let ops = find_target_ops target_custom_ops
                   \<lparr>to_bigarray = NULL, to_int32 = NULL, to_int64 = NULL, to_nativeint = NULL\<rparr>
             in iv_seq (pass1_loop env par ops s1) (\<lambda>s2.
                  if ip_simulation par then Some (Inr 0, s2) else pass2_loop addr_delta (ip_dest par) s2));
           Some (if c = Inr 0 then (c, 8, iv_cur s' - ip_dest par, s') else (c, 0, 0, s'))
         })"

section \<open>The static table and queue\<close>

record iv_stat =
  is_tab :: "htab option"
  is_queue :: "nqueue option"
  is_mem :: bytes
  is_words :: u64

text \<open>
  The static pointers are \<open>None\<close> for \<^verbatim>\<open>NULL\<close>. A freshly allocated struct has arbitrary contents; the
  queue keeps them when its initialisation fails.
\<close>

definition prep_stat_tab :: "iv_env \<Rightarrow> htab option \<Rightarrow> (int \<times> htab option) option" where
  "prep_stat_tab env tab =
     (case (case tab of None \<Rightarrow> map_option (\<lambda>t. (t, True)) (ie_malloc_htab env) | Some t \<Rightarrow> Some (t, False)) of
        None \<Rightarrow> Some (-1, None)
      | Some (t, need_init) \<Rightarrow>
          if need_init \<or> ht_table t = None
          then do { (code, t') \<leftarrow> netsys_htab_init (ie_malloc_tab env) 256; Some (code, Some t') }
          else do { t' \<leftarrow> netsys_htab_clear t; Some (0, Some t') })"

definition unprep_stat_tab :: "htab option \<Rightarrow> htab option option" where
  "unprep_stat_tab tab =
     do { t \<leftarrow> tab; Some (Some (if ht_table_size t > 256 then netsys_htab_free t else t)) }"

definition prep_stat_queue :: "iv_env \<Rightarrow> nqueue option \<Rightarrow> int \<times> nqueue option" where
  "prep_stat_queue env queue =
     (case (case queue of None \<Rightarrow> map_option (\<lambda>q. (q, True)) (ie_malloc_nqueue env) | Some q \<Rightarrow> Some (q, False)) of
        None \<Rightarrow> (-1, None)
      | Some (q, need_init) \<Rightarrow>
          if need_init \<or> nq_table q = None
          then case netsys_queue_init (ie_malloc_queue env) q 256 of (code, q') \<Rightarrow> (code, Some q')
          else (0, Some (netsys_queue_clear q)))"

definition unprep_stat_queue :: "nqueue option \<Rightarrow> nqueue option option" where
  "unprep_stat_queue queue =
     do { q \<leftarrow> queue; Some (Some (if netsys_queue_size q > 256 then netsys_queue_free q else q)) }"

definition unprep_stat :: "iv_stat \<Rightarrow> iv_stat option" where
  "unprep_stat st =
     do { t \<leftarrow> unprep_stat_tab (is_tab st); q \<leftarrow> unprep_stat_queue (is_queue st);
          Some (st\<lparr>is_tab := t, is_queue := q\<rparr>) }"

text \<open>The two preparations, and the code behind the label \<^verbatim>\<open>exit\<close>.\<close>

definition prep_stat :: "iv_env \<Rightarrow> iv_stat \<Rightarrow> (int \<times> iv_stat) option" where
  "prep_stat env st =
     do {
       (code, t) \<leftarrow> prep_stat_tab env (is_tab st);
       let st1 = st\<lparr>is_tab := t\<rparr>;
       if code \<noteq> 0 then Some (code, st1)
       else case prep_stat_queue env (is_queue st1) of (code, q) \<Rightarrow> Some (code, st1\<lparr>is_queue := q\<rparr>)
     }"

definition iv_exit :: "string \<Rightarrow> string \<Rightarrow> int \<Rightarrow> iv_stat \<Rightarrow> ((exn + 'r) \<times> iv_stat) option" where
  "iv_exit fname mlname code st =
     do {
       st1 \<leftarrow> unprep_stat st;
       Some (Inl (if code = -1 then Unix_error 12 fname
                  else if code = -2 then Failure (mlname @ '': Library error'')
                  else if code = -4 then Out_of_space
                  else Failure (mlname @ '': Unknown error'')), st1)
     }"

definition convert_flag_list :: "nat list \<Rightarrow> u64" where
  "convert_flag_list flags = foldl (\<lambda>r i. r OR ([1, 2, 4, 8, 16, 32] ! i)) 0 flags"

text \<open>
  The list of target operations is built in reverse. The names point to fresh memory that is never
  written: the source calls \<^verbatim>\<open>strcmp\<close> where it would need \<^verbatim>\<open>strcpy\<close>.
\<close>

fun build_ops :: "(nat \<Rightarrow> u8 list) \<Rightarrow> nat \<Rightarrow> (u8 list \<times> addr) list \<Rightarrow> (u8 list \<times> addr) list \<Rightarrow> (u8 list \<times> addr) list" where
  "build_ops fresh k [] ops = ops"
| "build_ops fresh k ((name, p) # rest) ops = build_ops fresh (Suc k) rest ((fresh k, p) # ops)"

definition netsys_init_value ::
    "iv_env \<Rightarrow> addr \<Rightarrow> u64 \<Rightarrow> u64 \<Rightarrow> u64 \<Rightarrow> nat list \<Rightarrow> u64 \<Rightarrow> (u8 list \<times> addr) list \<Rightarrow> u64 \<Rightarrow> iv_stat \<Rightarrow>
     ((exn + u64 \<times> u64) \<times> iv_stat) option" where
  "netsys_init_value env data dim0 offv orig flags targetaddrv target_custom_ops cc st =
     do {
       (code, st1) \<leftarrow> prep_stat env st;
       let off = Long_val offv;
       if code \<noteq> 0 then iv_exit ''netsys_init_value'' ''Netsys_mem.init_value'' code st1
       else if off mod 8 \<noteq> 0 then iv_exit ''netsys_init_value'' ''Netsys_mem.init_value'' (-2) st1
       else do {
         let cflags = convert_flag_list flags;
         let mem_data = data + off;
         t \<leftarrow> is_tab st1;
         q \<leftarrow> is_queue st1;
         (c, start_offset, bytelen, s) \<leftarrow> netsys_init_value_1 env
            \<lparr>ip_dest = mem_data, ip_dest_end = mem_data + dim0,
             ip_enable_bigarrays = (if cflags AND 1 \<noteq> 0 then 2 else 0),
             ip_enable_customs = (cflags AND 2 \<noteq> 0),
             ip_enable_atoms = (if cflags AND 4 \<noteq> 0 then 2 else if cflags AND 32 \<noteq> 0 then 1 else 0),
             ip_enable_cc = (cflags AND 16 \<noteq> 0), ip_simulation = (cflags AND 8 \<noteq> 0),
             ip_target_addr = targetaddrv + off, ip_cc = cc, ip_color = 0\<rparr>
            (build_ops (ie_fresh_name env) 0 target_custom_ops []) orig t q (is_mem st1);
         let st2 = st1\<lparr>is_tab := Some (iv_tab s), is_queue := Some (iv_queue s), is_mem := iv_mem s\<rparr>;
         case c of
           Inl e \<Rightarrow> Some (Inl e, st2)
         | Inr code \<Rightarrow>
             if code \<noteq> 0 then iv_exit ''netsys_init_value'' ''Netsys_mem.init_value'' code st2
             else do { st3 \<leftarrow> unprep_stat st2;
                       Some (Inr (Val_long (start_offset + off), Val_long bytelen), st3) }
       }
     }"

section \<open>\<^verbatim>\<open>netsys_copy_value\<close>\<close>

definition Max_wosize :: u64 where "Max_wosize = 2 ^ 54 - 1"

definition page_round :: "u64 \<Rightarrow> u64" where
  "page_round n = push_bit 12 (drop_bit 12 (n + 4096 - 1))"

text \<open>
  The destination of the copy: header address, color, the moved original, the memory, and the end of the extra
  block for values beyond \<open>Max_wosize\<close> (\<open>None\<close> otherwise). The outer \<open>None\<close> is an invalid access.
\<close>

definition copy_value_alloc ::
    "iv_env \<Rightarrow> bytes \<Rightarrow> addr \<Rightarrow> u64 \<Rightarrow> (exn + addr \<times> u64 \<times> addr \<times> bytes \<times> addr option) option" where
  "copy_value_alloc env m orig bytelen =
     (let wosize = bytelen div 8 - 1 in
      if wosize > Max_wosize
      then let request = page_round bytelen in
           (case ie_alloc_for_heap env m request of
              None \<Rightarrow> Some (Inl Out_of_memory)
            | Some (extra_block, m1) \<Rightarrow>
                Some (Inr (extra_block, ie_allocation_color env extra_block, orig, m1, Some (extra_block + request))))
      else case ie_alloc_block env m orig wosize of (dest, orig1, m1) \<Rightarrow>
           do { hdr \<leftarrow> load64 m1 dest; Some (Inr (dest, Color_hd hdr, orig1, m1, None)) })"

text \<open>The gap behind an extra block gets a header; the size passes through an \<^verbatim>\<open>int\<close>.\<close>

definition close_extra_block :: "addr \<Rightarrow> addr \<Rightarrow> addr option \<Rightarrow> iv_stat \<Rightarrow> iv_stat option" where
  "close_extra_block dest dest_end extra_end st =
     (case extra_end of
        None \<Rightarrow> Some st
      | Some e \<Rightarrow> do {
          m \<leftarrow> (if dest_end < e
                then store64 (is_mem st) dest_end
                       (push_bit 10 (ulong_of_int (int_of_ulong (e - dest_end)) div 8 - 1))
                else Some (is_mem st));
          Some (st\<lparr>is_mem := m, is_words := is_words st + (dest_end - dest) div 8\<rparr>)
        })"

definition copy_par :: "u64 \<Rightarrow> bool \<Rightarrow> addr \<Rightarrow> addr \<Rightarrow> u64 \<Rightarrow> iv_par" where
  "copy_par cflags sim dest dest_end color =
     \<lparr>ip_dest = dest, ip_dest_end = dest_end,
      ip_enable_bigarrays = (if cflags AND 1 \<noteq> 0 then 1 else 0), ip_enable_customs = (cflags AND 2 \<noteq> 0),
      ip_enable_atoms = 1, ip_enable_cc = False, ip_simulation = sim, ip_target_addr = dest,
      ip_cc = 0, ip_color = color\<rparr>"

definition named_ops :: "target_ops \<Rightarrow> (u8 list \<times> addr) list" where
  "named_ops ops =
     [([95, 98, 105, 103, 97, 114, 114, 97, 121], to_bigarray ops), ([95, 105], to_int32 ops),
      ([95, 106], to_int64 ops), ([95, 110], to_nativeint ops)]"

text \<open>The part behind the counting: allocation, the real copy and the return.\<close>

definition copy_value_2 ::
    "iv_env \<Rightarrow> u64 \<Rightarrow> addr \<Rightarrow> u64 \<Rightarrow> iv_stat \<Rightarrow> ((exn + u64) \<times> iv_stat) option" where
  "copy_value_2 env cflags orig bytelen st =
     (case ie_custom_ops env (is_mem st) orig of (ops, orig0, m0) \<Rightarrow>
      do {
        a \<leftarrow> copy_value_alloc env m0 orig0 bytelen;
        case a of
          Inl e \<Rightarrow> Some (Inl e, st\<lparr>is_mem := m0\<rparr>)
        | Inr (dest, color, orig1, m1, extra_end) \<Rightarrow> do {
            t \<leftarrow> is_tab st;
            t1 \<leftarrow> netsys_htab_clear t;
            q \<leftarrow> is_queue st;
            (c, so, len, s) \<leftarrow> netsys_init_value_1 env (copy_par cflags False dest (dest + bytelen) color)
               (named_ops ops) orig1 t1 (netsys_queue_clear q) m1;
            let st2 = st\<lparr>is_tab := Some (iv_tab s), is_queue := Some (iv_queue s), is_mem := iv_mem s\<rparr>;
            case c of
              Inl e \<Rightarrow> Some (Inl e, st2)
            | Inr code \<Rightarrow>
                if code \<noteq> 0 then iv_exit ''netsys_copy_value'' ''Netsys_mem.copy_value'' code st2
                else do {
                  st3 \<leftarrow> unprep_stat st2;
                  st4 \<leftarrow> close_extra_block dest (dest + bytelen) extra_end st3;
                  Some (Inr (dest + 8), st4)
                }
          }
      })"

definition netsys_copy_value :: "iv_env \<Rightarrow> nat list \<Rightarrow> u64 \<Rightarrow> iv_stat \<Rightarrow> ((exn + u64) \<times> iv_stat) option" where
  "netsys_copy_value env flags orig st =
     do {
       trivial \<leftarrow> (if \<not> Is_block orig then Some True
                   else do { hdr \<leftarrow> load64 (is_mem st) (orig - 8); Some (Wosize_hd hdr = 0) });
       if trivial then Some (Inr orig, st)
       else do {
         (code, st1) \<leftarrow> prep_stat env st;
         if code \<noteq> 0 then iv_exit ''netsys_copy_value'' ''Netsys_mem.copy_value'' code st1
         else do {
           let cflags = convert_flag_list flags;
           t \<leftarrow> is_tab st1;
           q \<leftarrow> is_queue st1;
           (c, so, bytelen, s) \<leftarrow> netsys_init_value_1 env (copy_par cflags True NULL NULL 0) [] orig t q (is_mem st1);
           let st2 = st1\<lparr>is_tab := Some (iv_tab s), is_queue := Some (iv_queue s), is_mem := iv_mem s\<rparr>;
           case c of
             Inl e \<Rightarrow> Some (Inl e, st2)
           | Inr code \<Rightarrow>
               if code \<noteq> 0 then iv_exit ''netsys_copy_value'' ''Netsys_mem.copy_value'' code st2
               else copy_value_2 env cflags orig bytelen st2
         }
       }
     }"

section \<open>Custom values\<close>

text \<open>\<^verbatim>\<open>netsys_get_custom_ops\<close>: the identifier (a C string) and the address of the operations.\<close>

partial_function (option) read_cstr :: "bytes \<Rightarrow> addr \<Rightarrow> u8 list option" where
  "read_cstr m p =
     do { b \<leftarrow> m p; if b = 0 then Some [] else do { bs \<leftarrow> read_cstr m (p + 1); Some (b # bs) } }"

definition is_custom :: "bytes \<Rightarrow> u64 \<Rightarrow> bool option" where
  "is_custom m v =
     (if \<not> Is_block v then Some False else do { hdr \<leftarrow> load64 m (v - 8); Some (Tag_hd hdr = Custom_tag) })"

definition netsys_get_custom_ops :: "bytes \<Rightarrow> u64 \<Rightarrow> (exn + u8 list \<times> addr) option" where
  "netsys_get_custom_ops m v =
     do {
       c \<leftarrow> is_custom m v;
       if c then do { ops \<leftarrow> load64 m v; ident \<leftarrow> load64 m ops; name \<leftarrow> read_cstr m ident; Some (Inr (name, ops)) }
       else Some (Inl (Invalid_argument ''Netsys_mem.get_custom_ops''))
     }"

definition netsys_is_bigarray :: "bytes \<Rightarrow> u64 \<Rightarrow> bool option" where
  "netsys_is_bigarray m v =
     do {
       c \<leftarrow> is_custom m v;
       if c then do { ops \<leftarrow> load64 m v; ident \<leftarrow> load64 m ops;
                      cstr_eq m ident [95, 98, 105, 103, 97, 114, 114, 97, 121] }
       else Some False
     }"

end
