(* ===== verification/Value_copy.thy ===== *)
theory Value_copy
  imports Init_value
begin

text \<open>
  Correctness of the value copier \<^verbatim>\<open>netsys_init_value_1\<close>. The specification is the set of
  blocks reachable from the root value; the copier builds an isomorphic image of it, block after
  block, in the destination region. The invariant of the first pass is over the list \<open>L\<close> of the
  blocks copied so far; the second pass runs over the same list.
\<close>

section \<open>Blocks of a heap\<close>

definition hdr_of :: "bytes \<Rightarrow> addr \<Rightarrow> u64" where
  "hdr_of m b = the (load64 m (b - 8))"

definition wsz :: "bytes \<Rightarrow> addr \<Rightarrow> nat" where
  "wsz m b = unat (Wosize_hd (hdr_of m b))"

definition bsz :: "bytes \<Rightarrow> addr \<Rightarrow> nat" where
  "bsz m b = 8 * (wsz m b + 1)"

definition scanned :: "bytes \<Rightarrow> addr \<Rightarrow> bool" where
  "scanned m b \<longleftrightarrow> Tag_hd (hdr_of m b) < No_scan_tag"

definition field :: "bytes \<Rightarrow> addr \<Rightarrow> nat \<Rightarrow> u64 option" where
  "field m b i = load64 m (b + 8 * of_nat i)"

text \<open>Blocks the copier refuses (custom blocks apart), and blocks it leaves where they are.\<close>

definition unsupported :: "iv_par \<Rightarrow> bytes \<Rightarrow> addr \<Rightarrow> bool" where
  "unsupported par m b \<longleftrightarrow>
     Tag_hd (hdr_of m b) \<in> {Object_tag, Closure_tag, Lazy_tag, Forward_tag, Abstract_tag} \<or>
     scanned m b \<and> wsz m b = 0 \<and> ip_enable_atoms par = 0"

definition copied :: "iv_par \<Rightarrow> bytes \<Rightarrow> addr \<Rightarrow> bool" where
  "copied par m b \<longleftrightarrow> \<not> (scanned m b \<and> wsz m b = 0 \<and> ip_enable_atoms par = 1)"

inductive reach :: "bytes \<Rightarrow> addr \<Rightarrow> addr \<Rightarrow> bool" for m root where
  reach_root: "reach m root root"
| reach_field: "reach m root b \<Longrightarrow> scanned m b \<Longrightarrow> i < wsz m b \<Longrightarrow> field m b i = Some f \<Longrightarrow>
    Is_block f \<Longrightarrow> reach m root f"

definition block_ok :: "bytes \<Rightarrow> addr \<Rightarrow> nat \<Rightarrow> addr \<Rightarrow> bool" where
  "block_ok m d n b \<longleftrightarrow> 8 \<le> unat b \<and> range_ok m (b - 8) (bsz m b) \<and>
     range_disjoint d n (b - 8) (bsz m b) \<and> Tag_hd (hdr_of m b) \<noteq> Custom_tag"

definition copied_blocks :: "iv_par \<Rightarrow> bytes \<Rightarrow> addr \<Rightarrow> addr set" where
  "copied_blocks par m root = {b. reach m root b \<and> copied par m b}"

definition copy_bytes :: "iv_par \<Rightarrow> bytes \<Rightarrow> addr \<Rightarrow> nat" where
  "copy_bytes par m root = (\<Sum>b \<in> copied_blocks par m root. bsz m b)"

definition region :: "iv_par \<Rightarrow> nat" where
  "region par = (if ip_simulation par then 0 else unat (ip_dest_end par) - unat (ip_dest par))"

definition copy_pre :: "iv_par \<Rightarrow> bytes \<Rightarrow> addr \<Rightarrow> bool" where
  "copy_pre par m root \<longleftrightarrow>
     Is_block root \<and> copied par m root \<and> finite {b. reach m root b} \<and>
     (\<forall>b. reach m root b \<longrightarrow> block_ok m (ip_dest par) (region par) b) \<and>
     range_ok m (ip_dest par) (region par) \<and>
     unat (ip_dest par) + copy_bytes par m root < 2 ^ 64 \<and>
     \<not> ip_enable_cc par \<and> ip_color par AND 0x300 = ip_color par"

section \<open>Header words\<close>

lemma unat_Wosize: "unat (Wosize_hd h) < 2 ^ 54"
proof -
  have "unat h < 2 ^ 64" by (rule unat_u64_bound)
  then show ?thesis by (simp add: Wosize_hd_def drop_bit_eq_div unat_div less_mult_imp_div_less)
qed

lemma unat_Bhsize: "unat (Bhsize_hd h) = 8 * (unat (Wosize_hd h) + 1)"
  using unat_Wosize [of h] by (simp add: Bhsize_hd_def unat_word_ariths)

lemma bsz_Bhsize: "unat (Bhsize_hd (hdr_of m b)) = bsz m b"
  by (simp add: unat_Bhsize bsz_def wsz_def)

lemma Bhsize_of_nat: "Bhsize_hd (hdr_of m b) = of_nat (bsz m b)"
  by (simp flip: bsz_Bhsize)

lemma bsz_pos: "8 \<le> bsz m b" by (simp add: bsz_def)

lemma mask_bits: "(0xff :: u64) = mask 8" "(0x300 :: u64) = push_bit 8 (mask 2)"
  by (simp_all add: mask_eq_exp_minus_1 push_bit_eq_mult)

lemma recolor_tag:
  assumes "c AND 0x300 = c"
  shows "Tag_hd (Whitehd_hd h OR c) = Tag_hd h" "Wosize_hd (Whitehd_hd h OR c) = Wosize_hd h"
proof -
  have c: "8 \<le> n \<and> n < 10" if "bit c n" for n
  proof -
    have "bit (c AND push_bit 8 (mask 2)) n" using assms that by (simp only: mask_bits)
    then show ?thesis by (simp add: bit_and_iff bit_push_bit_iff bit_mask_iff) linarith
  qed
  show "Tag_hd (Whitehd_hd h OR c) = Tag_hd h"
    unfolding Tag_hd_def Whitehd_hd_def mask_bits
    by (rule bit_word_eqI) (auto simp: bit_and_iff bit_or_iff bit_not_iff bit_mask_iff bit_push_bit_iff dest: c)
  show "Wosize_hd (Whitehd_hd h OR c) = Wosize_hd h"
    unfolding Wosize_hd_def Whitehd_hd_def mask_bits
    by (rule bit_word_eqI) (auto simp: bit_and_iff bit_or_iff bit_not_iff bit_mask_iff bit_push_bit_iff bit_drop_bit_eq dest: c bit_imp_le_length)
qed

section \<open>Accesses to a block\<close>

lemma unat_minus_8: "8 \<le> unat b \<Longrightarrow> unat (b - 8 :: u64) = unat b - 8"
  by (simp add: unat_sub word_le_nat_alt)

lemma eight_of_nat: "8 * of_nat i = (of_nat (8 * i) :: u64)"
  by simp

lemma block_field_range:
  assumes "8 \<le> unat b" "range_ok m (b - 8) (bsz m b)" "i < wsz m b"
  shows "range_ok m (b + 8 * of_nat i) 8" "unat (b + 8 * of_nat i) = unat b + 8 * i"
proof -
  have "unat b + 8 * i < 2 ^ 64"
    using assms by (simp add: range_ok_def bsz_def unat_minus_8)
  then show u: "unat (b + 8 * of_nat i) = unat b + 8 * i"
    unfolding eight_of_nat by (rule unat_add_of_nat)
  show "range_ok m (b + 8 * of_nat i) 8"
    using assms u by (intro range_ok_sub [OF assms(2)]) (simp_all add: unat_minus_8 bsz_def)
qed

text \<open>A memory that differs from \<open>m\<close> inside the destination region only.\<close>

definition mem_rel :: "bytes \<Rightarrow> bytes \<Rightarrow> addr \<Rightarrow> nat \<Rightarrow> bool" where
  "mem_rel m m' d n \<longleftrightarrow> same_domain m m' \<and> agrees_outside m m' d n"

lemma mem_rel_mono: "mem_rel m m' d n \<Longrightarrow> n \<le> k \<Longrightarrow> mem_rel m m' d k"
  by (auto simp: mem_rel_def agrees_outside_def in_range_def)

lemma mem_rel_range: "mem_rel m m' d n \<Longrightarrow> range_ok m a k \<Longrightarrow> range_ok m' a k"
  by (auto simp: mem_rel_def range_ok_def same_domain_def)

lemma mem_rel_trans:
  "mem_rel m m' d n \<Longrightarrow> mem_rel m' m'' e k \<Longrightarrow> unat d \<le> unat e \<Longrightarrow> unat e + k \<le> unat d + l \<Longrightarrow> n \<le> l \<Longrightarrow>
   mem_rel m m'' d l"
  by (auto simp: mem_rel_def agrees_outside_def in_range_def intro: same_domain_trans)

lemma block_reads:
  assumes "block_ok m d n b" "mem_rel m m' d k" "k \<le> n"
  shows "load64 m' (b - 8) = Some (hdr_of m b)"
    and "i < wsz m b \<Longrightarrow> field m' b i = field m b i \<and> field m b i \<noteq> None"
    and "range_ok m' (b - 8) (bsz m b)"
proof -
  have b: "8 \<le> unat b" "range_ok m (b - 8) (bsz m b)" "range_disjoint d n (b - 8) (bsz m b)"
    using assms(1) by (simp_all add: block_ok_def)
  have ag: "agrees_outside m m' d n" "same_domain m m'"
    using assms(2,3) mem_rel_mono by (auto simp: mem_rel_def)
  have h: "range_ok m (b - 8) 8" by (rule range_ok_sub [OF b(2)]) (simp_all add: bsz_def)
  have "load64 m' (b - 8) = load64 m (b - 8)"
    using b h by (intro load64_agrees [OF ag(1)]) (auto simp: range_disjoint_def bsz_def range_ok_def)
  then show "load64 m' (b - 8) = Some (hdr_of m b)" using load64_ok [OF h] by (auto simp: hdr_of_def)
  show "range_ok m' (b - 8) (bsz m b)" using b(2) ag(2) by (simp add: range_ok_same)
  assume i: "i < wsz m b"
  note f = block_field_range [OF b(1,2) i]
  have "load64 m' (b + 8 * of_nat i) = load64 m (b + 8 * of_nat i)"
    using b i f by (intro load64_agrees [OF ag(1)]) (auto simp: range_disjoint_def bsz_def range_ok_def unat_minus_8)
  then show "field m' b i = field m b i \<and> field m b i \<noteq> None"
    using load64_ok [OF f(1)] by (auto simp: field_def)
qed

section \<open>Copying one block\<close>

text \<open>The copy at \<open>a\<close> of the block \<open>b\<close>, with the fields mapped by \<open>f\<close>.\<close>

definition copy_of :: "iv_par \<Rightarrow> bytes \<Rightarrow> bytes \<Rightarrow> (u64 \<Rightarrow> u64) \<Rightarrow> addr \<Rightarrow> addr \<Rightarrow> bool" where
  "copy_of par m m' f b a \<longleftrightarrow>
     load64 m' (a - 8) = Some (Whitehd_hd (hdr_of m b) OR ip_color par) \<and>
     (\<forall>i < wsz m b. field m' a i = map_option f (field m b i))"

lemma copy_block_full:
  assumes "block_ok m d n b" "mem_rel m (iv_mem s) d k" "k \<le> n" "\<not> ip_simulation par"
    and "iv_cur s + of_nat (bsz m b) > ip_dest_end par"
  shows "\<exists>s'. copy_block par b s = Some (Inr (-4), 0, s')"
  using block_reads(1) [OF assms(1-3)] assms(4,5)
  by (simp add: copy_block_def Let_def Bhsize_of_nat)

lemma copy_block_sim:
  assumes "block_ok m d n b" "mem_rel m (iv_mem s) d k" "k \<le> n" "ip_simulation par"
  shows "copy_block par b s = Some (Inr 0, b, s\<lparr>iv_cur := iv_cur s + of_nat (bsz m b)\<rparr>)"
  using block_reads(1) [OF assms(1-3)] assms(4)
  by (simp add: copy_block_def Let_def Bhsize_of_nat)

lemma copy_block_ok:
  assumes b: "block_ok m d n b" and mr: "mem_rel m (iv_mem s) d k" "k \<le> n" and sim: "\<not> ip_simulation par"
    and cur: "unat (iv_cur s) = unat d + k" "k + bsz m b \<le> n" "unat d + n \<le> unat (ip_dest_end par)"
    and d: "range_ok m d n"
  shows "\<exists>m'. copy_block par b s = Some (Inr 0, iv_cur s + 8,
      s\<lparr>iv_cur := iv_cur s + of_nat (bsz m b), iv_mem := m'\<rparr>) \<and>
    mem_rel (iv_mem s) m' (iv_cur s) (bsz m b) \<and> copy_of par m m' (\<lambda>x. x) b (iv_cur s + 8)"
proof -
  let ?c = "iv_cur s" and ?n = "bsz m b" and ?h = "hdr_of m b"
  have r: "range_ok (iv_mem s) ?c ?n"
    using d cur mr(1) by (auto simp: mem_rel_def range_ok_same [symmetric] intro: range_ok_sub)
  have b8: "8 \<le> unat b" "range_disjoint d n (b - 8) ?n" using b by (simp_all add: block_ok_def)
  have dis: "range_disjoint ?c ?n (b - 8) ?n" using b8 cur by (auto simp: range_disjoint_def)
  obtain m1 where m1: "memcpy (iv_mem s) ?c (b - 8) (Bhsize_hd ?h) = Some m1"
      "same_domain (iv_mem s) m1" "agrees_outside (iv_mem s) m1 ?c ?n"
      "\<forall>i k. i + k \<le> ?n \<longrightarrow> mread m1 (?c + of_nat i) k = mread (iv_mem s) (b - 8 + of_nat i) k"
    using memcpy_ok [of "iv_mem s" "b - 8" "Bhsize_hd ?h" ?c] block_reads(3) [OF b mr] r dis
    by (auto simp: bsz_Bhsize)
  have h1: "load64 m1 ?c = Some ?h"
    using memcpy_load64 [OF m1(4), of 0] block_reads(1) [OF b mr] bsz_pos [of m b] by simp
  have r1: "range_ok m1 ?c ?n" using r m1(2) by (simp add: range_ok_same)
  then have "range_ok m1 ?c 8" by (rule range_ok_sub) (simp_all add: bsz_def)
  then obtain m2 where m2: "store64 m1 ?c (Whitehd_hd ?h OR ip_color par) = Some m2" "same_domain m1 m2"
      "agrees_outside m1 m2 ?c 8" "load64 m2 ?c = Some (Whitehd_hd ?h OR ip_color par)"
    using store64_ok by blast
  have "\<not> ip_dest_end par < ?c + of_nat ?n"
  proof -
    have "unat (?c + of_nat ?n) = unat ?c + ?n"
      using cur unat_u64_bound [of "ip_dest_end par"] by (intro unat_add_of_nat) simp
    then show ?thesis using cur by (simp add: word_less_nat_alt)
  qed
  then have eq: "copy_block par b s = Some (Inr 0, ?c + 8, s\<lparr>iv_cur := ?c + of_nat ?n, iv_mem := m2\<rparr>)"
    using block_reads(1) [OF b mr] sim m1(1) m2(1) h1 by (simp add: copy_block_def Let_def Bhsize_of_nat)
  have rel: "mem_rel (iv_mem s) m2 ?c ?n"
    using m1(2,3) m2(2,3) bsz_pos [of m b]
    by (auto simp: mem_rel_def agrees_outside_def in_range_def intro: same_domain_trans)
  have "field m2 (?c + 8) i = field m b i" if i: "i < wsz m b" for i
  proof -
    have e: "?c + 8 + 8 * of_nat i = ?c + of_nat (8 + 8 * i)" "b + 8 * of_nat i = b - 8 + of_nat (8 + 8 * i)"
      by simp_all
    have u: "unat (?c + of_nat (8 + 8 * i)) = unat ?c + (8 + 8 * i)"
      using r i by (intro unat_add_of_nat) (simp add: range_ok_def bsz_def)
    have "field m2 (?c + 8) i = load64 m1 (?c + of_nat (8 + 8 * i))"
      unfolding field_def e using r i u
      by (intro load64_agrees [OF m2(3)]) (auto simp: range_disjoint_def range_ok_def bsz_def simp del: of_nat_add)
    also have "\<dots> = load64 (iv_mem s) (b - 8 + of_nat (8 + 8 * i))"
      using i by (intro memcpy_load64 [OF m1(4)]) (simp add: bsz_def)
    also have "\<dots> = field (iv_mem s) b i" by (simp only: field_def e)
    finally show ?thesis using block_reads(2) [OF b mr i] by simp
  qed
  then have "copy_of par m m2 (\<lambda>x. x) b (?c + 8)"
    using m2(4) by (auto simp: copy_of_def option.map_ident)
  then show ?thesis using eq rel by blast
qed

section \<open>Scanning the fields\<close>

lemma scan_fields_ok:
  assumes "nq_inv (iv_queue s)" "nq_room (iv_queue s) (r + k)" "\<not> ip_enable_cc par"
    and "\<forall>j. i \<le> j \<and> j < i + r \<longrightarrow> field (iv_mem s) b j = Some (fl j)"
  shows "\<exists>c q. scan_fields env par b r i s = Some (c, s\<lparr>iv_queue := q\<rparr>) \<and>
    (c = Inr 0 \<and> nq_inv q \<and> nq_items q = nq_items (iv_queue s) @ filter Is_block (map fl [i..<i + r]) \<and>
       nq_room q k \<or>
     c = Inr (-1) \<and> (\<exists>n. ie_malloc_queue env n = None))"
  using assms
proof (induction r arbitrary: i s)
  case 0
  have "s = s\<lparr>iv_queue := iv_queue s\<rparr>" by simp
  with 0 show ?case by (intro exI [of _ "Inr 0"] exI [of _ "iv_queue s"]) simp
next
  case (Suc r)
  have f: "load64 (iv_mem s) (b + 8 * of_nat i) = Some (fl i)" using Suc.prems(4) by (simp add: field_def)
  let ?fs = "filter Is_block (map fl [Suc i..<Suc i + r])"
  have "[i..<i + Suc r] = i # [Suc i..<Suc i + r]" by (simp add: upt_conv_Cons)
  then have up: "filter Is_block (map fl [i..<i + Suc r]) = (if Is_block (fl i) then fl i # ?fs else ?fs)" by simp
  show ?case
  proof (cases "Is_block (fl i)")
    case False
    have "nq_room (iv_queue s) (r + k)" using Suc.prems(2) by (simp add: nq_room_def)
    moreover have "scan_fields env par b (Suc r) i s = scan_fields env par b r (Suc i) s" using f False by simp
    ultimately show ?thesis unfolding up using Suc.IH [of s "Suc i"] Suc.prems False by simp
  next
    case True
    obtain c q where q: "netsys_queue_add (ie_malloc_queue env) (iv_queue s) (fl i) = Some (c, q)" "nq_inv q"
        "nq_room q (r + k)"
        "c = 0 \<and> nq_items q = nq_items (iv_queue s) @ [fl i] \<or> c = -1 \<and> (\<exists>n. ie_malloc_queue env n = None)"
      using queue_add_ok [of "iv_queue s" "r + k" "ie_malloc_queue env" "fl i"] Suc.prems(1,2) by auto
    show ?thesis
    proof (cases "c = 0")
      case c: True
      have it: "nq_items q = nq_items (iv_queue s) @ [fl i]" using q(4) c by simp
      have "scan_fields env par b (Suc r) i s = scan_fields env par b r (Suc i) (s\<lparr>iv_queue := q\<rparr>)"
        using f True Suc.prems(3) q(1) c by (simp add: iv_seq_def iv_queue_add_def)
      moreover have "s\<lparr>iv_queue := q, iv_queue := q'\<rparr> = s\<lparr>iv_queue := q'\<rparr>" for q' by simp
      ultimately show ?thesis
        unfolding up using Suc.IH [of "s\<lparr>iv_queue := q\<rparr>" "Suc i"] Suc.prems q(2,3) it True by simp
    next
      case False
      then show ?thesis using f True Suc.prems(3) q by (auto simp: iv_seq_def iv_queue_add_def)
    qed
  qed
qed

section \<open>Where the copies are placed\<close>

definition tot :: "bytes \<Rightarrow> addr list \<Rightarrow> nat" where
  "tot m L = sum_list (map (bsz m) L)"

definition place :: "addr \<Rightarrow> bytes \<Rightarrow> addr list \<Rightarrow> addr \<Rightarrow> addr" where
  "place d m L b = d + 8 + of_nat (tot m (takeWhile (\<lambda>x. x \<noteq> b) L))"

definition copy_map :: "iv_par \<Rightarrow> bytes \<Rightarrow> addr list \<Rightarrow> addr \<rightharpoonup> addr" where
  "copy_map par m L b =
     (if b \<in> set L then Some (if ip_simulation par then b else place (ip_dest par) m L b) else None)"

lemma tot_append [simp]: "tot m (xs @ ys) = tot m xs + tot m ys" by (simp add: tot_def)
lemma tot_Cons [simp]: "tot m (x # xs) = bsz m x + tot m xs" by (simp add: tot_def)
lemma tot_Nil [simp]: "tot m [] = 0" by (simp add: tot_def)

lemma takeWhile_first [simp]: "b \<notin> set xs \<Longrightarrow> takeWhile (\<lambda>x. x \<noteq> b) (xs @ b # ys) = xs"
  by (induction xs) auto

lemma place_old: "b \<in> set L \<Longrightarrow> place d m (L @ L') b = place d m L b"
  by (simp add: place_def)

lemma place_new: "b \<notin> set L \<Longrightarrow> place d m (L @ b # L') b = d + 8 + of_nat (tot m L)"
  by (simp add: place_def)

lemma place_bound:
  assumes "b \<in> set L"
  shows "tot m (takeWhile (\<lambda>x. x \<noteq> b) L) + bsz m b \<le> tot m L"
proof -
  obtain xs ys where l: "L = xs @ b # ys" "b \<notin> set xs" using assms split_list_first by fastforce
  then have "takeWhile (\<lambda>x. x \<noteq> b) L = xs" by simp
  then show ?thesis using l by simp
qed

lemma copy_map_snoc:
  "b \<notin> set L \<Longrightarrow> copy_map par m (L @ [b]) =
     (copy_map par m L)(b \<mapsto> if ip_simulation par then b else ip_dest par + 8 + of_nat (tot m L))"
  by (auto simp: copy_map_def place_old place_new fun_eq_iff)

lemma tot_le_copy_bytes:
  assumes "distinct L" "set L \<subseteq> copied_blocks par m root" "finite {b. reach m root b}"
  shows "tot m L \<le> copy_bytes par m root"
proof -
  have "tot m L = (\<Sum>b \<in> set L. bsz m b)" using assms(1) by (simp add: tot_def sum_list_distinct_conv_sum_set)
  also have "\<dots> \<le> copy_bytes par m root"
    unfolding copy_bytes_def using assms(2,3)
    by (intro sum_mono2) (auto simp: copied_blocks_def)
  finally show ?thesis .
qed

lemma copy_of_kept:
  assumes "copy_of par m m' f b a" "agrees_outside m' m'' c n" "8 \<le> unat a"
    "range_disjoint c n (a - 8) (bsz m b)" "unat a + 8 * wsz m b \<le> 2 ^ 64"
  shows "copy_of par m m'' f b a"
proof -
  have "field m'' a i = field m' a i" if "i < wsz m b" for i
  proof -
    have "unat (a + of_nat (8 * i)) = unat a + 8 * i" using that assms(5) by (intro unat_add_of_nat) simp
    then show ?thesis
      unfolding field_def eight_of_nat using that assms(3-5)
      by (intro load64_agrees [OF assms(2)]) (auto simp: range_disjoint_def bsz_def unat_minus_8 simp del: of_nat_mult)
  qed
  moreover have "load64 m'' (a - 8) = load64 m' (a - 8)"
    using assms(3-5) by (intro load64_agrees [OF assms(2)]) (auto simp: range_disjoint_def bsz_def unat_minus_8)
  ultimately show ?thesis using assms(1) by (simp add: copy_of_def)
qed

lemma Tag_opaque:
  assumes "\<not> Tag_hd h < No_scan_tag"
  shows "Tag_hd h \<in> {Abstract_tag, String_tag, Double_tag, Double_array_tag, Custom_tag}"
proof -
  have "Tag_hd h \<le> 255" unfolding Tag_hd_def by (rule word_and_le1)
  then have "unat (Tag_hd h) \<le> 255" "251 \<le> unat (Tag_hd h)"
    using assms by (simp_all add: word_le_nat_alt word_less_nat_alt)
  then have "unat (Tag_hd h) \<in> {251, 252, 253, 254, 255}" by auto
  then show ?thesis by (auto simp: word_unat_eq_iff)
qed

section \<open>Invariant of the first pass\<close>

definition pass1_core :: "iv_par \<Rightarrow> bytes \<Rightarrow> addr \<Rightarrow> addr list \<Rightarrow> ivs \<Rightarrow> bool" where
  "pass1_core par m root L s \<longleftrightarrow>
     distinct L \<and> set L \<subseteq> copied_blocks par m root \<and> (\<forall>b \<in> set L. \<not> unsupported par m b) \<and>
     iv_cur s = ip_dest par + of_nat (tot m L) \<and>
     mem_rel m (iv_mem s) (ip_dest par) (if ip_simulation par then 0 else tot m L) \<and>
     (\<not> ip_simulation par \<longrightarrow> unat (ip_dest par) + region par = unat (ip_dest_end par) \<and> tot m L \<le> region par \<and>
        (\<forall>b \<in> set L. copy_of par m (iv_mem s) (\<lambda>x. x) b (place (ip_dest par) m L b))) \<and>
     ht_inv (iv_tab s) \<and> ht_map (iv_tab s) = copy_map par m L \<and>
     ht_room (iv_tab s) (card ({b. reach m root b} - set L))"

lemma card_remove_more:
  "finite A \<Longrightarrow> b \<in> A \<Longrightarrow> b \<notin> set L \<Longrightarrow> card (A - set L) = Suc (card (A - set (L @ [b])))"
proof -
  assume a: "finite A" "b \<in> A" "b \<notin> set L"
  have e: "A - set (L @ [b]) = A - set L - {b}" by auto
  show ?thesis unfolding e using a by (intro card.remove) auto
qed

lemma place_unat:
  assumes "pass1_core par m root L s" "b \<in> set L" "\<not> ip_simulation par"
  shows "unat (place (ip_dest par) m L b) = unat (ip_dest par) + 8 + tot m (takeWhile (\<lambda>x. x \<noteq> b) L)"
proof -
  have "unat (ip_dest par) + tot m L \<le> unat (ip_dest_end par)" using assms by (simp add: pass1_core_def)
  then have "unat (ip_dest par) + (8 + tot m (takeWhile (\<lambda>x. x \<noteq> b) L)) < 2 ^ 64"
    using place_bound [OF assms(2), of m] bsz_pos [of m b] unat_u64_bound [of "ip_dest_end par"] by simp
  then have "unat (ip_dest par + of_nat (8 + tot m (takeWhile (\<lambda>x. x \<noteq> b) L))) =
    unat (ip_dest par) + (8 + tot m (takeWhile (\<lambda>x. x \<noteq> b) L))" by (rule unat_add_of_nat)
  then show ?thesis by (simp add: place_def add.assoc)
qed

text \<open>The copies made so far survive when the next block is put behind them.\<close>

lemma copies_kept:
  assumes core: "pass1_core par m root L s" and "\<not> ip_simulation par" "b \<in> set L"
    and ag: "agrees_outside (iv_mem s) m' (iv_cur s) n"
  shows "copy_of par m m' (\<lambda>x. x) b (place (ip_dest par) m L b)"
proof (rule copy_of_kept [OF _ ag])
  let ?d = "ip_dest par" and ?a = "place (ip_dest par) m L b"
  have c: "unat ?d + tot m L \<le> unat (ip_dest_end par)" "iv_cur s = ?d + of_nat (tot m L)"
    using core assms(2) by (simp_all add: pass1_core_def)
  have u: "unat (iv_cur s) = unat ?d + tot m L"
    unfolding c(2) using c(1) unat_u64_bound [of "ip_dest_end par"] by (intro unat_add_of_nat) simp
  note p = place_unat [OF core assms(3,2)] and t = place_bound [OF assms(3), of m]
  show "copy_of par m (iv_mem s) (\<lambda>x. x) b ?a" using core assms(2,3) by (simp add: pass1_core_def)
  show "8 \<le> unat ?a" using p by simp
  then show "range_disjoint (iv_cur s) n (?a - 8) (bsz m b)"
    using u p t by (simp add: range_disjoint_def unat_minus_8)
  show "unat ?a + 8 * wsz m b \<le> 2 ^ 64"
    using p t c(1) unat_u64_bound [of "ip_dest_end par"] by (simp add: bsz_def)
qed

definition malloc_failed :: "iv_env \<Rightarrow> bool" where
  "malloc_failed env \<longleftrightarrow> (\<exists>n. ie_malloc_tab env n = None) \<or> (\<exists>n. ie_malloc_queue env n = None)"

lemma copy_preD:
  assumes "copy_pre par m root"
  shows "finite {b. reach m root b}" "reach m root b \<Longrightarrow> block_ok m (ip_dest par) (region par) b"
    "range_ok m (ip_dest par) (region par)" "unat (ip_dest par) + copy_bytes par m root < 2 ^ 64"
    "\<not> ip_enable_cc par" "ip_color par AND 0x300 = ip_color par" "copied par m root" "Is_block root"
  using assms by (auto simp: copy_pre_def)

lemma core_mem:
  assumes "pass1_core par m root L s"
  shows "mem_rel m (iv_mem s) (ip_dest par) (region par)"
  using assms mem_rel_mono by (fastforce simp: pass1_core_def)

text \<open>Copying the next block leads to the list with that block appended.\<close>

lemma core_copied:
  assumes pre: "copy_pre par m root" and core: "pass1_core par m root L s"
    and b: "reach m root b" "copied par m b" "\<not> unsupported par m b" "b \<notin> set L"
    and fits: "ip_simulation par \<or> tot m L + bsz m b \<le> region par"
  shows "\<exists>copy m'. copy_block par b s = Some (Inr 0, copy,
      s\<lparr>iv_cur := iv_cur s + of_nat (bsz m b), iv_mem := m'\<rparr>) \<and> copy \<noteq> NULL \<and>
    (ip_simulation par \<and> copy = b \<and> m' = iv_mem s \<or>
     \<not> ip_simulation par \<and> copy = ip_dest par + 8 + of_nat (tot m L) \<and>
       mem_rel (iv_mem s) m' (iv_cur s) (bsz m b) \<and> copy_of par m m' (\<lambda>x. x) b copy)"
proof -
  note bo = copy_preD(2) [OF pre b(1)]
  have mr: "mem_rel m (iv_mem s) (ip_dest par) (if ip_simulation par then 0 else tot m L)"
    using core by (simp add: pass1_core_def)
  show ?thesis
  proof (cases "ip_simulation par")
    case True
    have "b \<noteq> NULL" using bo by (auto simp: block_ok_def)
    moreover have "s\<lparr>iv_cur := iv_cur s + of_nat (bsz m b), iv_mem := iv_mem s\<rparr> =
      s\<lparr>iv_cur := iv_cur s + of_nat (bsz m b)\<rparr>" by simp
    ultimately show ?thesis
      using copy_block_sim [OF bo, of s 0 par] mr True
      by (intro exI [of _ b] exI [of _ "iv_mem s"]) simp
  next
    case False
    have c: "unat (ip_dest par) + region par = unat (ip_dest_end par)" "tot m L \<le> region par"
      "iv_cur s = ip_dest par + of_nat (tot m L)" using core False by (simp_all add: pass1_core_def)
    have u: "unat (iv_cur s) = unat (ip_dest par) + tot m L"
      unfolding c(3) using c(1,2) unat_u64_bound [of "ip_dest_end par"] by (intro unat_add_of_nat) simp
    obtain m' where m': "copy_block par b s = Some (Inr 0, iv_cur s + 8,
        s\<lparr>iv_cur := iv_cur s + of_nat (bsz m b), iv_mem := m'\<rparr>)"
        "mem_rel (iv_mem s) m' (iv_cur s) (bsz m b)" "copy_of par m m' (\<lambda>x. x) b (iv_cur s + 8)"
      using copy_block_ok [OF bo _ c(2) False u _ _ copy_preD(3) [OF pre]] mr False fits c(1) by auto
    have "unat (iv_cur s + of_nat 8) = unat (iv_cur s) + 8"
      using u fits False c(1) bsz_pos [of m b] unat_u64_bound [of "ip_dest_end par"] by (intro unat_add_of_nat) simp
    then have "iv_cur s + 8 \<noteq> NULL" by auto
    then show ?thesis using m' False
      by (intro exI [of _ "iv_cur s + 8"] exI [of _ m']) (simp add: c(3) add.commute add.left_commute)
  qed
qed

lemma core_no_space:
  assumes pre: "copy_pre par m root" and core: "pass1_core par m root L s"
    and b: "reach m root b" "copied par m b" "b \<notin> set L"
    and "\<not> ip_simulation par" "region par < tot m L + bsz m b"
  shows "(\<exists>s'. copy_block par b s = Some (Inr (-4), 0, s')) \<and> region par < copy_bytes par m root"
proof
  have L: "distinct L" "set L \<subseteq> copied_blocks par m root" using core by (simp_all add: pass1_core_def)
  have "tot m (L @ [b]) \<le> copy_bytes par m root"
    using L b copy_preD(1) [OF pre] by (intro tot_le_copy_bytes) (auto simp: copied_blocks_def)
  then have t: "tot m L + bsz m b \<le> copy_bytes par m root" by simp
  then show "region par < copy_bytes par m root" using assms(7) by simp
  have c: "unat (ip_dest par) + region par = unat (ip_dest_end par)" "tot m L \<le> region par"
    "iv_cur s = ip_dest par + of_nat (tot m L)" using core assms(6) by (simp_all add: pass1_core_def)
  have "unat (ip_dest par + of_nat (tot m L + bsz m b)) = unat (ip_dest par) + (tot m L + bsz m b)"
    using t copy_preD(4) [OF pre] by (intro unat_add_of_nat) simp
  then have "iv_cur s + of_nat (bsz m b) > ip_dest_end par"
    using c assms(7) by (simp add: word_less_nat_alt add.assoc)
  then show "\<exists>s'. copy_block par b s = Some (Inr (-4), 0, s')"
    using copy_block_full [OF copy_preD(2) [OF pre b(1)] core_mem [OF core]] assms(6) by blast
qed

lemma core_step:
  assumes pre: "copy_pre par m root" and core: "pass1_core par m root L s"
    and b: "reach m root b" "copied par m b" "\<not> unsupported par m b" "b \<notin> set L"
  shows "\<exists>c copy s1. copy_block par b s = Some (c, copy, s1) \<and>
    (c = Inr (-4) \<and> \<not> ip_simulation par \<and> region par < copy_bytes par m root \<or>
     c = Inr 0 \<and> (\<exists>c2 s2. iv_htab_add env b copy s1 = Some (c2, s2) \<and>
       (c2 = Inr (-1) \<and> malloc_failed env \<or>
        c2 = Inr 0 \<and> pass1_core par m root (L @ [b]) s2 \<and> iv_queue s2 = iv_queue s)))"
proof (cases "ip_simulation par \<or> tot m L + bsz m b \<le> region par")
  case False
  then show ?thesis using core_no_space [OF pre core b(1,2,4)] by auto
next
  case True
  obtain copy m' where cb: "copy_block par b s = Some (Inr 0, copy,
      s\<lparr>iv_cur := iv_cur s + of_nat (bsz m b), iv_mem := m'\<rparr>)" "copy \<noteq> NULL"
      "ip_simulation par \<and> copy = b \<and> m' = iv_mem s \<or>
       \<not> ip_simulation par \<and> copy = ip_dest par + 8 + of_nat (tot m L) \<and>
         mem_rel (iv_mem s) m' (iv_cur s) (bsz m b) \<and> copy_of par m m' (\<lambda>x. x) b copy"
    using core_copied [OF pre core b True] by blast
  let ?s1 = "s\<lparr>iv_cur := iv_cur s + of_nat (bsz m b), iv_mem := m'\<rparr>"
  have nb: "b \<noteq> NULL" using copy_preD(2) [OF pre b(1)] by (auto simp: block_ok_def)
  have core': "ht_inv (iv_tab s)" "ht_map (iv_tab s) = copy_map par m L"
    "ht_room (iv_tab s) (card ({b. reach m root b} - set L))"
    using core by (simp_all add: pass1_core_def)
  have card: "card ({b. reach m root b} - set L) = Suc (card ({b. reach m root b} - set (L @ [b])))"
    using b copy_preD(1) [OF pre] by (intro card_remove_more) simp_all
  obtain r t where rt: "netsys_htab_add (ie_malloc_tab env) (iv_tab s) b copy = Some (r, t)" "ht_inv t"
      "ht_room t (card ({b. reach m root b} - set (L @ [b])))"
      "r = 0 \<and> ht_map t = (ht_map (iv_tab s))(b \<mapsto> copy) \<or> r = -1 \<and> malloc_failed env"
    using add_ok [OF core'(1) core'(3) [unfolded card] nb cb(2), of "ie_malloc_tab env"] core'(2) b(4)
    by (auto simp: copy_map_def malloc_failed_def)
  have add: "iv_htab_add env b copy ?s1 = Some (Inr r, ?s1\<lparr>iv_tab := t\<rparr>)"
    using rt(1,4) by (auto simp: iv_htab_add_def)
  have "pass1_core par m root (L @ [b]) (?s1\<lparr>iv_tab := t\<rparr>)" if r0: "r = 0"
  proof (cases "ip_simulation par")
    case sim: True
    then show ?thesis
      using core rt r0 cb(3) b by (auto simp: pass1_core_def copied_blocks_def copy_map_snoc)
  next
    case nosim: False
    have m': "mem_rel (iv_mem s) m' (iv_cur s) (bsz m b)" "copy_of par m m' (\<lambda>x. x) b copy"
      "copy = ip_dest par + 8 + of_nat (tot m L)" using cb(3) nosim by auto
    have c: "unat (ip_dest par) + region par = unat (ip_dest_end par)" "tot m L \<le> region par"
      "iv_cur s = ip_dest par + of_nat (tot m L)" "mem_rel m (iv_mem s) (ip_dest par) (tot m L)"
      using core nosim by (simp_all add: pass1_core_def)
    have u: "unat (iv_cur s) = unat (ip_dest par) + tot m L"
      unfolding c(3) using c(1,2) unat_u64_bound [of "ip_dest_end par"] by (intro unat_add_of_nat) simp
    have "mem_rel m m' (ip_dest par) (tot m (L @ [b]))"
      using mem_rel_trans [OF c(4) m'(1)] u by simp
    moreover have "copy_of par m m' (\<lambda>x. x) x (place (ip_dest par) m (L @ [b]) x)" if "x \<in> set (L @ [b])" for x
      using that m' copies_kept [OF core nosim, of x m'] b(4)
      by (auto simp: place_old place_new mem_rel_def)
    moreover have "copy_map par m (L @ [b]) = (copy_map par m L)(b \<mapsto> copy)"
      using b(4) nosim m'(3) by (simp add: copy_map_snoc)
    ultimately show ?thesis
      using core rt r0 b nosim True by (simp add: pass1_core_def copied_blocks_def add.assoc)
  qed
  moreover have "iv_queue (?s1\<lparr>iv_tab := t\<rparr>) = iv_queue s" by simp
  ultimately show ?thesis using cb(1) add rt(4) by blast
qed

text \<open>
  The full invariant: \<open>P\<close> are blocks taken from the queue and not yet handled. Every pointer in a
  copied block leads to a copied block, to one that waits in the queue, or to an atom that stays.
\<close>

definition waiting :: "bytes \<Rightarrow> addr \<Rightarrow> addr list \<Rightarrow> nat" where
  "waiting m root L = (\<Sum>b \<in> {b. reach m root b} - set L. wsz m b)"

definition pass1_inv :: "iv_par \<Rightarrow> bytes \<Rightarrow> addr \<Rightarrow> addr set \<Rightarrow> addr list \<Rightarrow> ivs \<Rightarrow> bool" where
  "pass1_inv par m root P L s \<longleftrightarrow>
     pass1_core par m root L s \<and> nq_inv (iv_queue s) \<and> nq_room (iv_queue s) (waiting m root L) \<and>
     (let W = set (nq_items (iv_queue s)) \<union> P in
        (\<forall>b \<in> W. reach m root b) \<and> root \<in> set L \<union> W \<and> (L = [] \<longrightarrow> W \<subseteq> {root}) \<and>
        (\<forall>b \<in> set L. scanned m b \<longrightarrow> (\<forall>i < wsz m b. \<forall>f. field m b i = Some f \<and> Is_block f \<longrightarrow>
           f \<in> set L \<union> W \<or> \<not> copied par m f))) \<and>
     (L \<noteq> [] \<longrightarrow> hd L = root)"

definition copy_fails :: "iv_env \<Rightarrow> iv_par \<Rightarrow> bytes \<Rightarrow> addr \<Rightarrow> exn + int \<Rightarrow> bool" where
  "copy_fails env par m root c \<longleftrightarrow>
     c = Inr (-1) \<and> malloc_failed env \<or>
     c = Inr (-2) \<and> (\<exists>b. reach m root b \<and> unsupported par m b) \<or>
     c = Inr (-4) \<and> \<not> ip_simulation par \<and> region par < copy_bytes par m root"

definition work_left :: "bytes \<Rightarrow> addr \<Rightarrow> addr list \<Rightarrow> ivs \<Rightarrow> nat" where
  "work_left m root L s = waiting m root L + card ({b. reach m root b} - set L) + length (nq_items (iv_queue s))"

lemma waiting_snoc:
  assumes "finite {b. reach m root b}" "reach m root b" "b \<notin> set L"
  shows "waiting m root L = wsz m b + waiting m root (L @ [b])"
proof -
  have e: "{b. reach m root b} - set (L @ [b]) = {b. reach m root b} - set L - {b}" by auto
  show ?thesis unfolding waiting_def e using assms by (intro sum.remove) auto
qed

lemma body_skip:
  assumes "pass1_inv par m root {b} L s" "b \<in> set L \<or> \<not> copied par m b" "copied par m root"
  shows "pass1_inv par m root {} L s"
  using assms by (auto simp: pass1_inv_def Let_def)

text \<open>The body of the first pass on a block that is copied.\<close>

lemma opaque_copied:
  assumes "pass1_inv par m root {b} L s" "copy_pre par m root"
    and b: "reach m root b" "copied par m b" "\<not> unsupported par m b" "b \<notin> set L" "\<not> scanned m b"
  shows "\<exists>c s'. pass1_opaque env par ops b (hdr_of m b) s = Some (c, s') \<and>
    (copy_fails env par m root c \<or> c = Inr 0 \<and> pass1_core par m root (L @ [b]) s' \<and> iv_queue s' = iv_queue s)"
proof -
  have "Tag_hd (hdr_of m b) \<in> {String_tag, Double_tag, Double_array_tag}"
    using Tag_opaque [of "hdr_of m b"] b(3,5) copy_preD(2) [OF assms(2) b(1)]
    by (auto simp: scanned_def unsupported_def block_ok_def)
  then have oid: "opaque_id par (iv_mem s) b (Tag_hd (hdr_of m b)) = Some (Inr (True, 32))"
    by (auto simp: opaque_id_def)
  have core: "pass1_core par m root L s" using assms(1) by (simp add: pass1_inv_def)
  obtain c copy s1 where c: "copy_block par b s = Some (c, copy, s1)"
    "c = Inr (-4) \<and> \<not> ip_simulation par \<and> region par < copy_bytes par m root \<or>
     c = Inr 0 \<and> (\<exists>c2 s2. iv_htab_add env b copy s1 = Some (c2, s2) \<and>
       (c2 = Inr (-1) \<and> malloc_failed env \<or>
        c2 = Inr 0 \<and> pass1_core par m root (L @ [b]) s2 \<and> iv_queue s2 = iv_queue s))"
    using core_step [OF assms(2) core b(1-4), of env] by (elim exE conjE) (rule that)
  have "s1\<lparr>iv_mem := iv_mem s1\<rparr> = s1" by simp
  then show ?thesis using oid c by (auto simp: pass1_opaque_def iv_seq_def copy_fails_def)
qed

lemma scanned_copied:
  assumes inv: "pass1_inv par m root {b} L s" and pre: "copy_pre par m root"
    and b: "reach m root b" "copied par m b" "\<not> unsupported par m b" "b \<notin> set L" "scanned m b"
  shows "\<exists>c s'. pass1_scanned env par b (hdr_of m b) s = Some (c, s') \<and>
    (copy_fails env par m root c \<or> c = Inr 0 \<and> pass1_core par m root (L @ [b]) s' \<and>
       nq_inv (iv_queue s') \<and> nq_room (iv_queue s') (waiting m root (L @ [b])) \<and>
       nq_items (iv_queue s') = nq_items (iv_queue s) @
         filter Is_block (map (\<lambda>i. the (field m b i)) [0..<wsz m b]))"
proof -
  have core: "pass1_core par m root L s" and q: "nq_inv (iv_queue s)"
    "nq_room (iv_queue s) (wsz m b + waiting m root (L @ [b]))"
    using inv waiting_snoc [OF copy_preD(1) [OF pre] b(1,4)] by (simp_all add: pass1_inv_def)
  obtain c copy s1 where c: "copy_block par b s = Some (c, copy, s1)"
    "c = Inr (-4) \<and> \<not> ip_simulation par \<and> region par < copy_bytes par m root \<or>
     c = Inr 0 \<and> (\<exists>c2 s2. iv_htab_add env b copy s1 = Some (c2, s2) \<and>
       (c2 = Inr (-1) \<and> malloc_failed env \<or>
        c2 = Inr 0 \<and> pass1_core par m root (L @ [b]) s2 \<and> iv_queue s2 = iv_queue s))"
    using core_step [OF pre core b(1-4), of env] by (elim exE conjE) (rule that)
  have w0: "Wosize_hd (hdr_of m b) = 0 \<longleftrightarrow> wsz m b = 0" "unat (Wosize_hd (hdr_of m b)) = wsz m b"
    by (simp_all add: wsz_def unat_eq_0)
  have body: "pass1_scanned env par b (hdr_of m b) s =
      do { (code, copy, s1) \<leftarrow> copy_block par b s;
           if code \<noteq> Inr 0 then Some (code, s1)
           else iv_seq (iv_htab_add env b copy s1) (scan_fields env par b (unat (Wosize_hd (hdr_of m b))) 0) }"
    using b(2,3,5) w0(1)
    by (auto simp: pass1_scanned_def Let_def unsupported_def copied_def)
  show ?thesis
  proof (cases "c = Inr 0 \<and> (\<exists>s2. iv_htab_add env b copy s1 = Some (Inr 0, s2))")
    case False
    then show ?thesis using c by (auto simp: body iv_seq_def copy_fails_def)
  next
    case True
    then obtain s2 where s2: "iv_htab_add env b copy s1 = Some (Inr 0, s2)" "pass1_core par m root (L @ [b]) s2"
        "iv_queue s2 = iv_queue s" using c(2) by auto
    have "field (iv_mem s2) b j = Some (the (field m b j))" if "j < wsz m b" for j
      using block_reads(2) [OF copy_preD(2) [OF pre b(1)] core_mem [OF s2(2)] _ that] by auto
    then obtain c3 q' where c3: "scan_fields env par b (wsz m b) 0 s2 = Some (c3, s2\<lparr>iv_queue := q'\<rparr>)"
      "c3 = Inr 0 \<and> nq_inv q' \<and>
         nq_items q' = nq_items (iv_queue s) @ filter Is_block (map (\<lambda>i. the (field m b i)) [0..<wsz m b]) \<and>
         nq_room q' (waiting m root (L @ [b])) \<or>
       c3 = Inr (-1) \<and> (\<exists>n. ie_malloc_queue env n = None)"
      using scan_fields_ok [of s2 "wsz m b" "waiting m root (L @ [b])" par 0 b "\<lambda>i. the (field m b i)" env]
        q s2(3) copy_preD(5) [OF pre] by auto
    have "pass1_core par m root (L @ [b]) (s2\<lparr>iv_queue := q'\<rparr>)" using s2(2) by (simp add: pass1_core_def)
    then show ?thesis using c(1) True s2(1) c3 by (auto simp: body w0(2) iv_seq_def copy_fails_def malloc_failed_def)
  qed
qed

lemma work_left_snoc:
  assumes "finite {b. reach m root b}" "reach m root b" "b \<notin> set L"
    and "nq_items (iv_queue s') = nq_items (iv_queue s) @ xs" "length xs \<le> wsz m b"
  shows "work_left m root (L @ [b]) s' \<le> work_left m root L s"
  using waiting_snoc [OF assms(1-3)] card_remove_more [of "{b. reach m root b}" b L] assms
  by (simp add: work_left_def)

lemma inv_snoc:
  assumes inv: "pass1_inv par m root {b} L s" and b: "reach m root b" "copied par m b" "b \<notin> set L"
    and core: "pass1_core par m root (L @ [b]) s'" and q: "nq_inv (iv_queue s')"
      "nq_room (iv_queue s') (waiting m root (L @ [b]))"
    and it: "nq_items (iv_queue s') = nq_items (iv_queue s) @ xs"
    and new: "\<forall>x \<in> set xs. reach m root x"
      "scanned m b \<longrightarrow> (\<forall>i < wsz m b. \<forall>f. field m b i = Some f \<and> Is_block f \<longrightarrow> f \<in> set xs)"
  shows "pass1_inv par m root {} (L @ [b]) s'"
proof -
  have "L = [] \<Longrightarrow> b = root" using inv by (auto simp: pass1_inv_def Let_def)
  then have "hd (L @ [b]) = root" using inv by (cases L) (auto simp: pass1_inv_def)
  moreover have "root \<in> set (L @ [b]) \<union> set (nq_items (iv_queue s'))"
    "\<forall>x \<in> set (nq_items (iv_queue s')). reach m root x"
    using inv it new(1) by (auto simp: pass1_inv_def Let_def)
  moreover have "f \<in> set (L @ [b]) \<union> set (nq_items (iv_queue s')) \<or> \<not> copied par m f"
    if "x \<in> set (L @ [b])" "scanned m x" "i < wsz m x" "field m x i = Some f" "Is_block f" for x i f
  proof (cases "x = b")
    case True
    then show ?thesis using new(2) that it by auto
  next
    case False
    then have "x \<in> set L" using that by simp
    then have "f \<in> set L \<union> (set (nq_items (iv_queue s)) \<union> {b}) \<or> \<not> copied par m f"
      using inv that unfolding pass1_inv_def Let_def by blast
    then show ?thesis using it by auto
  qed
  ultimately show ?thesis using core q by (auto simp: pass1_inv_def Let_def)
qed

lemma body_copied:
  assumes inv: "pass1_inv par m root {b} L s" and pre: "copy_pre par m root"
    and b: "reach m root b" "copied par m b" "\<not> unsupported par m b" "b \<notin> set L"
  shows "\<exists>c s'. (if Tag_hd (hdr_of m b) < No_scan_tag then pass1_scanned env par b (hdr_of m b) s
                 else pass1_opaque env par ops b (hdr_of m b) s) = Some (c, s') \<and>
    (copy_fails env par m root c \<or>
     c = Inr 0 \<and> (\<exists>L'. pass1_inv par m root {} L' s' \<and> work_left m root L' s' \<le> work_left m root L s))"
proof (cases "scanned m b")
  case True
  let ?xs = "filter Is_block (map (\<lambda>i. the (field m b i)) [0..<wsz m b])"
  have mem: "mem_rel m (iv_mem s) (ip_dest par) (region par)" using inv by (auto simp: pass1_inv_def intro: core_mem)
  have fl: "\<exists>f. field m b i = Some f" if "i < wsz m b" for i
    using block_reads(2) [OF copy_preD(2) [OF pre b(1)] mem _ that] by auto
  then have new: "\<forall>x \<in> set ?xs. reach m root x" using reach_field [OF b(1) True] by fastforce
  have lx: "length ?xs \<le> wsz m b" using length_filter_le [of Is_block "map (\<lambda>i. the (field m b i)) [0..<wsz m b]"] by simp
  obtain c s' where c: "pass1_scanned env par b (hdr_of m b) s = Some (c, s')"
    "copy_fails env par m root c \<or> c = Inr 0 \<and> pass1_core par m root (L @ [b]) s' \<and>
       nq_inv (iv_queue s') \<and> nq_room (iv_queue s') (waiting m root (L @ [b])) \<and>
       nq_items (iv_queue s') = nq_items (iv_queue s) @ ?xs"
    using scanned_copied [OF inv pre b True, of env] by (elim exE conjE) (rule that)
  have "pass1_inv par m root {} (L @ [b]) s' \<and> work_left m root (L @ [b]) s' \<le> work_left m root L s"
    if "\<not> copy_fails env par m root c"
    using c(2) that new lx inv_snoc [OF inv b(1,2,4), of s' ?xs] work_left_snoc [OF copy_preD(1) [OF pre] b(1,4), of s' s ?xs]
    by force
  then show ?thesis using c True by (auto simp: scanned_def)
next
  case False
  obtain c s' where c: "pass1_opaque env par ops b (hdr_of m b) s = Some (c, s')"
    "copy_fails env par m root c \<or> c = Inr 0 \<and> pass1_core par m root (L @ [b]) s' \<and> iv_queue s' = iv_queue s"
    using opaque_copied [OF inv pre b False, of env ops] by (elim exE conjE) (rule that)
  have "nq_inv (iv_queue s)" "nq_room (iv_queue s) (waiting m root (L @ [b]))"
    using inv waiting_snoc [OF copy_preD(1) [OF pre] b(1,4)] by (simp_all add: pass1_inv_def nq_room_def)
  then have "pass1_inv par m root {} (L @ [b]) s' \<and> work_left m root (L @ [b]) s' \<le> work_left m root L s"
    if "\<not> copy_fails env par m root c"
    using c(2) that False inv_snoc [OF inv b(1,2,4), of s' "[]"] work_left_snoc [OF copy_preD(1) [OF pre] b(1,4), of s' s "[]"]
    by simp
  then show ?thesis using c False by (auto simp: scanned_def)
qed

lemma pass1_body_ok:
  assumes inv: "pass1_inv par m root {b} L s" and pre: "copy_pre par m root"
  shows "\<exists>c s'. pass1_body env par ops b s = Some (c, s') \<and>
    (copy_fails env par m root c \<or>
     c = Inr 0 \<and> (\<exists>L'. pass1_inv par m root {} L' s' \<and> work_left m root L' s' \<le> work_left m root L s))"
proof -
  have b: "reach m root b" and core: "pass1_core par m root L s" using inv by (simp_all add: pass1_inv_def Let_def)
  note bo = copy_preD(2) [OF pre b]
  have nb: "b \<noteq> NULL" using bo by (auto simp: block_ok_def)
  have ht: "ht_inv (iv_tab s)" "ht_map (iv_tab s) = copy_map par m L" using core by (simp_all add: pass1_core_def)
  have look: "netsys_htab_lookup (iv_tab s) b = Some (0, case copy_map par m L b of None \<Rightarrow> NULL | Some v \<Rightarrow> v)"
    using lookup_ok [OF ht(1) nb] ht(2) by simp
  have hdr: "load64 (iv_mem s) (b - 8) = Some (hdr_of m b)" by (rule block_reads(1) [OF bo core_mem [OF core]]) simp
  show ?thesis
  proof (cases "b \<in> set L")
    case True
    then obtain a where "copy_map par m L b = Some a" "a \<noteq> NULL"
      using ht ht_map_range [OF ht(1), of b] by (auto simp: copy_map_def)
    then have "pass1_body env par ops b s = Some (Inr 0, s)" using look by (simp add: pass1_body_def)
    then show ?thesis using body_skip [OF inv _ copy_preD(7) [OF pre]] True by blast
  next
    case False
    then have "copy_map par m L b = None" by (simp add: copy_map_def)
    then have eq: "pass1_body env par ops b s =
        (if Tag_hd (hdr_of m b) < No_scan_tag then pass1_scanned env par b (hdr_of m b) s
         else pass1_opaque env par ops b (hdr_of m b) s)"
      using look hdr by (simp add: pass1_body_def)
    have w0: "Wosize_hd (hdr_of m b) = 0 \<longleftrightarrow> wsz m b = 0" by (simp add: wsz_def unat_eq_0)
    consider "unsupported par m b" | "\<not> unsupported par m b" "\<not> copied par m b"
      | "\<not> unsupported par m b" "copied par m b" by blast
    then show ?thesis
    proof cases
      case 1
      then have "pass1_body env par ops b s = Some (Inr (-2), s)"
        unfolding eq
        by (auto simp: unsupported_def scanned_def pass1_scanned_def pass1_opaque_def opaque_id_def Let_def w0)
      then show ?thesis using 1 b by (auto simp: copy_fails_def)
    next
      case 2
      then have "pass1_body env par ops b s = Some (Inr 0, s)"
        unfolding eq by (auto simp: unsupported_def copied_def scanned_def pass1_scanned_def Let_def w0)
      then show ?thesis using body_skip [OF inv _ copy_preD(7) [OF pre]] 2 by blast
    next
      case 3
      then show ?thesis unfolding eq using body_copied [OF inv pre b _ _ False] by blast
    qed
  qed
qed

lemma pass1_loop_ok:
  assumes "pass1_inv par m root {} L s" "copy_pre par m root"
  shows "\<exists>c s'. pass1_loop env par ops s = Some (c, s') \<and>
    (copy_fails env par m root c \<or> c = Inr 0 \<and> (\<exists>L'. pass1_inv par m root {} L' s' \<and> nq_items (iv_queue s') = []))"
  using assms(1)
proof (induction "work_left m root L s" arbitrary: L s rule: less_induct)
  case less
  have q: "nq_inv (iv_queue s)" using less.prems by (simp add: pass1_inv_def)
  show ?case
  proof (cases "nq_items (iv_queue s)")
    case Nil
    then have "netsys_queue_take (iv_queue s) = Some (-3, NULL, iv_queue s)" using netsys_queue_take_empty [OF q] by simp
    moreover have "s\<lparr>iv_queue := iv_queue s\<rparr> = s" by simp
    ultimately have "pass1_loop env par ops s = Some (Inr 0, s)" by (simp add: pass1_loop.simps [of _ _ _ s] Let_def)
    then show ?thesis using less.prems Nil by blast
  next
    case (Cons b xs)
    obtain q' where q': "netsys_queue_take (iv_queue s) = Some (0, b, q')" "nq_inv q'" "nq_items q' = xs"
        "nq_table_size q' = nq_table_size (iv_queue s)"
      using netsys_queue_take_ok [OF q Cons] by blast
    let ?s = "s\<lparr>iv_queue := q'\<rparr>"
    have "pass1_core par m root L ?s" using less.prems by (simp add: pass1_inv_def pass1_core_def)
    then have inv: "pass1_inv par m root {b} L ?s"
      using less.prems Cons q' by (simp add: pass1_inv_def Let_def nq_room_def)
    have wl: "work_left m root L ?s < work_left m root L s" using q'(3) Cons by (simp add: work_left_def)
    obtain c s' where c: "pass1_body env par ops b ?s = Some (c, s')"
      "copy_fails env par m root c \<or>
       c = Inr 0 \<and> (\<exists>L'. pass1_inv par m root {} L' s' \<and> work_left m root L' s' \<le> work_left m root L ?s)"
      using pass1_body_ok [OF inv assms(2), of env ops] by (elim exE conjE) (rule that)
    have eq: "pass1_loop env par ops s = (if c = Inr 0 then pass1_loop env par ops s' else Some (c, s'))"
      using q'(1) c(1) by (simp add: pass1_loop.simps [of _ _ _ s] Let_def)
    show ?thesis
    proof (cases "copy_fails env par m root c")
      case True
      then show ?thesis using eq by (auto simp: copy_fails_def)
    next
      case False
      then obtain L' where "c = Inr 0" "pass1_inv par m root {} L' s'" "work_left m root L' s' < work_left m root L s"
        using c(2) wl by auto
      then show ?thesis using less.hyps [of L' s'] eq by simp
    qed
  qed
qed

section \<open>The second pass\<close>

definition redirect :: "(addr \<rightharpoonup> addr) \<Rightarrow> u64 \<Rightarrow> u64 \<Rightarrow> u64" where
  "redirect t delta f = (if Is_block f then case t f of None \<Rightarrow> f | Some a \<Rightarrow> a + delta else f)"

lemma field_kept:
  assumes "agrees_outside m m' (a + 8 * of_nat i) (8 * r)" "unat a + 8 * n \<le> 2 ^ 64" "i + r \<le> n" "0 < r"
    and "j < n" "j < i \<or> i + r \<le> j"
  shows "field m' a j = field m a j"
proof -
  have "unat (a + of_nat (8 * i)) = unat a + 8 * i" "unat (a + of_nat (8 * j)) = unat a + 8 * j"
    using assms(2-5) by (auto intro!: unat_add_of_nat simp del: of_nat_mult)
  then show ?thesis
    unfolding field_def using assms(2-6)
    by (intro load64_agrees [OF assms(1)]) (auto simp: range_disjoint_def)
qed

lemma fixup_one:
  assumes "ht_inv (iv_tab s)" "Is_block f \<longrightarrow> f \<noteq> NULL" "field (iv_mem s) a i = Some f"
    and "range_ok (iv_mem s) (a + 8 * of_nat i) 8"
  shows "\<exists>m'. fixup_fields delta a (Suc r) i s = fixup_fields delta a r (Suc i) (s\<lparr>iv_mem := m'\<rparr>) \<and>
    mem_rel (iv_mem s) m' (a + 8 * of_nat i) 8 \<and> field m' a i = Some (redirect (ht_map (iv_tab s)) delta f)"
proof -
  have same: "s\<lparr>iv_mem := iv_mem s\<rparr> = s" by simp
  have ld: "load64 (iv_mem s) (a + 8 * of_nat i) = Some f" using assms(3) by (simp add: field_def)
  have id: "mem_rel (iv_mem s) (iv_mem s) (a + 8 * of_nat i) 8" by (simp add: mem_rel_def agrees_outside_def)
  show ?thesis
  proof (cases "Is_block f")
    case False
    then show ?thesis using ld same id assms(3) by (intro exI [of _ "iv_mem s"]) (simp add: redirect_def)
  next
    case True
    note look = lookup_ok [OF assms(1), of f]
    show ?thesis
    proof (cases "ht_map (iv_tab s) f")
      case None
      then show ?thesis
        using True ld same id look assms(2,3) by (intro exI [of _ "iv_mem s"]) (simp add: redirect_def)
    next
      case (Some v)
      obtain m' where "store64 (iv_mem s) (a + 8 * of_nat i) (v + delta) = Some m'" "same_domain (iv_mem s) m'"
          "agrees_outside (iv_mem s) m' (a + 8 * of_nat i) 8" "load64 m' (a + 8 * of_nat i) = Some (v + delta)"
        using store64_ok [OF assms(4)] by blast
      then show ?thesis
        using True ld look assms(2) Some ht_map_range [OF assms(1) Some]
        by (intro exI [of _ m']) (simp add: redirect_def mem_rel_def field_def)
    qed
  qed
qed

lemma fixup_fields_ok:
  assumes "ht_inv (iv_tab s)" "range_ok (iv_mem s) a (8 * n)" "i + r = n"
    and "\<forall>j. i \<le> j \<and> j < n \<longrightarrow> field (iv_mem s) a j = Some (fl j) \<and> (Is_block (fl j) \<longrightarrow> fl j \<noteq> NULL)"
  shows "\<exists>m'. fixup_fields delta a r i s = Some (Inr 0, s\<lparr>iv_mem := m'\<rparr>) \<and>
    mem_rel (iv_mem s) m' (a + 8 * of_nat i) (8 * r) \<and>
    (\<forall>j. i \<le> j \<and> j < n \<longrightarrow> field m' a j = Some (redirect (ht_map (iv_tab s)) delta (fl j)))"
  using assms
proof (induction r arbitrary: i s)
  case 0
  have "s\<lparr>iv_mem := iv_mem s\<rparr> = s" by simp
  then show ?case using 0 by (intro exI [of _ "iv_mem s"]) (auto simp: mem_rel_def agrees_outside_def)
next
  case (Suc r)
  have bnd: "unat a + 8 * n \<le> 2 ^ 64" using Suc.prems(2) by (simp add: range_ok_def)
  have ui: "unat (a + 8 * of_nat i) = unat a + 8 * i"
    unfolding eight_of_nat using bnd Suc.prems(3) by (intro unat_add_of_nat) simp
  have "range_ok (iv_mem s) (a + 8 * of_nat i) 8"
    using Suc.prems(3) ui by (intro range_ok_sub [OF Suc.prems(2)]) simp_all
  then obtain m1 where m1: "fixup_fields delta a (Suc r) i s = fixup_fields delta a r (Suc i) (s\<lparr>iv_mem := m1\<rparr>)"
      "mem_rel (iv_mem s) m1 (a + 8 * of_nat i) 8" "field m1 a i = Some (redirect (ht_map (iv_tab s)) delta (fl i))"
    using fixup_one [OF Suc.prems(1), of "fl i" a i delta r] Suc.prems(3,4) by auto
  have old: "field m1 a j = field (iv_mem s) a j" if "Suc i \<le> j" "j < n" for j
    using field_kept [of "iv_mem s" m1 a i 1 n j] m1(2) bnd that by (simp add: mem_rel_def)
  have "range_ok m1 a (8 * n)" using mem_rel_range [OF m1(2) Suc.prems(2)] .
  then obtain m2 where m2: "fixup_fields delta a r (Suc i) (s\<lparr>iv_mem := m1\<rparr>) = Some (Inr 0, s\<lparr>iv_mem := m2\<rparr>)"
      "mem_rel m1 m2 (a + 8 * of_nat (Suc i)) (8 * r)"
      "\<forall>j. Suc i \<le> j \<and> j < n \<longrightarrow> field m2 a j = Some (redirect (ht_map (iv_tab s)) delta (fl j))"
    using Suc.IH [of "s\<lparr>iv_mem := m1\<rparr>" "Suc i"] Suc.prems old by auto
  have m2': "mem_rel m1 m2 (a + 8 * of_nat i) (8 * Suc r)"
  proof (cases "r = 0")
    case True
    then show ?thesis using m2(2) by (simp add: mem_rel_def agrees_outside_def in_range_def)
  next
    case False
    have "unat (a + 8 * of_nat (Suc i)) = unat a + 8 * Suc i"
      unfolding eight_of_nat using bnd Suc.prems(3) False by (intro unat_add_of_nat) simp
    then show ?thesis using m2(2) ui by (auto simp: mem_rel_def agrees_outside_def in_range_def)
  qed
  have rel: "mem_rel (iv_mem s) m2 (a + 8 * of_nat i) (8 * Suc r)"
    by (rule mem_rel_trans [OF m1(2) m2']) simp_all
  have "field m2 a i = field m1 a i"
  proof (cases "r = 0")
    case True
    then show ?thesis using m2(2) by (auto simp: mem_rel_def agrees_outside_def in_range_def field_def load64_def intro!: arg_cong [of _ _ "map_option le64_of"] mread_cong)
  next
    case False
    then show ?thesis using field_kept [of m1 m2 a "Suc i" r n i] m2(2) bnd Suc.prems(3) by (simp add: mem_rel_def)
  qed
  then have "\<forall>j. i \<le> j \<and> j < n \<longrightarrow> field m2 a j = Some (redirect (ht_map (iv_tab s)) delta (fl j))"
    using m1(3) m2(3) by (metis Suc_leI le_neq_implies_less)
  then show ?case unfolding m1(1) m2(1) using rel by (intro exI [of _ m2]) simp
qed

text \<open>The copies occupy disjoint parts of the region, in the order of the list.\<close>

lemma place_order:
  assumes "distinct (pre @ b # post)" "x \<in> set pre \<union> set post"
  shows "tot m (takeWhile (\<lambda>y. y \<noteq> x) (pre @ b # post)) + bsz m x \<le> tot m pre \<or>
    tot m pre + bsz m b \<le> tot m (takeWhile (\<lambda>y. y \<noteq> x) (pre @ b # post))"
proof (cases "x \<in> set pre")
  case True
  then show ?thesis using place_bound [OF True, of m] by simp
next
  case False
  then have "takeWhile (\<lambda>y. y \<noteq> x) (pre @ b # post) = pre @ b # takeWhile (\<lambda>y. y \<noteq> x) post"
    using assms by (subst takeWhile_append2) auto
  then show ?thesis by simp
qed

definition final_fields :: "bytes \<Rightarrow> (addr \<rightharpoonup> addr) \<Rightarrow> u64 \<Rightarrow> addr \<Rightarrow> u64 \<Rightarrow> u64" where
  "final_fields m t delta b = (if scanned m b then redirect t delta else (\<lambda>x. x))"

definition pass2_inv :: "iv_par \<Rightarrow> bytes \<Rightarrow> addr \<Rightarrow> u64 \<Rightarrow> addr list \<Rightarrow> addr list \<Rightarrow> ivs \<Rightarrow> bool" where
  "pass2_inv par m root delta pre post s \<longleftrightarrow>
     (let L = pre @ post; d = ip_dest par in
      distinct L \<and> set L \<subseteq> copied_blocks par m root \<and> (\<forall>b \<in> set L. \<not> unsupported par m b) \<and>
      iv_cur s = d + of_nat (tot m L) \<and> tot m L \<le> region par \<and> mem_rel m (iv_mem s) d (tot m L) \<and>
      ht_inv (iv_tab s) \<and>
      (\<forall>b \<in> set pre. copy_of par m (iv_mem s) (final_fields m (ht_map (iv_tab s)) delta b) b (place d m L b)) \<and>
      (\<forall>b \<in> set post. copy_of par m (iv_mem s) (\<lambda>x. x) b (place d m L b)))"

lemma copy_of_fields:
  assumes "copy_of par m m' (\<lambda>x. x) b a" "load64 m'' (a - 8) = load64 m' (a - 8)"
    and "\<And>i fl. i < wsz m b \<Longrightarrow> field m b i = Some fl \<Longrightarrow> field m'' a i = Some (f fl)"
    and "\<And>i. i < wsz m b \<Longrightarrow> field m b i \<noteq> None"
  shows "copy_of par m m'' f b a"
  using assms unfolding copy_of_def by (metis (no_types, lifting) not_None_eq option.simps(9))

lemma pass2_block:
  assumes pre: "copy_pre par m root" and inv: "pass2_inv par m root delta xs (b # ys) s"
    and d: "unat (ip_dest par) + region par < 2 ^ 64"
  shows "\<exists>m'. pass2_loop delta (ip_dest par + of_nat (tot m xs)) s =
      pass2_loop delta (ip_dest par + of_nat (tot m (xs @ [b]))) (s\<lparr>iv_mem := m'\<rparr>) \<and>
    mem_rel (iv_mem s) m' (ip_dest par + of_nat (tot m xs) + 8) (8 * wsz m b) \<and>
    copy_of par m m' (final_fields m (ht_map (iv_tab s)) delta b) b (ip_dest par + of_nat (tot m xs) + 8)"
proof -
  let ?d = "ip_dest par" and ?p = "ip_dest par + of_nat (tot m xs)" and ?a = "ip_dest par + of_nat (tot m xs) + 8"
  let ?h = "Whitehd_hd (hdr_of m b) OR ip_color par"
  have i: "b \<notin> set xs" "b \<in> copied_blocks par m root" "\<not> unsupported par m b"
    "iv_cur s = ?d + of_nat (tot m (xs @ b # ys))" "tot m (xs @ b # ys) \<le> region par"
    "mem_rel m (iv_mem s) ?d (tot m (xs @ b # ys))" "ht_inv (iv_tab s)"
    "copy_of par m (iv_mem s) (\<lambda>x. x) b (place ?d m (xs @ b # ys) b)"
    using inv by (auto simp: pass2_inv_def Let_def)
  have rb: "reach m root b" using i(2) by (simp add: copied_blocks_def)
  note bo = copy_preD(2) [OF pre rb]
  have "place ?d m (xs @ b # ys) b = ?a" using i(1) by (simp add: place_new)
  with i(8) have cp: "copy_of par m (iv_mem s) (\<lambda>x. x) b ?a" by simp
  have hdr: "load64 (iv_mem s) ?p = Some ?h" using cp by (simp add: copy_of_def)
  note tg = recolor_tag [OF copy_preD(6) [OF pre], of "hdr_of m b"]
  have u: "unat ?p = unat ?d + tot m xs" "unat (iv_cur s) = unat ?d + tot m (xs @ b # ys)"
    unfolding i(4) using d i(5) by (auto intro!: unat_add_of_nat simp del: of_nat_add)
  have "unat (?d + of_nat (tot m xs + 8)) = unat ?d + (tot m xs + 8)"
    using d i(5) bsz_pos [of m b] by (intro unat_add_of_nat) simp
  then have ua: "unat ?a = unat ?d + tot m xs + 8" by (simp add: add.assoc)
  have lt: "?p < iv_cur s" using u bsz_pos [of m b] by (simp add: word_less_nat_alt)
  have nxt: "?p + (Wosize_hd ?h + 1) * 8 = ?d + of_nat (tot m (xs @ [b]))"
    using Bhsize_of_nat [of m b] by (simp add: tg Bhsize_hd_def add.assoc)
  have fd: "field m b j \<noteq> None" if "j < wsz m b" for j
    using block_reads(2) [OF bo i(6,5) that] by simp
  show ?thesis
  proof (cases "scanned m b")
    case False
    then have "Tag_hd ?h \<noteq> Abstract_tag" "\<not> Tag_hd ?h < No_scan_tag"
      using i(3) by (simp_all add: tg unsupported_def scanned_def)
    then have "pass2_loop delta ?p s = pass2_loop delta (?d + of_nat (tot m (xs @ [b]))) (s\<lparr>iv_mem := iv_mem s\<rparr>)"
      using lt hdr nxt by (simp add: pass2_loop.simps [of _ ?p] add.assoc)
    then show ?thesis using False cp
      by (intro exI [of _ "iv_mem s"]) (simp add: final_fields_def mem_rel_def agrees_outside_def)
  next
    case True
    have r: "range_ok (iv_mem s) ?a (8 * wsz m b)"
    proof -
      have "range_ok (iv_mem s) ?d (region par)"
        using mem_rel_range [OF i(6) copy_preD(3) [OF pre]] .
      then show ?thesis by (rule range_ok_sub) (use ua i(5) in \<open>simp_all add: bsz_def\<close>)
    qed
    have "field (iv_mem s) ?a j = Some (the (field m b j)) \<and> (Is_block (the (field m b j)) \<longrightarrow> the (field m b j) \<noteq> NULL)"
      if j: "j < wsz m b" for j
    proof -
      obtain f where f: "field m b j = Some f" using fd [OF j] by blast
      have "Is_block f \<Longrightarrow> f \<noteq> NULL"
        using copy_preD(2) [OF pre reach_field [OF rb True j f]] by (auto simp: block_ok_def)
      then show ?thesis using f cp j by (simp add: copy_of_def)
    qed
    then obtain m' where m': "fixup_fields delta ?a (wsz m b) 0 s = Some (Inr 0, s\<lparr>iv_mem := m'\<rparr>)"
        "mem_rel (iv_mem s) m' ?a (8 * wsz m b)"
        "\<forall>j. j < wsz m b \<longrightarrow> field m' ?a j = Some (redirect (ht_map (iv_tab s)) delta (the (field m b j)))"
      using fixup_fields_ok [OF i(7) r, of 0 "wsz m b" "\<lambda>j. the (field m b j)" delta] by auto
    have "load64 m' (?a - 8) = load64 (iv_mem s) (?a - 8)"
      using m'(2) u ua d i(5) bsz_pos [of m b]
      by (intro load64_agrees [of "iv_mem s" m' ?a "8 * wsz m b"]) (auto simp: mem_rel_def range_disjoint_def)
    then have "copy_of par m m' (redirect (ht_map (iv_tab s)) delta) b ?a"
      using m'(3) fd by (intro copy_of_fields [OF cp]) auto
    moreover have "unat (Wosize_hd ?h) = wsz m b" "Tag_hd ?h < No_scan_tag"
      using True by (simp_all add: tg wsz_def scanned_def)
    then have "pass2_loop delta ?p s = pass2_loop delta (?d + of_nat (tot m (xs @ [b]))) (s\<lparr>iv_mem := m'\<rparr>)"
      using lt hdr nxt m'(1) by (simp add: pass2_loop.simps [of _ ?p] add.assoc)
    ultimately show ?thesis using m'(2) True by (auto simp: final_fields_def)
  qed
qed

lemma pass2_step:
  assumes inv: "pass2_inv par m root delta xs (b # ys) s" and d: "unat (ip_dest par) + region par < 2 ^ 64"
    and m': "mem_rel (iv_mem s) m' (ip_dest par + of_nat (tot m xs) + 8) (8 * wsz m b)"
      "copy_of par m m' (final_fields m (ht_map (iv_tab s)) delta b) b (ip_dest par + of_nat (tot m xs) + 8)"
  shows "pass2_inv par m root delta (xs @ [b]) ys (s\<lparr>iv_mem := m'\<rparr>)"
proof -
  let ?d = "ip_dest par" and ?a = "ip_dest par + of_nat (tot m xs) + 8" and ?L = "xs @ b # ys"
  have i: "distinct ?L" "tot m ?L \<le> region par" "mem_rel m (iv_mem s) ?d (tot m ?L)"
    using inv by (auto simp: pass2_inv_def Let_def)
  have "unat (?d + of_nat (tot m xs + 8)) = unat ?d + (tot m xs + 8)"
    using d i(2) bsz_pos [of m b] by (intro unat_add_of_nat) simp
  then have ua: "unat ?a = unat ?d + tot m xs + 8" by (simp add: add.assoc)
  have keep: "copy_of par m m' f x (place ?d m ?L x)"
    if x: "x \<in> set xs \<union> set ys" "copy_of par m (iv_mem s) f x (place ?d m ?L x)" for x f
  proof -
    let ?t = "tot m (takeWhile (\<lambda>y. y \<noteq> x) ?L)"
    have t: "?t + bsz m x \<le> tot m ?L" using x(1) by (intro place_bound) auto
    have "unat (?d + of_nat (8 + ?t)) = unat ?d + (8 + ?t)"
      using d i(2) t bsz_pos [of m x] by (intro unat_add_of_nat) simp
    then have up: "unat (place ?d m ?L x) = unat ?d + 8 + ?t" by (simp add: place_def add.assoc)
    show ?thesis
    proof (rule copy_of_kept [OF x(2)])
      show "agrees_outside (iv_mem s) m' ?a (8 * wsz m b)" using m'(1) by (simp add: mem_rel_def)
      show "8 \<le> unat (place ?d m ?L x)" using up by simp
      then show "range_disjoint ?a (8 * wsz m b) (place ?d m ?L x - 8) (bsz m x)"
        using place_order [OF i(1) x(1), of m] ua up by (auto simp: range_disjoint_def unat_minus_8 bsz_def [of m b])
      show "unat (place ?d m ?L x) + 8 * wsz m x \<le> 2 ^ 64"
        using up t i(2) d by (simp add: bsz_def [of m x])
    qed
  qed
  have "mem_rel m m' ?d (tot m ?L)"
    by (rule mem_rel_trans [OF i(3) m'(1)]) (use ua in \<open>simp_all add: bsz_def [of m b]\<close>)
  moreover have "place ?d m ?L b = ?a" using i(1) by (simp add: place_new)
  ultimately show ?thesis using inv m'(2) keep by (auto simp: pass2_inv_def Let_def)
qed

lemma pass2_loop_ok:
  assumes "copy_pre par m root" "unat (ip_dest par) + region par < 2 ^ 64"
    and "pass2_inv par m root delta xs ys s"
  shows "\<exists>m'. pass2_loop delta (ip_dest par + of_nat (tot m xs)) s = Some (Inr 0, s\<lparr>iv_mem := m'\<rparr>) \<and>
    pass2_inv par m root delta (xs @ ys) [] (s\<lparr>iv_mem := m'\<rparr>)"
  using assms(3)
proof (induction ys arbitrary: xs s)
  case Nil
  then have "iv_cur s = ip_dest par + of_nat (tot m xs)" by (simp add: pass2_inv_def Let_def)
  moreover have "s\<lparr>iv_mem := iv_mem s\<rparr> = s" by simp
  ultimately show ?case
    using Nil by (intro exI [of _ "iv_mem s"]) (simp add: pass2_loop.simps [of _ "ip_dest par + of_nat (tot m xs)"])
next
  case (Cons b ys)
  obtain m1 where m1: "pass2_loop delta (ip_dest par + of_nat (tot m xs)) s =
      pass2_loop delta (ip_dest par + of_nat (tot m (xs @ [b]))) (s\<lparr>iv_mem := m1\<rparr>)"
    "mem_rel (iv_mem s) m1 (ip_dest par + of_nat (tot m xs) + 8) (8 * wsz m b)"
    "copy_of par m m1 (final_fields m (ht_map (iv_tab s)) delta b) b (ip_dest par + of_nat (tot m xs) + 8)"
    using pass2_block [OF assms(1) Cons.prems assms(2)] by blast
  have "s\<lparr>iv_mem := m1, iv_mem := m2\<rparr> = s\<lparr>iv_mem := m2\<rparr>" for m2 by simp
  then show ?case
    using Cons.IH [OF pass2_step [OF Cons.prems assms(2) m1(2,3)]] unfolding m1(1) by simp
qed

section \<open>The whole function\<close>

text \<open>
  The memory \<open>m'\<close> has a copy of everything that is reachable from the root: every reachable block is
  represented by one copy (atoms may stay where they are), the copies are in the first \<open>len\<close> bytes of the
  destination and do not overlap, the first one is that of the root; the fields of a copy are those of the
  original with the pointers redirected, and nothing outside these \<open>len\<close> bytes is changed.
\<close>

definition value_copied :: "iv_par \<Rightarrow> bytes \<Rightarrow> addr \<Rightarrow> u64 \<Rightarrow> bytes \<Rightarrow> nat \<Rightarrow> bool" where
  "value_copied par m root delta m' len \<longleftrightarrow>
     (\<exists>\<phi>. dom \<phi> = copied_blocks par m root \<and> \<phi> root = Some (ip_dest par + 8) \<and>
        (\<forall>b a. \<phi> b = Some a \<longrightarrow> copy_of par m m' (final_fields m \<phi> delta b) b a \<and>
           unat (ip_dest par) + 8 \<le> unat a \<and> unat a - 8 + bsz m b \<le> unat (ip_dest par) + len) \<and>
        (\<forall>b a b' a'. \<phi> b = Some a \<and> \<phi> b' = Some a' \<and> b \<noteq> b' \<longrightarrow>
           range_disjoint (a - 8) (bsz m b) (a' - 8) (bsz m b'))) \<and>
     len = copy_bytes par m root \<and> mem_rel m m' (ip_dest par) len"

lemma pass1_complete:
  assumes inv: "pass1_inv par m root {} L s" "nq_items (iv_queue s) = []" and pre: "copy_pre par m root"
  shows "set L = copied_blocks par m root" "tot m L = copy_bytes par m root" "L \<noteq> [] \<and> hd L = root"
proof -
  have core: "pass1_core par m root L s" and rt: "root \<in> set L"
    and cl: "\<And>b i f. b \<in> set L \<Longrightarrow> scanned m b \<Longrightarrow> i < wsz m b \<Longrightarrow> field m b i = Some f \<Longrightarrow> Is_block f \<Longrightarrow>
      f \<in> set L \<or> \<not> copied par m f"
    using inv by (auto simp: pass1_inv_def)
  have all: "b \<in> set L \<or> \<not> copied par m b" if "reach m root b" for b
    using that
  proof induction
    case reach_root
    then show ?case using rt by simp
  next
    case (reach_field b i f)
    then have "copied par m b" by (simp add: copied_def)
    then show ?case using reach_field cl by blast
  qed
  then show s: "set L = copied_blocks par m root" using core by (auto simp: pass1_core_def copied_blocks_def)
  have "distinct L" using core by (simp add: pass1_core_def)
  then show "tot m L = copy_bytes par m root" by (simp add: tot_def copy_bytes_def sum_list_distinct_conv_sum_set flip: s)
  show "L \<noteq> [] \<and> hd L = root" using inv(1) rt by (auto simp: pass1_inv_def)
qed

lemma place_disjoint:
  assumes "distinct L" "b \<in> set L" "x \<in> set L" "x \<noteq> b" "unat d + tot m L < 2 ^ 64"
  shows "range_disjoint (place d m L b - 8) (bsz m b) (place d m L x - 8) (bsz m x)"
proof -
  have u: "unat (place d m L y - 8) = unat d + tot m (takeWhile (\<lambda>z. z \<noteq> y) L)" if "y \<in> set L" for y
  proof -
    have "place d m L y - 8 = d + of_nat (tot m (takeWhile (\<lambda>z. z \<noteq> y) L))" by (simp add: place_def)
    then show ?thesis using place_bound [OF that, of m] assms(5) by (simp add: unat_add_of_nat)
  qed
  obtain xs ys where L: "L = xs @ b # ys" using assms(2) split_list by fastforce
  have "x \<in> set xs \<union> set ys" using assms(3,4) L by auto
  then have "tot m (takeWhile (\<lambda>y. y \<noteq> x) L) + bsz m x \<le> tot m xs \<or>
      tot m xs + bsz m b \<le> tot m (takeWhile (\<lambda>y. y \<noteq> x) L)"
    unfolding L using place_order [of xs b ys x m] assms(1) L by blast
  moreover have "takeWhile (\<lambda>z. z \<noteq> b) L = xs" using L assms(1) by simp
  ultimately show ?thesis using u [OF assms(2)] u [OF assms(3)] by (auto simp: range_disjoint_def)
qed

lemma pass2_final:
  assumes inv: "pass2_inv par m root delta L [] s" and pre: "copy_pre par m root" and nosim: "\<not> ip_simulation par"
    and L: "set L = copied_blocks par m root" "tot m L = copy_bytes par m root" "L \<noteq> [] \<and> hd L = root"
    and t: "ht_map (iv_tab s) = copy_map par m L"
  shows "value_copied par m root delta (iv_mem s) (copy_bytes par m root)"
proof -
  let ?d = "ip_dest par"
  have i: "distinct L" "mem_rel m (iv_mem s) ?d (tot m L)"
    "\<And>b. b \<in> set L \<Longrightarrow> copy_of par m (iv_mem s) (final_fields m (copy_map par m L) delta b) b (place ?d m L b)"
    using inv t by (auto simp: pass2_inv_def Let_def)
  note bound = copy_preD(4) [OF pre, folded L(2)]
  have u: "unat (place ?d m L b) = unat ?d + 8 + tot m (takeWhile (\<lambda>x. x \<noteq> b) L)" if "b \<in> set L" for b
  proof -
    have "unat (?d + of_nat (8 + tot m (takeWhile (\<lambda>x. x \<noteq> b) L))) = unat ?d + (8 + tot m (takeWhile (\<lambda>x. x \<noteq> b) L))"
      using place_bound [OF that, of m] bound bsz_pos [of m b] by (intro unat_add_of_nat) simp
    then show ?thesis by (simp add: place_def add.assoc)
  qed
  have "copy_map par m L root = Some (?d + 8)"
    using L(3) nosim by (cases L) (auto simp: copy_map_def place_def)
  moreover have "dom (copy_map par m L) = copied_blocks par m root" using L(1) by (auto simp: copy_map_def dom_def)
  moreover have "copy_of par m (iv_mem s) (final_fields m (copy_map par m L) delta b) b a \<and>
      unat ?d + 8 \<le> unat a \<and> unat a - 8 + bsz m b \<le> unat ?d + tot m L" if "copy_map par m L b = Some a" for b a
    using that i(3) [of b] nosim u [of b] place_bound [of b L m] by (auto simp: copy_map_def split: if_splits)
  moreover have "range_disjoint (a - 8) (bsz m b) (a' - 8) (bsz m b')"
    if "copy_map par m L b = Some a" "copy_map par m L b' = Some a'" "b \<noteq> b'" for b a b' a'
    using that place_disjoint [OF i(1) _ _ _ bound, of b b'] nosim by (auto simp: copy_map_def split: if_splits)
  ultimately show ?thesis unfolding value_copied_def L(2) [symmetric]
    using i(2) by (intro conjI exI [of _ "copy_map par m L"]) auto
qed

text \<open>The first pass, started by the function.\<close>

lemma start_pass1:
  assumes pre: "copy_pre par m root" and dest: "ip_simulation par \<or> ip_dest par < ip_dest_end par"
    and t: "ht_inv t" "ht_map t = Map.empty" "ht_room t (card {b. reach m root b})"
    and q: "nq_inv q" "nq_items q = []" "nq_room q (Suc (\<Sum>b \<in> {b. reach m root b}. wsz m b))"
  defines "s0 \<equiv> \<lparr>iv_mem = m, iv_tab = t, iv_queue = q, iv_cur = ip_dest par\<rparr>"
  shows "\<exists>c s'. iv_seq (iv_queue_add env root s0) (pass1_loop env par ops) = Some (c, s') \<and>
    (copy_fails env par m root c \<or> c = Inr 0 \<and> (\<exists>L. pass1_inv par m root {} L s' \<and> nq_items (iv_queue s') = []))"
proof -
  obtain r q' where r: "netsys_queue_add (ie_malloc_queue env) q root = Some (r, q')" "nq_inv q'"
      "nq_room q' (\<Sum>b \<in> {b. reach m root b}. wsz m b)"
      "r = 0 \<and> nq_items q' = nq_items q @ [root] \<or> r = -1 \<and> (\<exists>n. ie_malloc_queue env n = None)"
    using queue_add_ok [OF q(1,3), of "ie_malloc_queue env" root] by auto
  show ?thesis
  proof (cases "r = 0")
    case False
    then show ?thesis using r by (auto simp: iv_seq_def iv_queue_add_def s0_def copy_fails_def malloc_failed_def)
  next
    case True
    let ?s = "s0\<lparr>iv_queue := q'\<rparr>"
    have "pass1_core par m root [] ?s"
      using t dest by (auto simp: pass1_core_def s0_def mem_rel_def agrees_outside_def copy_map_def region_def word_less_nat_alt)
    then have "pass1_inv par m root {} [] ?s"
      using r True q(2) by (auto simp: pass1_inv_def s0_def waiting_def intro: reach_root)
    moreover have "iv_seq (iv_queue_add env root s0) (pass1_loop env par ops) = pass1_loop env par ops ?s"
      using r(1) True by (simp add: iv_seq_def iv_queue_add_def s0_def)
    ultimately show ?thesis using pass1_loop_ok [OF _ pre] by simp
  qed
qed

lemma init_value_1_seq:
  assumes "Is_block root" "ip_simulation par \<or> ip_dest par < ip_dest_end par"
    and "iv_seq (iv_queue_add env root \<lparr>iv_mem = m, iv_tab = t, iv_queue = q, iv_cur = ip_dest par\<rparr>)
          (pass1_loop env par (find_target_ops tops
             \<lparr>to_bigarray = NULL, to_int32 = NULL, to_int64 = NULL, to_nativeint = NULL\<rparr>)) = Some (c, s1)"
    and "iv_seq (Some (c, s1)) (\<lambda>s2. if ip_simulation par then Some (Inr 0, s2)
          else pass2_loop (ip_target_addr par - ip_dest par) (ip_dest par) s2) = Some (c', s')"
  shows "netsys_init_value_1 env par tops root t q m =
    Some (if c' = Inr 0 then (c', 8, iv_cur s' - ip_dest par, s') else (c', 0, 0, s'))"
  using assms
  by (auto simp: netsys_init_value_1_def Let_def iv_seq_def not_le split: option.splits if_splits)

lemma copy_bytes_pos: "copy_pre par m root \<Longrightarrow> 8 \<le> copy_bytes par m root"
proof -
  assume pre: "copy_pre par m root"
  have "root \<in> copied_blocks par m root" using copy_preD(7) [OF pre] by (simp add: copied_blocks_def reach_root)
  moreover have "finite (copied_blocks par m root)" using copy_preD(1) [OF pre] by (simp add: copied_blocks_def)
  ultimately have "bsz m root \<le> copy_bytes par m root" unfolding copy_bytes_def by (intro member_le_sum) simp_all
  then show ?thesis using bsz_pos [of m root] by simp
qed

lemma finished_cur:
  "copy_pre par m root \<Longrightarrow> unat (ip_dest par + of_nat (copy_bytes par m root) - ip_dest par) = copy_bytes par m root"
  using copy_preD(4) [of par m root] by (simp add: unat_of_nat take_bit_eq_mod)

lemma init_value_1_copies:
  assumes pre: "copy_pre par m root" and nosim: "\<not> ip_simulation par"
    and t: "ht_inv t" "ht_map t = Map.empty" "ht_room t (card {b. reach m root b})"
    and q: "nq_inv q" "nq_items q = []" "nq_room q (Suc (\<Sum>b \<in> {b. reach m root b}. wsz m b))"
  shows "\<exists>c so len s'. netsys_init_value_1 env par ops root t q m = Some (c, so, len, s') \<and>
    (copy_fails env par m root c \<or>
     c = Inr 0 \<and> so = 8 \<and> value_copied par m root (ip_target_addr par - ip_dest par) (iv_mem s') (unat len))"
proof (cases "ip_dest par < ip_dest_end par")
  case False
  then have "netsys_init_value_1 env par ops root t q m =
      Some (Inr (-4), 0, 0, \<lparr>iv_mem = m, iv_tab = t, iv_queue = q, iv_cur = ip_dest par\<rparr>)"
    using nosim by (simp add: netsys_init_value_1_def Let_def not_less)
  moreover have "region par < copy_bytes par m root"
    using copy_bytes_pos [OF pre] False nosim by (simp add: region_def word_less_nat_alt)
  ultimately show ?thesis using nosim by (simp add: copy_fails_def)
next
  case True
  let ?ops = "find_target_ops ops \<lparr>to_bigarray = NULL, to_int32 = NULL, to_int64 = NULL, to_nativeint = NULL\<rparr>"
  let ?delta = "ip_target_addr par - ip_dest par"
  have dest: "ip_simulation par \<or> ip_dest par < ip_dest_end par" using True by simp
  obtain c s1 where p1: "iv_seq (iv_queue_add env root \<lparr>iv_mem = m, iv_tab = t, iv_queue = q, iv_cur = ip_dest par\<rparr>)
        (pass1_loop env par ?ops) = Some (c, s1)"
      "copy_fails env par m root c \<or> c = Inr 0 \<and> (\<exists>L. pass1_inv par m root {} L s1 \<and> nq_items (iv_queue s1) = [])"
    using start_pass1 [OF pre dest t q, of env ?ops] by (elim exE conjE) (rule that)
  note seq = init_value_1_seq [OF copy_preD(8) [OF pre] dest p1(1)]
  show ?thesis
  proof (cases "copy_fails env par m root c")
    case fails: True
    then have "c \<noteq> Inr 0" by (auto simp: copy_fails_def)
    then show ?thesis using seq [of c s1] fails by (simp add: iv_seq_def)
  next
    case False
    then obtain L where c0: "c = Inr 0" and L: "pass1_inv par m root {} L s1" "nq_items (iv_queue s1) = []"
      using p1(2) by blast
    note comp = pass1_complete [OF L pre]
    have core: "pass1_core par m root L s1" using L(1) by (simp add: pass1_inv_def)
    then have inv2: "pass2_inv par m root ?delta [] L s1" "ht_map (iv_tab s1) = copy_map par m L"
      "iv_cur s1 = ip_dest par + of_nat (copy_bytes par m root)"
      using nosim comp(2) by (auto simp: pass2_inv_def pass1_core_def)
    have "unat (ip_dest par) + region par < 2 ^ 64"
      using True unat_u64_bound [of "ip_dest_end par"] by (simp add: region_def word_less_nat_alt)
    then obtain m2 where m2: "pass2_loop ?delta (ip_dest par) s1 = Some (Inr 0, s1\<lparr>iv_mem := m2\<rparr>)"
        "pass2_inv par m root ?delta L [] (s1\<lparr>iv_mem := m2\<rparr>)"
      using pass2_loop_ok [OF pre _ inv2(1)] by auto
    have "value_copied par m root ?delta m2 (copy_bytes par m root)"
      using pass2_final [OF m2(2) pre nosim comp] inv2(2) by simp
    then show ?thesis
      using seq [of "Inr 0" "s1\<lparr>iv_mem := m2\<rparr>"] c0 nosim m2(1) finished_cur [OF pre] inv2(3)
      by (simp add: iv_seq_def)
  qed
qed

lemma init_value_1_counts:
  assumes pre: "copy_pre par m root" and sim: "ip_simulation par"
    and t: "ht_inv t" "ht_map t = Map.empty" "ht_room t (card {b. reach m root b})"
    and q: "nq_inv q" "nq_items q = []" "nq_room q (Suc (\<Sum>b \<in> {b. reach m root b}. wsz m b))"
  shows "\<exists>c so len s'. netsys_init_value_1 env par ops root t q m = Some (c, so, len, s') \<and>
    (copy_fails env par m root c \<or>
     c = Inr 0 \<and> so = 8 \<and> unat len = copy_bytes par m root \<and> iv_mem s' = m \<and>
       ht_inv (iv_tab s') \<and> unat (ht_table_size (iv_tab s')) < 2 ^ 59 \<and>
       nq_inv (iv_queue s') \<and> unat (nq_table_size (iv_queue s')) < 2 ^ 31)"
proof -
  let ?ops = "find_target_ops ops \<lparr>to_bigarray = NULL, to_int32 = NULL, to_int64 = NULL, to_nativeint = NULL\<rparr>"
  have dest: "ip_simulation par \<or> ip_dest par < ip_dest_end par" using sim by simp
  obtain c s1 where p1: "iv_seq (iv_queue_add env root \<lparr>iv_mem = m, iv_tab = t, iv_queue = q, iv_cur = ip_dest par\<rparr>)
        (pass1_loop env par ?ops) = Some (c, s1)"
      "copy_fails env par m root c \<or> c = Inr 0 \<and> (\<exists>L. pass1_inv par m root {} L s1 \<and> nq_items (iv_queue s1) = [])"
    using start_pass1 [OF pre dest t q, of env ?ops] by (elim exE conjE) (rule that)
  note seq = init_value_1_seq [OF copy_preD(8) [OF pre] dest p1(1)]
  show ?thesis
  proof (cases "copy_fails env par m root c")
    case fails: True
    then have "c \<noteq> Inr 0" by (auto simp: copy_fails_def)
    then show ?thesis using seq [of c s1] fails by (simp add: iv_seq_def)
  next
    case False
    then obtain L where c0: "c = Inr 0" and L: "pass1_inv par m root {} L s1" "nq_items (iv_queue s1) = []"
      using p1(2) by blast
    have core: "pass1_core par m root L s1" using L(1) by (simp add: pass1_inv_def)
    then have "iv_cur s1 = ip_dest par + of_nat (copy_bytes par m root)" "iv_mem s1 = m"
      using sim pass1_complete(2) [OF L pre]
      by (auto simp: pass1_core_def mem_rel_def agrees_outside_def in_range_def fun_eq_iff)
    moreover have "ht_inv (iv_tab s1) \<and> unat (ht_table_size (iv_tab s1)) < 2 ^ 59 \<and>
        nq_inv (iv_queue s1) \<and> unat (nq_table_size (iv_queue s1)) < 2 ^ 31"
      using core L(1) unfolding pass1_core_def pass1_inv_def ht_room_def nq_room_def by blast
    ultimately show ?thesis using seq [of "Inr 0" s1] c0 sim finished_cur [OF pre] by (simp add: iv_seq_def)
  qed
qed

section \<open>A value with sharing and a cycle\<close>

text \<open>At 0x1008 a pair of a pointer to itself and a string, and at 0x1020 the string.\<close>

definition sample_words :: "u64 list" where
  "sample_words = [0x800, 0x1008, 0x1020, 0x4fc, 0x0700000000000000]"

definition sample_mem :: bytes where
  "sample_mem x = Some (let i = unat (x - 0x1000) in if i < 40 then concat (map le64_bytes sample_words) ! i else 0)"

definition sample_par :: "bool \<Rightarrow> iv_par" where
  "sample_par sim = copy_par 0 sim (if sim then NULL else 0x2000) (if sim then NULL else 0x2028) 0"

lemma sample_loads:
  "load64 sample_mem 0x1000 = Some 0x800" "load64 sample_mem 0x1008 = Some 0x1008"
  "load64 sample_mem 0x1010 = Some 0x1020" "load64 sample_mem 0x1018 = Some 0x4fc"
  by code_simp+

lemma sample_blocks:
  "hdr_of sample_mem 0x1008 = 0x800" "hdr_of sample_mem 0x1020 = 0x4fc"
  "wsz sample_mem 0x1008 = 2" "wsz sample_mem 0x1020 = 1" "bsz sample_mem 0x1008 = 24" "bsz sample_mem 0x1020 = 16"
  "scanned sample_mem 0x1008" "\<not> scanned sample_mem 0x1020"
  "field sample_mem 0x1008 0 = Some 0x1008" "field sample_mem 0x1008 1 = Some 0x1020"
proof -
  show h: "hdr_of sample_mem 0x1008 = 0x800" "hdr_of sample_mem 0x1020 = 0x4fc"
    using sample_loads by (simp_all add: hdr_of_def)
  show w: "wsz sample_mem 0x1008 = 2" "wsz sample_mem 0x1020 = 1"
    by (simp_all add: wsz_def h Wosize_hd_def drop_bit_eq_div)
  show "bsz sample_mem 0x1008 = 24" "bsz sample_mem 0x1020 = 16" by (simp_all add: bsz_def w)
  have "Tag_hd 0x800 = 0" "Tag_hd 0x4fc = 0xfc" by code_simp+
  then show "scanned sample_mem 0x1008" "\<not> scanned sample_mem 0x1020" by (simp_all add: scanned_def h)
  show "field sample_mem 0x1008 0 = Some 0x1008" "field sample_mem 0x1008 1 = Some 0x1020"
    using sample_loads by (simp_all add: field_def)
qed

lemma sample_reach: "{b. reach sample_mem 0x1008 b} = {0x1008, 0x1020}"
proof
  show "{b. reach sample_mem 0x1008 b} \<subseteq> {0x1008, 0x1020}"
  proof
    fix b assume "b \<in> {b. reach sample_mem 0x1008 b}"
    then have "reach sample_mem 0x1008 b" by simp
    then show "b \<in> {0x1008, 0x1020}"
    proof induction
      case (reach_field b i f)
      then have "b = 0x1008" using sample_blocks(8) by auto
      then have "i = 0 \<or> i = 1" using reach_field sample_blocks(3) by auto
      then show ?case using reach_field \<open>b = 0x1008\<close> sample_blocks(9,10) by auto
    qed simp
  qed
  have "reach sample_mem 0x1008 0x1020"
    using reach_field [OF reach_root sample_blocks(7) _ sample_blocks(10)] sample_blocks(3) by (simp add: Is_block_def)
  then show "{0x1008, 0x1020} \<subseteq> {b. reach sample_mem 0x1008 b}" by (auto intro: reach_root)
qed

lemma sample_copied: "copied_blocks (sample_par sim) sample_mem 0x1008 = {0x1008, 0x1020}"
  using sample_reach sample_blocks by (auto simp: copied_blocks_def copied_def)

lemma sample_range: "unat a + n \<le> 2 ^ 64 \<Longrightarrow> range_ok sample_mem a n"
  by (simp add: range_ok_def sample_mem_def)

lemma sample_pre: "copy_pre (sample_par sim) sample_mem 0x1008"
proof -
  have "copy_bytes (sample_par sim) sample_mem 0x1008 = 40"
    by (simp add: copy_bytes_def sample_copied sample_blocks)
  moreover have "Tag_hd 0x800 = 0" "Tag_hd 0x4fc = 0xfc" by code_simp+
  then have "block_ok sample_mem (ip_dest (sample_par sim)) (region (sample_par sim)) b" if "b \<in> {0x1008, 0x1020}" for b
    using that sample_blocks
    by (auto simp: block_ok_def sample_range range_disjoint_def sample_par_def copy_par_def region_def)
  moreover have "reach sample_mem 0x1008 b \<longleftrightarrow> b \<in> {0x1008, 0x1020}" for b using sample_reach by blast
  moreover have "copied (sample_par sim) sample_mem 0x1008" using sample_blocks by (simp add: copied_def)
  ultimately show ?thesis
    by (auto simp: copy_pre_def Is_block_def sample_range sample_par_def copy_par_def region_def)
qed

definition sample_queue4 :: nqueue where
  "sample_queue4 = \<lparr>nq_table = Some [0, 0, 0, 0], nq_table_size = 4, nq_table_start = 0, nq_table_end = 0\<rparr>"

definition sample_env :: iv_env where
  "sample_env =
     \<lparr>ie_malloc_tab = malloc_fill null_cell, ie_malloc_queue = malloc_fill 0, ie_stat_alloc = (\<lambda>m n. None),
      ie_element_size = (\<lambda>k. 1), ie_malloc_htab = Some empty_htab4, ie_malloc_nqueue = Some sample_queue4,
      ie_fresh_name = (\<lambda>k. []),
      ie_custom_ops = (\<lambda>m v. (\<lparr>to_bigarray = 0x500, to_int32 = 0x510, to_int64 = 0x520, to_nativeint = 0x530\<rparr>, v, m)),
      ie_alloc_block = (\<lambda>m v n. (0x2000, v, m)), ie_alloc_for_heap = (\<lambda>m n. None), ie_allocation_color = (\<lambda>a. 0)\<rparr>"

lemma sample_queue4_ok: "nq_inv sample_queue4" "nq_items sample_queue4 = []" "nq_room sample_queue4 4"
  by (simp_all add: sample_queue4_def nq_inv_def nq_items_def ring_def nq_room_def)

lemma sample_no_fail: "\<not> copy_fails sample_env (sample_par sim) sample_mem 0x1008 c"
proof -
  have "copy_bytes (sample_par sim) sample_mem 0x1008 = 40"
    by (simp add: copy_bytes_def sample_copied sample_blocks)
  moreover have "\<not> malloc_failed sample_env" by (simp add: malloc_failed_def sample_env_def)
  moreover have "Tag_hd 0x800 = 0" "Tag_hd 0x4fc = 0xfc" by code_simp+
  then have "\<not> unsupported (sample_par sim) sample_mem b" if "b \<in> {0x1008, 0x1020}" for b
    using that sample_blocks by (auto simp: unsupported_def)
  then have "\<not> (\<exists>b. reach sample_mem 0x1008 b \<and> unsupported (sample_par sim) sample_mem b)" using sample_reach by blast
  moreover have "ip_simulation (sample_par sim) \<or> region (sample_par sim) = 40"
    by (simp add: sample_par_def copy_par_def region_def)
  ultimately show ?thesis by (auto simp: copy_fails_def)
qed

text \<open>
  Claim C1: the value copier. For a graph of blocks reachable from the root (cycles and sharing
  allowed, no custom blocks) and a destination apart from it, \<^verbatim>\<open>netsys_init_value_1\<close> always returns. It
  returns -1 only when a \<^verbatim>\<open>malloc\<close> failed, -2 only when an unsupported block is reachable, -4 only when
  the region is smaller than the total size of the blocks; otherwise it returns 0 and the memory has an isomorphic
  copy of the graph at offset 8, of exactly that total size, and is unchanged elsewhere.
\<close>

theorem netsys_init_value_1_copies:
  assumes "copy_pre par m root" "\<not> ip_simulation par"
    and "ht_inv t" "ht_map t = Map.empty" "ht_room t (card {b. reach m root b})"
    and "nq_inv q" "nq_items q = []" "nq_room q (Suc (\<Sum>b \<in> {b. reach m root b}. wsz m b))"
  shows "\<exists>c so len s'. netsys_init_value_1 env par ops root t q m = Some (c, so, len, s') \<and>
    (copy_fails env par m root c \<or>
     c = Inr 0 \<and> so = 8 \<and> value_copied par m root (ip_target_addr par - ip_dest par) (iv_mem s') (unat len))"
  using assms by (rule init_value_1_copies)

theorem netsys_init_value_1_copies_witness:
  "\<exists>len s'. netsys_init_value_1 sample_env (sample_par False) [] 0x1008 empty_htab4 sample_queue4 sample_mem
      = Some (Inr 0, 8, len, s') \<and> value_copied (sample_par False) sample_mem 0x1008 0 (iv_mem s') (unat len)"
proof -
  have "ht_room empty_htab4 (Suc (Suc 0))" by (simp add: empty_htab4_def ht_room_def)
  then have "\<exists>c so len s'. netsys_init_value_1 sample_env (sample_par False) [] 0x1008 empty_htab4 sample_queue4 sample_mem
      = Some (c, so, len, s') \<and>
    (copy_fails sample_env (sample_par False) sample_mem 0x1008 c \<or>
     c = Inr 0 \<and> so = 8 \<and> value_copied (sample_par False) sample_mem 0x1008
       (ip_target_addr (sample_par False) - ip_dest (sample_par False)) (iv_mem s') (unat len))"
    using empty_htab4_ok sample_queue4_ok sample_blocks
    by (intro netsys_init_value_1_copies sample_pre) (simp_all add: sample_par_def copy_par_def sample_reach)
  moreover have "ip_target_addr (sample_par False) - ip_dest (sample_par False) = 0"
    by (simp add: sample_par_def copy_par_def)
  ultimately show ?thesis using sample_no_fail by auto
qed

text \<open>
  The counting run. With \<^verbatim>\<open>simulation\<close> set the copier changes no memory and its byte length is
  the total size of the blocks that a real copy needs.
\<close>

theorem netsys_init_value_1_counts:
  assumes "copy_pre par m root" "ip_simulation par"
    and "ht_inv t" "ht_map t = Map.empty" "ht_room t (card {b. reach m root b})"
    and "nq_inv q" "nq_items q = []" "nq_room q (Suc (\<Sum>b \<in> {b. reach m root b}. wsz m b))"
  shows "\<exists>c so len s'. netsys_init_value_1 env par ops root t q m = Some (c, so, len, s') \<and>
    (copy_fails env par m root c \<or> c = Inr 0 \<and> so = 8 \<and> unat len = copy_bytes par m root \<and> iv_mem s' = m)"
  using init_value_1_counts [OF assms, of env ops] by blast

theorem netsys_init_value_1_counts_witness:
  "\<exists>len s'. netsys_init_value_1 sample_env (sample_par True) [] 0x1008 empty_htab4 sample_queue4 sample_mem
      = Some (Inr 0, 8, len, s') \<and> unat len = 40 \<and> iv_mem s' = sample_mem"
proof -
  have "ht_room empty_htab4 (Suc (Suc 0))" by (simp add: empty_htab4_def ht_room_def)
  then have "\<exists>c so len s'. netsys_init_value_1 sample_env (sample_par True) [] 0x1008 empty_htab4 sample_queue4 sample_mem
      = Some (c, so, len, s') \<and>
    (copy_fails sample_env (sample_par True) sample_mem 0x1008 c \<or>
     c = Inr 0 \<and> so = 8 \<and> unat len = copy_bytes (sample_par True) sample_mem 0x1008 \<and> iv_mem s' = sample_mem)"
    using empty_htab4_ok sample_queue4_ok sample_blocks
    by (intro netsys_init_value_1_counts sample_pre) (simp_all add: sample_par_def copy_par_def sample_reach)
  moreover have "copy_bytes (sample_par True) sample_mem 0x1008 = 40"
    by (simp add: copy_bytes_def sample_copied sample_blocks)
  ultimately show ?thesis using sample_no_fail by auto
qed

end
