(* ===== verification/Copy_value.thy ===== *)
theory Copy_value
  imports Value_copy
begin

text \<open>
  The clients of the value copier: \<^verbatim>\<open>netsys_copy_value\<close> counts, allocates exactly the counted size and
  copies into it; \<^verbatim>\<open>netsys_init_value\<close> copies into a bigarray. Both keep the hash table and the queue in
  static variables.
\<close>

section \<open>The static structures\<close>

definition stat_ok :: "iv_stat \<Rightarrow> bool" where
  "stat_ok st \<longleftrightarrow>
     (\<forall>t. is_tab st = Some t \<longrightarrow> ht_table t = None \<or> ht_inv t \<and> unat (ht_table_size t) < 2 ^ 59) \<and>
     (\<forall>q. is_queue st = Some q \<longrightarrow> nq_table q = None \<or> nq_inv q \<and> unat (nq_table_size q) < 2 ^ 31)"

text \<open>Both structures are allocated, empty and small enough for the copier.\<close>

definition stat_ready :: "iv_stat \<Rightarrow> bool" where
  "stat_ready st \<longleftrightarrow>
     (\<exists>t q. is_tab st = Some t \<and> ht_inv t \<and> ht_map t = Map.empty \<and> ht_table_used t = 0 \<and>
        unat (ht_table_size t) < 2 ^ 59 \<and>
        is_queue st = Some q \<and> nq_inv q \<and> nq_items q = [] \<and> unat (nq_table_size q) < 2 ^ 31)"

definition no_malloc_failure :: "iv_env \<Rightarrow> bool" where
  "no_malloc_failure env \<longleftrightarrow> \<not> malloc_failed env \<and> ie_malloc_htab env \<noteq> None \<and> ie_malloc_nqueue env \<noteq> None"

lemma no_failure_tables:
  "no_malloc_failure env \<Longrightarrow> ie_malloc_tab env n \<noteq> None" "no_malloc_failure env \<Longrightarrow> ie_malloc_queue env n \<noteq> None"
  by (auto simp: no_malloc_failure_def malloc_failed_def simp del: not_None_eq)

lemma prep_stat_tab_ok:
  assumes "no_malloc_failure env" "\<forall>t. tab = Some t \<longrightarrow> ht_table t = None \<or> ht_inv t \<and> unat (ht_table_size t) < 2 ^ 59"
  shows "\<exists>t. prep_stat_tab env tab = Some (0, Some t) \<and> ht_inv t \<and> ht_map t = Map.empty \<and> ht_table_used t = 0 \<and>
    unat (ht_table_size t) < 2 ^ 59"
proof -
  have "\<exists>t. netsys_htab_init (ie_malloc_tab env) 256 = Some (0, t) \<and> ht_inv t \<and> ht_map t = Map.empty \<and>
      ht_table_size t = 256 \<and> ht_table_used t = 0"
    using htab_init_ok [of 256 "ie_malloc_tab env"] no_failure_tables(1) [OF assms(1)] by force
  then obtain t where t: "netsys_htab_init (ie_malloc_tab env) 256 = Some (0, t)" "ht_inv t" "ht_map t = Map.empty"
      "ht_table_size t = 256" "ht_table_used t = 0" by blast
  show ?thesis
  proof (cases "tab")
    case None
    then show ?thesis using t assms(1) by (auto simp: prep_stat_tab_def no_malloc_failure_def)
  next
    case (Some u)
    then show ?thesis using t assms(2) htab_clear_ok [of u] by (cases "ht_table u") (auto simp: prep_stat_tab_def)
  qed
qed

lemma prep_stat_queue_ok:
  assumes "no_malloc_failure env" "\<forall>q. queue = Some q \<longrightarrow> nq_table q = None \<or> nq_inv q \<and> unat (nq_table_size q) < 2 ^ 31"
  shows "\<exists>q. prep_stat_queue env queue = (0, Some q) \<and> nq_inv q \<and> nq_items q = [] \<and> unat (nq_table_size q) < 2 ^ 31"
proof -
  have init: "\<exists>q'. netsys_queue_init (ie_malloc_queue env) q 256 = (0, q') \<and> nq_inv q' \<and> nq_items q' = [] \<and>
      nq_table_size q' = 256" for q
  proof -
    have "malloc_cells 8 (ie_malloc_queue env) (256 * 8) \<noteq> None"
      unfolding malloc_cells_None_iff by (rule no_failure_tables(2) [OF assms(1)])
    then obtain cells where "malloc_cells 8 (ie_malloc_queue env) (256 * 8) = Some cells" by blast
    then show ?thesis using netsys_queue_init_ok [of 256 "ie_malloc_queue env" cells q] by simp
  qed
  show ?thesis
  proof (cases "queue")
    case None
    then obtain q where "ie_malloc_nqueue env = Some q" using assms(1) by (auto simp: no_malloc_failure_def)
    then show ?thesis using None init [of q] by (auto simp: prep_stat_queue_def)
  next
    case (Some q)
    then show ?thesis using init [of q] assms(2) queue_clear_ok [of q] queue_clear_items [of q]
      by (cases "nq_table q") (auto simp: prep_stat_queue_def netsys_queue_clear_def)
  qed
qed

lemma prep_stat_ok:
  assumes "no_malloc_failure env" "stat_ok st"
  shows "\<exists>st1. prep_stat env st = Some (0, st1) \<and> is_mem st1 = is_mem st \<and> stat_ready st1"
proof -
  obtain t where t: "prep_stat_tab env (is_tab st) = Some (0, Some t)" "ht_inv t" "ht_map t = Map.empty"
      "ht_table_used t = 0" "unat (ht_table_size t) < 2 ^ 59"
    using prep_stat_tab_ok [OF assms(1), of "is_tab st"] assms(2) by (auto simp: stat_ok_def)
  obtain q where q: "prep_stat_queue env (is_queue st) = (0, Some q)" "nq_inv q" "nq_items q = []"
      "unat (nq_table_size q) < 2 ^ 31"
    using prep_stat_queue_ok [OF assms(1), of "is_queue st"] assms(2) by (auto simp: stat_ok_def)
  show ?thesis using t q by (auto simp: prep_stat_def Let_def stat_ready_def)
qed

lemma unprep_stat_some:
  "is_tab st = Some t \<Longrightarrow> is_queue st = Some q \<Longrightarrow> \<exists>st'. unprep_stat st = Some st' \<and> is_mem st' = is_mem st"
  by (simp add: unprep_stat_def unprep_stat_tab_def unprep_stat_queue_def)

section \<open>\<^verbatim>\<open>netsys_copy_value\<close>\<close>

definition small_graph :: "bytes \<Rightarrow> addr \<Rightarrow> bool" where
  "small_graph m root \<longleftrightarrow> 4 * card {b. reach m root b} < 2 ^ 59 \<and>
     2 * Suc (\<Sum>b \<in> {b. reach m root b}. wsz m b) < 2 ^ 31"

text \<open>
  What the runtime's allocation promises: a garbage collection may move the value, but the moved value is
  well-formed, has the same size, and is apart from the new block, which has the requested size.
\<close>

definition alloc_keeps ::
    "iv_env \<Rightarrow> u64 \<Rightarrow> nat \<Rightarrow> bytes \<Rightarrow> addr \<Rightarrow> addr \<Rightarrow> u64 \<Rightarrow> addr \<Rightarrow> bytes \<Rightarrow> bool" where
  "alloc_keeps env cflags n m root dest color root1 m1 \<longleftrightarrow>
     (\<exists>ops root0 m0 hdr. ie_custom_ops env m root = (ops, root0, m0) \<and>
        ie_alloc_block env m0 root0 (of_nat n div 8 - 1) = (dest, root1, m1) \<and>
        load64 m1 dest = Some hdr \<and> color = Color_hd hdr \<and>
        copy_pre (copy_par cflags False dest (dest + of_nat n) color) m1 root1 \<and>
        copy_bytes (copy_par cflags False dest (dest + of_nat n) color) m1 root1 = n \<and> small_graph m1 root1)"

lemma copy_value_2_ok:
  assumes env: "\<not> malloc_failed env"
    and al: "alloc_keeps env cflags (unat len) (is_mem st) root dest color root1 m1" and len: "unat len < 2 ^ 57"
    and st: "is_tab st = Some t" "ht_inv t" "unat (ht_table_size t) < 2 ^ 59"
      "is_queue st = Some q" "nq_inv q" "unat (nq_table_size q) < 2 ^ 31"
  defines "par \<equiv> copy_par cflags False dest (dest + len) color"
  shows "\<exists>r st'. copy_value_2 env cflags root len st = Some (r, st') \<and>
    (r = Inl (Failure ''Netsys_mem.copy_value: Library error'') \<and> (\<exists>b. reach m1 root1 b \<and> unsupported par m1 b) \<or>
     r = Inr (dest + 8) \<and> value_copied par m1 root1 0 (is_mem st') (unat len))"
proof -
  obtain ops root0 m0 hdr where a: "ie_custom_ops env (is_mem st) root = (ops, root0, m0)"
      "ie_alloc_block env m0 root0 (len div 8 - 1) = (dest, root1, m1)"
      "load64 m1 dest = Some hdr" "color = Color_hd hdr" and pre: "copy_pre par m1 root1"
      and n: "copy_bytes par m1 root1 = unat len" and small: "small_graph m1 root1"
    using al by (auto simp: alloc_keeps_def par_def)
  have "\<not> len div 8 - 1 > Max_wosize"
  proof -
    have "8 \<le> unat len" using copy_bytes_pos [OF pre] n by simp
    moreover from this have "unat (len div 8 - 1) = unat len div 8 - 1"
      by (subst unat_sub) (simp_all add: word_le_nat_alt unat_div)
    ultimately show ?thesis using len by (simp add: Max_wosize_def word_less_nat_alt)
  qed
  then have alloc: "copy_value_alloc env m0 root0 len = Some (Inr (dest, color, root1, m1, None))"
    using a by (simp add: copy_value_alloc_def Let_def)
  obtain t1 where t1: "netsys_htab_clear t = Some t1" "ht_inv t1" "ht_map t1 = Map.empty" "ht_table_size t1 = ht_table_size t"
      "ht_table_used t1 = 0"
    using htab_clear_ok [OF st(2)] by blast
  have rooms: "ht_room t1 (card {b. reach m1 root1 b})"
    "nq_room (netsys_queue_clear q) (Suc (\<Sum>b \<in> {b. reach m1 root1 b}. wsz m1 b))"
    using t1 st(3,6) small queue_clear_items [of q]
    by (simp_all add: ht_room_def nq_room_def small_graph_def netsys_queue_clear_def)
  have nosim: "\<not> ip_simulation par" by (simp add: par_def copy_par_def)
  obtain c so l s where c: "netsys_init_value_1 env par (named_ops ops) root1 t1 (netsys_queue_clear q) m1 = Some (c, so, l, s)"
    "copy_fails env par m1 root1 c \<or>
     c = Inr 0 \<and> so = 8 \<and> value_copied par m1 root1 (ip_target_addr par - ip_dest par) (iv_mem s) (unat l)"
    using init_value_1_copies [OF pre nosim t1(2,3) rooms(1) queue_clear_ok [OF st(5)] queue_clear_items rooms(2), of env "named_ops ops"]
    by (elim exE conjE) (rule that)
  have "ip_dest par = dest" "ip_dest_end par = dest + len" by (simp_all add: par_def copy_par_def)
  then have "region par = unat len"
    using copy_preD(4) [OF pre] n unat_add_of_nat [of dest "unat len"] nosim by (simp add: region_def)
  moreover have "value_copied par m1 root1 d m' k \<Longrightarrow> k = unat len" for d m' k by (simp add: value_copied_def n)
  moreover have "ip_target_addr par - ip_dest par = 0" by (simp add: par_def copy_par_def)
  ultimately have res: "c = Inr (-2) \<and> (\<exists>b. reach m1 root1 b \<and> unsupported par m1 b) \<or>
      c = Inr 0 \<and> value_copied par m1 root1 0 (iv_mem s) (unat len)"
    using c(2) env n by (metis copy_fails_def less_irrefl)
  let ?st = "st\<lparr>is_tab := Some (iv_tab s), is_queue := Some (iv_queue s), is_mem := iv_mem s\<rparr>"
  obtain st' where st': "unprep_stat ?st = Some st'" "is_mem st' = iv_mem s"
    using unprep_stat_some [of ?st "iv_tab s" "iv_queue s"] by auto
  show ?thesis
    using res st' a(1) alloc st(1,4) t1(1) c(1)
    by (auto simp: copy_value_2_def par_def Let_def iv_exit_def close_extra_block_def)
qed

lemma copy_value_ok:
  assumes env: "no_malloc_failure env" and stat: "stat_ok st"
    and pre: "copy_pre (copy_par (convert_flag_list flags) True NULL NULL 0) (is_mem st) root"
    and small: "small_graph (is_mem st) root" and w: "wsz (is_mem st) root \<noteq> 0"
    and n: "n = copy_bytes (copy_par (convert_flag_list flags) True NULL NULL 0) (is_mem st) root" "n < 2 ^ 57"
    and al: "alloc_keeps env (convert_flag_list flags) n (is_mem st) root dest color root1 m1"
  defines "par \<equiv> copy_par (convert_flag_list flags) False dest (dest + of_nat n) color"
  shows "\<exists>r st'. netsys_copy_value env flags root st = Some (r, st') \<and>
    (r = Inl (Failure ''Netsys_mem.copy_value: Library error'') \<and>
       (\<exists>b. reach (is_mem st) root b \<and> unsupported par (is_mem st) b \<or> reach m1 root1 b \<and> unsupported par m1 b) \<or>
     r = Inr (dest + 8) \<and> value_copied par m1 root1 0 (is_mem st') n)"
proof -
  let ?cf = "convert_flag_list flags" and ?m = "is_mem st"
  let ?sim = "copy_par ?cf True NULL NULL 0"
  have hdr: "load64 ?m (root - 8) = Some (hdr_of ?m root)"
  proof -
    have "block_ok ?m (ip_dest ?sim) (region ?sim) root" using copy_preD(2) [OF pre reach_root] .
    then show ?thesis
      by (rule block_reads(1) [where k = 0 and m' = ?m]) (simp_all add: mem_rel_def agrees_outside_def)
  qed
  have w0: "Wosize_hd (hdr_of ?m root) \<noteq> 0" using w by (simp add: wsz_def unat_eq_0)
  obtain st1 where st1: "prep_stat env st = Some (0, st1)" "is_mem st1 = ?m" "stat_ready st1"
    using prep_stat_ok [OF env stat] by blast
  obtain t q where tq: "is_tab st1 = Some t" "ht_inv t" "ht_map t = Map.empty" "ht_table_used t = 0"
      "unat (ht_table_size t) < 2 ^ 59" "is_queue st1 = Some q" "nq_inv q" "nq_items q = []"
      "unat (nq_table_size q) < 2 ^ 31"
    using st1(3) by (auto simp: stat_ready_def)
  have rooms: "ht_room t (card {b. reach ?m root b})" "nq_room q (Suc (\<Sum>b \<in> {b. reach ?m root b}. wsz ?m b))"
    using tq small by (simp_all add: ht_room_def nq_room_def small_graph_def)
  have sim: "ip_simulation ?sim" by (simp add: copy_par_def)
  obtain c so l s where c: "netsys_init_value_1 env ?sim [] root t q ?m = Some (c, so, l, s)"
    "copy_fails env ?sim ?m root c \<or>
     c = Inr 0 \<and> so = 8 \<and> unat l = copy_bytes ?sim ?m root \<and> iv_mem s = ?m \<and>
       ht_inv (iv_tab s) \<and> unat (ht_table_size (iv_tab s)) < 2 ^ 59 \<and>
       nq_inv (iv_queue s) \<and> unat (nq_table_size (iv_queue s)) < 2 ^ 31"
    using init_value_1_counts [OF pre sim tq(2,3) rooms(1) tq(7,8) rooms(2), of env "[]"]
    by (elim exE conjE) (rule that)
  let ?st2 = "st1\<lparr>is_tab := Some (iv_tab s), is_queue := Some (iv_queue s), is_mem := iv_mem s\<rparr>"
  have eq: "netsys_copy_value env flags root st =
      (case c of Inl e \<Rightarrow> Some (Inl e, ?st2)
       | Inr code \<Rightarrow> if code \<noteq> 0 then iv_exit ''netsys_copy_value'' ''Netsys_mem.copy_value'' code ?st2
                     else copy_value_2 env ?cf root l ?st2)"
    using copy_preD(8) [OF pre] hdr w0 st1(1,2) tq(1,6) c(1) by (simp add: netsys_copy_value_def Let_def)
  show ?thesis
  proof (cases "copy_fails env ?sim ?m root c")
    case True
    then have "c = Inr (-2)" "\<exists>b. reach ?m root b \<and> unsupported ?sim ?m b"
      using env sim by (auto simp: copy_fails_def no_malloc_failure_def)
    moreover have "unsupported ?sim ?m b = unsupported par ?m b" for b
      by (simp add: unsupported_def copy_par_def par_def)
    moreover obtain st' where "unprep_stat ?st2 = Some st'"
      using unprep_stat_some [of ?st2 "iv_tab s" "iv_queue s"] by auto
    ultimately show ?thesis using eq by (auto simp: iv_exit_def)
  next
    case False
    then have s: "c = Inr 0" "unat l = n" "is_mem ?st2 = ?m" "ht_inv (iv_tab s)"
      "unat (ht_table_size (iv_tab s)) < 2 ^ 59" "nq_inv (iv_queue s)" "unat (nq_table_size (iv_queue s)) < 2 ^ 31"
      using c(2) n(1) by auto
    have "l = of_nat n" unfolding s(2) [symmetric] by simp
    then have "\<exists>r st'. copy_value_2 env ?cf root l ?st2 = Some (r, st') \<and>
      (r = Inl (Failure ''Netsys_mem.copy_value: Library error'') \<and> (\<exists>b. reach m1 root1 b \<and> unsupported par m1 b) \<or>
       r = Inr (dest + 8) \<and> value_copied par m1 root1 0 (is_mem st') n)"
      using copy_value_2_ok [of env ?cf l ?st2 root dest color root1 m1 "iv_tab s" "iv_queue s"]
        env al s n(2) by (simp add: no_malloc_failure_def par_def)
    then show ?thesis using eq s(1) by auto
  qed
qed

text \<open>
  Claim C8: \<^verbatim>\<open>netsys_copy_value\<close>, counting run, allocation and copy together. When memory is not
  exhausted it returns the address of an isomorphic copy that fills the allocated block to the last byte, or
  raises \<^verbatim>\<open>Failure\<close> for a graph with an unsupported block; it never runs out of the space it has counted. The
  runtime's allocation may move the value but keeps it well-formed and of the same size.
\<close>

theorem netsys_copy_value_correct:
  assumes "no_malloc_failure env" "stat_ok st"
    and "copy_pre (copy_par (convert_flag_list flags) True NULL NULL 0) (is_mem st) root"
    and "small_graph (is_mem st) root" "wsz (is_mem st) root \<noteq> 0"
    and "n = copy_bytes (copy_par (convert_flag_list flags) True NULL NULL 0) (is_mem st) root" "n < 2 ^ 57"
    and "alloc_keeps env (convert_flag_list flags) n (is_mem st) root dest color root1 m1"
  shows "\<exists>r st'. netsys_copy_value env flags root st = Some (r, st') \<and>
    (r = Inl (Failure ''Netsys_mem.copy_value: Library error'') \<and>
       (\<exists>b. reach (is_mem st) root b \<and>
              unsupported (copy_par (convert_flag_list flags) False dest (dest + of_nat n) color) (is_mem st) b \<or>
            reach m1 root1 b \<and>
              unsupported (copy_par (convert_flag_list flags) False dest (dest + of_nat n) color) m1 b) \<or>
     r = Inr (dest + 8) \<and>
       value_copied (copy_par (convert_flag_list flags) False dest (dest + of_nat n) color) m1 root1 0 (is_mem st') n)"
  using assms by (rule copy_value_ok)

definition sample_stat :: iv_stat where
  "sample_stat = \<lparr>is_tab = None, is_queue = None, is_mem = sample_mem, is_words = 0\<rparr>"

lemma sample_bytes: "copy_bytes (sample_par sim) sample_mem 0x1008 = 40"
  by (simp add: copy_bytes_def sample_copied sample_blocks)

lemma sample_alloc: "alloc_keeps sample_env 0 40 sample_mem 0x1008 0x2000 0 0x1008 sample_mem"
proof -
  have "load64 sample_mem 0x2000 = Some 0" by code_simp
  then show ?thesis
    using sample_pre [of False] sample_bytes [of False] sample_reach sample_blocks
    by (auto simp: alloc_keeps_def sample_env_def Color_hd_def sample_par_def small_graph_def)
qed

theorem netsys_copy_value_correct_witness:
  "\<exists>st'. netsys_copy_value sample_env [] 0x1008 sample_stat = Some (Inr 0x2008, st') \<and>
     value_copied (sample_par False) sample_mem 0x1008 0 (is_mem st') 40"
proof -
  have cf: "convert_flag_list [] = 0" by (simp add: convert_flag_list_def)
  have "\<exists>r st'. netsys_copy_value sample_env [] 0x1008 sample_stat = Some (r, st') \<and>
    (r = Inl (Failure ''Netsys_mem.copy_value: Library error'') \<and>
       (\<exists>b. reach (is_mem sample_stat) 0x1008 b \<and>
              unsupported (copy_par (convert_flag_list []) False 0x2000 (0x2000 + of_nat 40) 0) (is_mem sample_stat) b \<or>
            reach sample_mem 0x1008 b \<and>
              unsupported (copy_par (convert_flag_list []) False 0x2000 (0x2000 + of_nat 40) 0) sample_mem b) \<or>
     r = Inr (0x2000 + 8) \<and>
       value_copied (copy_par (convert_flag_list []) False 0x2000 (0x2000 + of_nat 40) 0) sample_mem 0x1008 0 (is_mem st') 40)"
    using sample_pre [of True] sample_bytes [of True] sample_alloc sample_reach sample_blocks sample_no_fail
    by (intro netsys_copy_value_correct)
      (simp_all add: cf sample_stat_def stat_ok_def no_malloc_failure_def small_graph_def sample_par_def,
       simp_all add: malloc_failed_def sample_env_def)
  moreover have "copy_par (convert_flag_list []) False 0x2000 (0x2000 + of_nat 40) 0 = sample_par False"
    by (simp add: cf sample_par_def)
  moreover have "\<not> (reach sample_mem 0x1008 b \<and> unsupported (sample_par False) sample_mem b)" for b
    using sample_no_fail [of False "Inr (-2)"] by (auto simp: copy_fails_def)
  ultimately show ?thesis by (auto simp: sample_stat_def)
qed

section \<open>Where the clients deviate\<close>

lemma build_ops_names: "map snd ops = map snd ops' \<Longrightarrow> build_ops fresh k ops acc = build_ops fresh k ops' acc"
proof (induction fresh k ops acc arbitrary: ops' rule: build_ops.induct)
  case (2 fresh k name p rest ops)
  then obtain name' rest' where "ops' = (name', p) # rest'" "map snd rest = map snd rest'"
    by (cases ops') auto
  then show ?case using 2 by simp
qed simp

text \<open>
  \<^verbatim>\<open>netsys_init_value\<close> depends on the addresses of the target operations but not on their names, which the caller
  passes to say what the addresses are for.
\<close>

lemma netsys_init_value_ignores_names:
  "map snd ops = map snd ops' \<Longrightarrow>
   netsys_init_value env data dim0 offv orig flags targetaddrv ops cc st =
   netsys_init_value env data dim0 offv orig flags targetaddrv ops' cc st"
  using build_ops_names [of ops ops' "ie_fresh_name env" 0 "[]"] by (simp only: netsys_init_value_def)

text \<open>
  When the very first allocation fails, the error exit uses the null pointer \<^verbatim>\<open>stat_queue\<close>.
\<close>

lemma netsys_copy_value_null_queue:
  assumes "is_tab st = None" "is_queue st = None" "ie_malloc_htab env = None" "Is_block root"
    and "load64 (is_mem st) (root - 8) = Some hdr" "Wosize_hd hdr \<noteq> 0"
  shows "netsys_copy_value env flags root st = None"
  using assms
  by (simp add: netsys_copy_value_def prep_stat_def prep_stat_tab_def iv_exit_def unprep_stat_def unprep_stat_tab_def)

end
