(* ===== verification/Mem.thy ===== *)
theory Mem
  imports Init_value
begin

text \<open>
  The bigarray, object and I/O helpers of \<^verbatim>\<open>src/src/netsys/netsys_c_mem.c\<close> (the 64 bit Unix variant): blits between
  strings and memory, page and file mappings, reshaping, object headers and colors, reading and writing
  through a descriptor, and the initialisation of headers and strings inside a bigarray.

  Arguments are OCaml values where the code decodes them. The system calls are in the record \<open>mem_sys\<close>:
  each returns \<open>Inl errno\<close> or its result, with the new memory where it changes it; the bigarray descriptor
  is a record. The signed remainder of C is only compared with 0, where it agrees with \<open>mod\<close>.
\<close>

section \<open>Types\<close>

record ba_proxy =
  px_refcount :: u64
  px_data :: addr

record bigarray =
  ba_data :: addr
  ba_flags :: u64
  ba_proxy :: "ba_proxy option"
  ba_dim :: "u64 list"

record mem_sys =
  ms_pagesize :: u64
  ms_mmap :: "bytes \<Rightarrow> addr \<Rightarrow> u64 \<Rightarrow> u64 \<Rightarrow> u64 \<Rightarrow> u32 \<Rightarrow> u64 \<Rightarrow> int + addr \<times> bytes"
  ms_munmap :: "bytes \<Rightarrow> addr \<Rightarrow> u64 \<Rightarrow> bytes"
  ms_memalign :: "bytes \<Rightarrow> u64 \<Rightarrow> u64 \<Rightarrow> int + addr \<times> bytes"
  ms_file_size :: "u32 \<Rightarrow> int + u64"
  ms_ftruncate :: "u32 \<Rightarrow> u64 \<Rightarrow> int option"
  ms_io :: "nat \<Rightarrow> bytes \<Rightarrow> u32 \<Rightarrow> addr \<Rightarrow> u64 \<Rightarrow> u64 \<Rightarrow> int + u64 \<times> bytes"
  ms_page_table :: "bool \<Rightarrow> addr \<Rightarrow> addr \<Rightarrow> int"

text \<open>Flag bits of bigarrays, of \<^verbatim>\<open>mmap\<close> and of messages (their Linux values).\<close>

abbreviation (input) "BA_MANAGED_MASK \<equiv> (0x600 :: u64)"
abbreviation (input) "BA_EXTERNAL \<equiv> (0 :: u64)"
abbreviation (input) "BA_MANAGED \<equiv> (0x200 :: u64)"
abbreviation (input) "BA_MAPPED_FILE \<equiv> (0x400 :: u64)"
abbreviation (input) "BA_KIND_MASK \<equiv> (0xff :: u64)"
abbreviation (input) "BA_LAYOUT_MASK \<equiv> (0x100 :: u64)"
abbreviation (input) "BA_UINT8 \<equiv> (3 :: u64)"
abbreviation (input) "BA_C_LAYOUT \<equiv> (0 :: u64)"
abbreviation (input) "PROT_RW \<equiv> (3 :: u64)"
abbreviation (input) "PROT_EXEC \<equiv> (4 :: u64)"
abbreviation (input) "MAP_SHARED \<equiv> (1 :: u64)"
abbreviation (input) "MAP_PRIVATE \<equiv> (2 :: u64)"
abbreviation (input) "MAP_FIXED \<equiv> (0x10 :: u64)"
abbreviation (input) "MAP_ANON \<equiv> (0x20 :: u64)"

definition alloc_ba :: "u64 \<Rightarrow> addr \<Rightarrow> u64 \<Rightarrow> bigarray" where
  "alloc_ba flags data n = \<lparr>ba_data = data, ba_flags = flags, ba_proxy = None, ba_dim = [n]\<rparr>"

section \<open>Bigarray helpers\<close>

definition netsys_blit_memory_to_string ::
    "bytes \<Rightarrow> bigarray \<Rightarrow> u64 \<Rightarrow> addr \<Rightarrow> u64 \<Rightarrow> u64 \<Rightarrow> bytes option" where
  "netsys_blit_memory_to_string m mem memoffv s soffv lenv =
     memmove m (s + Long_val soffv) (ba_data mem + Long_val memoffv) (Long_val lenv)"

definition netsys_blit_string_to_memory ::
    "bytes \<Rightarrow> addr \<Rightarrow> u64 \<Rightarrow> bigarray \<Rightarrow> u64 \<Rightarrow> u64 \<Rightarrow> bytes option" where
  "netsys_blit_string_to_memory m s soffv mem memoffv lenv =
     memmove m (ba_data mem + Long_val memoffv) (s + Long_val soffv) (Long_val lenv)"

definition netsys_memory_address :: "bigarray \<Rightarrow> u64" where
  "netsys_memory_address mem = ba_data mem"

definition netsys_getpagesize :: "mem_sys \<Rightarrow> u64" where
  "netsys_getpagesize sys = Val_long (ms_pagesize sys)"

definition netsys_grab :: "u64 \<Rightarrow> u64 \<Rightarrow> bigarray" where
  "netsys_grab addr lenv = alloc_ba (BA_C_LAYOUT OR BA_UINT8) addr (Long_val lenv)"

text \<open>The length passes through \<^verbatim>\<open>Int_val\<close>, that is, through 32 bits, and is sign-extended.\<close>

definition netsys_alloc_memory_pages :: "mem_sys \<Rightarrow> bytes \<Rightarrow> u64 \<Rightarrow> u64 \<Rightarrow> bool \<Rightarrow> (exn + bigarray) \<times> bytes" where
  "netsys_alloc_memory_pages sys m start pv exec =
     (let pgsize = ms_pagesize sys;
          len0 = scast (Int_val pv);
          len1 = ((len0 - 1) div pgsize + 1) * pgsize;
          flags = PROT_RW OR (if exec then PROT_EXEC else 0)
      in case ms_mmap sys m start len1 flags (MAP_PRIVATE OR MAP_ANON) (-1) 0 of
           Inl e \<Rightarrow> (Inl (Unix_error e ''mmap''), m)
         | Inr (data, m') \<Rightarrow> (Inr (alloc_ba (BA_C_LAYOUT OR BA_UINT8 OR BA_MAPPED_FILE) data len1), m'))"

definition netsys_zero_pages :: "mem_sys \<Rightarrow> bytes \<Rightarrow> bigarray \<Rightarrow> u64 \<Rightarrow> u64 \<Rightarrow> (exn + unit) \<times> bytes" where
  "netsys_zero_pages sys m mem offsv lenv =
     (let offs = Long_val offsv; len = Long_val lenv; pgsize = ms_pagesize sys; data = ba_data mem + offs
      in if data mod pgsize = 0 \<and> sint len mod sint pgsize = 0
         then if sint len > 0
              then case ms_mmap sys m data len PROT_RW (MAP_PRIVATE OR MAP_ANON OR MAP_FIXED) (-1) 0 of
                     Inl e \<Rightarrow> (Inl (Unix_error e ''mmap''), m)
                   | Inr (data2, m') \<Rightarrow>
                       if data \<noteq> data2 then (Inl (Failure ''Netsys_mem.zero_pages assertion failed''), m')
                       else (Inr (), m')
              else (Inr (), m)
         else (Inl (Invalid_argument ''Netsys_mem.zero_pages only for whole pages''), m))"

definition netsys_alloc_aligned_memory :: "mem_sys \<Rightarrow> bytes \<Rightarrow> u64 \<Rightarrow> u64 \<Rightarrow> (exn + bigarray) \<times> bytes" where
  "netsys_alloc_aligned_memory sys m alignv pv =
     (let align = Long_val alignv; sz = Long_val pv
      in case ms_memalign sys m align sz of
           Inl e \<Rightarrow> (Inl (Unix_error e ''posix_memalign''), m)
         | Inr (data, m') \<Rightarrow> (Inr (alloc_ba (BA_C_LAYOUT OR BA_UINT8 OR BA_MANAGED) data sz), m'))"

text \<open>
  The size of the mapping. \<^verbatim>\<open>off_t\<close> and \<^verbatim>\<open>intnat\<close> have 64 bits, so the two tests for large files
  never fail and are not written out.
\<close>

definition map_size :: "mem_sys \<Rightarrow> u32 \<Rightarrow> u64 \<Rightarrow> u64 \<Rightarrow> exn + u64" where
  "map_size sys fd pos sz =
     (case ms_file_size sys fd of
        Inl e \<Rightarrow> Inl (Unix_error e ''fstat'')
      | Inr eofpos \<Rightarrow>
          if sz = -1
          then if sint eofpos < sint pos
               then Inl (Failure ''Netsys_mem: cannot mmap - file position exceeds file size'')
               else Inr (eofpos - pos)
          else if sint sz < 0 then Inl (Invalid_argument ''netsys_map_file'')
          else if sint (eofpos - pos) < sint sz
          then (case ms_ftruncate sys fd (pos + sz) of
                  Some e \<Rightarrow> Inl (Unix_error e ''ftruncate'') | None \<Rightarrow> Inr sz)
          else Inr sz)"

definition netsys_map_file :: "mem_sys \<Rightarrow> bytes \<Rightarrow> u64 \<Rightarrow> u64 \<Rightarrow> u64 \<Rightarrow> bool \<Rightarrow> u64 \<Rightarrow> (exn + bigarray) \<times> bytes" where
  "netsys_map_file sys m fdv pos addr shared sizev =
     (let fd = Int_val fdv; pagesize = ms_pagesize sys
      in case map_size sys fd pos (Long_val sizev) of
           Inl e \<Rightarrow> (Inl e, m)
         | Inr basize \<Rightarrow>
             let delta = pos mod pagesize
             in case ms_mmap sys m addr (basize + delta) PROT_RW (if shared then MAP_SHARED else MAP_PRIVATE) fd (pos - delta) of
                  Inl e \<Rightarrow> (Inl (Unix_error e ''mmap''), m)
                | Inr (eff_addr, m') \<Rightarrow>
                    (Inr (alloc_ba (BA_UINT8 OR BA_C_LAYOUT OR BA_MAPPED_FILE) (eff_addr + delta) basize), m'))"

definition ba_unmap_file :: "mem_sys \<Rightarrow> bytes \<Rightarrow> addr \<Rightarrow> u64 \<Rightarrow> bytes" where
  "ba_unmap_file sys m addr len =
     (let page = ms_pagesize sys; delta = addr mod page in ms_munmap sys m (addr - delta) (len + delta))"

definition netsys_memory_unmap_file :: "mem_sys \<Rightarrow> bytes \<Rightarrow> bigarray \<Rightarrow> bigarray \<times> bytes" where
  "netsys_memory_unmap_file sys m b =
     (let flags' = (ba_flags b AND NOT BA_MANAGED_MASK) OR BA_EXTERNAL in
      if ba_flags b AND BA_MANAGED_MASK = BA_MAPPED_FILE
      then case ba_proxy b of
             None \<Rightarrow> (b\<lparr>ba_data := NULL, ba_flags := flags'\<rparr>, ba_unmap_file sys m (ba_data b) (ba_dim b ! 0))
           | Some p \<Rightarrow>
               if px_refcount p = 1
               then (b\<lparr>ba_proxy := Some (p\<lparr>px_data := NULL\<rparr>), ba_data := NULL, ba_flags := flags'\<rparr>,
                     ba_unmap_file sys m (px_data p) (ba_dim b ! 0))
               else (b, m)
      else (b, m))"

text \<open>\<^verbatim>\<open>caml_ba_reshape\<close> with the same dimensions gives a second descriptor for the data (a parameter).\<close>

definition netsys_reshape :: "(u64 \<Rightarrow> u64) \<Rightarrow> (bigarray \<Rightarrow> u64 list \<Rightarrow> bigarray) \<Rightarrow> bigarray \<Rightarrow> bigarray" where
  "netsys_reshape element_size caml_ba_reshape b =
     (let mem = caml_ba_reshape b (ba_dim b);
          size0 = foldl (*) (element_size (ba_flags b AND BA_KIND_MASK)) (ba_dim b);
          fl1 = (ba_flags mem AND NOT BA_KIND_MASK) OR BA_UINT8;
          fl2 = (fl1 AND NOT BA_LAYOUT_MASK) OR BA_C_LAYOUT
      in mem\<lparr>ba_flags := fl2, ba_dim := [size0]\<rparr>)"

section \<open>Objects\<close>

definition netsys_obj_address :: "u64 \<Rightarrow> u64" where "netsys_obj_address objv = objv"
definition netsys_hdr_address :: "u64 \<Rightarrow> u64" where "netsys_hdr_address objv = objv - 8"

definition netsys_color :: "bytes \<Rightarrow> u64 \<Rightarrow> u64 option" where
  "netsys_color m objv = do { hdr \<leftarrow> load64 m (objv - 8); Some (Val_long (drop_bit 8 (Color_hd hdr))) }"

definition netsys_set_color :: "bytes \<Rightarrow> u64 \<Rightarrow> u64 \<Rightarrow> bytes option" where
  "netsys_set_color m objv colv =
     do { hdr \<leftarrow> load64 m (objv - 8);
          store64 m (objv - 8) (Whitehd_hd hdr OR scast (push_bit 8 (Int_val colv))) }"

section \<open>I/O\<close>

text \<open>
  The four calls differ in the system call (0 \<^verbatim>\<open>read\<close>, 1 \<^verbatim>\<open>write\<close>, 2 \<^verbatim>\<open>recv\<close>, 3 \<^verbatim>\<open>send\<close>). The number of bytes is
  converted to \<^verbatim>\<open>int\<close> and then to \<^verbatim>\<open>size_t\<close>.
\<close>

definition mem_io :: "mem_sys \<Rightarrow> nat \<Rightarrow> string \<Rightarrow> bytes \<Rightarrow> u64 \<Rightarrow> bigarray \<Rightarrow> u64 \<Rightarrow> u64 \<Rightarrow> u64 \<Rightarrow> (exn + u64) \<times> bytes" where
  "mem_io sys call name m fdv mem offv lenv flags =
     (case ms_io sys call m (Int_val fdv) (ba_data mem + Long_val offv) (ulong_of_int (int_of_ulong (Long_val lenv))) flags of
        Inl e \<Rightarrow> (Inl (Unix_error e name), m)
      | Inr (ret, m') \<Rightarrow> (Inr (Val_long ret), m'))"

definition msg_flags :: "nat list \<Rightarrow> u64" where
  "msg_flags flagsv = foldl (\<lambda>r i. r OR ([1, 4, 2] ! i)) 0 flagsv"

definition netsys_mem_read :: "mem_sys \<Rightarrow> bytes \<Rightarrow> u64 \<Rightarrow> bigarray \<Rightarrow> u64 \<Rightarrow> u64 \<Rightarrow> (exn + u64) \<times> bytes" where
  "netsys_mem_read sys m fdv mem offv lenv = mem_io sys 0 ''mem_read'' m fdv mem offv lenv 0"

definition netsys_mem_write :: "mem_sys \<Rightarrow> bytes \<Rightarrow> u64 \<Rightarrow> bigarray \<Rightarrow> u64 \<Rightarrow> u64 \<Rightarrow> (exn + u64) \<times> bytes" where
  "netsys_mem_write sys m fdv mem offv lenv = mem_io sys 1 ''mem_write'' m fdv mem offv lenv 0"

definition netsys_mem_recv :: "mem_sys \<Rightarrow> bytes \<Rightarrow> u64 \<Rightarrow> bigarray \<Rightarrow> u64 \<Rightarrow> u64 \<Rightarrow> nat list \<Rightarrow> (exn + u64) \<times> bytes" where
  "netsys_mem_recv sys m fdv mem offv lenv flagsv = mem_io sys 2 ''mem_recv'' m fdv mem offv lenv (msg_flags flagsv)"

definition netsys_mem_send :: "mem_sys \<Rightarrow> bytes \<Rightarrow> u64 \<Rightarrow> bigarray \<Rightarrow> u64 \<Rightarrow> u64 \<Rightarrow> nat list \<Rightarrow> (exn + u64) \<times> bytes" where
  "netsys_mem_send sys m fdv mem offv lenv flagsv = mem_io sys 3 ''mem_send'' m fdv mem offv lenv (msg_flags flagsv)"

section \<open>Bigarrays as value buffers\<close>

definition netsys_as_value :: "bigarray \<Rightarrow> u64 \<Rightarrow> u64" where
  "netsys_as_value b offv = ba_data b + Long_val offv"

definition netsys_value_area_add :: "mem_sys \<Rightarrow> bigarray \<Rightarrow> exn + unit" where
  "netsys_value_area_add sys b =
     (if ms_page_table sys True (ba_data b) (ba_data b + ba_dim b ! 0) \<noteq> 0
      then Inl (Failure ''Netsys_mem.value_area: error'') else Inr ())"

definition netsys_value_area_remove :: "mem_sys \<Rightarrow> bigarray \<Rightarrow> exn + unit" where
  "netsys_value_area_remove sys b =
     (let code = ms_page_table sys False (ba_data b) (ba_data b + ba_dim b ! 0) in Inr ())"

definition netsys_init_header :: "bytes \<Rightarrow> bigarray \<Rightarrow> u64 \<Rightarrow> u64 \<Rightarrow> u64 \<Rightarrow> (exn + bytes) option" where
  "netsys_init_header m b offv tagv sizev =
     (let off = Long_val offv in
      if sint off mod 8 \<noteq> 0 then Some (Inl (Invalid_argument ''Netsys_mem.init_header''))
      else do { m' \<leftarrow> store64 m (ba_data b + off) (push_bit 10 (Long_val sizev) + scast (Int_val tagv)); Some (Inr m') })"

fun cmp_loop :: "u8 list \<Rightarrow> u8 list \<Rightarrow> u64 \<Rightarrow> u64" where
  "cmp_loop (c1 # s1) (c2 # s2) d =
     (if c1 \<noteq> c2 then Val_long (word_of_int (uint c1 - uint c2)) else cmp_loop s1 s2 d)"
| "cmp_loop s1 s2 d = Val_long d"

text \<open>The strings as lists of bytes; \<open>same\<close> is the physical equality the function tests first.\<close>

definition netsys_cmp_string :: "bool \<Rightarrow> u8 list \<Rightarrow> u8 list \<Rightarrow> u64" where
  "netsys_cmp_string same s1 s2 =
     (if same then Val_long 0 else cmp_loop s1 s2 (of_nat (length s1) - of_nat (length s2)))"

definition netsys_init_string :: "bytes \<Rightarrow> bigarray \<Rightarrow> u64 \<Rightarrow> u64 \<Rightarrow> (exn + bytes) option" where
  "netsys_init_string m b offv lenv =
     (let off = Long_val offv; len = Long_val lenv in
      if sint off mod 8 \<noteq> 0 then Some (Inl (Invalid_argument ''Netsys_mem.init_string''))
      else do {
        let p = ba_data b + off;
        let wosize = (len + 8) div 8;
        m1 \<leftarrow> store64 m p (push_bit 10 wosize + String_tag);
        m2 \<leftarrow> store64 m1 (p + 8 * wosize) 0;
        let offset_index = wosize * 8 - 1;
        m3 \<leftarrow> mwrite m2 (p + (offset_index + 8)) [ucast (offset_index - len)];
        Some (Inr m3)
      })"

section \<open>Initialising a string\<close>

text \<open>The length of a string as the OCaml runtime computes it.\<close>

definition caml_string_length :: "bytes \<Rightarrow> u64 \<Rightarrow> u64 option" where
  "caml_string_length m s =
     do { hdr \<leftarrow> load64 m (s - 8); let temp = Wosize_hd hdr * 8 - 1; b \<leftarrow> m (s + temp); Some (temp - ucast b) }"

lemma caml_string_lengthI:
  "load64 m (s - 8) = Some hdr \<Longrightarrow> m (s + (Wosize_hd hdr * 8 - 1)) = Some b \<Longrightarrow>
   caml_string_length m s = Some (Wosize_hd hdr * 8 - 1 - ucast b)"
  by (simp add: caml_string_length_def Let_def)

lemma string_words:
  fixes len :: u64
  assumes "unat len < 2 ^ 56"
  shows "unat ((len + 8) div 8) = unat len div 8 + 1"
    and "unat ((len + 8) div 8 * 8 - 1) = 8 * (unat len div 8) + 7"
    and "unat ((len + 8) div 8 * 8 - 1 - len) = 7 - unat len mod 8"
proof -
  have l8: "unat (len + 8) = unat len + 8" using assms by (simp add: unat_word_ariths)
  then show w: "unat ((len + 8) div 8) = unat len div 8 + 1" by (simp add: unat_div)
  have w8: "unat ((len + 8) div 8 * 8) = 8 * (unat len div 8) + 8"
    using w assms by (simp add: unat_word_ariths)
  then show x: "unat ((len + 8) div 8 * 8 - 1) = 8 * (unat len div 8) + 7"
    by (subst unat_sub) (simp_all add: word_le_nat_alt)
  have "unat len \<le> 8 * (unat len div 8) + 7" by presburger
  then have "unat ((len + 8) div 8 * 8 - 1 - len) = 8 * (unat len div 8) + 7 - unat len"
    using x by (subst unat_sub) (simp_all add: word_le_nat_alt)
  then show "unat ((len + 8) div 8 * 8 - 1 - len) = 7 - unat len mod 8"
    using mult_div_mod_eq [of 8 "unat len"] by linarith
qed

lemma string_header:
  assumes "unat w < 2 ^ 54"
  shows "Wosize_hd (push_bit 10 w + String_tag) = w" "Tag_hd (push_bit 10 w + String_tag) = String_tag"
    "Color_hd (push_bit 10 w + String_tag) = 0"
proof -
  have masks: "(252 :: u64) = push_bit 2 (mask 6)" "(0xff :: u64) = mask 8" "(0x300 :: u64) = push_bit 8 (mask 2)"
    by (simp_all add: mask_eq_exp_minus_1 push_bit_eq_mult)
  have sum: "push_bit 10 w + String_tag = push_bit 10 w OR String_tag"
    unfolding masks by (rule disjunctive_add) (auto simp: bit_push_bit_iff bit_mask_iff)
  have p: "unat (push_bit 10 w) = unat w * 1024"
    using assms by (simp add: push_bit_eq_mult unat_word_ariths)
  have u: "unat (push_bit 10 w + String_tag) = unat w * 1024 + 252"
    using p assms by (simp add: unat_word_ariths)
  show "Wosize_hd (push_bit 10 w + String_tag) = w"
    unfolding Wosize_hd_def word_unat_eq_iff drop_bit_eq_div unat_div using u by simp
  have "Tag_hd (push_bit 10 w OR push_bit 2 (mask 6)) = push_bit 2 (mask 6)"
    unfolding Tag_hd_def masks(2)
    by (rule bit_word_eqI) (auto simp: bit_and_iff bit_or_iff bit_push_bit_iff bit_mask_iff)
  then show "Tag_hd (push_bit 10 w + String_tag) = String_tag" by (simp only: sum flip: masks(1))
  have "Color_hd (push_bit 10 w OR push_bit 2 (mask 6)) = 0"
    unfolding Color_hd_def masks(3)
    by (rule bit_word_eqI) (auto simp: bit_and_iff bit_or_iff bit_push_bit_iff bit_mask_iff)
  then show "Color_hd (push_bit 10 w + String_tag) = 0" by (simp only: sum flip: masks(1))
qed

lemma write_byte:
  assumes "range_ok m a n" "unat a \<le> unat x" "unat x < unat a + n"
  shows "\<exists>m'. mwrite m x [b] = Some m' \<and> same_domain m m' \<and> m' x = Some b \<and> (\<forall>y. y \<noteq> x \<longrightarrow> m' y = m y)"
proof -
  have "range_ok m x (length [b])" using assms by (intro range_ok_sub [OF assms(1)]) simp_all
  then have "mwrite m x [b] = Some (\<lambda>y. if in_range y x (length [b]) then Some ([b] ! (unat y - unat x)) else m y)"
    by (rule mwrite_ok)
  moreover have "in_range y x (length [b]) \<longleftrightarrow> y = x" for y
    by (auto simp: in_range_def word_unat_eq_iff)
  moreover have "m x \<noteq> None" using assms by (auto simp: range_ok_def in_range_def)
  ultimately show ?thesis by (auto simp: same_domain_def)
qed

lemma init_string_ok:
  assumes len: "unat len < 2 ^ 56" and al: "sint (Long_val offv) mod 8 = 0" "Long_val lenv = len"
    and r: "range_ok m p (8 * (unat len div 8) + 16)" and p: "p = ba_data b + Long_val offv"
  shows "\<exists>m' hdr. netsys_init_string m b offv lenv = Some (Inr m') \<and>
    load64 m' p = Some hdr \<and> Tag_hd hdr = String_tag \<and> Color_hd hdr = 0 \<and> unat (Wosize_hd hdr) = unat len div 8 + 1 \<and>
    caml_string_length m' (p + 8) = Some len \<and> same_domain m m' \<and>
    (\<forall>x. \<not> in_range x p 8 \<and> \<not> in_range x (p + of_nat (8 * (unat len div 8) + 8)) 8 \<longrightarrow> m' x = m x)"
proof -
  let ?w = "(len + 8) div 8" and ?n = "8 * (unat len div 8) + 8"
  define hdr where "hdr = push_bit 10 ?w + String_tag"
  note sw = string_words [OF len]
  have wb: "unat ?w < 2 ^ 54" using sw(1) len by simp
  note sh = string_header [OF wb, folded hdr_def]
  have bound: "unat p + ?n + 8 \<le> 2 ^ 64" using r by (simp add: range_ok_def)
  have last: "p + 8 * ?w = p + of_nat ?n" "p + ((?w * 8 - 1) + 8) = p + of_nat (?n + 7)"
  proof -
    have w: "?w = of_nat (unat len div 8 + 1)" unfolding sw(1) [symmetric] by simp
    have "8 * ?w = of_nat ?n" by (subst w) simp
    then show "p + 8 * ?w = p + of_nat ?n" by simp
    then show "p + ((?w * 8 - 1) + 8) = p + of_nat (?n + 7)" by (simp add: mult.commute)
  qed
  have u: "unat (p + of_nat ?n) = unat p + ?n" "unat (p + of_nat (?n + 7)) = unat p + (?n + 7)"
    using bound by (intro unat_add_of_nat, simp)+
  have "range_ok m p 8" by (rule range_ok_sub [OF r]) simp_all
  then obtain m1 where m1: "store64 m p hdr = Some m1" "same_domain m m1" "agrees_outside m m1 p 8" "load64 m1 p = Some hdr"
    using store64_ok by blast
  have r1: "range_ok m1 p (?n + 8)" using r m1(2) range_ok_same [of m m1] by (simp add: add.commute)
  have r1': "range_ok m1 (p + of_nat ?n) 8"
    using range_ok_sub [OF r1, of "p + of_nat ?n" 8] u by (simp del: of_nat_add)
  then obtain m2 where m2: "store64 m1 (p + of_nat ?n) 0 = Some m2" "same_domain m1 m2"
      "agrees_outside m1 m2 (p + of_nat ?n) 8"
    using store64_ok by blast
  have r2: "range_ok m2 p (?n + 8)" using r1 m2(2) range_ok_same [of m1 m2] by simp
  obtain m3 where m3: "mwrite m2 (p + of_nat (?n + 7)) [ucast (?w * 8 - 1 - len)] = Some m3" "same_domain m2 m3"
      "m3 (p + of_nat (?n + 7)) = Some (ucast (?w * 8 - 1 - len))" "\<forall>y. y \<noteq> p + of_nat (?n + 7) \<longrightarrow> m3 y = m2 y"
    using write_byte [OF r2, of "p + of_nat (?n + 7)" "ucast (?w * 8 - 1 - len)"] u by auto
  have res: "netsys_init_string m b offv lenv = Some (Inr m3)"
    using al p m1(1) m2(1) m3(1) unfolding netsys_init_string_def Let_def last [symmetric] hdr_def by simp
  have "in_range (p + of_nat (?n + 7)) (p + of_nat ?n) 8" unfolding in_range_def u by simp
  then have out: "agrees_outside m1 m3 (p + of_nat ?n) 8"
    using m2(3) m3(4) unfolding agrees_outside_def by metis
  have ld: "load64 m3 p = Some hdr"
    using m1(4) u bound by (subst load64_agrees [OF out]) (auto simp: range_disjoint_def simp del: of_nat_add)
  have byte: "(ucast (ucast (?w * 8 - 1 - len) :: u8) :: u64) = ?w * 8 - 1 - len"
    using sw(3) by (simp add: word_unat_eq_iff unsigned_ucast_eq take_bit_eq_mod unat_mod)
  have "caml_string_length m3 (p + 8) = Some (?w * 8 - 1 - (?w * 8 - 1 - len))"
  proof -
    have "p + 8 + (?w * 8 - 1) = p + of_nat (?n + 7)" using last(2) by (simp add: ac_simps)
    then have "m3 (p + 8 + (Wosize_hd hdr * 8 - 1)) = Some (ucast (?w * 8 - 1 - len))"
      using m3(3) by (simp only: sh(1))
    moreover have "load64 m3 (p + 8 - 8) = Some hdr" using ld by simp
    ultimately show ?thesis using caml_string_lengthI byte by (metis sh(1))
  qed
  moreover have "m3 x = m x" if "\<not> in_range x p 8" "\<not> in_range x (p + of_nat ?n) 8" for x
    using that out m1(3) by (simp add: agrees_outside_def)
  moreover have "same_domain m m3" using m1(2) m2(2) m3(2) by (blast intro: same_domain_trans)
  ultimately show ?thesis using res ld sh sw(1) by auto
qed

section \<open>Comparing strings\<close>

abbreviation byte_lex :: "(u8 \<times> u8) set" where "byte_lex \<equiv> {(a, b). a < b}"

text \<open>The sign of the comparison result, with the lengths as integers.\<close>

fun cmp_diff :: "u8 list \<Rightarrow> u8 list \<Rightarrow> int \<Rightarrow> int" where
  "cmp_diff (c1 # s1) (c2 # s2) d = (if c1 \<noteq> c2 then uint c1 - uint c2 else cmp_diff s1 s2 d)"
| "cmp_diff s1 s2 d = d"

lemma cmp_loop_diff: "cmp_loop s1 s2 (word_of_int d) = Val_long (word_of_int (cmp_diff s1 s2 d))"
  by (induction s1 s2 d rule: cmp_diff.induct) simp_all

lemma byte_bounds: "0 \<le> uint (b :: u8)" "uint (b :: u8) < 256"
  using uint_lt2p [of b] by simp_all

lemma cmp_diff_bound: "\<bar>d\<bar> < 2 ^ 62 \<Longrightarrow> \<bar>cmp_diff s1 s2 d\<bar> < 2 ^ 62"
proof (induction s1 s2 d rule: cmp_diff.induct)
  case (1 c1 s1 c2 s2 d)
  have "\<bar>uint c1 - uint c2\<bar> < 256"
    using byte_bounds [of c1] byte_bounds [of c2] unfolding abs_less_iff by linarith
  then show ?case using 1 by simp
qed auto

lemma cmp_diff_sign:
  "d = int (length s1) - int (length s2) \<Longrightarrow>
   (cmp_diff s1 s2 d < 0 \<longleftrightarrow> (s1, s2) \<in> lexord byte_lex) \<and> (cmp_diff s1 s2 d = 0 \<longleftrightarrow> s1 = s2)"
proof (induction s1 arbitrary: s2)
  case Nil
  then show ?case by (cases s2) auto
next
  case (Cons c1 s1)
  show ?case
  proof (cases s2)
    case Nil
    then show ?thesis using Cons by simp
  next
    case s2: (Cons c2 s2')
    have "uint c1 < uint c2 \<longleftrightarrow> c1 < c2" by (simp add: word_less_def)
    moreover have "uint c1 = uint c2 \<longleftrightarrow> c1 = c2" by (simp add: word_uint_eq_iff)
    ultimately show ?thesis using Cons.IH [of s2'] Cons.prems s2 by (cases "c1 = c2") auto
  qed
qed

text \<open>
  \<^verbatim>\<open>netsys_cmp_string\<close> is the lexicographic order of the byte strings: the OCaml integer it returns is
  negative, zero or positive as the first string is smaller than, equal to or greater than the second one.
\<close>

theorem netsys_cmp_string_order:
  assumes "length s1 < 2 ^ 61" "length s2 < 2 ^ 61" "same \<longrightarrow> s1 = s2"
  shows "(sint (Long_val (netsys_cmp_string same s1 s2)) < 0 \<longleftrightarrow> (s1, s2) \<in> lexord byte_lex) \<and>
    (sint (Long_val (netsys_cmp_string same s1 s2)) = 0 \<longleftrightarrow> s1 = s2)"
proof -
  let ?d = "int (length s1) - int (length s2)"
  have b: "\<bar>?d\<bar> < 2 ^ 62" using assms(1,2) by simp
  have irr: "(s2, s2) \<notin> lexord byte_lex" by (rule lexord_irreflexive) simp
  have w: "(of_nat (length s1) - of_nat (length s2) :: u64) = word_of_int ?d" by simp
  have "sint (Long_val (netsys_cmp_string same s1 s2)) = (if same then 0 else cmp_diff s1 s2 ?d)"
    using cmp_diff_bound [OF b, of s1 s2] Long_val_Val_long [of "cmp_diff s1 s2 ?d"] Long_val_Val_long [of 0]
    unfolding netsys_cmp_string_def w cmp_loop_diff by (simp add: sint_word_of_int)
  then show ?thesis using cmp_diff_sign [of ?d s1 s2] assms(3) irr by auto
qed

theorem netsys_cmp_string_order_witness:
  "sint (Long_val (netsys_cmp_string False [97, 98] [97, 200])) < 0 \<and>
   sint (Long_val (netsys_cmp_string False [97] [97, 98])) < 0 \<and>
   sint (Long_val (netsys_cmp_string False [97] [97])) = 0"
  using netsys_cmp_string_order [of "[97, 98]" "[97, 200]" False] netsys_cmp_string_order [of "[97]" "[97, 98]" False]
    netsys_cmp_string_order [of "[97]" "[97]" False]
  by simp

text \<open>
  Claim C29: \<^verbatim>\<open>netsys_init_string\<close> makes a string of the requested length. The block has a white string header
  with the right number of words, the OCaml runtime reads back exactly the length from the padding, and besides
  the header word and the last word nothing is written.
\<close>

theorem netsys_init_string_length:
  assumes "unat (Long_val lenv) < 2 ^ 56" "sint (Long_val offv) mod 8 = 0"
    and "range_ok m (ba_data b + Long_val offv) (8 * (unat (Long_val lenv) div 8) + 16)"
  shows "\<exists>m' hdr. netsys_init_string m b offv lenv = Some (Inr m') \<and>
    load64 m' (ba_data b + Long_val offv) = Some hdr \<and> Tag_hd hdr = String_tag \<and> Color_hd hdr = 0 \<and>
    unat (Wosize_hd hdr) = unat (Long_val lenv) div 8 + 1 \<and>
    caml_string_length m' (ba_data b + Long_val offv + 8) = Some (Long_val lenv) \<and> same_domain m m' \<and>
    (\<forall>x. \<not> in_range x (ba_data b + Long_val offv) 8 \<and>
         \<not> in_range x (ba_data b + Long_val offv + of_nat (8 * (unat (Long_val lenv) div 8) + 8)) 8 \<longrightarrow> m' x = m x)"
  using init_string_ok [OF assms(1,2) refl assms(3) refl] .

definition zero_mem :: bytes where "zero_mem x = Some 0"

theorem netsys_init_string_length_witness:
  "\<exists>m'. netsys_init_string zero_mem (alloc_ba 3 0x1000 64) (Val_long 16) (Val_long 11) = Some (Inr m') \<and>
     caml_string_length m' 0x1018 = Some 11"
proof -
  have v: "Long_val (Val_long 16) = 16" "Long_val (Val_long 11) = 11"
    using Long_val_Val_long [of 16] Long_val_Val_long [of 11] by simp_all
  have "range_ok zero_mem 0x1010 24" by (simp add: range_ok_def zero_mem_def)
  then show ?thesis
    using netsys_init_string_length [of "Val_long 11" "Val_long 16" zero_mem "alloc_ba 3 0x1000 64"]
    by (auto simp: v alloc_ba_def)
qed

section \<open>Blits\<close>

lemma memmove_ok:
  assumes "range_ok m s (unat n)" "range_ok m d (unat n)"
  shows "\<exists>m'. memmove m d s n = Some m' \<and> same_domain m m' \<and> agrees_outside m m' d (unat n) \<and>
    mread m' d (unat n) = mread m s (unat n)"
proof -
  define bs where "bs = map (\<lambda>i. the (m (s + of_nat i))) [0..<unat n]"
  let ?m = "\<lambda>x. if in_range x d (unat n) then Some (bs ! (unat x - unat d)) else m x"
  have rd: "mread m s (unat n) = Some bs" using mread_ok [OF assms(1)] by (simp add: bs_def)
  have l: "length bs = unat n" by (simp add: bs_def)
  have mv: "memmove m d s n = Some ?m" using rd mwrite_ok [of m d bs] assms(2) l by (simp add: memmove_def)
  have sd: "same_domain m ?m" using assms(2) by (auto simp: same_domain_def range_ok_def)
  have "mread ?m d (unat n) = Some (map (\<lambda>i. the (?m (d + of_nat i))) [0..<unat n])"
    using assms(2) sd by (intro mread_ok) (simp add: range_ok_same)
  also have "map (\<lambda>i. the (?m (d + of_nat i))) [0..<unat n] = map ((!) bs) [0..<unat n]"
  proof (rule map_cong [OF refl])
    fix i assume "i \<in> set [0..<unat n]"
    moreover from this have "unat (d + of_nat i) = unat d + i"
      using assms(2) by (intro unat_add_of_nat) (auto simp: range_ok_def)
    ultimately show "the (?m (d + of_nat i)) = bs ! i" by (simp add: in_range_def)
  qed
  also have "\<dots> = bs" using map_nth [of bs] l by simp
  finally show ?thesis using mv sd rd by (auto simp: agrees_outside_def)
qed

text \<open>
  A blit from a string to memory followed by the blit back into a string puts the same bytes into
  the second string, even when it overlaps the first one, and changes nothing but the two destinations.
\<close>

theorem netsys_blit_roundtrip:
  assumes "range_ok m (s + Long_val soffv) (unat (Long_val lenv))"
    and "range_ok m (ba_data mem + Long_val memoffv) (unat (Long_val lenv))"
    and "range_ok m (s' + Long_val soffv') (unat (Long_val lenv))"
  shows "\<exists>m1 m2. netsys_blit_string_to_memory m s soffv mem memoffv lenv = Some m1 \<and>
    netsys_blit_memory_to_string m1 mem memoffv s' soffv' lenv = Some m2 \<and>
    mread m2 (s' + Long_val soffv') (unat (Long_val lenv)) = mread m (s + Long_val soffv) (unat (Long_val lenv)) \<and>
    (\<forall>x. \<not> in_range x (ba_data mem + Long_val memoffv) (unat (Long_val lenv)) \<and>
         \<not> in_range x (s' + Long_val soffv') (unat (Long_val lenv)) \<longrightarrow> m2 x = m x)"
proof -
  obtain m1 where m1: "netsys_blit_string_to_memory m s soffv mem memoffv lenv = Some m1" "same_domain m m1"
      "agrees_outside m m1 (ba_data mem + Long_val memoffv) (unat (Long_val lenv))"
      "mread m1 (ba_data mem + Long_val memoffv) (unat (Long_val lenv)) =
         mread m (s + Long_val soffv) (unat (Long_val lenv))"
    using memmove_ok [OF assms(1,2)] by (auto simp: netsys_blit_string_to_memory_def)
  have "range_ok m1 (ba_data mem + Long_val memoffv) (unat (Long_val lenv))"
    "range_ok m1 (s' + Long_val soffv') (unat (Long_val lenv))"
    using assms(2,3) m1(2) range_ok_same [of m m1] by simp_all
  then obtain m2 where "netsys_blit_memory_to_string m1 mem memoffv s' soffv' lenv = Some m2"
      "agrees_outside m1 m2 (s' + Long_val soffv') (unat (Long_val lenv))"
      "mread m2 (s' + Long_val soffv') (unat (Long_val lenv)) =
         mread m1 (ba_data mem + Long_val memoffv) (unat (Long_val lenv))"
    using memmove_ok [of m1 "ba_data mem + Long_val memoffv" "Long_val lenv" "s' + Long_val soffv'"]
    by (auto simp: netsys_blit_memory_to_string_def)
  then show ?thesis using m1 by (auto simp: agrees_outside_def)
qed

theorem netsys_blit_roundtrip_witness:
  "\<exists>m1 m2. netsys_blit_string_to_memory zero_mem 0x100 (Val_long 3) (alloc_ba 3 0x1000 64) (Val_long 2) (Val_long 5) = Some m1 \<and>
     netsys_blit_memory_to_string m1 (alloc_ba 3 0x1000 64) (Val_long 2) 0x200 (Val_long 3) (Val_long 5) = Some m2 \<and>
     mread m2 0x203 5 = mread zero_mem 0x103 5"
proof -
  have v: "Long_val (Val_long 2) = 2" "Long_val (Val_long 3) = 3" "Long_val (Val_long 5) = 5"
    using Long_val_Val_long [of 2] Long_val_Val_long [of 3] Long_val_Val_long [of 5] by simp_all
  have "range_ok zero_mem a 5" if "unat a \<le> 2 ^ 63" for a using that by (simp add: range_ok_def zero_mem_def)
  then show ?thesis
    using netsys_blit_roundtrip [where m = zero_mem and s = "0x100" and soffv = "Val_long 3" and lenv = "Val_long 5" and
        mem = "alloc_ba 3 0x1000 64" and memoffv = "Val_long 2" and s' = "0x200" and soffv' = "Val_long 3"]
    by (auto simp: v alloc_ba_def)
qed

section \<open>Mappings\<close>

lemma unat_mod_le: "0 < q \<Longrightarrow> unat (p mod q :: u64) \<le> unat p \<and> unat (p mod q) < unat q"
  by (simp add: unat_mod word_less_nat_alt)

text \<open>
  Claim C30: mapping and unmapping fit together. When \<^verbatim>\<open>mmap\<close> returns a page-aligned address, the mapping that
  \<^verbatim>\<open>netsys_map_file\<close> asks for starts at a page boundary of the file, the data pointer of the bigarray is that of
  the requested position, and \<^verbatim>\<open>netsys_memory_unmap_file\<close> later unmaps exactly the address and length that were
  mapped and leaves the bigarray detached.
\<close>

theorem netsys_map_unmap:
  assumes "0 < ms_pagesize sys" "map_size sys (Int_val fdv) pos (Long_val sizev) = Inr basize"
    and "ms_mmap sys m addr (basize + pos mod ms_pagesize sys) PROT_RW (if shared then MAP_SHARED else MAP_PRIVATE)
           (Int_val fdv) (pos - pos mod ms_pagesize sys) = Inr (eff, m1)"
    and "eff mod ms_pagesize sys = 0" "unat eff + unat (ms_pagesize sys) \<le> 2 ^ 64"
  shows "\<exists>b. netsys_map_file sys m fdv pos addr shared sizev = (Inr b, m1) \<and>
    (pos - pos mod ms_pagesize sys) mod ms_pagesize sys = 0 \<and>
    ba_data b - eff = pos - (pos - pos mod ms_pagesize sys) \<and> ba_dim b = [basize] \<and>
    netsys_memory_unmap_file sys m2 b =
      (b\<lparr>ba_data := NULL, ba_flags := BA_UINT8\<rparr>,
       ms_munmap sys m2 eff (basize + pos mod ms_pagesize sys))"
proof -
  let ?g = "ms_pagesize sys"
  let ?b = "alloc_ba (BA_UINT8 OR BA_C_LAYOUT OR BA_MAPPED_FILE) (eff + pos mod ?g) basize"
  have map: "netsys_map_file sys m fdv pos addr shared sizev = (Inr ?b, m1)"
    using assms(2,3) by (simp add: netsys_map_file_def Let_def)
  have d: "unat (pos mod ?g) \<le> unat pos" "unat (pos mod ?g) < unat ?g"
    using unat_mod_le [OF assms(1)] by simp_all
  have "unat ((pos - pos mod ?g) mod ?g) = (unat pos - unat pos mod unat ?g) mod unat ?g"
    using d(1) by (simp add: unat_mod unat_sub word_le_nat_alt)
  then have al: "(pos - pos mod ?g) mod ?g = 0" by (simp add: word_unat_eq_iff minus_mod_eq_mult_div)
  have "unat (eff + pos mod ?g) = unat eff + unat (pos mod ?g)"
    using d(2) assms(5) by (simp add: unat_word_ariths)
  moreover have "unat eff mod unat ?g = 0" using assms(4) by (metis unat_mod unat_0)
  ultimately have "unat ((eff + pos mod ?g) mod ?g) = unat (pos mod ?g)"
    using d(2) by (simp add: unat_mod mod_add_eq [symmetric])
  then have rem: "(eff + pos mod ?g) mod ?g = pos mod ?g" by (simp add: word_unat_eq_iff)
  have "netsys_memory_unmap_file sys m2 ?b =
      (?b\<lparr>ba_data := NULL, ba_flags := BA_UINT8\<rparr>, ms_munmap sys m2 eff (basize + pos mod ?g))"
    by (simp add: netsys_memory_unmap_file_def alloc_ba_def ba_unmap_file_def Let_def rem)
  then show ?thesis using map al by (intro exI [of _ ?b]) (simp add: alloc_ba_def)
qed

definition sample_sys :: mem_sys where
  "sample_sys =
     \<lparr>ms_pagesize = 0x1000, ms_mmap = (\<lambda>m a n prot fl fd pos. Inr (0x7000, m)), ms_munmap = (\<lambda>m a n. m),
      ms_memalign = (\<lambda>m al n. Inr (0x9000, m)), ms_file_size = (\<lambda>fd. Inr 0x3000), ms_ftruncate = (\<lambda>fd n. None),
      ms_io = (\<lambda>c m fd a n fl. Inr (n, m)), ms_page_table = (\<lambda>add a b. 0)\<rparr>"

theorem netsys_map_unmap_witness:
  "\<exists>b. netsys_map_file sample_sys zero_mem (Val_long 3) 0x1234 NULL True (Val_long 0x100) = (Inr b, zero_mem) \<and>
     ba_data b = 0x7234 \<and> ba_dim b = [0x100] \<and>
     netsys_memory_unmap_file sample_sys zero_mem b = (b\<lparr>ba_data := NULL, ba_flags := 3\<rparr>, zero_mem)"
proof -
  have v: "Long_val (Val_long 0x100) = 0x100" using Long_val_Val_long [of "0x100"] by simp
  have sz: "map_size sample_sys (Int_val (Val_long 3)) 0x1234 (Long_val (Val_long 0x100)) = Inr 0x100"
    by (simp add: v map_size_def sample_sys_def)
  have mm: "ms_mmap sample_sys zero_mem NULL (0x100 + 0x1234 mod ms_pagesize sample_sys) PROT_RW
      (if True then MAP_SHARED else MAP_PRIVATE) (Int_val (Val_long 3)) (0x1234 - 0x1234 mod ms_pagesize sample_sys)
      = Inr (0x7000, zero_mem)"
    by (simp add: sample_sys_def)
  obtain b where "netsys_map_file sample_sys zero_mem (Val_long 3) 0x1234 NULL True (Val_long 0x100) = (Inr b, zero_mem)"
      "ba_data b - 0x7000 = 0x1234 - (0x1234 - 0x1234 mod ms_pagesize sample_sys)" "ba_dim b = [0x100]"
      "netsys_memory_unmap_file sample_sys zero_mem b =
        (b\<lparr>ba_data := NULL, ba_flags := BA_UINT8\<rparr>, ms_munmap sample_sys zero_mem 0x7000 (0x100 + 0x1234 mod ms_pagesize sample_sys))"
    using netsys_map_unmap [OF _ sz mm, of zero_mem] by (auto simp: sample_sys_def)
  then show ?thesis by (intro exI [of _ b]) (simp add: sample_sys_def diff_eq_eq)
qed

lemma round_up_pages:
  fixes n g :: u64
  assumes "0 < n" "0 < g" "unat n + unat g \<le> 2 ^ 64"
  shows "unat (((n - 1) div g + 1) * g) mod unat g = 0 \<and> unat n \<le> unat (((n - 1) div g + 1) * g) \<and>
    unat (((n - 1) div g + 1) * g) < unat n + unat g"
proof -
  have n1: "unat (n - 1) = unat n - 1" "0 < unat n" "0 < unat g"
    using assms(1,2) by (simp_all add: unat_minus_one word_less_nat_alt unat_gt_0)
  let ?k = "(unat n - 1) div unat g"
  have kg: "?k * unat g \<le> unat n - 1" "unat n - 1 < ?k * unat g + unat g"
    using n1(3) div_mod_decomp [of "unat n - 1" "unat g"] mod_less_divisor [of "unat g" "unat n - 1"] by linarith+
  have k1: "unat ((n - 1) div g + 1) = ?k + 1"
  proof -
    have "?k + 1 < 2 ^ 64"
    proof (cases "unat g = 1")
      case True
      then show ?thesis using assms(3) n1(2) by simp
    next
      case False
      then have "?k \<le> (unat n - 1) div 2" using n1(3) by (intro div_le_mono2) auto
      then show ?thesis using unat_u64_bound [of n] by simp
    qed
    then show ?thesis using n1(1) by (simp add: unat_word_ariths unat_div)
  qed
  have "(?k + 1) * unat g = ?k * unat g + unat g" by simp
  then have "(?k + 1) * unat g < 2 ^ 64" using kg(1) assms(3) n1(2) by linarith
  then have "unat (((n - 1) div g + 1) * g) = (?k + 1) * unat g"
    unfolding unat_mult_lem [symmetric] using k1 by (simp add: unat_word_ariths)
  moreover have "(?k + 1) * unat g mod unat g = 0" by simp
  moreover have "unat n \<le> (?k + 1) * unat g" "(?k + 1) * unat g < unat n + unat g"
    using kg n1(2) \<open>(?k + 1) * unat g = ?k * unat g + unat g\<close> by linarith+
  ultimately show ?thesis by simp
qed

text \<open>
  \<^verbatim>\<open>netsys_alloc_memory_pages\<close> rounds a request between 1 and 2^31 - 1 bytes up to the smallest multiple
  of the page size that is not smaller, asks \<^verbatim>\<open>mmap\<close> for that many bytes, and the bigarray has that length.
\<close>

theorem netsys_alloc_memory_pages_rounds:
  assumes "0 < n" "n < 2 ^ 31" "0 < ms_pagesize sys" "unat (ms_pagesize sys) \<le> 2 ^ 62"
  shows "\<exists>len. unat len mod unat (ms_pagesize sys) = 0 \<and> n \<le> unat len \<and> unat len < n + unat (ms_pagesize sys) \<and>
    netsys_alloc_memory_pages sys m start (Val_long (of_nat n)) exec =
      (case ms_mmap sys m start len (if exec then 7 else 3) 0x22 (-1) 0 of
         Inl e \<Rightarrow> (Inl (Unix_error e ''mmap''), m)
       | Inr (data, m') \<Rightarrow> (Inr (alloc_ba 0x403 data len), m'))"
proof -
  let ?n = "of_nat n :: u64"
  have len0: "(scast (Int_val (Val_long ?n)) :: u64) = ?n"
  proof -
    have "sint (Int_val (Val_long ?n)) = int n" using Int_val_Val_long(2) [OF assms(2)] .
    then show ?thesis by (metis of_int_of_nat_eq of_int_sint)
  qed
  have u: "unat ?n = n" using assms(2) by (simp add: unat_of_nat take_bit_eq_mod)
  have "0 < ?n" using assms(1) u by (simp add: word_less_nat_alt)
  then have "unat ((((?n - 1) div ms_pagesize sys + 1) * ms_pagesize sys)) mod unat (ms_pagesize sys) = 0 \<and>
      n \<le> unat (((?n - 1) div ms_pagesize sys + 1) * ms_pagesize sys) \<and>
      unat (((?n - 1) div ms_pagesize sys + 1) * ms_pagesize sys) < n + unat (ms_pagesize sys)"
    using round_up_pages [of ?n "ms_pagesize sys"] assms u by simp
  then show ?thesis
    by (intro exI [of _ "((?n - 1) div ms_pagesize sys + 1) * ms_pagesize sys"])
      (simp add: netsys_alloc_memory_pages_def Let_def len0 split: sum.split)
qed

theorem netsys_alloc_memory_pages_rounds_witness:
  "netsys_alloc_memory_pages sample_sys zero_mem NULL (Val_long (of_nat 5000)) False =
     (Inr (alloc_ba 0x403 0x7000 0x2000), zero_mem)"
proof -
  have n: "0 < (5000 :: nat)" "(5000 :: nat) < 2 ^ 31" by simp_all
  have pg: "0 < ms_pagesize sample_sys" "unat (ms_pagesize sample_sys) \<le> 2 ^ 62" by (simp_all add: sample_sys_def)
  obtain len where "unat len mod unat (ms_pagesize sample_sys) = 0" "5000 \<le> unat len" "unat len < 5000 + unat (ms_pagesize sample_sys)"
      and r: "netsys_alloc_memory_pages sample_sys zero_mem NULL (Val_long (of_nat 5000)) False =
       (case ms_mmap sample_sys zero_mem NULL len (if False then 7 else 3) 0x22 (-1) 0 of
         Inl e \<Rightarrow> (Inl (Unix_error e ''mmap''), zero_mem)
       | Inr (data, m') \<Rightarrow> (Inr (alloc_ba 0x403 data len), m'))"
    using netsys_alloc_memory_pages_rounds [of 5000 sample_sys zero_mem NULL False, OF n pg]
    by (elim exE conjE) (rule that)
  then have l: "4096 dvd unat len" "5000 \<le> unat len" "unat len < 9096" by (simp_all add: sample_sys_def mod_eq_0_iff_dvd)
  then obtain k where "unat len = 4096 * k" by blast
  then have "unat len = 8192" using l(2,3) by simp
  then have "len = 0x2000" by (simp add: word_unat_eq_iff)
  then show ?thesis unfolding r by (simp add: sample_sys_def)
qed

text \<open>The request passes through 32 bits: 4 GB plus one page is taken for one page.\<close>

lemma netsys_alloc_memory_pages_truncates:
  "netsys_alloc_memory_pages sample_sys zero_mem NULL (Val_long 0x100001000) False =
     (Inr (alloc_ba 0x403 0x7000 0x1000), zero_mem)"
proof -
  have "Long_val (Val_long 0x100001000) = 0x100001000" using Long_val_Val_long [of "0x100001000"] by simp
  then have "Int_val (Val_long 0x100001000) = 0x1000" by (simp add: Int_val_def)
  then show ?thesis by (simp add: netsys_alloc_memory_pages_def sample_sys_def)
qed

end
