(* ===== verification/Spawn.thy ===== *)
theory Spawn
  imports Netsys_Prelude
begin

text \<open>
  Spawning processes, \<^verbatim>\<open>src/src/netsys/netsys_c_spawn.c\<close>: \<^verbatim>\<open>netsys_spawn_nat\<close> with fork and exec and a
  control pipe over which the child reports its errors. The variant \<^verbatim>\<open>netsys_posix_spawn_nat\<close> is in the theory
  \<open>Posix_spawn\<close>.

  A process is a record with its descriptor table, working directory, process group, signal dispositions and mask;
  \<^verbatim>\<open>fork\<close> copies it. The constructors of the arguments are those of the OCaml types that the stubs take. Every
  system call may also fail for reasons of its own: \<open>se_fail\<close> says with which errno, depending on the place of
  the call (the number in brackets of the error messages in the source) and on the state of the process. The C functions
  \<^verbatim>\<open>close\<close>, \<^verbatim>\<open>dup\<close>, \<^verbatim>\<open>dup2\<close>, \<^verbatim>\<open>pipe\<close> and \<^verbatim>\<open>fcntl\<close> act on the descriptor table as POSIX defines them.
\<close>

section \<open>Processes and system calls\<close>

datatype wd_spec = Wd_keep | Wd_chdir string | Wd_fchdir int
datatype pg_spec = Pg_keep | Pg_new_bg_group | Pg_new_fg_group | Pg_join_group int
datatype fd_action = Fda_close int | Fda_close_ignore int | Fda_close_except "bool list" | Fda_dup2 int int
datatype sig_action = Sig_default int | Sig_ignore int | Sig_mask "int list"

text \<open>Open files: the two ends of the control pipe, the terminal, and others; a descriptor has a close-on-exec flag.\<close>

datatype ofile = Ctrl_read | Ctrl_write | Tty | Known_dir | File nat

type_synonym fdtab = "int \<Rightarrow> (ofile \<times> bool) option"

datatype sigdisp = Sig_dfl | Sig_ign | Sig_empty | Sig_handler nat

record proc =
  p_fds :: fdtab
  p_ctrl0 :: int
  p_ctrl1 :: int
  p_cwd :: "string + int"
  p_pgid :: int
  p_sig :: "int \<Rightarrow> sigdisp"
  p_mask :: "int \<Rightarrow> bool"
  p_spawn_mask :: "int \<Rightarrow> bool"

record spawn_env =
  se_fail :: "nat \<Rightarrow> proc \<Rightarrow> int option"
  se_nofile :: nat
  se_pid :: int
  se_signal :: "int \<Rightarrow> int"
  se_valid_signal :: "int \<Rightarrow> bool"
  se_beyond :: int

abbreviation (input) "EBADF \<equiv> (9 :: int)"
abbreviation (input) "ENOMEM \<equiv> (12 :: int)"
abbreviation (input) "EINVAL \<equiv> (22 :: int)"
abbreviation (input) "EMFILE \<equiv> (24 :: int)"
abbreviation (input) "SIGTTOU \<equiv> (22 :: int)"

text \<open>A step of a process gives nothing or the error \<^verbatim>\<open>(uerror_errno, uerror_function)\<close>, and the new state.\<close>

type_synonym sub_result = "(int \<times> string) option \<times> proc"

definition andthen :: "sub_result \<Rightarrow> (proc \<Rightarrow> sub_result) \<Rightarrow> sub_result" where
  "andthen r f = (case r of (None, p) \<Rightarrow> f p | (Some e, p) \<Rightarrow> (Some e, p))"

definition sys_call :: "spawn_env \<Rightarrow> nat \<Rightarrow> string \<Rightarrow> (proc \<Rightarrow> proc) \<Rightarrow> proc \<Rightarrow> sub_result" where
  "sys_call env site name eff p =
     (case se_fail env site p of Some e \<Rightarrow> (Some (e, name), p) | None \<Rightarrow> (None, eff p))"

definition sys_close :: "spawn_env \<Rightarrow> nat \<Rightarrow> int \<Rightarrow> proc \<Rightarrow> int option \<times> proc" where
  "sys_close env site fd p =
     (if p_fds p fd = None then (Some EBADF, p)
      else case se_fail env site p of
             Some e \<Rightarrow> (Some e, p) | None \<Rightarrow> (None, p\<lparr>p_fds := (p_fds p)(fd := None)\<rparr>))"

definition sub_close :: "spawn_env \<Rightarrow> nat \<Rightarrow> string \<Rightarrow> int \<Rightarrow> proc \<Rightarrow> sub_result" where
  "sub_close env site name fd p =
     (case sys_close env site fd p of (Some e, q) \<Rightarrow> (Some (e, name), q) | (None, q) \<Rightarrow> (None, q))"

text \<open>The lowest free descriptor.\<close>

definition free_fd :: "spawn_env \<Rightarrow> fdtab \<Rightarrow> int option" where
  "free_fd env t = map_option int (find (\<lambda>k. t (int k) = None) [0..<se_nofile env])"

definition set_cloexec :: "int \<Rightarrow> proc \<Rightarrow> proc" where
  "set_cloexec fd p = p\<lparr>p_fds := (p_fds p)(fd := map_option (\<lambda>(f, c). (f, True)) (p_fds p fd))\<rparr>"

definition dup2_tab :: "int \<Rightarrow> int \<Rightarrow> fdtab \<Rightarrow> fdtab" where
  "dup2_tab fd1 fd2 t = (if fd1 = fd2 then t else t(fd2 := map_option (\<lambda>(f, c). (f, False)) (t fd1)))"

section \<open>The child process\<close>

definition sub_start :: "spawn_env \<Rightarrow> proc \<Rightarrow> sub_result" where
  "sub_start env p =
     andthen (sub_close env 100 ''netsys_spawn/close [100]'' (p_ctrl0 p) p)
       (\<lambda>p. sys_call env 101 ''netsys_spawn/fcntl [101]'' (set_cloexec (p_ctrl1 p)) p)"

text \<open>
  The working directory. For \<^verbatim>\<open>Wd_fchdir\<close> the source reads field 1 of a block with a single field, that is, the
  word behind the block (\<open>se_beyond\<close>).
\<close>

definition sub_chdir :: "spawn_env \<Rightarrow> wd_spec \<Rightarrow> proc \<Rightarrow> sub_result" where
  "sub_chdir env wd p =
     (case wd of
        Wd_keep \<Rightarrow> (None, p)
      | Wd_chdir dir \<Rightarrow> sys_call env 110 ''netsys_spawn/chdir [110]'' (\<lambda>p. p\<lparr>p_cwd := Inl dir\<rparr>) p
      | Wd_fchdir fd \<Rightarrow> sys_call env 111 ''netsys_spawn/fchdir [111]'' (\<lambda>p. p\<lparr>p_cwd := Inr (se_beyond env)\<rparr>) p)"

definition sub_fg_group :: "spawn_env \<Rightarrow> proc \<Rightarrow> sub_result" where
  "sub_fg_group env p =
     andthen (sys_call env 140 ''netsys_spawn/setpgid [140]'' (\<lambda>p. p\<lparr>p_pgid := se_pid env\<rparr>) p) (\<lambda>p.
       case free_fd env (p_fds p) of
         None \<Rightarrow> (Some (EMFILE, ''netsys_spawn/open [141]''), p)
       | Some ttyfd \<Rightarrow>
           andthen (sys_call env 141 ''netsys_spawn/open [141]'' (\<lambda>p. p\<lparr>p_fds := (p_fds p)(ttyfd \<mapsto> (Tty, False))\<rparr>) p) (\<lambda>p.
           andthen (if se_fail env 142 p \<noteq> None then (Some (EINVAL, ''netsys_spawn/sigemptyset [142]''), p) else (None, p)) (\<lambda>p.
           andthen (sys_call env 143 ''netsys_spawn/sigaction [143]'' (\<lambda>p. p\<lparr>p_sig := (p_sig p)(SIGTTOU := Sig_empty)\<rparr>) p) (\<lambda>p.
           andthen (sys_call env 144 ''netsys_spawn/tcsetpgrp [144]'' (\<lambda>p. p) p)
             (sub_close env 145 ''netsys_spawn/close [145]'' ttyfd)))))"

definition sub_pg :: "spawn_env \<Rightarrow> pg_spec \<Rightarrow> proc \<Rightarrow> sub_result" where
  "sub_pg env pg p =
     (case pg of
        Pg_join_group g \<Rightarrow> sys_call env 120 ''netsys_spawn/setpgid [120]'' (\<lambda>p. p\<lparr>p_pgid := if g = 0 then se_pid env else g\<rparr>) p
      | Pg_keep \<Rightarrow> (None, p)
      | Pg_new_bg_group \<Rightarrow> sys_call env 130 ''netsys_spawn/setpgid [130]'' (\<lambda>p. p\<lparr>p_pgid := se_pid env\<rparr>) p
      | Pg_new_fg_group \<Rightarrow> sub_fg_group env p)"

fun sub_sigaddset :: "spawn_env \<Rightarrow> int list \<Rightarrow> proc \<Rightarrow> sub_result" where
  "sub_sigaddset env [] p = (None, p)"
| "sub_sigaddset env (s # ss) p =
     (if \<not> se_valid_signal env (se_signal env s) then (Some (EINVAL, ''netsys_spawn/sigaddset [190]''), p)
      else sub_sigaddset env ss (p\<lparr>p_spawn_mask := (p_spawn_mask p)(se_signal env s := True)\<rparr>))"

definition sub_sigaction :: "spawn_env \<Rightarrow> nat \<Rightarrow> string \<Rightarrow> string \<Rightarrow> int \<Rightarrow> sigdisp \<Rightarrow> proc \<Rightarrow> sub_result" where
  "sub_sigaction env site name1 name2 s disp p =
     andthen (if se_fail env site p \<noteq> None then (Some (EINVAL, name1), p) else (None, p))
       (sys_call env (site + 1) name2 (\<lambda>p. p\<lparr>p_sig := (p_sig p)(se_signal env s := disp)\<rparr>))"

definition sub_sig_action :: "spawn_env \<Rightarrow> sig_action \<Rightarrow> proc \<Rightarrow> sub_result" where
  "sub_sig_action env a p =
     (case a of
        Sig_default s \<Rightarrow> sub_sigaction env 170 ''netsys_spawn/sigemptyset [170]'' ''netsys_spawn/sigaction [171]'' s Sig_dfl p
      | Sig_ignore s \<Rightarrow> sub_sigaction env 180 ''netsys_spawn/sigemptyset [180]'' ''netsys_spawn/sigaction [181]'' s Sig_ign p
      | Sig_mask ss \<Rightarrow> sub_sigaddset env ss (p\<lparr>p_spawn_mask := (\<lambda>s. False)\<rparr>))"

fun sub_sig_actions :: "spawn_env \<Rightarrow> sig_action list \<Rightarrow> proc \<Rightarrow> sub_result" where
  "sub_sig_actions env [] p = (None, p)"
| "sub_sig_actions env (a # as) p = andthen (sub_sig_action env a p) (sub_sig_actions env as)"

text \<open>The loop of \<^verbatim>\<open>Fda_close_except\<close>, for the descriptors from \<open>k\<close> on; errors of \<^verbatim>\<open>close\<close> are ignored.\<close>

fun close_except :: "spawn_env \<Rightarrow> bool list \<Rightarrow> nat \<Rightarrow> nat \<Rightarrow> proc \<Rightarrow> proc" where
  "close_except env keep 0 k p = p"
| "close_except env keep (Suc n) k p =
     close_except env keep n (Suc k)
       (if (k \<ge> length keep \<or> \<not> keep ! k) \<and> int k \<noteq> p_ctrl1 p
        then snd (sys_close env 211 (int k) p) else p)"

definition sub_dup2 :: "spawn_env \<Rightarrow> int \<Rightarrow> int \<Rightarrow> proc \<Rightarrow> sub_result" where
  "sub_dup2 env fd1 fd2 p =
     (if fd1 = p_ctrl1 p then (Some (EBADF, ''netsys_spawn/fda_dup2 [220]''), p)
      else if p_fds p fd1 = None then (Some (EBADF, ''netsys_spawn/fcntl [221]''), p)
      else
        andthen (sys_call env 221 ''netsys_spawn/fcntl [221]'' (\<lambda>p. p) p) (\<lambda>p.
        andthen
          (if fd2 = p_ctrl1 p
           then case free_fd env (p_fds p) of
                  None \<Rightarrow> (Some (EMFILE, ''netsys_spawn/dup [222]''), p)
                | Some new \<Rightarrow>
                    andthen (sys_call env 222 ''netsys_spawn/dup [222]''
                        (\<lambda>p. p\<lparr>p_fds := (p_fds p)(new := map_option (\<lambda>(f, c). (f, False)) (p_fds p (p_ctrl1 p))), p_ctrl1 := new\<rparr>) p) (\<lambda>p.
                      sys_call env 223 ''netsys_spawn/fcntl [223]'' (set_cloexec (p_ctrl1 p)) p)
           else (None, p)) (\<lambda>p.
        if fd2 < 0 \<or> fd2 \<ge> int (se_nofile env) then (Some (EBADF, ''netsys_spawn/dup2 [224]''), p)
        else sys_call env 224 ''netsys_spawn/dup2 [224]'' (\<lambda>p. p\<lparr>p_fds := dup2_tab fd1 fd2 (p_fds p)\<rparr>) p)))"

definition sub_fd_action :: "spawn_env \<Rightarrow> fd_action \<Rightarrow> proc \<Rightarrow> sub_result" where
  "sub_fd_action env a p =
     (case a of
        Fda_close fd1 \<Rightarrow>
          if fd1 = p_ctrl1 p then (Some (EBADF, ''netsys_spawn/fda_close [200]''), p)
          else sub_close env 201 ''netsys_spawn/close [201]'' fd1 p
      | Fda_close_ignore fd1 \<Rightarrow>
          if fd1 \<noteq> p_ctrl1 p
          then case sys_close env 210 fd1 p of
                 (Some e, q) \<Rightarrow> if e \<noteq> EBADF then (Some (e, ''netsys_spawn/close [210]''), q) else (None, q)
               | (None, q) \<Rightarrow> (None, q)
          else (None, p)
      | Fda_close_except keep \<Rightarrow> (None, close_except env keep (se_nofile env) 0 p)
      | Fda_dup2 fd1 fd2 \<Rightarrow> sub_dup2 env fd1 fd2 p)"

fun sub_fd_actions :: "spawn_env \<Rightarrow> fd_action list \<Rightarrow> proc \<Rightarrow> sub_result" where
  "sub_fd_actions env [] p = (None, p)"
| "sub_fd_actions env (a # as) p = andthen (sub_fd_action env a p) (sub_fd_actions env as)"

text \<open>
  The child up to \<^verbatim>\<open>execve\<close>. A successful \<^verbatim>\<open>execve\<close> closes the descriptors with the close-on-exec flag and resets
  caught signals.
\<close>

definition exec_image :: "proc \<Rightarrow> proc" where
  "exec_image p = p\<lparr>p_fds := (\<lambda>fd. case p_fds p fd of Some (f, False) \<Rightarrow> Some (f, False) | _ \<Rightarrow> None),
     p_sig := (\<lambda>s. if p_sig p s = Sig_ign then Sig_ign else Sig_dfl)\<rparr>"

definition sub_process ::
    "spawn_env \<Rightarrow> wd_spec \<Rightarrow> pg_spec \<Rightarrow> fd_action list \<Rightarrow> sig_action list \<Rightarrow> proc \<Rightarrow> sub_result" where
  "sub_process env wd pg fda sga p =
     andthen (sub_start env p) (\<lambda>p.
     andthen (sub_chdir env wd p) (\<lambda>p.
     andthen (sub_pg env pg p) (\<lambda>p.
     andthen (sub_sig_actions env sga p) (\<lambda>p.
     andthen (sub_fd_actions env fda p) (\<lambda>p.
     andthen (sys_call env 241 ''netsys_spawn/sigprocmask [241]'' (\<lambda>p. p\<lparr>p_mask := p_spawn_mask p\<rparr>) p) (\<lambda>p.
     sys_call env 290 ''netsys_spawn/execve [290]'' exec_image p))))))"

section \<open>The calling process\<close>

text \<open>What became of the child: not forked, running the program, a zombie, or reaped.\<close>

datatype child = No_child | Running proc | Zombie | Reaped

text \<open>
  The control pipe as the parent sees it after closing its own write end: \<open>Some (Some (e, f))\<close> is the marshalled
  error of the child, \<open>Some None\<close> the end of file. The child writes to the descriptor in \<^verbatim>\<open>ctrl_pipe[1]\<close>. An end of file
  needs that no process has the write end open; otherwise the read blocks (\<open>None\<close>). The function name is copied into an
  array of 64 bytes; a longer one would overflow it (\<open>None\<close>).
\<close>

definition ctrl_read :: "spawn_env \<Rightarrow> sub_result \<Rightarrow> (int \<times> string) option option" where
  "ctrl_read env r =
     (case r of
        (Some (e, f), p) \<Rightarrow>
          if length f \<ge> 64 then None
          else (case p_fds p (p_ctrl1 p) of Some (Ctrl_write, c) \<Rightarrow> Some (Some (e, f)) | _ \<Rightarrow> Some None)
      | (None, p) \<Rightarrow>
          if list_ex (\<lambda>fd. map_option fst (p_fds p (int fd)) = Some Ctrl_write) [0..<se_nofile env]
          then None else Some None)"

text \<open>
  The code behind the label \<^verbatim>\<open>main_exit\<close>: the first error is reported. \<open>err\<close> is the pending error, \<open>ret\<close> the return
  value, \<open>save\<close> the old signal mask, the flags say which ends of the pipe are still to be closed.
\<close>

definition first_error :: "(int \<times> string) option \<Rightarrow> int option \<Rightarrow> string \<Rightarrow> (int \<times> string) option" where
  "first_error err code name = (case (err, code) of (None, Some e) \<Rightarrow> Some (e, name) | _ \<Rightarrow> err)"

definition main_exit ::
    "spawn_env \<Rightarrow> (int \<Rightarrow> bool) \<Rightarrow> bool \<Rightarrow> bool \<Rightarrow> (int \<times> string) option \<Rightarrow> int \<Rightarrow> child \<Rightarrow> proc \<Rightarrow> (exn + int) \<times> child \<times> proc" where
  "main_exit env save pipe0 pipe1 err ret ch p =
     (let (err1, p1) =
            (case se_fail env 400 p of
               Some e \<Rightarrow> (first_error err (Some e) ''netsys_spawn/pthread_sigmask [400]'', p)
             | None \<Rightarrow> (err, p\<lparr>p_mask := save\<rparr>));
          (err2, p2) =
            (if pipe0 then (case sys_close env 410 (p_ctrl0 p1) p1 of
                              (code, q) \<Rightarrow> (first_error err1 code ''netsys_spawn/close [410]'', q))
             else (err1, p1));
          (err3, p3) =
            (if pipe1 then (case sys_close env 411 (p_ctrl1 p2) p2 of
                              (code, q) \<Rightarrow> (first_error err2 code ''netsys_spawn/close [411]'', q))
             else (err2, p2))
      in (case err3 of Some (e, f) \<Rightarrow> Inl (Unix_error e f) | None \<Rightarrow> Inr ret, ch, p3))"

text \<open>The parent after the fork; \<open>r\<close> is what the child does. The wait for a failed child is repeated until it ends.\<close>

definition main_process ::
    "spawn_env \<Rightarrow> (int \<Rightarrow> bool) \<Rightarrow> sub_result \<Rightarrow> proc \<Rightarrow> ((exn + int) \<times> child \<times> proc) option" where
  "main_process env save r p =
     (let ch = (case r of (None, q) \<Rightarrow> Running q | (Some e, q) \<Rightarrow> Zombie) in
      case sys_close env 300 (p_ctrl1 p) p of
        (Some e, p1) \<Rightarrow> Some (main_exit env save True True (Some (e, ''netsys_spawn/close [300]'')) 0 ch p1)
      | (None, p1) \<Rightarrow>
          (case se_fail env 301 p1 of
             Some e \<Rightarrow> Some (main_exit env save True False (Some (e, ''netsys_spawn/read [301]'')) 0 ch p1)
           | None \<Rightarrow> do {
               msg \<leftarrow> ctrl_read env r;
               Some (case msg of
                       None \<Rightarrow> main_exit env save True False None (se_pid env) ch p1
                     | Some err \<Rightarrow> main_exit env save True False (Some err) 0 Reaped p1)
             }))"

definition sys_pipe :: "spawn_env \<Rightarrow> proc \<Rightarrow> int option \<times> proc" where
  "sys_pipe env p =
     (case free_fd env (p_fds p) of
        None \<Rightarrow> (Some EMFILE, p)
      | Some r \<Rightarrow>
          (case free_fd env ((p_fds p)(r \<mapsto> (Ctrl_read, False))) of
             None \<Rightarrow> (Some EMFILE, p)
           | Some w \<Rightarrow>
               (case se_fail env 10 p of
                  Some e \<Rightarrow> (Some e, p)
                | None \<Rightarrow> (None, p\<lparr>p_fds := (p_fds p)(r \<mapsto> (Ctrl_read, False), w \<mapsto> (Ctrl_write, False)),
                                     p_ctrl0 := r, p_ctrl1 := w\<rparr>))))"

definition netsys_spawn_nat ::
    "spawn_env \<Rightarrow> wd_spec \<Rightarrow> pg_spec \<Rightarrow> fd_action list \<Rightarrow> sig_action list \<Rightarrow> proc \<Rightarrow>
     ((exn + int) \<times> child \<times> proc) option" where
  "netsys_spawn_nat env wd pg fda sga p =
     (if se_fail env 0 p \<noteq> None then Some (Inl (Unix_error EINVAL ''netsys_spawn/sigfillset [000]''), No_child, p)
      else case se_fail env 1 p of
        Some e \<Rightarrow> Some (Inl (Unix_error e ''netsys_spawn/pthread_sigmask [001]''), No_child, p)
      | None \<Rightarrow>
          let save = p_mask p;
              p1 = p\<lparr>p_mask := (\<lambda>s. True), p_spawn_mask := save\<rparr>
          in case sys_pipe env p1 of
               (Some e, p2) \<Rightarrow> Some (main_exit env save False False (Some (e, ''netsys_spawn/pipe [010]'')) 0 No_child p2)
             | (None, p2) \<Rightarrow>
                 if se_fail env 20 p2 \<noteq> None
                 then Some (main_exit env save True True (Some (ENOMEM, ''netsys_spawn/malloc [020]'')) 0 No_child p2)
                 else if se_fail env 21 p2 \<noteq> None
                 then Some (main_exit env save True True (Some (ENOMEM, ''netsys_spawn/malloc [021]'')) 0 No_child p2)
                 else case se_fail env 31 p2 of
                   Some e \<Rightarrow> Some (main_exit env save True True (Some (e, ''netsys_spawn/fork [031]'')) 0 No_child p2)
                 | None \<Rightarrow> main_process env save (sub_process env wd pg fda sga p2) p2)"

section \<open>The control pipe stays with the child\<close>

definition ctrl_open :: "proc \<Rightarrow> bool" where
  "ctrl_open p \<longleftrightarrow> (\<exists>c. p_fds p (p_ctrl1 p) = Some (Ctrl_write, c))"

definition ctrl_only :: "proc \<Rightarrow> bool" where
  "ctrl_only p \<longleftrightarrow> (\<forall>fd. fd \<noteq> p_ctrl1 p \<longrightarrow> map_option fst (p_fds p fd) \<noteq> Some Ctrl_write)"

text \<open>No descriptor leads to either end of the control pipe.\<close>

definition no_ctrl :: "proc \<Rightarrow> bool" where
  "no_ctrl p \<longleftrightarrow> (\<forall>fd. map_option fst (p_fds p fd) \<noteq> Some Ctrl_read \<and> map_option fst (p_fds p fd) \<noteq> Some Ctrl_write)"

lemma no_ctrl_frame [simp]: "no_ctrl (p\<lparr>p_mask := m, p_spawn_mask := n\<rparr>) = no_ctrl p"
  by (simp add: no_ctrl_def)

definition ctrl_safe :: "proc \<Rightarrow> bool" where
  "ctrl_safe p \<longleftrightarrow> p_fds p (p_ctrl1 p) = Some (Ctrl_write, True) \<and> ctrl_only p"

definition good_step :: "sub_result \<Rightarrow> bool" where
  "good_step r \<longleftrightarrow> (case r of (None, p) \<Rightarrow> ctrl_safe p | (Some (e, f), p) \<Rightarrow> ctrl_open p \<and> length f < 64)"

lemma good_step_simps [simp]:
  "good_step (None, p) \<longleftrightarrow> ctrl_safe p" "good_step (Some (e, f), p) \<longleftrightarrow> ctrl_open p \<and> length f < 64"
  by (simp_all add: good_step_def)

lemma ctrl_safe_open [simp]: "ctrl_safe p \<Longrightarrow> ctrl_open p"
  unfolding ctrl_safe_def ctrl_open_def by blast

lemma andthen_good: "good_step r \<Longrightarrow> (\<And>p. ctrl_safe p \<Longrightarrow> good_step (f p)) \<Longrightarrow> good_step (andthen r f)"
  by (cases r) (auto simp: andthen_def split: option.splits)

lemma sys_call_good:
  "ctrl_open p \<Longrightarrow> length name < 64 \<Longrightarrow> ctrl_safe (eff p) \<Longrightarrow> good_step (sys_call env site name eff p)"
  by (simp add: sys_call_def split: option.split)

lemma ctrl_safe_frame [simp]:
  "ctrl_safe (p\<lparr>p_cwd := x1\<rparr>) = ctrl_safe p" "ctrl_safe (p\<lparr>p_pgid := x2\<rparr>) = ctrl_safe p"
  "ctrl_safe (p\<lparr>p_sig := x3\<rparr>) = ctrl_safe p" "ctrl_safe (p\<lparr>p_mask := x4\<rparr>) = ctrl_safe p"
  "ctrl_safe (p\<lparr>p_spawn_mask := x5\<rparr>) = ctrl_safe p"
  by (simp_all add: ctrl_safe_def ctrl_only_def)

lemma free_fd_Some: "free_fd env t = Some k \<Longrightarrow> t k = None \<and> 0 \<le> k \<and> k < int (se_nofile env)"
  by (auto simp: free_fd_def find_Some_iff)

lemma free_fd_None: "free_fd env t = None \<Longrightarrow> \<forall>k < se_nofile env. t (int k) \<noteq> None"
  by (auto simp: free_fd_def find_None_iff)

lemma ctrl_safe_close: "ctrl_safe p \<Longrightarrow> fd \<noteq> p_ctrl1 p \<Longrightarrow> ctrl_safe (p\<lparr>p_fds := (p_fds p)(fd := None)\<rparr>)"
  by (simp add: ctrl_safe_def ctrl_only_def)

lemma ctrl_safe_sys_close:
  "ctrl_safe p \<Longrightarrow> fd \<noteq> p_ctrl1 p \<Longrightarrow> sys_close env site fd p = (code, q) \<Longrightarrow> ctrl_safe q"
  by (auto simp: sys_close_def ctrl_safe_close split: if_splits option.splits)

lemma sub_close_good:
  "ctrl_safe p \<Longrightarrow> fd \<noteq> p_ctrl1 p \<Longrightarrow> length name < 64 \<Longrightarrow> good_step (sub_close env site name fd p)"
  using ctrl_safe_sys_close [of p fd env site]
  by (auto simp: sub_close_def split: prod.split option.split)

lemma sub_chdir_good: "ctrl_safe p \<Longrightarrow> good_step (sub_chdir env wd p)"
  by (cases wd) (simp_all add: sub_chdir_def sys_call_good)

lemma sub_fg_group_good:
  assumes "ctrl_safe p"
  shows "good_step (sub_fg_group env p)"
proof -
  have tty: "fd \<noteq> p_ctrl1 p" "ctrl_safe (p\<lparr>p_pgid := g, p_fds := (p_fds p)(fd \<mapsto> (Tty, False))\<rparr>)"
    if "free_fd env (p_fds p) = Some fd" for fd g
    using assms free_fd_Some [OF that] by (auto simp: ctrl_safe_def ctrl_only_def)
  then have op: "ctrl_open (p\<lparr>p_pgid := g, p_fds := (p_fds p)(fd \<mapsto> (Tty, False))\<rparr>)"
    "ctrl_open (p\<lparr>p_pgid := g, p_fds := (p_fds p)(fd \<mapsto> (Tty, False)), p_sig := sg\<rparr>)"
    if "free_fd env (p_fds p) = Some fd" for fd g sg
    using that by simp_all
  show ?thesis
    using assms
    by (auto simp: sub_fg_group_def andthen_def sys_call_def tty op intro!: sub_close_good split: option.splits)
qed

lemma sub_pg_good: "ctrl_safe p \<Longrightarrow> good_step (sub_pg env pg p)"
  by (cases pg) (simp_all add: sub_pg_def sys_call_good sub_fg_group_good)

lemma sub_sigaddset_good: "ctrl_safe p \<Longrightarrow> good_step (sub_sigaddset env ss p)"
  by (induction env ss p rule: sub_sigaddset.induct) simp_all

lemma sub_sig_action_good: "ctrl_safe p \<Longrightarrow> good_step (sub_sig_action env a p)"
  by (cases a)
    (auto simp: sub_sig_action_def sub_sigaction_def sub_sigaddset_good intro!: andthen_good sys_call_good)

lemma sub_sig_actions_good: "ctrl_safe p \<Longrightarrow> good_step (sub_sig_actions env as p)"
  by (induction as arbitrary: p) (simp_all add: andthen_good sub_sig_action_good)

lemma close_except_ctrl:
  "ctrl_safe p \<Longrightarrow> ctrl_safe (close_except env keep n k p) \<and> p_ctrl1 (close_except env keep n k p) = p_ctrl1 p"
proof (induction n arbitrary: k p)
  case (Suc n)
  let ?q = "if (k \<ge> length keep \<or> \<not> keep ! k) \<and> int k \<noteq> p_ctrl1 p then snd (sys_close env 211 (int k) p) else p"
  have "ctrl_safe ?q"
    using Suc.prems ctrl_safe_sys_close [of p "int k" env 211 "fst (sys_close env 211 (int k) p)"] by simp
  moreover have "p_ctrl1 ?q = p_ctrl1 p" by (simp add: sys_close_def split: option.split)
  ultimately show ?case using Suc.IH [of ?q "Suc k"] by simp
qed simp

text \<open>
  Moving the control pipe away before \<^verbatim>\<open>dup2\<close> writes over its descriptor: both descriptors are open in between, then
  only the new one.
\<close>

lemma ctrl_safe_dup2:
  "ctrl_safe p \<Longrightarrow> fd1 \<noteq> p_ctrl1 p \<Longrightarrow> fd2 \<noteq> p_ctrl1 p \<Longrightarrow> ctrl_safe (p\<lparr>p_fds := dup2_tab fd1 fd2 (p_fds p)\<rparr>)"
  by (auto simp: ctrl_safe_def ctrl_only_def dup2_tab_def option.map_comp comp_def split: option.splits)

lemma ctrl_moved:
  assumes "ctrl_safe p" "p_fds p new = None" "fd1 \<noteq> p_ctrl1 p" "p_fds p fd1 \<noteq> None"
  defines "p1 \<equiv> p\<lparr>p_fds := (p_fds p)(new := map_option (\<lambda>(f, c). (f, False)) (p_fds p (p_ctrl1 p))), p_ctrl1 := new\<rparr>"
  shows "ctrl_open p1" "ctrl_open (set_cloexec new p1)"
    "ctrl_safe ((set_cloexec new p1)\<lparr>p_fds := dup2_tab fd1 (p_ctrl1 p) (p_fds (set_cloexec new p1))\<rparr>)"
proof -
  obtain f c where f: "p_fds p fd1 = Some (f, c)" "f \<noteq> Ctrl_write"
    using assms(1,3,4) by (fastforce simp: ctrl_safe_def ctrl_only_def)
  have new: "new \<noteq> fd1" "new \<noteq> p_ctrl1 p" using assms(1,2,4) by (auto simp: ctrl_safe_def)
  show "ctrl_open p1" "ctrl_open (set_cloexec new p1)"
    using assms(1) by (auto simp: ctrl_open_def ctrl_safe_def set_cloexec_def p1_def)
  show "ctrl_safe ((set_cloexec new p1)\<lparr>p_fds := dup2_tab fd1 (p_ctrl1 p) (p_fds (set_cloexec new p1))\<rparr>)"
    using assms(1,3) f new by (auto simp: ctrl_safe_def ctrl_only_def set_cloexec_def p1_def dup2_tab_def)
qed

lemma sub_dup2_good:
  assumes "ctrl_safe p"
  shows "good_step (sub_dup2 env fd1 fd2 p)"
proof (cases "fd1 = p_ctrl1 p \<or> p_fds p fd1 = None \<or> fd2 \<noteq> p_ctrl1 p")
  case True
  then show ?thesis
    using assms ctrl_safe_dup2 [of p fd1 fd2]
    by (auto simp: sub_dup2_def andthen_def sys_call_def split: option.splits)
next
  case False
  show ?thesis
  proof (cases "free_fd env (p_fds p)")
    case None
    then show ?thesis
      using assms False by (auto simp: sub_dup2_def andthen_def sys_call_def split: option.splits)
  next
    case (Some new)
    have m: "p_fds p new = None" "fd1 \<noteq> p_ctrl1 p" "p_fds p fd1 \<noteq> None" using free_fd_Some [OF Some] False by auto
    show ?thesis
      using assms False Some ctrl_moved [OF assms m]
      by (auto simp: sub_dup2_def andthen_def sys_call_def split: option.splits)
  qed
qed

lemma sub_fd_action_good: "ctrl_safe p \<Longrightarrow> good_step (sub_fd_action env a p)"
proof (cases a)
  case (Fda_close_ignore fd)
  assume "ctrl_safe p"
  then show ?thesis
    using Fda_close_ignore ctrl_safe_sys_close [of p fd env 210]
    by (auto simp: sub_fd_action_def split: prod.split option.split)
qed (auto simp: sub_fd_action_def sub_close_good close_except_ctrl sub_dup2_good)

lemma sub_fd_actions_good: "ctrl_safe p \<Longrightarrow> good_step (sub_fd_actions env as p)"
  by (induction as arbitrary: p) (simp_all add: andthen_good sub_fd_action_good)

text \<open>The state in which the child starts: the pipe is open on both ends, no other descriptor leads to it.\<close>

definition forked :: "proc \<Rightarrow> bool" where
  "forked p \<longleftrightarrow> p_fds p (p_ctrl0 p) = Some (Ctrl_read, False) \<and> p_fds p (p_ctrl1 p) = Some (Ctrl_write, False) \<and>
     ctrl_only p \<and> (\<forall>fd. fd \<noteq> p_ctrl0 p \<longrightarrow> map_option fst (p_fds p fd) \<noteq> Some Ctrl_read)"

lemma sub_start_good: "forked p \<Longrightarrow> good_step (sub_start env p)"
  by (auto simp: sub_start_def sub_close_def sys_close_def andthen_def sys_call_def forked_def ctrl_open_def
      ctrl_safe_def ctrl_only_def set_cloexec_def split: option.splits)

text \<open>
  The read end: the child closes it first (line 176), and no later action can bring it back, because every action copies
  only descriptors that are open.
\<close>

definition read_closed :: "proc \<Rightarrow> bool" where
  "read_closed p \<longleftrightarrow> (\<forall>fd. map_option fst (p_fds p fd) \<noteq> Some Ctrl_read)"

lemma read_closed_frame [simp]:
  "read_closed (p\<lparr>p_cwd := x1\<rparr>) = read_closed p" "read_closed (p\<lparr>p_pgid := x2\<rparr>) = read_closed p"
  "read_closed (p\<lparr>p_sig := x3\<rparr>) = read_closed p" "read_closed (p\<lparr>p_mask := x4\<rparr>) = read_closed p"
  "read_closed (p\<lparr>p_spawn_mask := x5\<rparr>) = read_closed p" "read_closed (p\<lparr>p_ctrl1 := x6\<rparr>) = read_closed p"
  by (simp_all add: read_closed_def)

lemma read_closed_cloexec [simp]: "read_closed (set_cloexec fd p) = read_closed p"
  by (auto simp: read_closed_def set_cloexec_def option.map_comp comp_def case_prod_beta)

lemma read_closed_upd:
  "read_closed p \<Longrightarrow> map_option fst v \<noteq> Some Ctrl_read \<Longrightarrow> read_closed (p\<lparr>p_fds := (p_fds p)(fd := v)\<rparr>)"
  by (simp add: read_closed_def)

lemma read_closed_copy:
  "read_closed p \<Longrightarrow> read_closed (p\<lparr>p_fds := (p_fds p)(fd2 := map_option (\<lambda>(f, c). (f, False)) (p_fds p fd1))\<rparr>)"
  by (intro read_closed_upd) (auto simp: read_closed_def option.map_comp comp_def case_prod_beta)

lemma read_closed_dup2: "read_closed p \<Longrightarrow> read_closed (p\<lparr>p_fds := dup2_tab fd1 fd2 (p_fds p)\<rparr>)"
  using read_closed_copy [of p fd2 fd1] by (simp add: dup2_tab_def)

lemma read_closed_andthen:
  "read_closed (snd r) \<Longrightarrow> (\<And>p. read_closed p \<Longrightarrow> read_closed (snd (f p))) \<Longrightarrow> read_closed (snd (andthen r f))"
  by (cases r) (auto simp: andthen_def split: option.splits)

lemma read_closed_call: "read_closed p \<Longrightarrow> read_closed (eff p) \<Longrightarrow> read_closed (snd (sys_call env site name eff p))"
  by (simp add: sys_call_def split: option.split)

lemma read_closed_close:
  "read_closed p \<Longrightarrow> read_closed (snd (sys_close env site fd p))"
  "read_closed p \<Longrightarrow> read_closed (snd (sub_close env site name fd p))"
  by (auto simp: sys_close_def sub_close_def read_closed_upd split: option.split)

lemma read_closed_fg_group: "read_closed p \<Longrightarrow> read_closed (snd (sub_fg_group env p))"
  by (auto simp: sub_fg_group_def read_closed_upd
      intro!: read_closed_andthen read_closed_call read_closed_close split: option.split)

lemma read_closed_pg: "read_closed p \<Longrightarrow> read_closed (snd (sub_pg env pg p))"
  by (cases pg) (simp_all add: sub_pg_def read_closed_call read_closed_fg_group)

lemma read_closed_chdir: "read_closed p \<Longrightarrow> read_closed (snd (sub_chdir env wd p))"
  by (cases wd) (simp_all add: sub_chdir_def read_closed_call)

lemma read_closed_sigaddset: "read_closed p \<Longrightarrow> read_closed (snd (sub_sigaddset env ss p))"
  by (induction env ss p rule: sub_sigaddset.induct) simp_all

lemma read_closed_sig_actions: "read_closed p \<Longrightarrow> read_closed (snd (sub_sig_actions env as p))"
proof (induction as arbitrary: p)
  case (Cons a as)
  have "read_closed (snd (sub_sig_action env a p))"
    using Cons.prems by (cases a)
      (auto simp: sub_sig_action_def sub_sigaction_def read_closed_sigaddset intro!: read_closed_andthen read_closed_call)
  then show ?case using Cons.IH by (simp add: read_closed_andthen)
qed simp

lemma read_closed_close_except: "read_closed p \<Longrightarrow> read_closed (close_except env keep n k p)"
  by (induction n arbitrary: k p) (simp_all add: read_closed_close)

lemma read_closed_sub_dup2: "read_closed p \<Longrightarrow> read_closed (snd (sub_dup2 env fd1 fd2 p))"
  by (auto simp: sub_dup2_def intro!: read_closed_andthen read_closed_call read_closed_dup2 read_closed_copy
      split: option.split)

lemma read_closed_close_ignore: "read_closed p \<Longrightarrow> read_closed (snd (sub_fd_action env (Fda_close_ignore fd) p))"
  by (auto simp: sub_fd_action_def sys_close_def read_closed_upd split: option.split)

lemma read_closed_fd_actions: "read_closed p \<Longrightarrow> read_closed (snd (sub_fd_actions env as p))"
proof (induction as arbitrary: p)
  case (Cons a as)
  have "read_closed (snd (sub_fd_action env a p))"
  proof (cases a)
    case (Fda_close_ignore fd)
    then show ?thesis using Cons.prems by (simp add: read_closed_close_ignore)
  qed (use Cons.prems in \<open>simp_all add: sub_fd_action_def read_closed_close read_closed_close_except read_closed_sub_dup2\<close>)
  then show ?case using Cons.IH by (simp add: read_closed_andthen)
qed simp

lemma read_closed_start: "forked p \<Longrightarrow> sub_start env p = (None, q) \<Longrightarrow> read_closed q"
  by (auto simp: sub_start_def sub_close_def sys_close_def andthen_def sys_call_def forked_def read_closed_def
      set_cloexec_def split: option.splits if_splits)

lemma read_closed_exec: "read_closed p \<Longrightarrow> read_closed (exec_image p)"
  by (fastforce simp: read_closed_def exec_image_def split: option.splits bool.splits)

lemma sub_process_read_closed:
  assumes "forked p" "sub_process env wd pg fda sga p = (None, q)"
  shows "read_closed q"
proof -
  obtain p1 where p1: "sub_start env p = (None, p1)"
    using assms(2) by (cases "sub_start env p") (auto simp: sub_process_def andthen_def split: option.splits)
  have "read_closed (snd (sub_process env wd pg fda sga p))"
    unfolding sub_process_def p1 using read_closed_start [OF assms(1) p1]
    by (intro read_closed_andthen read_closed_chdir read_closed_pg read_closed_sig_actions read_closed_fd_actions
        read_closed_call read_closed_exec) simp_all
  then show ?thesis using assms(2) by simp
qed

text \<open>Whatever the actions are, the error of the child can be reported, and after \<^verbatim>\<open>execve\<close> the pipe is closed.\<close>

lemma sub_process_ctrl:
  assumes "forked p"
  shows "case sub_process env wd pg fda sga p of
     (Some (e, f), q) \<Rightarrow> ctrl_open q \<and> length f < 64
   | (None, q) \<Rightarrow> \<forall>fd. map_option fst (p_fds q fd) \<noteq> Some Ctrl_write"
proof -
  have exec: "\<forall>fd. map_option fst (p_fds (exec_image q) fd) \<noteq> Some Ctrl_write" if "ctrl_safe q" for q
  proof
    fix fd
    show "map_option fst (p_fds (exec_image q) fd) \<noteq> Some Ctrl_write"
      using that by (cases "fd = p_ctrl1 q")
        (auto simp: exec_image_def ctrl_safe_def ctrl_only_def split: option.splits bool.splits)
  qed
  define r where "r = andthen (sub_start env p) (\<lambda>p.
     andthen (sub_chdir env wd p) (\<lambda>p.
     andthen (sub_pg env pg p) (\<lambda>p.
     andthen (sub_sig_actions env sga p) (\<lambda>p.
     andthen (sub_fd_actions env fda p) (\<lambda>p.
     sys_call env 241 ''netsys_spawn/sigprocmask [241]'' (\<lambda>p. p\<lparr>p_mask := p_spawn_mask p\<rparr>) p)))))"
  have r: "good_step r"
    unfolding r_def using assms
    by (intro andthen_good sub_start_good sub_chdir_good sub_pg_good sub_sig_actions_good sub_fd_actions_good sys_call_good)
      simp_all
  have "sub_process env wd pg fda sga p =
      andthen r (\<lambda>p. sys_call env 290 ''netsys_spawn/execve [290]'' exec_image p)"
    unfolding sub_process_def r_def andthen_def by (simp split: prod.split option.split)
  then show ?thesis using r exec
    by (cases r) (auto simp: andthen_def sys_call_def split: option.splits)
qed

section \<open>The calling process\<close>

lemma first_error_Some [simp]: "first_error (Some e) c name = Some e"
  by (simp add: first_error_def split: option.split)

lemma first_error_None [simp]: "first_error None None name = None"
  by (simp add: first_error_def)

text \<open>The parent's own clean-up calls succeed.\<close>

definition cleanup_ok :: "spawn_env \<Rightarrow> bool" where
  "cleanup_ok env \<longleftrightarrow> (\<forall>site \<in> {300, 301, 400, 410, 411}. \<forall>p. se_fail env site p = None)"

lemma cleanup_okD:
  "cleanup_ok env \<Longrightarrow> se_fail env 300 p = None \<and> se_fail env 301 p = None \<and> se_fail env 400 p = None \<and>
     se_fail env 410 p = None \<and> se_fail env 411 p = None"
  by (simp add: cleanup_ok_def)

lemma sys_pipe_ok:
  assumes "sys_pipe env p = (None, q)" "no_ctrl p"
  shows "forked q" "p_ctrl0 q \<noteq> p_ctrl1 q" "(p_fds q)(p_ctrl1 q := None, p_ctrl0 q := None) = p_fds p"
    "(p_fds q)(p_ctrl0 q := None, p_ctrl1 q := None) = p_fds p" "p_mask q = p_mask p"
proof -
  obtain r w where rw: "free_fd env (p_fds p) = Some r" "free_fd env ((p_fds p)(r \<mapsto> (Ctrl_read, False))) = Some w"
      "q = p\<lparr>p_fds := (p_fds p)(r \<mapsto> (Ctrl_read, False), w \<mapsto> (Ctrl_write, False)), p_ctrl0 := r, p_ctrl1 := w\<rparr>"
    using assms(1) by (auto simp: sys_pipe_def split: option.splits)
  have r: "p_fds p r = None" using free_fd_Some [OF rw(1)] by simp
  have w: "p_fds p w = None" "w \<noteq> r" using free_fd_Some [OF rw(2)] by (auto split: if_splits)
  show "forked q" using rw(3) w assms(2) by (auto simp: forked_def ctrl_only_def no_ctrl_def)
  show "p_ctrl0 q \<noteq> p_ctrl1 q" "(p_fds q)(p_ctrl1 q := None, p_ctrl0 q := None) = p_fds p"
    "(p_fds q)(p_ctrl0 q := None, p_ctrl1 q := None) = p_fds p" "p_mask q = p_mask p"
    using rw(3) r w by (auto simp: fun_eq_iff)
qed

text \<open>With both ends open \<^verbatim>\<open>main_exit\<close> restores the descriptors and the mask, and reports the pending error.\<close>

definition outcome :: "(int \<times> string) option \<Rightarrow> int \<Rightarrow> exn + int" where
  "outcome err ret = (case err of Some (e, f) \<Rightarrow> Inl (Unix_error e f) | None \<Rightarrow> Inr ret)"

lemma main_exit_ok:
  assumes "cleanup_ok env" "pipe0 \<longrightarrow> p_fds p (p_ctrl0 p) \<noteq> None"
    and "pipe1 \<longrightarrow> p_fds p (p_ctrl1 p) \<noteq> None \<and> p_ctrl0 p \<noteq> p_ctrl1 p"
  shows "\<exists>p'. main_exit env save pipe0 pipe1 err ret ch p = (outcome err ret, ch, p') \<and> p_mask p' = save \<and>
    p_fds p' = (let t = (if pipe0 then (p_fds p)(p_ctrl0 p := None) else p_fds p)
                in if pipe1 then t(p_ctrl1 p := None) else t)"
  using assms cleanup_okD [OF assms(1)]
  by (cases err) (auto simp: main_exit_def sys_close_def outcome_def Let_def)

lemma main_process_ok:
  assumes env: "cleanup_ok env" and p: "forked p" "p_ctrl0 p \<noteq> p_ctrl1 p"
  shows "\<exists>res ch p'. main_process env save (sub_process env wd pg fda sga p) p = Some (res, ch, p') \<and>
    p_fds p' = (p_fds p)(p_ctrl1 p := None, p_ctrl0 p := None) \<and> p_mask p' = save \<and>
    (case sub_process env wd pg fda sga p of
       (None, q) \<Rightarrow> res = Inr (se_pid env) \<and> ch = Running q
     | (Some (e, f), q) \<Rightarrow> res = Inl (Unix_error e f) \<and> ch = Reaped)"
proof -
  obtain r q where rq: "sub_process env wd pg fda sga p = (r, q)" by fastforce
  let ?p1 = "p\<lparr>p_fds := (p_fds p)(p_ctrl1 p := None)\<rparr>"
  have cl: "sys_close env 300 (p_ctrl1 p) p = (None, ?p1)"
    using cleanup_okD [OF env, of p] p(1) by (simp add: sys_close_def forked_def)
  have msg: "ctrl_read env (r, q) = Some r"
  proof (cases r)
    case None
    then have "\<forall>fd. map_option fst (p_fds q fd) \<noteq> Some Ctrl_write"
      using sub_process_ctrl [OF p(1), of env wd pg fda sga] rq by simp
    then show ?thesis using None by (simp add: ctrl_read_def list_ex_iff)
  next
    case (Some ef)
    obtain e f where ef: "ef = (e, f)" by fastforce
    then have "ctrl_open q" "length f < 64" using sub_process_ctrl [OF p(1), of env wd pg fda sga] rq Some by simp_all
    then show ?thesis using Some ef by (auto simp: ctrl_read_def ctrl_open_def)
  qed
  have open0: "True \<longrightarrow> p_fds ?p1 (p_ctrl0 ?p1) \<noteq> None" using p by (simp add: forked_def)
  have eq: "main_process env save (r, q) p =
      Some (case r of None \<Rightarrow> main_exit env save True False None (se_pid env) (Running q) ?p1
            | Some err \<Rightarrow> main_exit env save True False (Some err) 0 Reaped ?p1)"
    using cl msg cleanup_okD [OF env, of ?p1] by (simp add: main_process_def Let_def split: option.split)
  show ?thesis
  proof (cases r)
    case None
    obtain p' where "main_exit env save True False None (se_pid env) (Running q) ?p1 = (outcome None (se_pid env), Running q, p')"
        "p_mask p' = save" "p_fds p' = (p_fds ?p1)(p_ctrl0 ?p1 := None)"
      using main_exit_ok [OF env open0, of False save None "se_pid env" "Running q"] by auto
    then show ?thesis using rq None eq by (simp add: outcome_def)
  next
    case (Some ef)
    obtain e f where ef: "ef = (e, f)" by fastforce
    obtain p' where "main_exit env save True False (Some ef) 0 Reaped ?p1 = (outcome (Some ef) 0, Reaped, p')"
        "p_mask p' = save" "p_fds p' = (p_fds ?p1)(p_ctrl0 ?p1 := None)"
      using main_exit_ok [OF env open0, of False save "Some ef" 0 Reaped] by auto
    then show ?thesis using rq Some ef eq by (simp add: outcome_def)
  qed
qed

text \<open>After the control pipe was made: a failure before the fork is reported and everything is undone; otherwise the outcome is that of the child.\<close>

lemma spawn_before_fork:
  assumes "cleanup_ok env" "no_ctrl p" "se_fail env 0 p = None" "se_fail env 1 p = None"
    and pipe: "sys_pipe env (p\<lparr>p_mask := (\<lambda>s. True), p_spawn_mask := p_mask p\<rparr>) = (None, p2)"
    and fails: "\<not> (se_fail env 20 p2 = None \<and> se_fail env 21 p2 = None \<and> se_fail env 31 p2 = None)"
  shows "\<exists>e f p'. netsys_spawn_nat env wd pg fda sga p = Some (Inl (Unix_error e f), No_child, p') \<and> p_fds p' = p_fds p \<and> p_mask p' = p_mask p"
proof -
  have np: "no_ctrl (p\<lparr>p_mask := (\<lambda>s. True), p_spawn_mask := p_mask p\<rparr>)" using assms(2) by simp
  note sp = sys_pipe_ok [OF pipe np]
  have op: "True \<longrightarrow> p_fds p2 (p_ctrl0 p2) \<noteq> None"
    "True \<longrightarrow> p_fds p2 (p_ctrl1 p2) \<noteq> None \<and> p_ctrl0 p2 \<noteq> p_ctrl1 p2" using sp(1,2) by (auto simp: forked_def)
  have "\<exists>e f. netsys_spawn_nat env wd pg fda sga p = Some (main_exit env (p_mask p) True True (Some (e, f)) 0 No_child p2)"
    using assms(3,4) pipe fails
    by (cases "se_fail env 20 p2"; cases "se_fail env 21 p2"; cases "se_fail env 31 p2") (auto simp: netsys_spawn_nat_def Let_def)
  then obtain e f where "netsys_spawn_nat env wd pg fda sga p = Some (main_exit env (p_mask p) True True (Some (e, f)) 0 No_child p2)" by blast
  moreover have "\<exists>p'. main_exit env (p_mask p) True True (Some (e, f)) 0 No_child p2 = (Inl (Unix_error e f), No_child, p') \<and>
      p_mask p' = p_mask p \<and> p_fds p' = p_fds p"
    using main_exit_ok [OF assms(1) op, of "p_mask p" "Some (e, f)" 0 No_child] sp(4) by (auto simp: outcome_def Let_def)
  ultimately show ?thesis by auto
qed

text \<open>The state in which the pipe is made, and the failures before the fork.\<close>

abbreviation blocked :: "proc \<Rightarrow> proc" where
  "blocked p \<equiv> p\<lparr>p_mask := (\<lambda>s. True), p_spawn_mask := p_mask p\<rparr>"

definition not_forked :: "spawn_env \<Rightarrow> proc \<Rightarrow> bool" where
  "not_forked env p \<longleftrightarrow> se_fail env 0 p \<noteq> None \<or> se_fail env 1 p \<noteq> None \<or>
     (case sys_pipe env (blocked p) of
        (Some e, p2) \<Rightarrow> True
      | (None, p2) \<Rightarrow> se_fail env 20 p2 \<noteq> None \<or> se_fail env 21 p2 \<noteq> None \<or> se_fail env 31 p2 \<noteq> None)"

lemma spawn_not_forked:
  assumes "cleanup_ok env" "no_ctrl p" "not_forked env p"
  shows "\<exists>e f p'. netsys_spawn_nat env wd pg fda sga p = Some (Inl (Unix_error e f), No_child, p') \<and> p_fds p' = p_fds p \<and> p_mask p' = p_mask p"
proof (cases "se_fail env 0 p = None \<and> se_fail env 1 p = None")
  case False
  then show ?thesis by (auto simp: netsys_spawn_nat_def)
next
  case start: True
  obtain c p2 where pipe: "sys_pipe env (blocked p) = (c, p2)" by fastforce
  show ?thesis
  proof (cases c)
    case (Some e)
    then have "p2 = blocked p" using pipe by (auto simp: sys_pipe_def split: option.splits)
    then show ?thesis
      using main_exit_ok [OF assms(1), of False p2 False "p_mask p" "Some (e, ''netsys_spawn/pipe [010]'')" 0 No_child] start pipe Some
      by (auto simp: netsys_spawn_nat_def outcome_def)
  next
    case None
    have "\<not> (se_fail env 20 p2 = None \<and> se_fail env 21 p2 = None \<and> se_fail env 31 p2 = None)"
      using assms(3) start pipe None by (simp add: not_forked_def)
    then show ?thesis
      using spawn_before_fork [OF assms(1,2) start [THEN conjunct1] start [THEN conjunct2] pipe [unfolded None]] by blast
  qed
qed

lemma spawn_forked:
  assumes "cleanup_ok env" "no_ctrl p" "\<not> not_forked env p"
  shows "\<exists>p2 res ch p'. sys_pipe env (blocked p) = (None, p2) \<and>
    netsys_spawn_nat env wd pg fda sga p = Some (res, ch, p') \<and> p_fds p' = p_fds p \<and> p_mask p' = p_mask p \<and>
    (case sub_process env wd pg fda sga p2 of
       (None, q) \<Rightarrow> res = Inr (se_pid env) \<and> ch = Running q \<and> no_ctrl q
     | (Some (e, f), q) \<Rightarrow> res = Inl (Unix_error e f) \<and> ch = Reaped)"
proof -
  obtain p2 where pipe: "sys_pipe env (blocked p) = (None, p2)"
    and ok: "se_fail env 0 p = None" "se_fail env 1 p = None" "se_fail env 20 p2 = None" "se_fail env 21 p2 = None" "se_fail env 31 p2 = None"
    using assms(3) by (cases "sys_pipe env (blocked p)") (auto simp: not_forked_def split: option.splits)
  have np: "no_ctrl (blocked p)" using assms(2) by simp
  note sp = sys_pipe_ok [OF pipe np]
  obtain res ch p' where mp: "main_process env (p_mask p) (sub_process env wd pg fda sga p2) p2 = Some (res, ch, p')"
    "p_fds p' = p_fds p" "p_mask p' = p_mask p"
    "case sub_process env wd pg fda sga p2 of
       (None, q) \<Rightarrow> res = Inr (se_pid env) \<and> ch = Running q
     | (Some (e, f), q) \<Rightarrow> res = Inl (Unix_error e f) \<and> ch = Reaped"
    using main_process_ok [OF assms(1) sp(1,2), of "p_mask p" wd pg fda sga] sp(3) by auto
  have eq: "netsys_spawn_nat env wd pg fda sga p = Some (res, ch, p')"
    using ok pipe mp(1) by (simp add: netsys_spawn_nat_def)
  have "no_ctrl q" if "sub_process env wd pg fda sga p2 = (None, q)" for q
    using sub_process_ctrl [OF sp(1), of env wd pg fda sga] sub_process_read_closed [OF sp(1) that] that
    by (simp add: no_ctrl_def read_closed_def)
  then show ?thesis
    using pipe mp(2-4) unfolding eq by (cases "sub_process env wd pg fda sga p2") (auto split: option.splits)
qed

text \<open>
  Claim C2: \<^verbatim>\<open>netsys_spawn_nat\<close> always tells the truth about the child. The caller's own clean-up calls succeed and the control
  pipe is new. For all directory, group, signal and descriptor actions (also ones that aim at the descriptors of the control
  pipe) and all failures of system calls in the child: when a call before the fork is refused, an error is raised and there is
  no child. Otherwise, when the child reaches the new program, the call returns its pid, and the new program has neither end
  of the control pipe; when the child fails, exactly its error is raised and the child has been reaped. In all cases the
  descriptors and the signal mask of the caller are restored, and the error buffer is never overrun.
\<close>

theorem netsys_spawn_reports:
  assumes "cleanup_ok env" "no_ctrl p"
  shows "\<exists>res ch p'. netsys_spawn_nat env wd pg fda sga p = Some (res, ch, p') \<and>
    p_fds p' = p_fds p \<and> p_mask p' = p_mask p \<and>
    (if not_forked env p then (\<exists>e f. res = Inl (Unix_error e f)) \<and> ch = No_child
     else \<exists>p2. sys_pipe env (p\<lparr>p_mask := (\<lambda>s. True), p_spawn_mask := p_mask p\<rparr>) = (None, p2) \<and>
       (case sub_process env wd pg fda sga p2 of
          (None, q) \<Rightarrow> res = Inr (se_pid env) \<and> ch = Running q \<and> no_ctrl q
        | (Some (e, f), q) \<Rightarrow> res = Inl (Unix_error e f) \<and> ch = Reaped))"
proof (cases "not_forked env p")
  case True
  then show ?thesis using spawn_not_forked [OF assms True, of wd pg fda sga] by auto
next
  case False
  then show ?thesis
    using spawn_forked [OF assms False, of wd pg fda sga] by (elim exE conjE) (intro exI conjI, assumption+, simp)
qed

definition sample_senv :: spawn_env where
  "sample_senv = \<lparr>se_fail = (\<lambda>site p. None), se_nofile = 16, se_pid = 77, se_signal = (\<lambda>s. s),
     se_valid_signal = (\<lambda>s. 0 < s \<and> s < 65), se_beyond = 0\<rparr>"

definition sample_proc :: proc where
  "sample_proc = \<lparr>p_fds = (\<lambda>fd. None)(0 := Some (File 0, False), 1 := Some (File 1, False), 2 := Some (File 2, False)),
     p_ctrl0 = 0, p_ctrl1 = 0, p_cwd = Inl [], p_pgid = 1, p_sig = (\<lambda>s. Sig_dfl), p_mask = (\<lambda>s. False),
     p_spawn_mask = (\<lambda>s. False)\<rparr>"

theorem netsys_spawn_reports_witness:
  "\<exists>res ch p'. netsys_spawn_nat sample_senv Wd_keep Pg_keep [Fda_dup2 1 4, Fda_close 0] [] sample_proc = Some (res, ch, p') \<and>
     p_fds p' = p_fds sample_proc \<and> p_mask p' = p_mask sample_proc \<and>
     (\<exists>p2. case sub_process sample_senv Wd_keep Pg_keep [Fda_dup2 1 4, Fda_close 0] [] p2 of
        (None, q) \<Rightarrow> res = Inr 77 \<and> ch = Running q \<and> no_ctrl q
      | (Some (e, f), q) \<Rightarrow> res = Inl (Unix_error e f) \<and> ch = Reaped)"
proof -
  have a: "cleanup_ok sample_senv" by (simp add: cleanup_ok_def sample_senv_def)
  have b: "no_ctrl sample_proc" by (auto simp: no_ctrl_def sample_proc_def split: if_splits)
  have c: "\<not> not_forked sample_senv sample_proc"
    by (simp add: not_forked_def sample_senv_def sys_pipe_def free_fd_def sample_proc_def upt_rec)
  have d: "se_pid sample_senv = 77" by (simp add: sample_senv_def)
  show ?thesis
    using netsys_spawn_reports [OF a b, of Wd_keep Pg_keep "[Fda_dup2 1 4, Fda_close 0]" "[]"]
    unfolding d if_not_P [OF c] by (elim exE conjE) (intro exI conjI)
qed

section \<open>The descriptor actions\<close>

text \<open>
  The specification: the actions on the table of descriptors that the caller knows, without the control pipe. \<open>None\<close> is
  the error of a descriptor that is not open or out of range.
\<close>

fun fda_spec :: "nat \<Rightarrow> fd_action \<Rightarrow> fdtab \<Rightarrow> fdtab option" where
  "fda_spec nofile (Fda_close fd) t = (if t fd = None then None else Some (t(fd := None)))"
| "fda_spec nofile (Fda_close_ignore fd) t = Some (t(fd := None))"
| "fda_spec nofile (Fda_close_except keep) t =
     Some (\<lambda>fd. if 0 \<le> fd \<and> fd < int nofile \<and> \<not> (nat fd < length keep \<and> keep ! nat fd) then None else t fd)"
| "fda_spec nofile (Fda_dup2 fd1 fd2) t =
     (if t fd1 = None \<or> fd2 < 0 \<or> fd2 \<ge> int nofile then None else Some (dup2_tab fd1 fd2 t))"

fun fda_run :: "nat \<Rightarrow> fd_action list \<Rightarrow> fdtab \<Rightarrow> fdtab option" where
  "fda_run nofile [] t = Some t"
| "fda_run nofile (a # as) t = do { t' \<leftarrow> fda_spec nofile a t; fda_run nofile as t' }"

definition visible :: "proc \<Rightarrow> fdtab" where
  "visible p = (p_fds p)(p_ctrl1 p := None)"

definition no_failures :: "spawn_env \<Rightarrow> bool" where
  "no_failures env \<longleftrightarrow> (\<forall>site p. se_fail env site p = None)"

lemma close_except_visible:
  assumes "no_failures env"
  shows "p_ctrl1 (close_except env keep n k p) = p_ctrl1 p \<and>
    p_fds (close_except env keep n k p) =
      (\<lambda>fd. if int k \<le> fd \<and> fd < int (k + n) \<and> \<not> (nat fd < length keep \<and> keep ! nat fd) \<and> fd \<noteq> p_ctrl1 p
            then None else p_fds p fd)"
proof (induction n arbitrary: k p)
  case (Suc n)
  let ?q = "if (k \<ge> length keep \<or> \<not> keep ! k) \<and> int k \<noteq> p_ctrl1 p then snd (sys_close env 211 (int k) p) else p"
  have q: "p_ctrl1 ?q = p_ctrl1 p"
    "p_fds ?q = (\<lambda>fd. if fd = int k \<and> \<not> (nat fd < length keep \<and> keep ! nat fd) \<and> fd \<noteq> p_ctrl1 p then None else p_fds p fd)"
    using assms by (auto simp: sys_close_def no_failures_def fun_eq_iff)
  show ?case
    using Suc.IH [of "Suc k" ?q] unfolding close_except.simps q by (auto simp: fun_eq_iff)
qed (auto simp: fun_eq_iff)

text \<open>One action of the child against the specification.\<close>

definition fda_matches :: "nat \<Rightarrow> fdtab option \<Rightarrow> sub_result \<Rightarrow> bool" where
  "fda_matches nofile t r \<longleftrightarrow>
     (case r of
        (None, q) \<Rightarrow> t = Some (visible q)
      | (Some (e, f), q) \<Rightarrow> e = EMFILE \<and> (\<forall>k<nofile. p_fds q (int k) \<noteq> None) \<or> e = EBADF \<and> t = None)"

lemma sub_dup2_matches:
  assumes env: "no_failures env" and p: "ctrl_safe p"
  shows "fda_matches (se_nofile env) (fda_spec (se_nofile env) (Fda_dup2 fd1 fd2) (visible p)) (sub_dup2 env fd1 fd2 p)"
proof (cases "fd1 = p_ctrl1 p \<or> p_fds p fd1 = None \<or> fd2 \<noteq> p_ctrl1 p")
  case True
  then show ?thesis
    using env by (auto simp: fda_matches_def visible_def sub_dup2_def andthen_def sys_call_def no_failures_def
        dup2_tab_def fun_eq_iff)
next
  case False
  then have fd: "fd1 \<noteq> p_ctrl1 p" "p_fds p fd1 \<noteq> None" "fd2 = p_ctrl1 p" by auto
  show ?thesis
  proof (cases "free_fd env (p_fds p)")
    case None
    then show ?thesis
      using env fd free_fd_None [OF None] by (simp add: fda_matches_def sub_dup2_def andthen_def sys_call_def no_failures_def)
  next
    case (Some new)
    then have "p_fds p new = None" using free_fd_Some by blast
    moreover have "new \<noteq> p_ctrl1 p" "new \<noteq> fd1" using calculation p fd(2) by (auto simp: ctrl_safe_def)
    ultimately show ?thesis
      using env fd Some
      by (auto simp: fda_matches_def visible_def sub_dup2_def andthen_def sys_call_def no_failures_def
          dup2_tab_def set_cloexec_def fun_eq_iff)
  qed
qed

lemma sub_fd_action_matches:
  assumes env: "no_failures env" and p: "ctrl_safe p"
  shows "fda_matches (se_nofile env) (fda_spec (se_nofile env) a (visible p)) (sub_fd_action env a p)"
proof (cases a)
  case (Fda_close_except keep)
  then show ?thesis
    using close_except_visible [OF env, of keep "se_nofile env" 0 p]
    by (auto simp: sub_fd_action_def fda_matches_def visible_def fun_eq_iff)
next
  case (Fda_dup2 fd1 fd2)
  then show ?thesis using sub_dup2_matches [OF env p] by (simp add: sub_fd_action_def)
qed (use env p in \<open>auto simp: sub_fd_action_def fda_matches_def visible_def sub_close_def sys_close_def
      no_failures_def fun_upd_twist fun_eq_iff\<close>)

lemma sub_fd_actions_matches:
  assumes "no_failures env" "ctrl_safe p"
  shows "fda_matches (se_nofile env) (fda_run (se_nofile env) as (visible p)) (sub_fd_actions env as p)"
  using assms(2)
proof (induction as arbitrary: p)
  case Nil
  then show ?case by (simp add: fda_matches_def)
next
  case (Cons a as)
  obtain r q where rq: "sub_fd_action env a p = (r, q)" by fastforce
  have m: "fda_matches (se_nofile env) (fda_spec (se_nofile env) a (visible p)) (r, q)"
    using sub_fd_action_matches [OF assms(1) Cons.prems, of a] rq by simp
  show ?case
  proof (cases r)
    case None
    then have "ctrl_safe q" using sub_fd_action_good [OF Cons.prems, of env a] rq by simp
    then show ?thesis using Cons.IH [of q] m rq None by (simp add: fda_matches_def andthen_def)
  next
    case (Some ef)
    then show ?thesis using m rq by (cases ef) (auto simp: fda_matches_def andthen_def)
  qed
qed

text \<open>
  Claim C7: the descriptor actions of the child do what their documentation says. On the descriptors of the caller they are the
  sequence of close, close-if-open, close-all-except and \<^verbatim>\<open>dup2\<close>, whatever number the control pipe has and even when
  it has to be moved away; an action on a descriptor that is not open fails with EBADF, and the only other failure is that
  every descriptor below the limit is in use when the pipe has to be moved.
\<close>

theorem sub_fd_actions_refine:
  assumes "no_failures env" "ctrl_safe p"
  shows "case sub_fd_actions env as p of
     (None, q) \<Rightarrow> fda_run (se_nofile env) as (visible p) = Some (visible q)
   | (Some (e, f), q) \<Rightarrow> e = EMFILE \<and> (\<forall>k < se_nofile env. p_fds q (int k) \<noteq> None) \<or>
       e = EBADF \<and> fda_run (se_nofile env) as (visible p) = None"
  using sub_fd_actions_matches [OF assms, of as] unfolding fda_matches_def by simp

definition sample_child :: proc where
  "sample_child = sample_proc\<lparr>p_fds := (p_fds sample_proc)(4 := Some (Ctrl_write, True)), p_ctrl1 := 4\<rparr>"

theorem sub_fd_actions_refine_witness:
  "case sub_fd_actions sample_senv [Fda_dup2 1 4, Fda_close_except [False, True], Fda_close_ignore 9] sample_child of
     (None, q) \<Rightarrow> fda_run 16 [Fda_dup2 1 4, Fda_close_except [False, True], Fda_close_ignore 9] (visible sample_child)
                   = Some (visible q)
   | (Some (e, f), q) \<Rightarrow> e = 24 \<and> (\<forall>k<16. p_fds q (int k) \<noteq> None) \<or> e = 9 \<and>
       fda_run 16 [Fda_dup2 1 4, Fda_close_except [False, True], Fda_close_ignore 9] (visible sample_child) = None"
proof -
  have "no_failures sample_senv" "se_nofile sample_senv = 16" by (simp_all add: no_failures_def sample_senv_def)
  moreover have "ctrl_safe sample_child"
    by (auto simp: ctrl_safe_def ctrl_only_def sample_child_def sample_proc_def split: if_splits)
  ultimately show ?thesis
    using sub_fd_actions_refine [of sample_senv sample_child
        "[Fda_dup2 1 4, Fda_close_except [False, True], Fda_close_ignore 9]"] by (simp only:)
qed

end
