(* ===== verification/Win32.thy ===== *)
theory Win32
  imports Netsys_Prelude
begin

text \<open>
  The Win32 part of netsys, \<^verbatim>\<open>src/src/netsys/netsys_c_win32.c\<close> up to line 508, and the error mapping of
  \<^verbatim>\<open>src/src/netsys/unixsupport_w32.c\<close>: error codes, handle flags, and events with their proxy handles.

  The state of the kernel as far as the code relies on it: which object an open handle denotes (\<^verbatim>\<open>DuplicateHandle\<close> gives a
  second handle for the same object), which objects are signalled, which handles are inheritable, and how often
  \<^verbatim>\<open>CloseHandle\<close> was called on a handle that was not open. The record is extended by the theories for pipes and
  processes. The system chooses the values of new handles and may let any call fail: \<open>os_new\<close> and \<open>os_err\<close> (with the
  code that \<^verbatim>\<open>GetLastError\<close> gives, by the place of the call).
\<close>

section \<open>Error codes\<close>

abbreviation (input) "W_EPERM \<equiv> (1 :: int)"
abbreviation (input) "W_ENOENT \<equiv> (2 :: int)"
abbreviation (input) "W_EINTR \<equiv> (4 :: int)"
abbreviation (input) "W_EBADF \<equiv> (9 :: int)"
abbreviation (input) "W_EAGAIN \<equiv> (11 :: int)"
abbreviation (input) "W_EACCES \<equiv> (13 :: int)"
abbreviation (input) "W_EINVAL \<equiv> (22 :: int)"
abbreviation (input) "W_EMFILE \<equiv> (24 :: int)"
abbreviation (input) "W_EPIPE \<equiv> (32 :: int)"

text \<open>Entries \<^verbatim>\<open>(win_code, range, posix_code)\<close>, in the order of the table; the end mark is the end of the list.\<close>

definition win_error_table :: "(nat \<times> nat \<times> int) list" where
  "win_error_table = [
     (1, 0, 22), (2, 0, 2), (3, 0, 2), (4, 0, 24), (5, 0, 13), (6, 0, 9), (7, 0, 12), (8, 0, 12), (9, 0, 12),
     (10, 0, 7), (11, 0, 8), (12, 0, 22), (13, 0, 22), (15, 0, 2), (16, 0, 13), (17, 0, 18), (18, 0, 2), (33, 0, 13),
     (53, 0, 2), (65, 0, 13), (67, 0, 2), (80, 0, 17), (82, 0, 13), (83, 0, 13), (87, 0, 22), (89, 0, 11), (108, 0, 13),
     (109, 0, 32), (112, 0, 28), (114, 0, 9), (6, 0, 22), (128, 0, 10), (129, 0, 10), (130, 0, 9), (131, 0, 22),
     (132, 0, 13), (145, 0, 41), (158, 0, 13), (161, 0, 2), (164, 0, 11), (167, 0, 13), (183, 0, 17), (206, 0, 2),
     (215, 0, 11), (1816, 0, 12), (188, 202 - 188, 8), (19, 36 - 19, 13),
     (10022, 0, 22), (10013, 0, 13), (10009, 0, 9), (10014, 0, 14), (10004, 0, 4), (10022, 0, 22), (10024, 0, 24),
     (10066, 0, 41)]"

fun maperr_loop :: "(nat \<times> nat \<times> int) list \<Rightarrow> u32 \<Rightarrow> int" where
  "maperr_loop [] errcode = sint (- errcode)"
| "maperr_loop ((w, r, p) # tab) errcode =
     (if w \<le> unat errcode \<and> unat errcode \<le> w + r then p else maperr_loop tab errcode)"

definition win32_maperr :: "u32 \<Rightarrow> int" where
  "win32_maperr errcode = maperr_loop win_error_table errcode"

text \<open>The table of the error constants of OCaml's \<^verbatim>\<open>Unix\<close>; socket errors are negated Windows codes.\<close>

definition error_table :: "int list" where
  "error_table = [
     7, 13, 11, 9, 16, 10, 36, 33, 17, 14, 27, 4, 22, 5, 21, 24, 31, 38, 23, 19, 2, 8, 39, 12, 28,
     40, 20, 41, 25, 6, 1, 32, 34, 30, 29, 3, 18, -10035, -10036, -10037,
     -10038, -10039, -10040, -10041, -10042, -10043, -10044, -10045, -10046,
     -10047, -10048, -10049, -10050, -10051, -10052, -10053, -10054, -10055, -10056, -10057,
     -10058, -10059, -10060, -10061, -10064, -10065, -10062, -534]"

fun cst_to_constr :: "int \<Rightarrow> int list \<Rightarrow> int \<Rightarrow> int \<Rightarrow> int" where
  "cst_to_constr n [] i deflt = deflt"
| "cst_to_constr n (c # tbl) i deflt = (if n = c then i else cst_to_constr n tbl (i + 1) deflt)"

text \<open>\<open>Inr\<close>: the constant constructor with this number; \<open>Inl\<close>: \<^verbatim>\<open>EUNKNOWNERR\<close> with the code.\<close>

definition unix_error_of_code :: "int \<Rightarrow> int + int" where
  "unix_error_of_code errcode =
     (let errconstr = cst_to_constr errcode error_table 0 (-1)
      in if errconstr = -1 then Inl errcode else Inr errconstr)"

section \<open>Handles\<close>

type_synonym handle = int

abbreviation (input) INVALID_HANDLE_VALUE :: handle where "INVALID_HANDLE_VALUE \<equiv> -1"
abbreviation (input) NULL_HANDLE :: handle where "NULL_HANDLE \<equiv> 0"

record w32 =
  w_obj :: "handle \<Rightarrow> nat option"
  w_sig :: "nat \<Rightarrow> bool"
  w_inherit :: "handle \<Rightarrow> bool"
  w_next :: nat
  w_bad :: nat

record w32_os =
  os_new :: "nat \<Rightarrow> (handle \<Rightarrow> nat option) \<Rightarrow> handle"
  os_err :: "nat \<Rightarrow> u32 option"
  os_apc :: bool

definition uerror_win :: "u32 \<Rightarrow> string \<Rightarrow> exn" where
  "uerror_win err name = Unix_error (win32_maperr err) name"

text \<open>A new object with its first handle, a second handle for an object, and closing a handle.\<close>

definition new_object :: "('o :: type) w32_os_scheme \<Rightarrow> nat \<Rightarrow> 'a w32_scheme \<Rightarrow> handle \<times> 'a w32_scheme" where
  "new_object os site w =
     (let h = os_new os site (w_obj w)
      in (h, w\<lparr>w_obj := (w_obj w)(h \<mapsto> w_next w), w_sig := (w_sig w)(w_next w := False),
               w_inherit := (w_inherit w)(h := False), w_next := w_next w + 1\<rparr>))"

definition CreateEvent :: "('o :: type) w32_os_scheme \<Rightarrow> nat \<Rightarrow> 'a w32_scheme \<Rightarrow> (u32 + handle) \<times> 'a w32_scheme" where
  "CreateEvent os site w =
     (case os_err os site of
        Some e \<Rightarrow> (Inl e, w)
      | None \<Rightarrow> (case new_object os site w of (h, w') \<Rightarrow> (Inr h, w')))"

definition DuplicateHandle :: "('o :: type) w32_os_scheme \<Rightarrow> nat \<Rightarrow> handle \<Rightarrow> 'a w32_scheme \<Rightarrow> (u32 + handle) \<times> 'a w32_scheme" where
  "DuplicateHandle os site h w =
     (case os_err os site of
        Some e \<Rightarrow> (Inl e, w)
      | None \<Rightarrow>
          (case w_obj w h of
             None \<Rightarrow> (Inl 6, w)
           | Some ob \<Rightarrow>
               let h' = os_new os site (w_obj w)
               in (Inr h', w\<lparr>w_obj := (w_obj w)(h' \<mapsto> ob), w_inherit := (w_inherit w)(h' := False)\<rparr>)))"

definition CloseHandle :: "handle \<Rightarrow> 'a w32_scheme \<Rightarrow> 'a w32_scheme" where
  "CloseHandle h w =
     (if w_obj w h = None then w\<lparr>w_bad := w_bad w + 1\<rparr> else w\<lparr>w_obj := (w_obj w)(h := None)\<rparr>)"

definition signaled :: "handle \<Rightarrow> 'a w32_scheme \<Rightarrow> bool" where
  "signaled h w = (case w_obj w h of None \<Rightarrow> False | Some ob \<Rightarrow> w_sig w ob)"

definition set_signal :: "handle \<Rightarrow> bool \<Rightarrow> 'a w32_scheme \<Rightarrow> 'a w32_scheme" where
  "set_signal h b w = (case w_obj w h of None \<Rightarrow> w | Some ob \<Rightarrow> w\<lparr>w_sig := (w_sig w)(ob := b)\<rparr>)"

section \<open>Handle flags\<close>

definition netsys_modify_close_on_exec ::
    "('o :: type) w32_os_scheme \<Rightarrow> handle \<Rightarrow> bool \<Rightarrow> 'a w32_scheme \<Rightarrow> (exn + unit) \<times> 'a w32_scheme" where
  "netsys_modify_close_on_exec os fd flag w =
     (case (if w_obj w fd = None then Some 6 else os_err os 73) of
        Some e \<Rightarrow> (Inl (uerror_win e ''netsys_modify_close_on_exec/SetHandleInformation''), w)
      | None \<Rightarrow> (Inr (), w\<lparr>w_inherit := (w_inherit w)(fd := \<not> flag)\<rparr>))"

definition netsys_test_close_on_exec :: "('o :: type) w32_os_scheme \<Rightarrow> handle \<Rightarrow> 'a w32_scheme \<Rightarrow> exn + bool" where
  "netsys_test_close_on_exec os fd w =
     (case (if w_obj w fd = None then Some 6 else os_err os 90) of
        Some e \<Rightarrow> Inl (uerror_win e ''netsys_test_close_on_exec/GetHandleInformation'')
      | None \<Rightarrow> Inr (w_inherit w fd))"

section \<open>Events\<close>

record event =
  e_ev :: handle
  e_mask :: u32
  e_proxy :: handle
  e_auto_close :: bool

definition alloc_event :: "('o :: type) w32_os_scheme \<Rightarrow> handle \<Rightarrow> 'a w32_scheme \<Rightarrow> (exn + event) \<times> 'a w32_scheme" where
  "alloc_event os e w =
     (case DuplicateHandle os 152 e w of
        (Inl err, w') \<Rightarrow> (Inl (uerror_win err ''alloc_event/DuplicateHandle''), w')
      | (Inr proxy, w') \<Rightarrow> (Inr \<lparr>e_ev = e, e_mask = 0, e_proxy = proxy, e_auto_close = True\<rparr>, w'))"

definition netsys_create_event :: "('o :: type) w32_os_scheme \<Rightarrow> 'a w32_scheme \<Rightarrow> (exn + event) \<times> 'a w32_scheme" where
  "netsys_create_event os w =
     (case CreateEvent os 184 w of
        (Inl err, w') \<Rightarrow> (Inl (uerror_win err ''netsys_create_event/CreateEvent''), w')
      | (Inr e, w') \<Rightarrow> alloc_event os e w')"

definition netsys_close_event :: "event \<Rightarrow> 'a w32_scheme \<Rightarrow> 'a w32_scheme" where
  "netsys_close_event e w =
     (let w1 = CloseHandle (e_ev e) w in if e_auto_close e then CloseHandle (e_proxy e) w1 else w1)"

definition netsys_set_auto_close_event_proxy :: "event \<Rightarrow> bool \<Rightarrow> event" where
  "netsys_set_auto_close_event_proxy e flag = e\<lparr>e_auto_close := flag\<rparr>"

text \<open>\<^verbatim>\<open>SetEvent\<close> and \<^verbatim>\<open>ResetEvent\<close> fail for a handle that is not open.\<close>

definition netsys_set_event :: "('o :: type) w32_os_scheme \<Rightarrow> event \<Rightarrow> 'a w32_scheme \<Rightarrow> (exn + unit) \<times> 'a w32_scheme" where
  "netsys_set_event os e w =
     (case (if w_obj w (e_ev e) = None then Some 6 else os_err os 237) of
        Some err \<Rightarrow> (Inl (uerror_win err ''netsys_set_event/SetEvent''), w)
      | None \<Rightarrow> (Inr (), set_signal (e_ev e) True w))"

definition netsys_reset_event :: "('o :: type) w32_os_scheme \<Rightarrow> event \<Rightarrow> 'a w32_scheme \<Rightarrow> (exn + unit) \<times> 'a w32_scheme" where
  "netsys_reset_event os e w =
     (case (if w_obj w (e_ev e) = None then Some 6 else os_err os 253) of
        Some err \<Rightarrow> (Inl (uerror_win err '' netsys_reset_event/ResetEvent''), w)
      | None \<Rightarrow> (Inr (), set_signal (e_ev e) False w))"

text \<open>
  Waiting for one object: \<open>None\<close> is a wait that never ends, otherwise the error or whether the object is signalled.
  The state does not change while the call waits.
\<close>

abbreviation (input) INFINITE :: u32 where "INFINITE \<equiv> 0xFFFFFFFF"

definition WaitForSingleObject :: "('o :: type) w32_os_scheme \<Rightarrow> nat \<Rightarrow> handle \<Rightarrow> u32 \<Rightarrow> 'a w32_scheme \<Rightarrow> (u32 + bool) option" where
  "WaitForSingleObject os site h tmo w =
     (case (if w_obj w h = None then Some 6 else os_err os site) of
        Some err \<Rightarrow> Some (Inl err)
      | None \<Rightarrow> if signaled h w then Some (Inr True) else if tmo = INFINITE then None else Some (Inr False))"

definition netsys_test_event :: "('o :: type) w32_os_scheme \<Rightarrow> event \<Rightarrow> 'a w32_scheme \<Rightarrow> (exn + bool) option" where
  "netsys_test_event os e w =
     map_option (\<lambda>r. case r of Inl err \<Rightarrow> Inl (uerror_win err ''netsys_test_event/WaitForSingleObject'') | Inr b \<Rightarrow> Inr b)
       (WaitForSingleObject os 272 (e_ev e) 0 w)"

definition netsys_event_wait :: "('o :: type) w32_os_scheme \<Rightarrow> event \<Rightarrow> u64 \<Rightarrow> 'a w32_scheme \<Rightarrow> (exn + bool) option" where
  "netsys_event_wait os e tmo w =
     (let wtmo = (if 0 \<le> sint (Long_val tmo) then ucast (Long_val tmo) else INFINITE)
      in map_option (\<lambda>r. case r of Inl err \<Rightarrow> Inl (uerror_win err ''netsys_event_wait/WaitForSingleObject'') | Inr b \<Rightarrow> Inr b)
           (WaitForSingleObject os 300 (e_ev e) wtmo w))"

section \<open>Waiting for several events\<close>

datatype wait_result = Wait_failed u32 | Wait_timeout | Wait_io_completion | Wait_event nat

definition first_signaled :: "handle list \<Rightarrow> 'a w32_scheme \<Rightarrow> nat option" where
  "first_signaled hs w = find (\<lambda>i. signaled (hs ! i) w) [0..<length hs]"

definition WSAWaitForMultipleEvents :: "('o :: type) w32_os_scheme \<Rightarrow> handle list \<Rightarrow> u32 \<Rightarrow> 'a w32_scheme \<Rightarrow> wait_result option" where
  "WSAWaitForMultipleEvents os hs tmo w =
     (case (if list_ex (\<lambda>h. w_obj w h = None) hs then Some 6 else os_err os 414) of
        Some err \<Rightarrow> Some (Wait_failed err)
      | None \<Rightarrow>
          if os_apc os then Some Wait_io_completion
          else case first_signaled hs w of
                 Some i \<Rightarrow> Some (Wait_event i)
               | None \<Rightarrow> if tmo = INFINITE then None else Some Wait_timeout)"

definition WSA_MAXIMUM_WAIT_EVENTS :: nat where "WSA_MAXIMUM_WAIT_EVENTS = 64"

text \<open>
  The test \<^verbatim>\<open>tmo >= 0\<close> reads an unsigned variable that is not yet set: it is always true, so that a negative timeout is
  converted to a \<^verbatim>\<open>DWORD\<close>.
\<close>

definition netsys_wsa_wait_for_multiple_events ::
    "('o :: type) w32_os_scheme \<Rightarrow> event list \<Rightarrow> u64 \<Rightarrow> 'a w32_scheme \<Rightarrow> (exn + nat option) option" where
  "netsys_wsa_wait_for_multiple_events os fdarray tmov w =
     (let n = length fdarray;
          tmo = ucast (Long_val tmov) :: u32
      in if n > WSA_MAXIMUM_WAIT_EVENTS
         then Some (Inl (uerror_win (of_int W_EINVAL) ''netsys_wsa_wait_for_multiple_events''))
         else if n = 0
         then if os_apc os
              then Some (Inl (uerror_win (of_int W_EINTR) ''netsys_wsa_wait_for_multiple_events/SleepEx''))
              else if tmo = INFINITE then None else Some (Inr None)
         else case WSAWaitForMultipleEvents os (map e_ev fdarray) tmo w of
                None \<Rightarrow> None
              | Some (Wait_failed err) \<Rightarrow>
                  if err = 0 then Some (Inr None)
                  else Some (Inl (uerror_win err ''netsys_wsa_wait_for_multiple_events/WSAWaitForMultipleEvents''))
              | Some Wait_timeout \<Rightarrow> Some (Inr None)
              | Some Wait_io_completion \<Rightarrow>
                  Some (Inl (uerror_win (of_int W_EINTR) ''netsys_wsa_wait_for_multiple_events/WSAWaitForMultipleEvents''))
              | Some (Wait_event i) \<Rightarrow>
                  if i < n then Some (Inr (Some i))
                  else Some (Inl (Invalid_argument
                         ''netsys_wsa_wait_for_multiple_events: bad return value from Win32'')))"

section \<open>Socket events\<close>

abbreviation (input) "CONST_POLLIN \<equiv> (0x1 :: u32)"
abbreviation (input) "CONST_POLLPRI \<equiv> (0x2 :: u32)"
abbreviation (input) "CONST_POLLOUT \<equiv> (0x4 :: u32)"
abbreviation (input) "CONST_POLLERR \<equiv> (0x8 :: u32)"
abbreviation (input) "CONST_POLLHUP \<equiv> (0x10 :: u32)"

abbreviation (input) "FD_READ \<equiv> (1 :: u32)"
abbreviation (input) "FD_WRITE \<equiv> (2 :: u32)"
abbreviation (input) "FD_OOB \<equiv> (4 :: u32)"
abbreviation (input) "FD_ACCEPT \<equiv> (8 :: u32)"
abbreviation (input) "FD_CONNECT \<equiv> (16 :: u32)"
abbreviation (input) "FD_CLOSE \<equiv> (32 :: u32)"
abbreviation (input) "WSAECONNRESET \<equiv> (10054 :: u32)"

definition select_mask :: "u32 \<Rightarrow> u32" where
  "select_mask m =
     (let m1 = (if m AND CONST_POLLIN \<noteq> 0 then FD_READ OR FD_ACCEPT OR FD_CLOSE else 0);
          m2 = (if m AND CONST_POLLOUT \<noteq> 0 then m1 OR (FD_WRITE OR FD_CONNECT OR FD_CLOSE) else m1)
      in if m AND CONST_POLLPRI \<noteq> 0 then m2 OR FD_OOB else m2)"

definition netsys_wsa_event_select :: "('o :: type) w32_os_scheme \<Rightarrow> event \<Rightarrow> u64 \<Rightarrow> (exn + u32) \<times> event" where
  "netsys_wsa_event_select os e evmaskv =
     (let m = Int_val evmaskv;
          e' = e\<lparr>e_mask := m AND (CONST_POLLIN OR CONST_POLLOUT OR CONST_POLLPRI)\<rparr>
      in case os_err os 344 of
           Some err \<Rightarrow> (Inl (uerror_win err ''netsys_wsa_event_select/WSAEventSelect''), e')
         | None \<Rightarrow> (Inr (select_mask m), e'))"

text \<open>\<open>ev\<close> are the network events that happened, \<open>code\<close> gives the error code for each of them.\<close>

definition poll_events :: "u32 \<Rightarrow> (u32 \<Rightarrow> u32) \<Rightarrow> u32" where
  "poll_events ev code =
     (let r0 = 0;
          r1 = (if ev AND FD_CONNECT \<noteq> 0
                then r0 OR CONST_POLLOUT OR (if code FD_CONNECT \<noteq> 0 then CONST_POLLERR else 0) else r0);
          r2 = (if ev AND FD_CLOSE \<noteq> 0
                then r1 OR CONST_POLLIN OR
                     (if code FD_CLOSE \<noteq> 0 then if code FD_CLOSE = WSAECONNRESET then CONST_POLLHUP else CONST_POLLERR else 0)
                else r1);
          r3 = (if ev AND FD_ACCEPT \<noteq> 0
                then r2 OR CONST_POLLIN OR (if code FD_ACCEPT \<noteq> 0 then CONST_POLLERR else 0) else r2);
          r4 = (if ev AND FD_READ \<noteq> 0
                then r3 OR CONST_POLLIN OR (if code FD_READ \<noteq> 0 then CONST_POLLERR else 0) else r3);
          r5 = (if ev AND FD_WRITE \<noteq> 0
                then r4 OR CONST_POLLOUT OR (if code FD_WRITE \<noteq> 0 then CONST_POLLERR else 0) else r4)
      in if ev AND FD_OOB \<noteq> 0
         then r5 OR CONST_POLLPRI OR (if code FD_OOB \<noteq> 0 then CONST_POLLERR else 0) else r5)"

text \<open>The call also resets the event object.\<close>

definition netsys_wsa_enum_network_events ::
    "('o :: type) w32_os_scheme \<Rightarrow> event \<Rightarrow> u32 \<Rightarrow> (u32 \<Rightarrow> u32) \<Rightarrow> 'a w32_scheme \<Rightarrow> (exn + u32) \<times> 'a w32_scheme" where
  "netsys_wsa_enum_network_events os e ev code w =
     (case os_err os 460 of
        Some err \<Rightarrow> (Inl (uerror_win err ''netsys_wsa_enum_network_events/WSAEnumNetworkEvents''), w)
      | None \<Rightarrow> (Inr (poll_events ev code AND (e_mask e OR CONST_POLLHUP OR CONST_POLLERR)), set_signal (e_ev e) False w))"

section \<open>Lemmas on handles\<close>

text \<open>What the system promises: new handles are fresh and are neither NULL nor the invalid handle; no call fails.\<close>

definition fresh_handles :: "('o :: type) w32_os_scheme \<Rightarrow> bool" where
  "fresh_handles os \<longleftrightarrow> (\<forall>site t. finite (dom t) \<longrightarrow> t (os_new os site t) = None \<and> os_new os site t \<notin> {0, -1})"

definition no_errors :: "('o :: type) w32_os_scheme \<Rightarrow> bool" where
  "no_errors os \<longleftrightarrow> (\<forall>site. os_err os site = None)"

definition objs_ok :: "'a w32_scheme \<Rightarrow> bool" where
  "objs_ok w \<longleftrightarrow> finite (dom (w_obj w)) \<and> (\<forall>h ob. w_obj w h = Some ob \<longrightarrow> ob < w_next w)"

lemma fresh_handle:
  "fresh_handles os \<Longrightarrow> objs_ok w \<Longrightarrow>
   w_obj w (os_new os site (w_obj w)) = None \<and> os_new os site (w_obj w) \<noteq> 0 \<and> os_new os site (w_obj w) \<noteq> -1"
  by (simp add: fresh_handles_def objs_ok_def)

lemma objs_ok_new: "objs_ok w \<Longrightarrow> objs_ok (snd (new_object os site w))"
  by (auto simp: objs_ok_def new_object_def Let_def intro: less_SucI split: if_splits)

lemma objs_ok_signal [simp]: "objs_ok (set_signal h b w) = objs_ok w"
  by (simp add: objs_ok_def set_signal_def split: option.split)

lemma objs_ok_close: "objs_ok w \<Longrightarrow> objs_ok (CloseHandle h w)"
proof -
  assume "objs_ok w"
  moreover have "dom ((w_obj w)(h := None)) \<subseteq> dom (w_obj w)" by auto
  ultimately show ?thesis by (auto simp: objs_ok_def CloseHandle_def intro: finite_subset)
qed

lemma set_signal_frame [simp]:
  "w_obj (set_signal h b w) = w_obj w" "w_bad (set_signal h b w) = w_bad w" "w_next (set_signal h b w) = w_next w"
  "w32.more (set_signal h b w) = w32.more w"
  by (simp_all add: set_signal_def split: option.split)

lemma new_object_fresh:
  assumes "fresh_handles os" "objs_ok k" "new_object os site k = (h, k')"
  shows "w_obj k h = None" "w_obj k' = (w_obj k)(h \<mapsto> w_next k)" "objs_ok k'" "w_next k' = w_next k + 1"
    "w_bad k' = w_bad k" "w_sig k' = (w_sig k)(w_next k := False)" "h \<noteq> 0" "h \<noteq> -1"
  using fresh_handle [OF assms(1,2), of site] objs_ok_new [OF assms(2), of os site] assms(3)
  by (auto simp: new_object_def Let_def)

lemma signaled_set [simp]:
  "w_obj w h \<noteq> None \<Longrightarrow> signaled h' (set_signal h b w) = (if w_obj w h' = w_obj w h then b else signaled h' w)"
  by (auto simp: signaled_def set_signal_def split: option.split)

section \<open>Events as flags\<close>

text \<open>A usable event: both handles are open and denote the same object.\<close>

definition event_ok :: "event \<Rightarrow> 'a w32_scheme \<Rightarrow> bool" where
  "event_ok e w \<longleftrightarrow> w_obj w (e_ev e) \<noteq> None \<and> w_obj w (e_proxy e) = w_obj w (e_ev e) \<and> e_ev e \<noteq> e_proxy e"

definition w32_set_op :: "('o :: type) w32_os_scheme \<Rightarrow> event \<Rightarrow> 'a w32_scheme \<Rightarrow> 'a w32_scheme option" where
  "w32_set_op os e w = (case netsys_set_event os e w of (Inr u, w') \<Rightarrow> Some w' | _ \<Rightarrow> None)"

definition w32_clear_op :: "('o :: type) w32_os_scheme \<Rightarrow> event \<Rightarrow> 'a w32_scheme \<Rightarrow> 'a w32_scheme option" where
  "w32_clear_op os e w = (case netsys_reset_event os e w of (Inr u, w') \<Rightarrow> Some w' | _ \<Rightarrow> None)"

lemma w32_event_laws:
  assumes "event_ok e w \<and> no_errors os"
  shows "\<exists>w'. w32_set_op os e w = Some w' \<and> (event_ok e w' \<and> no_errors os) \<and> signaled (e_ev e) w'"
    "\<exists>w'. w32_clear_op os e w = Some w' \<and> (event_ok e w' \<and> no_errors os) \<and> \<not> signaled (e_ev e) w'"
  using assms by (simp_all add: w32_set_op_def netsys_set_event_def w32_clear_op_def netsys_reset_event_def no_errors_def event_ok_def)

interpretation w32_event: event_flag "\<lambda>w. event_ok e w \<and> no_errors os" "signaled (e_ev e)" "w32_set_op os e" "w32_clear_op os e" for os e
  by unfold_locales (rule w32_event_laws, assumption)+

lemma create_event_ok:
  assumes "no_errors os" "fresh_handles os" "objs_ok w"
  shows "\<exists>e w'. netsys_create_event os w = (Inr e, w') \<and> event_ok e w' \<and> \<not> signaled (e_ev e) w' \<and> objs_ok w' \<and>
    w_obj w (e_ev e) = None \<and> w_obj w (e_proxy e) = None \<and> e_auto_close e \<and> w_bad w' = w_bad w \<and>
    (\<forall>h. h \<noteq> e_ev e \<longrightarrow> h \<noteq> e_proxy e \<longrightarrow> w_obj w' h = w_obj w h)"
proof -
  let ?h = "os_new os 184 (w_obj w)"
  obtain w1 where new: "new_object os 184 w = (?h, w1)" by (simp add: new_object_def Let_def)
  let ?p = "os_new os 152 (w_obj w1)"
  have ok1: "objs_ok w1" using objs_ok_new [OF assms(3), of os 184] new by simp
  have fr: "w_obj w ?h = None" "w_obj w1 ?p = None"
    using fresh_handle [OF assms(2,3), of 184] fresh_handle [OF assms(2) ok1, of 152] by simp_all
  have w1: "w_obj w1 = (w_obj w)(?h \<mapsto> w_next w)" "\<not> w_sig w1 (w_next w)" "w_bad w1 = w_bad w" "w_next w1 = w_next w + 1"
    using new by (auto simp: new_object_def Let_def)
  have ne: "?p \<noteq> ?h" "w_obj w ?p = None" using fr(2) unfolding w1(1) by (auto split: if_splits)
  let ?w2 = "w1\<lparr>w_obj := (w_obj w1)(?p \<mapsto> w_next w), w_inherit := (w_inherit w1)(?p := False)\<rparr>"
  let ?e = "\<lparr>e_ev = ?h, e_mask = 0, e_proxy = ?p, e_auto_close = True\<rparr>"
  have "w_obj w1 ?h = Some (w_next w)" using w1(1) by simp
  then have "netsys_create_event os w = (Inr ?e, ?w2)"
    using assms(1) by (simp add: netsys_create_event_def CreateEvent_def no_errors_def new alloc_event_def
        DuplicateHandle_def Let_def)
  moreover have "event_ok ?e ?w2" using ne w1(1) by (simp add: event_ok_def)
  moreover have "\<not> signaled (e_ev ?e) ?w2" using ne w1 by (simp add: signaled_def)
  moreover have "objs_ok ?w2" using ok1 w1(4) by (simp add: objs_ok_def)
  moreover have "\<forall>h. h \<noteq> ?h \<longrightarrow> h \<noteq> ?p \<longrightarrow> w_obj ?w2 h = w_obj w h" using w1(1) by simp
  ultimately show ?thesis using fr(1) ne(2) w1(3) by (intro exI [of _ ?e] exI [of _ ?w2]) simp
qed

text \<open>
  An event is a flag, and it owns its two handles. A new event is not set; after \<^verbatim>\<open>set_event\<close> a test is true
  and every wait returns true at once, after \<^verbatim>\<open>reset_event\<close> a test is false and a wait without timeout does not return;
  the proxy handle shows the same flag. Closing the event gives back exactly the handles of its creation, but with the
  automatic closing switched off the proxy handle stays open.
\<close>

theorem win32_event_flag:
  assumes "no_errors os" "fresh_handles os" "objs_ok w"
  shows "\<exists>e w1. netsys_create_event os w = (Inr e, w1) \<and> netsys_test_event os e w1 = Some (Inr False) \<and>
    (\<exists>w2. netsys_set_event os e w1 = (Inr (), w2) \<and> netsys_test_event os e w2 = Some (Inr True) \<and>
       (\<forall>tmo. netsys_event_wait os e tmo w2 = Some (Inr True)) \<and> signaled (e_proxy e) w2 \<and>
       (\<exists>w3. netsys_reset_event os e w2 = (Inr (), w3) \<and> netsys_test_event os e w3 = Some (Inr False) \<and>
          netsys_event_wait os e (Val_long (-1)) w3 = None)) \<and>
    w_obj (netsys_close_event e w1) = w_obj w \<and> w_bad (netsys_close_event e w1) = w_bad w \<and>
    w_obj (netsys_close_event (netsys_set_auto_close_event_proxy e False) w1) =
      (w_obj w)(e_proxy e := w_obj w1 (e_proxy e)) \<and> w_obj w1 (e_proxy e) \<noteq> None"
proof -
  obtain e w1 where e: "netsys_create_event os w = (Inr e, w1)" "event_ok e w1" "\<not> signaled (e_ev e) w1"
      "w_obj w (e_ev e) = None" "w_obj w (e_proxy e) = None" "e_auto_close e" "w_bad w1 = w_bad w"
      "\<forall>h. h \<noteq> e_ev e \<longrightarrow> h \<noteq> e_proxy e \<longrightarrow> w_obj w1 h = w_obj w h"
    using create_event_ok [OF assms] by (elim exE conjE) (rule that)
  have op: "w_obj w1 (e_ev e) \<noteq> None" "w_obj w1 (e_proxy e) = w_obj w1 (e_ev e)" "e_proxy e \<noteq> e_ev e"
    using e(2) by (auto simp: event_ok_def)
  have err: "\<And>site. os_err os site = None" using assms(1) by (simp add: no_errors_def)
  have neg: "\<not> 0 \<le> sint (Long_val (Val_long (-1)))"
    using Long_val_Val_long [of "-1"] by simp
  note defs = netsys_test_event_def netsys_set_event_def netsys_reset_event_def netsys_event_wait_def
    WaitForSingleObject_def err
  have cl: "(w_obj w1)(e_ev e := None, e_proxy e := None) = w_obj w"
    "(w_obj w1)(e_ev e := None) = (w_obj w)(e_proxy e := w_obj w1 (e_proxy e))"
    using e(4,5,8) op(3) by (auto simp: fun_eq_iff)
  have set: "netsys_set_event os e w1 = (Inr (), set_signal (e_ev e) True w1)"
    "netsys_reset_event os e (set_signal (e_ev e) True w1) = (Inr (), set_signal (e_ev e) False (set_signal (e_ev e) True w1))"
    using op(1) by (simp_all add: defs)
  have test: "netsys_test_event os e w1 = Some (Inr False)" "netsys_test_event os e (set_signal (e_ev e) True w1) = Some (Inr True)"
    "\<forall>tmo. netsys_event_wait os e tmo (set_signal (e_ev e) True w1) = Some (Inr True)"
    "signaled (e_proxy e) (set_signal (e_ev e) True w1)"
    "netsys_test_event os e (set_signal (e_ev e) False (set_signal (e_ev e) True w1)) = Some (Inr False)"
    "netsys_event_wait os e (Val_long (-1)) (set_signal (e_ev e) False (set_signal (e_ev e) True w1)) = None"
    using op e(3) neg by (simp_all add: defs Let_def)
  have close: "w_obj (netsys_close_event e w1) = w_obj w" "w_bad (netsys_close_event e w1) = w_bad w"
    "w_obj (netsys_close_event (netsys_set_auto_close_event_proxy e False) w1) = (w_obj w)(e_proxy e := w_obj w1 (e_proxy e))"
    using op cl e(6,7) by (auto simp: netsys_close_event_def CloseHandle_def netsys_set_auto_close_event_proxy_def Let_def)
  have "w_obj w1 (e_proxy e) \<noteq> None" using op by simp
  then show ?thesis by (intro exI conjI) (rule e(1) set test close | assumption)+
qed

text \<open>A system for examples: new handles are the smallest free positive ones.\<close>

definition free_handle :: "(handle \<Rightarrow> nat option) \<Rightarrow> handle" where
  "free_handle t = int (LEAST n. 0 < n \<and> t (int n) = None)"

definition sample_wos :: w32_os where
  "sample_wos = \<lparr>os_new = (\<lambda>site. free_handle), os_err = (\<lambda>site. None), os_apc = False\<rparr>"

definition sample_w32 :: w32 where
  "sample_w32 = \<lparr>w_obj = (\<lambda>h. if h = 1 then Some 0 else None), w_sig = (\<lambda>ob. False), w_inherit = (\<lambda>h. False), w_next = 1, w_bad = 0\<rparr>"

lemma free_handle_free:
  assumes "finite (dom t)"
  shows "t (free_handle t) = None \<and> 0 < free_handle t"
proof -
  have "finite {n. t (int n) \<noteq> None}"
    using finite_vimageI [OF assms, of int] by (simp add: vimage_def dom_def)
  then obtain m where "\<forall>n \<in> {n. t (int n) \<noteq> None}. n < m" by (auto simp: finite_nat_set_iff_bounded)
  then have "0 < Suc m \<and> t (int (Suc m)) = None" by (metis (mono_tags, lifting) mem_Collect_eq not_less_eq less_Suc_eq zero_less_Suc)
  then have "0 < (LEAST n. 0 < n \<and> t (int n) = None) \<and> t (int (LEAST n. 0 < n \<and> t (int n) = None)) = None"
    by (rule LeastI)
  then show ?thesis by (simp add: free_handle_def)
qed

lemma sample_wos_ok: "no_errors sample_wos" "fresh_handles sample_wos" "objs_ok sample_w32"
proof -
  show "no_errors sample_wos" by (simp add: no_errors_def sample_wos_def)
  show "objs_ok sample_w32" by (auto simp: objs_ok_def sample_w32_def dom_def)
  have "t (free_handle t) = None \<and> free_handle t \<notin> {0, - 1}" if "finite (dom t)" for t
    using free_handle_free [OF that] by auto
  then show "fresh_handles sample_wos" by (simp add: fresh_handles_def sample_wos_def)
qed

theorem win32_event_flag_witness:
  "\<exists>e w1. netsys_create_event sample_wos sample_w32 = (Inr e, w1) \<and> netsys_test_event sample_wos e w1 = Some (Inr False)"
  using win32_event_flag [OF sample_wos_ok] by (elim exE conjE) (intro exI conjI)

section \<open>Waiting\<close>

lemma first_signaled_Some:
  "first_signaled hs w = Some i \<longleftrightarrow> i < length hs \<and> signaled (hs ! i) w \<and> (\<forall>j < i. \<not> signaled (hs ! j) w)"
  by (auto simp: first_signaled_def find_Some_iff)

lemma first_signaled_None: "first_signaled hs w = None \<longleftrightarrow> (\<forall>i < length hs. \<not> signaled (hs ! i) w)"
  by (auto simp: first_signaled_def find_None_iff)

text \<open>
  Waiting for up to 64 events returns the first one that is signalled. When none is, the wait ends with no
  result after the timeout, and a wait with timeout -1 does not end. An interrupted wait raises an error, but not \<^verbatim>\<open>EINTR\<close>:
  the POSIX code is passed to the mapping of Windows codes and becomes \<^verbatim>\<open>EMFILE\<close>, as too many events are reported as
  \<^verbatim>\<open>EACCES\<close> instead of \<^verbatim>\<open>EINVAL\<close>.
\<close>

theorem netsys_wsa_wait_correct:
  fixes os :: "('o :: type) w32_os_scheme"
  assumes ok: "\<forall>site. os_err os site = None" and op: "\<forall>e \<in> set evs. w_obj w (e_ev e) \<noteq> None"
  shows "netsys_wsa_wait_for_multiple_events os evs tmo w =
    (if length evs > 64 then Some (Inl (Unix_error W_EACCES ''netsys_wsa_wait_for_multiple_events''))
     else if os_apc os then Some (Inl (Unix_error W_EMFILE
        (if evs = [] then ''netsys_wsa_wait_for_multiple_events/SleepEx''
         else ''netsys_wsa_wait_for_multiple_events/WSAWaitForMultipleEvents'')))
     else case find (\<lambda>i. signaled (e_ev (evs ! i)) w) [0..<length evs] of
            Some i \<Rightarrow> Some (Inr (Some i))
          | None \<Rightarrow> if ucast (Long_val tmo) = (0xFFFFFFFF :: u32) then None else Some (Inr None))"
proof -
  have m: "win32_maperr 22 = 13" "win32_maperr 4 = 24"
    by (simp_all add: win32_maperr_def win_error_table_def)
  have f: "first_signaled (map e_ev evs) w = find (\<lambda>i. signaled (e_ev (evs ! i)) w) [0..<length evs]"
    unfolding first_signaled_def by (auto intro!: find_cong)
  have lt: "find (\<lambda>i. signaled (e_ev (evs ! i)) w) [0..<length evs] = Some i \<Longrightarrow> i < length evs" for i
    by (auto simp: find_Some_iff)
  have ex: "\<not> list_ex (\<lambda>h. w_obj w h = None) (map e_ev evs)" using op by (auto simp: list_ex_iff)
  show ?thesis
    using ok ex lt
    by (auto simp: netsys_wsa_wait_for_multiple_events_def WSA_MAXIMUM_WAIT_EVENTS_def Let_def
        WSAWaitForMultipleEvents_def f m uerror_win_def split: option.splits)
qed

definition sample_events :: "event list" where
  "sample_events = [\<lparr>e_ev = 1, e_mask = 0, e_proxy = 2, e_auto_close = True\<rparr>]"

theorem netsys_wsa_wait_correct_witness:
  "netsys_wsa_wait_for_multiple_events sample_wos sample_events (Val_long 5) sample_w32 = Some (Inr None)"
proof -
  have "ucast (Long_val (Val_long 5)) \<noteq> (0xFFFFFFFF :: u32)" using Long_val_Val_long [of 5] by simp
  moreover have "\<forall>site. os_err sample_wos site = None" "\<forall>e \<in> set sample_events. w_obj sample_w32 (e_ev e) \<noteq> None"
    by (simp_all add: sample_wos_def sample_events_def sample_w32_def)
  ultimately show ?thesis
    by (simp add: netsys_wsa_wait_correct sample_events_def sample_wos_def sample_w32_def signaled_def)
qed

section \<open>Socket events as poll events\<close>

lemma or_if: "(if c then r OR a OR b else r) = r OR (if c then a OR b else (0 :: u32))"
  by simp

lemma bit_if0: "bit (if c then x else (0 :: u32)) n \<longleftrightarrow> c \<and> bit x n"
  by simp

lemma and_bits:
  fixes x :: u32
  shows "x AND 1 \<noteq> 0 \<longleftrightarrow> bit x 0" "x AND 2 \<noteq> 0 \<longleftrightarrow> bit x 1" "x AND 4 \<noteq> 0 \<longleftrightarrow> bit x 2" "x AND 8 \<noteq> 0 \<longleftrightarrow> bit x 3"
    "x AND 16 \<noteq> 0 \<longleftrightarrow> bit x 4" "x AND 32 \<noteq> 0 \<longleftrightarrow> bit x 5"
  using and_exp_eq_0_iff_not_bit [of x 0] and_exp_eq_0_iff_not_bit [of x 1] and_exp_eq_0_iff_not_bit [of x 2]
    and_exp_eq_0_iff_not_bit [of x 3] and_exp_eq_0_iff_not_bit [of x 4] and_exp_eq_0_iff_not_bit [of x 5] by simp_all

lemma poll_events_bits:
  "bit (poll_events ev code) 0 \<longleftrightarrow> bit ev 0 \<or> bit ev 3 \<or> bit ev 5"
  "bit (poll_events ev code) 1 \<longleftrightarrow> bit ev 2"
  "bit (poll_events ev code) 2 \<longleftrightarrow> bit ev 1 \<or> bit ev 4"
  "bit (poll_events ev code) 4 \<longleftrightarrow> bit ev 5 \<and> code 32 = 10054"
  by (auto simp: poll_events_def Let_def or_if bit_or_iff bit_if0 and_bits)

lemma poll_events_high: "n > 4 \<Longrightarrow> \<not> bit (poll_events ev code) n"
proof -
  assume "n > 4"
  then have "\<not> bit (1 :: u32) n" "\<not> bit (2 :: u32) n" "\<not> bit (4 :: u32) n" "\<not> bit (8 :: u32) n" "\<not> bit (16 :: u32) n"
    using bit_exp_iff [where 'a = u32 and m = 0 and n = n] bit_exp_iff [where 'a = u32 and m = 1 and n = n]
      bit_exp_iff [where 'a = u32 and m = 2 and n = n] bit_exp_iff [where 'a = u32 and m = 3 and n = n]
      bit_exp_iff [where 'a = u32 and m = 4 and n = n] by simp_all
  then show ?thesis by (simp add: poll_events_def Let_def or_if bit_or_iff bit_if0)
qed

lemma select_mask_bits:
  "bit (select_mask m) 0 \<longleftrightarrow> bit m 0" "bit (select_mask m) 1 \<longleftrightarrow> bit m 2" "bit (select_mask m) 2 \<longleftrightarrow> bit m 1"
  "bit (select_mask m) 3 \<longleftrightarrow> bit m 0" "bit (select_mask m) 4 \<longleftrightarrow> bit m 2" "bit (select_mask m) 5 \<longleftrightarrow> bit m 0 \<or> bit m 2"
  by (auto simp: select_mask_def Let_def bit_or_iff and_bits)

text \<open>
  The translation between poll events and socket events. Selecting asks Windows for exactly the socket events behind
  the requested poll events; reading them reports input, priority input or output exactly when it was requested and one
  of its socket events happened, a hangup exactly for a reset connection, and never any other bit than these and the error
  bit; the event object is reset.
\<close>

theorem netsys_wsa_poll_translation:
  assumes "netsys_wsa_event_select os e mv = (Inr sel, e')" "netsys_wsa_enum_network_events os e' ev code w = (Inr r, w')"
    and "w_obj w (e_ev e) \<noteq> None"
  defines "m \<equiv> Int_val mv"
  shows "(bit sel 0 \<longleftrightarrow> bit m 0) \<and> (bit sel 3 \<longleftrightarrow> bit m 0) \<and> (bit sel 1 \<longleftrightarrow> bit m 2) \<and> (bit sel 4 \<longleftrightarrow> bit m 2) \<and>
    (bit sel 2 \<longleftrightarrow> bit m 1) \<and> (bit sel 5 \<longleftrightarrow> bit m 0 \<or> bit m 2) \<and>
    (bit r 0 \<longleftrightarrow> bit m 0 \<and> (bit ev 0 \<or> bit ev 3 \<or> bit ev 5)) \<and>
    (bit r 1 \<longleftrightarrow> bit m 1 \<and> bit ev 2) \<and>
    (bit r 2 \<longleftrightarrow> bit m 2 \<and> (bit ev 1 \<or> bit ev 4)) \<and>
    (bit r 4 \<longleftrightarrow> bit ev 5 \<and> code 32 = WSAECONNRESET) \<and> (\<forall>n > 4. \<not> bit r n) \<and> \<not> signaled (e_ev e) w'"
proof -
  have s: "sel = select_mask m" "e_mask e' = m AND 7" "e_ev e' = e_ev e"
    using assms(1) by (auto simp: netsys_wsa_event_select_def Let_def m_def split: option.splits)
  have r: "r = poll_events ev code AND ((m AND 7) OR 16 OR 8)" "w' = set_signal (e_ev e) False w"
    using assms(2) s by (auto simp: netsys_wsa_enum_network_events_def split: option.splits)
  have b: "\<And>n. bit r n \<longleftrightarrow> bit (poll_events ev code) n \<and> (bit m n \<and> bit (7 :: u32) n \<or> bit (16 :: u32) n \<or> bit (8 :: u32) n)"
    unfolding r(1) bit_and_iff bit_or_iff by blast
  have "bit r 0 \<longleftrightarrow> bit m 0 \<and> (bit ev 0 \<or> bit ev 3 \<or> bit ev 5)" "bit r 1 \<longleftrightarrow> bit m 1 \<and> bit ev 2"
    "bit r 2 \<longleftrightarrow> bit m 2 \<and> (bit ev 1 \<or> bit ev 4)" "bit r 4 \<longleftrightarrow> bit ev 5 \<and> code 32 = 10054"
    unfolding b poll_events_bits by auto
  moreover have "\<forall>n > 4. \<not> bit r n" unfolding b using poll_events_high by blast
  moreover have "\<not> signaled (e_ev e) w'" unfolding r(2) using assms(3) by simp
  ultimately show ?thesis unfolding s(1) select_mask_bits by simp
qed

theorem netsys_wsa_poll_translation_witness:
  "\<exists>sel e' r w'. netsys_wsa_event_select sample_wos (hd sample_events) (Val_long 1) = (Inr sel, e') \<and>
     netsys_wsa_enum_network_events sample_wos e' 1 (\<lambda>f. 0) sample_w32 = (Inr r, w') \<and>
     bit sel 0 = bit (Int_val (Val_long 1)) 0 \<and> bit r 0 = bit (Int_val (Val_long 1)) 0"
proof -
  obtain sel e' r w' where *: "netsys_wsa_event_select sample_wos (hd sample_events) (Val_long 1) = (Inr sel, e')"
      "netsys_wsa_enum_network_events sample_wos e' 1 (\<lambda>f. 0) sample_w32 = (Inr r, w')"
    by (auto simp: netsys_wsa_event_select_def netsys_wsa_enum_network_events_def sample_wos_def Let_def)
  have "w_obj sample_w32 (e_ev (hd sample_events)) \<noteq> None" by (simp add: sample_w32_def sample_events_def)
  note t = netsys_wsa_poll_translation [OF * this]
  have "bit sel 0 = bit (Int_val (Val_long 1)) 0" using t by (elim conjE)
  moreover have "bit r 0 \<longleftrightarrow> bit (Int_val (Val_long 1)) 0 \<and> (bit (1 :: u32) 0 \<or> bit (1 :: u32) 3 \<or> bit (1 :: u32) 5)"
    using t by (elim conjE)
  ultimately show ?thesis using * by (intro exI [of _ sel] exI [of _ e'] exI [of _ r] exI [of _ w'] conjI) simp_all
qed

section \<open>Error codes and handle flags\<close>

text \<open>Every entry of the table of Windows errors has a constant constructor in \<^verbatim>\<open>Unix.error\<close>.\<close>

lemma maperr_known: "list_all (\<lambda>(w, r, p). unix_error_of_code p \<noteq> Inl p) win_error_table"
  by (simp add: win_error_table_def unix_error_of_code_def error_table_def Let_def)

text \<open>
  Reading the close-on-exec flag gives the opposite of what was set: the test returns whether the handle is
  inheritable.
\<close>

lemma test_close_on_exec_inverted:
  assumes "w_obj w fd \<noteq> None" "\<forall>site. os_err os site = None"
  shows "\<exists>w'. netsys_modify_close_on_exec os fd flag w = (Inr (), w') \<and> netsys_test_close_on_exec os fd w' = Inr (\<not> flag)"
  using assms by (simp add: netsys_modify_close_on_exec_def netsys_test_close_on_exec_def)

end
