(* ===== verification/Pipe_helper.thy ===== *)
theory Pipe_helper
  imports Win32 "HOL-Library.Sublist"
begin

text \<open>
  Named pipes with asynchronous I/O, \<^verbatim>\<open>src/src/netsys/netsys_c_win32.c\<close> lines 515 to 1516: \<^verbatim>\<open>struct pipe_helper\<close> with its
  read and write buffer, and the primitives on it.

  The kernel side: \<open>k_rd\<close>, \<open>k_wr\<close> and \<open>k_cn\<close> are the states of the three overlapped operations, \<open>k_in\<close> the bytes that the peer
  has sent and nobody has read, \<open>k_out\<close> the bytes that were sent to the peer. While an overlapped read is pending the
  kernel may store into \<^verbatim>\<open>pipe_rd_buf\<close>, while an overlapped write is pending it may read \<^verbatim>\<open>pipe_wr_buf\<close> at any time;
  these are steps of their own below. An overlapped operation resets its event object when it starts
  and sets it when it completes. The answers of the system (\<^verbatim>\<open>po_*\<close>) may depend on the state.
  The descriptive \<^verbatim>\<open>dprintf\<close> calls have no effect on the state. The range of the caller's string is checked in
  \<^verbatim>\<open>netsys_win32.ml\<close>; here a read returns the bytes and a write gets them.
\<close>

section \<open>State\<close>

abbreviation (input) "ERROR_HANDLE_EOF \<equiv> (38 :: u32)"
abbreviation (input) "ERROR_BROKEN_PIPE \<equiv> (109 :: u32)"
abbreviation (input) "ERROR_PIPE_BUSY \<equiv> (231 :: u32)"
abbreviation (input) "ERROR_NO_DATA \<equiv> (232 :: u32)"
abbreviation (input) "ERROR_PIPE_NOT_CONNECTED \<equiv> (233 :: u32)"
abbreviation (input) "ERROR_PIPE_CONNECTED \<equiv> (535 :: u32)"
abbreviation (input) "ERROR_OPERATION_ABORTED \<equiv> (995 :: u32)"
abbreviation (input) "ERROR_IO_INCOMPLETE \<equiv> (996 :: u32)"
abbreviation (input) "ERROR_IO_PENDING \<equiv> (997 :: u32)"

abbreviation (input) "W_EALREADY \<equiv> (-10037 :: int)"
abbreviation (input) "W_EISCONN \<equiv> (-10056 :: int)"
abbreviation (input) "W_ENOTCONN \<equiv> (-10057 :: int)"

definition PIPE_HELPER_BUF_SIZE :: nat where "PIPE_HELPER_BUF_SIZE = 1024"

datatype conn_state = PIPE_DEAF | PIPE_LISTENING | PIPE_CONNECTED | PIPE_DOWN

record pipe_helper =
  pipe_handle :: handle
  pipe_is_open :: bool
  pipe_is_server :: bool
  pipe_conn_state :: conn_state
  pipe_error_rd :: u32
  pipe_error_wr :: u32
  pipe_mode_rd :: bool
  pipe_mode_wr :: bool
  pipe_rd_ev :: handle
  pipe_wr_ev :: handle
  pipe_cn_ev :: handle
  pipe_rd_ovrlp_started :: bool
  pipe_wr_ovrlp_started :: bool
  pipe_cn_ovrlp_started :: bool
  pipe_rd_buf :: "u8 list"
  pipe_rd_buf_size :: nat
  pipe_rd_eof :: bool
  pipe_wr_buf :: "u8 list"
  pipe_wr_buf_size :: nat
  pipe_descr :: handle
  pipe_descr_auto_close :: bool
  pipe_signal :: handle

text \<open>An overlapped operation: none yet, pending, done with a number of bytes, or failed.\<close>

datatype ovl = Ov_idle | Ov_pending | Ov_done nat | Ov_failed u32

record pk = w32 +
  k_rd :: ovl
  k_wr :: ovl
  k_cn :: ovl
  k_in :: "u8 list"
  k_out :: "u8 list"

datatype io_answer = Io_now nat | Io_pending | Io_error u32

record pipe_os = w32_os +
  po_read :: "pk \<Rightarrow> io_answer"
  po_write :: "pk \<Rightarrow> io_answer"
  po_connect :: "pk \<Rightarrow> io_answer"
  po_abort :: "nat \<Rightarrow> u32 option"
  po_garbage :: "nat \<Rightarrow> u8"

section \<open>System calls\<close>

text \<open>An immediate read takes at most as many bytes as there are, and as the buffer holds.\<close>

definition ReadFile :: "pipe_os \<Rightarrow> pipe_helper \<Rightarrow> pk \<Rightarrow> (u32 + nat) \<times> pipe_helper \<times> pk" where
  "ReadFile os ph k =
     (case po_read os k of
        Io_now n \<Rightarrow>
          let m = min n (min PIPE_HELPER_BUF_SIZE (length (k_in k)))
          in (Inr m, ph\<lparr>pipe_rd_buf := take m (k_in k) @ drop m (pipe_rd_buf ph)\<rparr>,
              set_signal (pipe_rd_ev ph) True (k\<lparr>k_in := drop m (k_in k)\<rparr>))
      | Io_pending \<Rightarrow> (Inl ERROR_IO_PENDING, ph, set_signal (pipe_rd_ev ph) False (k\<lparr>k_rd := Ov_pending\<rparr>))
      | Io_error e \<Rightarrow> (Inl e, ph, set_signal (pipe_rd_ev ph) False k))"

definition WriteFile :: "pipe_os \<Rightarrow> pipe_helper \<Rightarrow> pk \<Rightarrow> (u32 + nat) \<times> pk" where
  "WriteFile os ph k =
     (case po_write os k of
        Io_now n \<Rightarrow> (Inr (pipe_wr_buf_size ph),
          set_signal (pipe_wr_ev ph) True (k\<lparr>k_out := k_out k @ take (pipe_wr_buf_size ph) (pipe_wr_buf ph)\<rparr>))
      | Io_pending \<Rightarrow> (Inl ERROR_IO_PENDING, set_signal (pipe_wr_ev ph) False (k\<lparr>k_wr := Ov_pending\<rparr>))
      | Io_error e \<Rightarrow> (Inl e, set_signal (pipe_wr_ev ph) False k))"

definition GetOverlappedResult :: "ovl \<Rightarrow> u32 + nat" where
  "GetOverlappedResult ov =
     (case ov of Ov_done n \<Rightarrow> Inr n | Ov_failed e \<Rightarrow> Inl e | _ \<Rightarrow> Inl ERROR_IO_INCOMPLETE)"

text \<open>Disconnecting drops what was not read; closing cancels. A pending operation fails with the answer of \<open>po_abort\<close>.\<close>

definition abort :: "u32 option \<Rightarrow> ovl \<Rightarrow> ovl" where
  "abort e ov = (case e of Some e' \<Rightarrow> if ov = Ov_pending then Ov_failed e' else ov | None \<Rightarrow> ov)"

definition abort_signal :: "u32 option \<Rightarrow> ovl \<Rightarrow> handle \<Rightarrow> pk \<Rightarrow> pk" where
  "abort_signal e ov h k = (if e \<noteq> None \<and> ov = Ov_pending then set_signal h True k else k)"

definition abort_all :: "(nat \<Rightarrow> u32 option) \<Rightarrow> pipe_helper \<Rightarrow> pk \<Rightarrow> pk" where
  "abort_all ab ph k =
     abort_signal (ab 0) (k_rd k) (pipe_rd_ev ph)
     (abort_signal (ab 1) (k_wr k) (pipe_wr_ev ph)
     (abort_signal (ab 2) (k_cn k) (pipe_cn_ev ph)
       (k\<lparr>k_rd := abort (ab 0) (k_rd k), k_wr := abort (ab 1) (k_wr k), k_cn := abort (ab 2) (k_cn k)\<rparr>)))"

section \<open>Starting and finishing operations\<close>

definition start_reading :: "pipe_os \<Rightarrow> pipe_helper \<Rightarrow> pk \<Rightarrow> pipe_helper \<times> pk" where
  "start_reading os ph k =
     (case ReadFile os ph k of
        (r, ph1, k1) \<Rightarrow>
          let ph2 = ph1\<lparr>pipe_rd_buf_size := 0\<rparr>
          in (case r of
                Inr n \<Rightarrow> ph2\<lparr>pipe_rd_buf_size := n, pipe_rd_eof := (n = 0 \<or> pipe_rd_eof ph2)\<rparr>
              | Inl err \<Rightarrow>
                  if err = ERROR_IO_PENDING then ph2\<lparr>pipe_rd_ovrlp_started := True\<rparr>
                  else if err = ERROR_HANDLE_EOF then ph2\<lparr>pipe_rd_eof := True\<rparr>
                  else ph2\<lparr>pipe_error_rd := err\<rparr>, k1))"

definition start_writing :: "pipe_os \<Rightarrow> pipe_helper \<Rightarrow> pk \<Rightarrow> pipe_helper \<times> pk" where
  "start_writing os ph k =
     (case WriteFile os ph k of
        (Inr n, k1) \<Rightarrow> (ph\<lparr>pipe_wr_buf_size := 0\<rparr>, k1)
      | (Inl err, k1) \<Rightarrow>
          (if err = ERROR_IO_PENDING then ph\<lparr>pipe_wr_ovrlp_started := True\<rparr> else ph\<lparr>pipe_error_wr := err\<rparr>, k1))"

definition check_rd :: "pipe_helper \<Rightarrow> pk \<Rightarrow> pipe_helper" where
  "check_rd ph k =
     (if pipe_rd_ovrlp_started ph
      then case GetOverlappedResult (k_rd k) of
             Inr n \<Rightarrow> ph\<lparr>pipe_rd_buf_size := n, pipe_rd_ovrlp_started := False\<rparr>
           | Inl err \<Rightarrow>
               if err = ERROR_HANDLE_EOF \<or> err = ERROR_BROKEN_PIPE \<or> err = ERROR_NO_DATA
               then ph\<lparr>pipe_rd_buf_size := 0, pipe_rd_eof := True, pipe_rd_ovrlp_started := False\<rparr>
               else if err \<noteq> ERROR_IO_INCOMPLETE
               then ph\<lparr>pipe_error_rd := err, pipe_rd_ovrlp_started := False\<rparr>
               else ph
      else ph)"

definition check_wr :: "pipe_helper \<Rightarrow> pk \<Rightarrow> pipe_helper" where
  "check_wr ph k =
     (if pipe_wr_ovrlp_started ph
      then case GetOverlappedResult (k_wr k) of
             Inr n \<Rightarrow> ph\<lparr>pipe_wr_buf_size := 0, pipe_wr_ovrlp_started := False\<rparr>
           | Inl err \<Rightarrow>
               if err \<noteq> ERROR_IO_INCOMPLETE
               then ph\<lparr>pipe_error_wr := err, pipe_wr_ovrlp_started := False\<rparr>
               else ph
      else ph)"

definition check_cn :: "pipe_os \<Rightarrow> pipe_helper \<Rightarrow> pk \<Rightarrow> pipe_helper \<times> pk" where
  "check_cn os ph k =
     (if pipe_cn_ovrlp_started ph
      then case GetOverlappedResult (k_cn k) of
             Inr n \<Rightarrow>
               let ph1 = ph\<lparr>pipe_conn_state := PIPE_CONNECTED\<rparr>;
                   (ph2, k2) = (if pipe_mode_rd ph1 then start_reading os ph1 k else (ph1, k));
                   k3 = (if pipe_mode_wr ph2 then set_signal (pipe_wr_ev ph2) True k2 else k2)
               in (ph2\<lparr>pipe_cn_ovrlp_started := False\<rparr>, k3)
           | Inl err \<Rightarrow>
               if err \<noteq> ERROR_IO_INCOMPLETE
               then let ph1 = ph\<lparr>pipe_error_wr := err, pipe_error_rd := err, pipe_cn_ovrlp_started := False,
                                pipe_conn_state := PIPE_CONNECTED\<rparr>;
                        k1 = (if pipe_mode_rd ph1 then set_signal (pipe_rd_ev ph1) True k else k);
                        k2 = (if pipe_mode_wr ph1 then set_signal (pipe_wr_ev ph1) True k1 else k1)
                    in (ph1, k2)
               else (ph, k)
      else (ph, k))"

definition check_for_pending_operations :: "pipe_os \<Rightarrow> pipe_helper \<Rightarrow> pk \<Rightarrow> pipe_helper \<times> pk" where
  "check_for_pending_operations os ph k = check_cn os (check_wr (check_rd ph k) k) k"

definition check_open :: "pipe_os \<Rightarrow> pipe_helper \<Rightarrow> pk \<Rightarrow> pipe_helper \<times> pk" where
  "check_open os ph k = (if pipe_is_open ph then check_for_pending_operations os ph k else (ph, k))"

section \<open>Creating and freeing\<close>

text \<open>
  The three event objects of a helper. A failure leaves behind the objects that were created before, and the pipe handle.
\<close>

definition alloc_pipe_helper :: "pipe_os \<Rightarrow> handle \<Rightarrow> handle \<Rightarrow> pk \<Rightarrow> (exn + pipe_helper) \<times> pk" where
  "alloc_pipe_helper os h cn_ev k =
     (case CreateEvent os 576 k of
        (Inl e, k1) \<Rightarrow> (Inl (uerror_win e ''alloc_pipe_helper/CreateEvent''), k1)
      | (Inr rd_ev, k1) \<Rightarrow>
          (case CreateEvent os 582 k1 of
             (Inl e, k2) \<Rightarrow> (Inl (uerror_win e ''alloc_pipe_helper/CreateEvent''), k2)
           | (Inr wr_ev, k2) \<Rightarrow>
               (case CreateEvent os 588 k2 of
                  (Inl e, k3) \<Rightarrow> (Inl (uerror_win e ''alloc_pipe_helper/CreateEvent''), k3)
                | (Inr pd, k3) \<Rightarrow>
                    (Inr \<lparr>pipe_handle = h, pipe_is_open = True, pipe_is_server = False, pipe_conn_state = PIPE_DEAF,
                          pipe_error_rd = 0, pipe_error_wr = 0, pipe_mode_rd = False, pipe_mode_wr = False,
                          pipe_rd_ev = rd_ev, pipe_wr_ev = wr_ev, pipe_cn_ev = cn_ev,
                          pipe_rd_ovrlp_started = False, pipe_wr_ovrlp_started = False, pipe_cn_ovrlp_started = False,
                          pipe_rd_buf = map (po_garbage os) [0..<PIPE_HELPER_BUF_SIZE], pipe_rd_buf_size = 0,
                          pipe_rd_eof = False,
                          pipe_wr_buf = map (po_garbage os) [0..<PIPE_HELPER_BUF_SIZE], pipe_wr_buf_size = 0,
                          pipe_descr = pd, pipe_descr_auto_close = True, pipe_signal = NULL_HANDLE\<rparr>,
                     k3\<lparr>k_rd := Ov_idle, k_wr := Ov_idle, k_cn := Ov_idle\<rparr>))))"

definition free_pipe_helper :: "pipe_helper \<Rightarrow> pk \<Rightarrow> pk" where
  "free_pipe_helper ph k =
     (let k1 = (if pipe_is_open ph then CloseHandle (pipe_handle ph) k else k);
          k2 = (if pipe_descr_auto_close ph then CloseHandle (pipe_descr ph) k1 else k1);
          k3 = CloseHandle (pipe_wr_ev ph) (CloseHandle (pipe_rd_ev ph) k2)
      in if pipe_cn_ev ph \<noteq> INVALID_HANDLE_VALUE then CloseHandle (pipe_cn_ev ph) k3 else k3)"

datatype pipe_mode = Pipe_in | Pipe_out | Pipe_duplex

definition mode_rd :: "pipe_mode \<Rightarrow> bool" where "mode_rd m \<longleftrightarrow> m \<noteq> Pipe_out"
definition mode_wr :: "pipe_mode \<Rightarrow> bool" where "mode_wr m \<longleftrightarrow> m \<noteq> Pipe_in"

record sids =
  world_sid :: "nat option"
  network_sid :: "nat option"

text \<open>\<open>alloc n\<close>: the answer of \<^verbatim>\<open>AllocateAndInitializeSid\<close> for the world (0) and the network (1).\<close>

definition setup_network_sid :: "(nat \<Rightarrow> u32 + nat) \<Rightarrow> sids \<Rightarrow> (exn + unit) \<times> sids" where
  "setup_network_sid alloc s =
     (if network_sid s = None
      then case alloc 1 of
             Inl e \<Rightarrow> (Inl (uerror_win e ''setup_sid/AllocateAndInitializeSid''), s)
           | Inr p \<Rightarrow> (Inr (), s\<lparr>network_sid := Some p\<rparr>)
      else (Inr (), s))"

definition setup_sid :: "(nat \<Rightarrow> u32 + nat) \<Rightarrow> sids \<Rightarrow> (exn + unit) \<times> sids" where
  "setup_sid alloc s =
     (if world_sid s = None
      then case alloc 0 of
             Inl e \<Rightarrow> (Inl (uerror_win e ''setup_sid/AllocateAndInitializeSid''), s)
           | Inr p \<Rightarrow> setup_network_sid alloc (s\<lparr>world_sid := Some p\<rparr>)
      else setup_network_sid alloc s)"

text \<open>After success both identifiers are there, and existing ones are kept: a retry after a failure continues where the first call stopped.\<close>

lemma setup_sid_ok:
  assumes "setup_sid alloc s = (r, s')"
  shows "(\<forall>p. world_sid s = Some p \<longrightarrow> world_sid s' = Some p) \<and> (\<forall>p. network_sid s = Some p \<longrightarrow> network_sid s' = Some p) \<and>
    (r = Inr () \<longrightarrow> world_sid s' \<noteq> None \<and> network_sid s' \<noteq> None)"
  using assms by (auto simp: setup_sid_def setup_network_sid_def split: if_splits sum.splits)

text \<open>
  The server end. The two security identifiers are static variables; the access list of the pipe is set up by three calls (959, 968, 975), whose effect is not
  part of the state; a failure of one of them closes the handle.
\<close>

definition netsys_create_local_named_pipe ::
    "pipe_os \<Rightarrow> (nat \<Rightarrow> u32 + nat) \<Rightarrow> pipe_mode \<Rightarrow> event \<Rightarrow> sids \<Rightarrow> pk \<Rightarrow> (exn + pipe_helper) \<times> sids \<times> pk" where
  "netsys_create_local_named_pipe os alloc mode cn_ev sd k =
     (case setup_sid alloc sd of
        (Inl ex, sd1) \<Rightarrow> (Inl ex, sd1, k)
      | (Inr u, sd1) \<Rightarrow>
          (case os_err os 907 of
             Some e \<Rightarrow> (Inl (uerror_win e ''netsys_create_local_named_pipe/CreateNamedPipe''), sd1, k)
           | None \<Rightarrow>
               (case new_object os 907 k of
                  (h, k1) \<Rightarrow>
                    (case (os_err os 959, os_err os 968, os_err os 975) of
                       (Some e, _, _) \<Rightarrow>
                         (Inl (uerror_win e ''netsys_create_local_named_pipe/GetSecurityInfo''), sd1, CloseHandle h k1)
                     | (None, Some e, _) \<Rightarrow>
                         (Inl (uerror_win e ''netsys_create_local_named_pipe/SetEntriesinAcl''), sd1, CloseHandle h k1)
                     | (None, None, Some e) \<Rightarrow>
                         (Inl (uerror_win e ''netsys_create_local_named_pipe/SetSecurityInfo''), sd1, CloseHandle h k1)
                     | (None, None, None) \<Rightarrow>
                         (case alloc_pipe_helper os h (e_ev cn_ev) k1 of
                            (Inl ex, k2) \<Rightarrow> (Inl ex, sd1, k2)
                          | (Inr ph, k2) \<Rightarrow>
                              (Inr (ph\<lparr>pipe_is_server := True, pipe_mode_rd := mode_rd mode, pipe_mode_wr := mode_wr mode\<rparr>), sd1, k2))))))"

definition netsys_pipe_connect :: "pipe_os \<Rightarrow> pipe_mode \<Rightarrow> pk \<Rightarrow> (exn + pipe_helper) \<times> pk" where
  "netsys_pipe_connect os mode k =
     (case os_err os 1205 of
        Some e \<Rightarrow>
          (Inl (if e = ERROR_PIPE_BUSY then Unix_error W_EAGAIN ''netsys_pipe_connect/CreateFile''
                else uerror_win e ''netsys_pipe_connect/CreateFile''), k)
      | None \<Rightarrow>
          (case new_object os 1205 k of
             (h, k1) \<Rightarrow>
               (case alloc_pipe_helper os h INVALID_HANDLE_VALUE k1 of
                  (Inl ex, k2) \<Rightarrow> (Inl ex, k2)
                | (Inr ph, k2) \<Rightarrow>
                    let ph1 = ph\<lparr>pipe_conn_state := PIPE_CONNECTED, pipe_mode_rd := mode_rd mode, pipe_mode_wr := mode_wr mode\<rparr>;
                        k3 = set_signal (pipe_wr_ev ph1) True k2;
                        (ph2, k4) = (if mode_rd mode then start_reading os ph1 k3 else (ph1, k3))
                    in (Inr ph2, k4))))"

section \<open>Primitives\<close>

text \<open>\<^verbatim>\<open>errno = \<dots>; uerror(\<dots>)\<close>\<close>

abbreviation (input) perr :: "int \<Rightarrow> string \<Rightarrow> exn + 'a" where
  "perr e name \<equiv> Inl (Unix_error e name)"

text \<open>
  \<^verbatim>\<open>ConnectNamedPipe\<close> resets the event of its overlapped structure, which other pipes may share; so it is set again when it
  was set before.
\<close>

definition listen_connect :: "pipe_os \<Rightarrow> bool \<Rightarrow> pipe_helper \<Rightarrow> pk \<Rightarrow> (exn + unit) \<times> pipe_helper \<times> pk" where
  "listen_connect os was_set ph k =
     (let cn_signal = (\<lambda>b k. if pipe_cn_ev ph \<noteq> INVALID_HANDLE_VALUE then set_signal (pipe_cn_ev ph) b k else k);
          k1 = cn_signal False k;
          connected = (Inr (), ph\<lparr>pipe_conn_state := PIPE_CONNECTED\<rparr>, cn_signal True k1)
      in (case po_connect os k1 of
            Io_now n \<Rightarrow> connected
          | Io_pending \<Rightarrow>
              (Inr (), ph\<lparr>pipe_cn_ovrlp_started := True, pipe_conn_state := PIPE_LISTENING\<rparr>,
               if was_set then cn_signal True (k1\<lparr>k_cn := Ov_pending\<rparr>) else k1\<lparr>k_cn := Ov_pending\<rparr>)
          | Io_error err \<Rightarrow>
              (if err = ERROR_PIPE_CONNECTED then connected
               else (Inl (uerror_win err ''netsys_pipe_listen/ConnectNamedPipe''), ph, k1))))"

definition netsys_pipe_listen :: "pipe_os \<Rightarrow> pipe_helper \<Rightarrow> pk \<Rightarrow> (exn + unit) \<times> pipe_helper \<times> pk" where
  "netsys_pipe_listen os ph0 k0 =
     (case check_open os ph0 k0 of
        (ph, k) \<Rightarrow>
          if \<not> pipe_is_open ph then (perr W_EBADF ''netsys_pipe_listen'', ph, k)
          else if \<not> pipe_is_server ph then (perr W_EPERM ''netsys_pipe_listen'', ph, k)
          else if pipe_conn_state ph \<noteq> PIPE_DEAF then (perr W_EISCONN ''netsys_pipe_listen'', ph, k)
          else if pipe_cn_ovrlp_started ph then (perr W_EALREADY ''netsys_pipe_listen'', ph, k)
          else if pipe_cn_ev ph = INVALID_HANDLE_VALUE then listen_connect os False ph k
          else (case WaitForSingleObject os 1050 (pipe_cn_ev ph) 0 k of
                  Some (Inl e) \<Rightarrow> (Inl (uerror_win e ''netsys_pipe_listen/WaitForSingleObject''), ph, k)
                | Some (Inr was_set) \<Rightarrow> listen_connect os was_set ph k
                | None \<Rightarrow> listen_connect os False ph k))"

definition reset_events :: "pipe_helper \<Rightarrow> pk \<Rightarrow> pk" where
  "reset_events ph k =
     (let k1 = set_signal (pipe_wr_ev ph) False (set_signal (pipe_rd_ev ph) False k)
      in if pipe_cn_ev ph \<noteq> INVALID_HANDLE_VALUE then set_signal (pipe_cn_ev ph) False k1 else k1)"

definition netsys_pipe_deafen :: "pipe_os \<Rightarrow> pipe_helper \<Rightarrow> pk \<Rightarrow> (exn + unit) \<times> pipe_helper \<times> pk" where
  "netsys_pipe_deafen os ph0 k0 =
     (case check_open os ph0 k0 of
        (ph, k) \<Rightarrow>
          if \<not> pipe_is_open ph then (perr W_EBADF ''netsys_pipe_deafen'', ph, k)
          else if \<not> pipe_is_server ph then (perr W_EPERM ''netsys_pipe_deafen'', ph, k)
          else if pipe_conn_state ph = PIPE_DEAF then (perr W_ENOTCONN ''netsys_pipe_deafen'', ph, k)
          else (case os_err os 1134 of
             Some e \<Rightarrow> (Inl (uerror_win e ''netsys_pipe_deafen/DisconnectNamedPipe''), ph, k)
           | None \<Rightarrow>
               (case check_for_pending_operations os ph (abort_all (po_abort os) ph (k\<lparr>k_in := []\<rparr>)) of
                  (ph1, k1) \<Rightarrow>
                    if pipe_cn_ovrlp_started ph1
                    then (Inl (Failure ''netsys_pipe_unlisten: cannot stop pending ConnectNamedPipe''), ph1, k1)
                    else if pipe_rd_ovrlp_started ph1
                    then (Inl (Failure ''netsys_pipe_unlisten: cannot stop pending ReadFile''), ph1, k1)
                    else if pipe_wr_ovrlp_started ph1
                    then (Inl (Failure ''netsys_pipe_unlisten: cannot stop pending WriteFile''), ph1, k1)
                    else (Inr (), ph1\<lparr>pipe_conn_state := PIPE_DEAF, pipe_error_rd := 0, pipe_error_wr := 0,
                                pipe_rd_buf_size := 0, pipe_rd_eof := False, pipe_wr_buf_size := 0\<rparr>,
                          reset_events ph1 k1))))"

text \<open>The result of a read: the bytes copied to the caller.\<close>

definition netsys_pipe_read :: "pipe_os \<Rightarrow> pipe_helper \<Rightarrow> nat \<Rightarrow> pk \<Rightarrow> (exn + u8 list) \<times> pipe_helper \<times> pk" where
  "netsys_pipe_read os ph0 len k0 =
     (case check_open os ph0 k0 of
        (ph, k) \<Rightarrow>
          if pipe_error_rd ph \<noteq> 0 then (Inl (uerror_win (pipe_error_rd ph) ''netsys_pipe_read''), ph, k)
          else if len = 0 then (Inr [], ph, k)
          else if \<not> pipe_is_open ph \<or> \<not> pipe_mode_rd ph then (perr W_EBADF ''netsys_pipe_read'', ph, k)
          else if pipe_conn_state ph \<noteq> PIPE_CONNECTED then (perr W_ENOTCONN ''netsys_pipe_read'', ph, k)
          else if pipe_rd_ovrlp_started ph then (perr W_EAGAIN ''netsys_pipe_read'', ph, k)
          else
            let l = min len (pipe_rd_buf_size ph);
                size = pipe_rd_buf_size ph;
                buf = pipe_rd_buf ph;
                ph1 = ph\<lparr>pipe_rd_buf := take (size - l) (drop l buf) @ drop (size - l) buf, pipe_rd_buf_size := size - l\<rparr>;
                (ph2, k2) = (if pipe_rd_buf_size ph1 = 0 \<and> \<not> pipe_rd_eof ph1 then start_reading os ph1 k else (ph1, k))
            in (Inr (take l buf), ph2, k2))"

text \<open>The result of a write: the number of bytes taken from the caller.\<close>

definition netsys_pipe_write :: "pipe_os \<Rightarrow> pipe_helper \<Rightarrow> u8 list \<Rightarrow> pk \<Rightarrow> (exn + nat) \<times> pipe_helper \<times> pk" where
  "netsys_pipe_write os ph0 s k0 =
     (case check_open os ph0 k0 of
        (ph, k) \<Rightarrow>
          if pipe_error_wr ph \<noteq> 0
          then (Inl (if pipe_error_wr ph = ERROR_PIPE_NOT_CONNECTED \<or> pipe_error_wr ph = ERROR_NO_DATA
                     then Unix_error W_EPIPE ''netsys_pipe_write''
                     else uerror_win (pipe_error_wr ph) ''netsys_pipe_write''), ph, k)
          else if length s = 0 then (Inr 0, ph, k)
          else if \<not> pipe_is_open ph \<or> \<not> pipe_mode_wr ph then (perr W_EBADF ''netsys_pipe_write'', ph, k)
          else if pipe_conn_state ph \<noteq> PIPE_CONNECTED then (perr W_ENOTCONN ''netsys_pipe_write'', ph, k)
          else if pipe_wr_ovrlp_started ph then (perr W_EAGAIN ''netsys_pipe_write'', ph, k)
          else
            let l = min (length s) PIPE_HELPER_BUF_SIZE;
                ph1 = ph\<lparr>pipe_wr_buf := take l s @ drop l (pipe_wr_buf ph), pipe_wr_buf_size := l\<rparr>;
                (ph2, k2) = (if l > 0 then start_writing os ph1 k else (ph1, k))
            in (Inr l, ph2, k2))"

definition netsys_pipe_shutdown :: "pipe_os \<Rightarrow> pipe_helper \<Rightarrow> pk \<Rightarrow> (exn + unit) \<times> pipe_helper \<times> pk" where
  "netsys_pipe_shutdown os ph k =
     (if pipe_is_open ph
      then if pipe_conn_state ph = PIPE_DEAF then (perr W_ENOTCONN ''netsys_pipe_shutdown'', ph, k)
           else case os_err os 1389 of
                  Some e \<Rightarrow> (Inl (uerror_win e ''netsys_pipe_shutdown/CloseHandle''), ph, k)
                | None \<Rightarrow>
                    let k1 = CloseHandle (pipe_handle ph) (abort_all (\<lambda>i. Some ERROR_OPERATION_ABORTED) ph k);
                        ph1 = ph\<lparr>pipe_is_open := False, pipe_conn_state := PIPE_DOWN\<rparr>;
                        k2 = (if pipe_signal ph1 \<noteq> NULL_HANDLE then set_signal (pipe_signal ph1) True k1 else k1)
                    in (Inr (), ph1, reset_events ph1 k2)
      else (Inr (), ph, k))"

definition netsys_pipe_conn_state :: "pipe_os \<Rightarrow> pipe_helper \<Rightarrow> pk \<Rightarrow> conn_state \<times> pipe_helper \<times> pk" where
  "netsys_pipe_conn_state os ph0 k0 = (case check_open os ph0 k0 of (ph, k) \<Rightarrow> (pipe_conn_state ph, ph, k))"

definition netsys_pipe_rd_event :: "pipe_os \<Rightarrow> pipe_helper \<Rightarrow> pk \<Rightarrow> (exn + event) \<times> pk" where
  "netsys_pipe_rd_event os ph k =
     (if \<not> pipe_is_open ph then (perr W_EBADF ''netsys_pipe_rd_event'', k) else alloc_event os (pipe_rd_ev ph) k)"

definition netsys_pipe_wr_event :: "pipe_os \<Rightarrow> pipe_helper \<Rightarrow> pk \<Rightarrow> (exn + event) \<times> pk" where
  "netsys_pipe_wr_event os ph k =
     (if \<not> pipe_is_open ph then (perr W_EBADF ''netsys_pipe_wr_event'', k) else alloc_event os (pipe_wr_ev ph) k)"

definition netsys_set_auto_close_pipe_proxy :: "pipe_helper \<Rightarrow> bool \<Rightarrow> pipe_helper" where
  "netsys_set_auto_close_pipe_proxy ph flag = ph\<lparr>pipe_descr_auto_close := flag\<rparr>"

definition netsys_pipe_signal :: "pipe_helper \<Rightarrow> event \<Rightarrow> pipe_helper" where
  "netsys_pipe_signal ph ev = ph\<lparr>pipe_signal := e_ev ev\<rparr>"

section \<open>Buffer ownership\<close>

text \<open>
  The invariant of a helper together with the kernel. The sizes are within the buffers; the kernel owns a buffer only
  while the \<open>started\<close> flag says so; failed operations carry a real error; and the flags fit the connection state.
\<close>

definition ov_ok :: "ovl \<Rightarrow> bool" where
  "ov_ok ov \<longleftrightarrow> (\<forall>e. ov = Ov_failed e \<longrightarrow> e \<noteq> 0 \<and> e \<noteq> ERROR_IO_INCOMPLETE) \<and> (\<forall>n. ov = Ov_done n \<longrightarrow> n \<le> PIPE_HELPER_BUF_SIZE)"

definition buf_inv :: "pipe_helper \<Rightarrow> pk \<Rightarrow> bool" where
  "buf_inv ph k \<longleftrightarrow>
     length (pipe_rd_buf ph) = PIPE_HELPER_BUF_SIZE \<and> length (pipe_wr_buf ph) = PIPE_HELPER_BUF_SIZE \<and>
     pipe_rd_buf_size ph \<le> PIPE_HELPER_BUF_SIZE \<and> pipe_wr_buf_size ph \<le> PIPE_HELPER_BUF_SIZE \<and>
     (pipe_rd_ovrlp_started ph \<longrightarrow> pipe_rd_buf_size ph = 0) \<and> (pipe_wr_ovrlp_started ph \<longrightarrow> pipe_error_wr ph = 0) \<and>
     (\<not> pipe_rd_ovrlp_started ph \<longrightarrow> k_rd k \<noteq> Ov_pending) \<and> (\<not> pipe_wr_ovrlp_started ph \<longrightarrow> k_wr k \<noteq> Ov_pending) \<and>
     (\<not> pipe_cn_ovrlp_started ph \<longrightarrow> k_cn k \<noteq> Ov_pending) \<and> ov_ok (k_rd k) \<and> ov_ok (k_wr k) \<and> ov_ok (k_cn k)"

definition state_inv :: "pipe_helper \<Rightarrow> bool" where
  "state_inv ph \<longleftrightarrow>
     (pipe_is_open ph \<longleftrightarrow> pipe_conn_state ph \<noteq> PIPE_DOWN) \<and>
     (pipe_is_open ph \<longrightarrow> (pipe_cn_ovrlp_started ph \<longleftrightarrow> pipe_conn_state ph = PIPE_LISTENING)) \<and>
     (pipe_is_open ph \<and> pipe_conn_state ph \<noteq> PIPE_CONNECTED \<longrightarrow>
        \<not> pipe_rd_ovrlp_started ph \<and> \<not> pipe_wr_ovrlp_started ph \<and> pipe_rd_buf_size ph = 0 \<and>
        pipe_error_rd ph = 0 \<and> pipe_error_wr ph = 0 \<and> \<not> pipe_rd_eof ph)"

definition pipe_inv :: "pipe_helper \<Rightarrow> pk \<Rightarrow> bool" where
  "pipe_inv ph k \<longleftrightarrow> buf_inv ph k \<and> state_inv ph"

lemmas pipe_inv_defs = pipe_inv_def buf_inv_def state_inv_def

text \<open>The answers of the system are possible ones: errors have real codes.\<close>

definition answer_ok :: "io_answer \<Rightarrow> bool" where
  "answer_ok a \<longleftrightarrow> (\<forall>e. a = Io_error e \<longrightarrow> e \<noteq> 0 \<and> e \<noteq> ERROR_IO_INCOMPLETE \<and> e \<noteq> ERROR_IO_PENDING)"

definition pipe_os_ok :: "pipe_os \<Rightarrow> bool" where
  "pipe_os_ok os \<longleftrightarrow> (\<forall>k. answer_ok (po_read os k) \<and> answer_ok (po_write os k) \<and> answer_ok (po_connect os k)) \<and>
     (\<forall>i e. po_abort os i = Some e \<longrightarrow> e \<noteq> 0 \<and> e \<noteq> ERROR_IO_INCOMPLETE)"

text \<open>The bytes on their way to the reader and to the peer, and how one state follows from another without losing any.\<close>

definition buffered :: "pipe_helper \<Rightarrow> pk \<Rightarrow> u8 list" where
  "buffered ph k =
     (if pipe_rd_ovrlp_started ph then (case k_rd k of Ov_done n \<Rightarrow> take n (pipe_rd_buf ph) | _ \<Rightarrow> [])
      else take (pipe_rd_buf_size ph) (pipe_rd_buf ph))"

definition pending_out :: "pipe_helper \<Rightarrow> pk \<Rightarrow> u8 list" where
  "pending_out ph k =
     (if pipe_wr_ovrlp_started ph \<and> k_wr k = Ov_pending then take (pipe_wr_buf_size ph) (pipe_wr_buf ph) else [])"

definition wr_ok :: "pipe_helper \<Rightarrow> pk \<Rightarrow> bool" where
  "wr_ok ph k \<longleftrightarrow> pipe_error_wr ph = 0 \<and> \<not> (pipe_wr_ovrlp_started ph \<and> (\<exists>e. k_wr k = Ov_failed e))"

definition keeps_rd :: "pipe_helper \<Rightarrow> pk \<Rightarrow> pipe_helper \<Rightarrow> pk \<Rightarrow> bool" where
  "keeps_rd ph k ph' k' \<longleftrightarrow> buffered ph' k' @ k_in k' = buffered ph k @ k_in k"

definition keeps_wr :: "pipe_helper \<Rightarrow> pk \<Rightarrow> pipe_helper \<Rightarrow> pk \<Rightarrow> bool" where
  "keeps_wr ph k ph' k' \<longleftrightarrow> k_out k' = k_out k \<and>
     (wr_ok ph' k' \<longrightarrow> wr_ok ph k \<and> pending_out ph' k' = pending_out ph k)"

lemma keeps_trans:
  "keeps_rd ph k ph1 k1 \<Longrightarrow> keeps_rd ph1 k1 ph2 k2 \<Longrightarrow> keeps_rd ph k ph2 k2"
  "keeps_wr ph k ph1 k1 \<Longrightarrow> keeps_wr ph1 k1 ph2 k2 \<Longrightarrow> keeps_wr ph k ph2 k2"
  by (auto simp: keeps_rd_def keeps_wr_def)

lemma keeps_refl [simp]: "keeps_rd ph k ph k" "keeps_wr ph k ph k"
  by (simp_all add: keeps_rd_def keeps_wr_def)

text \<open>Event objects are not part of these relations.\<close>

lemma set_signal_pk [simp]:
  "k_rd (set_signal h b k) = k_rd k" "k_wr (set_signal h b k) = k_wr k" "k_cn (set_signal h b k) = k_cn k"
  "k_in (set_signal h b k) = k_in k" "k_out (set_signal h b k) = k_out k"
  by (simp_all add: set_signal_def split: option.split)

lemma pipe_inv_signal [simp]: "pipe_inv ph (set_signal h b k) = pipe_inv ph k"
  by (simp add: pipe_inv_defs)

lemma streams_signal [simp]:
  "buffered ph (set_signal h b k) = buffered ph k" "pending_out ph (set_signal h b k) = pending_out ph k"
  "wr_ok ph (set_signal h b k) = wr_ok ph k" "keeps_rd ph0 k0 ph (set_signal h b k) = keeps_rd ph0 k0 ph k"
  "keeps_wr ph0 k0 ph (set_signal h b k) = keeps_wr ph0 k0 ph k"
  by (simp_all add: buffered_def pending_out_def wr_ok_def keeps_rd_def keeps_wr_def)

definition same_io :: "pk \<Rightarrow> pk \<Rightarrow> bool" where
  "same_io k k' \<longleftrightarrow> k_rd k' = k_rd k \<and> k_wr k' = k_wr k \<and> k_cn k' = k_cn k \<and> k_in k' = k_in k \<and> k_out k' = k_out k"

lemma same_io_keeps:
  "same_io k k' \<Longrightarrow> pipe_inv ph k' = pipe_inv ph k"
  "same_io k k' \<Longrightarrow> keeps_rd ph0 k0 ph k' = keeps_rd ph0 k0 ph k"
  "same_io k k' \<Longrightarrow> keeps_wr ph0 k0 ph k' = keeps_wr ph0 k0 ph k"
  by (simp_all add: same_io_def pipe_inv_defs keeps_rd_def keeps_wr_def buffered_def wr_ok_def pending_out_def)

lemma same_io_streams:
  "same_io k k' \<Longrightarrow> buffered ph k' = buffered ph k" "same_io k k' \<Longrightarrow> pending_out ph k' = pending_out ph k"
  "same_io k k' \<Longrightarrow> k_in k' = k_in k" "same_io k k' \<Longrightarrow> k_out k' = k_out k"
  by (simp_all add: same_io_def buffered_def pending_out_def)

section \<open>The elementary steps keep the invariant and the streams\<close>

lemma start_reading_keeps:
  assumes os: "pipe_os_ok os" and inv: "pipe_inv ph k" "\<not> pipe_rd_ovrlp_started ph" "pipe_rd_buf_size ph = 0"
    and st: "pipe_conn_state ph = PIPE_CONNECTED" "pipe_is_open ph" and eq: "start_reading os ph k = (ph', k')"
  shows "pipe_inv ph' k' \<and> keeps_rd ph k ph' k' \<and> keeps_wr ph k ph' k'"
proof (cases "po_read os k")
  case (Io_now n)
  let ?m = "min n (min PIPE_HELPER_BUF_SIZE (length (k_in k)))"
  have "ph' = ph\<lparr>pipe_rd_buf := take ?m (k_in k) @ drop ?m (pipe_rd_buf ph), pipe_rd_buf_size := ?m,
          pipe_rd_eof := (?m = 0 \<or> pipe_rd_eof ph)\<rparr>"
    "k' = set_signal (pipe_rd_ev ph) True (k\<lparr>k_in := drop ?m (k_in k)\<rparr>)"
    using eq Io_now by (auto simp: start_reading_def ReadFile_def Let_def)
  then show ?thesis
    using inv st by (simp add: pipe_inv_defs keeps_rd_def keeps_wr_def buffered_def wr_ok_def pending_out_def min_def)
next
  case Io_pending
  then have "ph' = ph\<lparr>pipe_rd_buf_size := 0, pipe_rd_ovrlp_started := True\<rparr>"
    "k' = set_signal (pipe_rd_ev ph) False (k\<lparr>k_rd := Ov_pending\<rparr>)"
    using eq by (auto simp: start_reading_def ReadFile_def Let_def)
  then show ?thesis
    using inv st by (simp add: pipe_inv_defs keeps_rd_def keeps_wr_def buffered_def wr_ok_def pending_out_def ov_ok_def)
next
  case (Io_error e)
  then have "e \<noteq> ERROR_IO_PENDING" using os by (auto simp: pipe_os_ok_def answer_ok_def)
  then have "ph' = (if e = ERROR_HANDLE_EOF then ph\<lparr>pipe_rd_buf_size := 0, pipe_rd_eof := True\<rparr>
       else ph\<lparr>pipe_rd_buf_size := 0, pipe_error_rd := e\<rparr>)" "k' = set_signal (pipe_rd_ev ph) False k"
    using eq Io_error by (auto simp: start_reading_def ReadFile_def Let_def split: if_splits)
  then show ?thesis
    using inv st by (simp add: pipe_inv_defs keeps_rd_def keeps_wr_def buffered_def wr_ok_def pending_out_def)
qed

lemma check_rd_keeps:
  assumes "pipe_inv ph k"
  shows "pipe_inv (check_rd ph k) k \<and> keeps_rd ph k (check_rd ph k) k \<and> keeps_wr ph k (check_rd ph k) k"
proof (cases "pipe_rd_ovrlp_started ph")
  case True
  then show ?thesis
    using assms
    by (cases "k_rd k"; cases "pipe_conn_state ph")
      (simp_all add: check_rd_def GetOverlappedResult_def pipe_inv_defs keeps_rd_def keeps_wr_def buffered_def wr_ok_def
        pending_out_def ov_ok_def cong: ovl.case_cong)
qed (use assms in \<open>simp add: check_rd_def\<close>)

lemma check_wr_keeps:
  assumes "pipe_inv ph k"
  shows "pipe_inv (check_wr ph k) k \<and> keeps_rd ph k (check_wr ph k) k \<and> keeps_wr ph k (check_wr ph k) k"
proof (cases "pipe_wr_ovrlp_started ph")
  case True
  then show ?thesis
    using assms
    by (cases "k_wr k"; cases "pipe_conn_state ph")
      (simp_all add: check_wr_def GetOverlappedResult_def pipe_inv_defs keeps_rd_def keeps_wr_def buffered_def wr_ok_def
        pending_out_def ov_ok_def cong: ovl.case_cong)
qed (use assms in \<open>simp add: check_wr_def\<close>)

text \<open>The fields that the elementary steps leave alone.\<close>

abbreviation same_frame :: "pipe_helper \<Rightarrow> pipe_helper \<Rightarrow> bool" where
  "same_frame ph ph' \<equiv>
     pipe_handle ph' = pipe_handle ph \<and> pipe_is_open ph' = pipe_is_open ph \<and> pipe_is_server ph' = pipe_is_server ph \<and>
     pipe_mode_rd ph' = pipe_mode_rd ph \<and> pipe_mode_wr ph' = pipe_mode_wr ph \<and> pipe_rd_ev ph' = pipe_rd_ev ph \<and>
     pipe_wr_ev ph' = pipe_wr_ev ph \<and> pipe_cn_ev ph' = pipe_cn_ev ph \<and> pipe_descr ph' = pipe_descr ph \<and>
     pipe_descr_auto_close ph' = pipe_descr_auto_close ph \<and> pipe_signal ph' = pipe_signal ph"

lemma start_reading_frame [simp]:
  "same_frame ph (fst (start_reading os ph k))" "pipe_conn_state (fst (start_reading os ph k)) = pipe_conn_state ph"
  "pipe_cn_ovrlp_started (fst (start_reading os ph k)) = pipe_cn_ovrlp_started ph"
  "w_obj (snd (start_reading os ph k)) = w_obj k" "w_bad (snd (start_reading os ph k)) = w_bad k"
  by (simp_all add: start_reading_def ReadFile_def Let_def split: io_answer.split)

lemma start_reading_cn:
  "start_reading os (ph\<lparr>pipe_cn_ovrlp_started := b\<rparr>) k =
     (case start_reading os ph k of (ph', k') \<Rightarrow> (ph'\<lparr>pipe_cn_ovrlp_started := b\<rparr>, k'))"
  by (simp add: start_reading_def ReadFile_def Let_def split: io_answer.split)

lemma check_rd_frame [simp]: "same_frame ph (check_rd ph k)" "pipe_conn_state (check_rd ph k) = pipe_conn_state ph"
  by (simp_all add: check_rd_def split: sum.split)

lemma check_wr_frame [simp]: "same_frame ph (check_wr ph k)" "pipe_conn_state (check_wr ph k) = pipe_conn_state ph"
  by (simp_all add: check_wr_def split: sum.split)

lemma check_cn_frame [simp]:
  "same_frame ph (fst (check_cn os ph k))" "w_obj (snd (check_cn os ph k)) = w_obj k" "w_bad (snd (check_cn os ph k)) = w_bad k"
  by (simp_all add: check_cn_def Let_def case_prod_beta split: sum.split)

lemma check_open_frame [simp]:
  "same_frame ph (fst (check_for_pending_operations os ph k))" "w_obj (snd (check_for_pending_operations os ph k)) = w_obj k"
  "w_bad (snd (check_for_pending_operations os ph k)) = w_bad k"
  "same_frame ph (fst (check_open os ph k))" "w_obj (snd (check_open os ph k)) = w_obj k" "w_bad (snd (check_open os ph k)) = w_bad k"
  by (simp_all add: check_for_pending_operations_def check_open_def)

lemma start_reading_in: "k_in k = [] \<Longrightarrow> k_in (snd (start_reading os ph k)) = []"
  by (simp add: start_reading_def ReadFile_def Let_def split: io_answer.split)

lemma check_for_pending_in: "k_in k = [] \<Longrightarrow> k_in (snd (check_for_pending_operations os ph k)) = []"
  by (simp add: check_for_pending_operations_def check_cn_def start_reading_in Let_def case_prod_beta split: sum.split)

lemma check_cn_keeps:
  assumes os: "pipe_os_ok os" and inv: "pipe_inv ph k" "pipe_is_open ph" and eq: "check_cn os ph k = (ph', k')"
  shows "pipe_inv ph' k' \<and> keeps_rd ph k ph' k' \<and> keeps_wr ph k ph' k'"
proof (cases "pipe_cn_ovrlp_started ph")
  case False
  then show ?thesis using eq inv by (simp add: check_cn_def)
next
  case True
  have lis: "pipe_conn_state ph = PIPE_LISTENING" "\<not> pipe_rd_ovrlp_started ph" "pipe_rd_buf_size ph = 0"
    "pipe_error_wr ph = 0" "\<not> pipe_wr_ovrlp_started ph" using inv True by (simp_all add: pipe_inv_defs)
  show ?thesis
  proof (cases "k_cn k")
    case (Ov_done n)
    let ?ph1 = "ph\<lparr>pipe_conn_state := PIPE_CONNECTED, pipe_cn_ovrlp_started := False\<rparr>"
    have inv1: "pipe_inv ?ph1 k" using inv lis Ov_done by (simp add: pipe_inv_defs)
    have str: "keeps_rd ph k ?ph1 k" "keeps_wr ph k ?ph1 k"
      by (simp_all add: keeps_rd_def keeps_wr_def buffered_def wr_ok_def pending_out_def cong: ovl.case_cong)
    obtain ph2 k2 where sr: "(if pipe_mode_rd ph then start_reading os ?ph1 k else (?ph1, k)) = (ph2, k2)" by fastforce
    have k2: "pipe_inv ph2 k2 \<and> keeps_rd ?ph1 k ph2 k2 \<and> keeps_wr ?ph1 k ph2 k2"
      using sr inv1 start_reading_keeps [OF os inv1, of ph2 k2] lis inv(2) by (auto split: if_splits)
    have "ph' = ph2 \<and> (k' = k2 \<or> k' = set_signal (pipe_wr_ev ph2) True k2)"
      using eq True Ov_done sr start_reading_cn [where os = os and ph = "ph\<lparr>pipe_conn_state := PIPE_CONNECTED\<rparr>" and b = False and k = k]
      by (auto simp: check_cn_def GetOverlappedResult_def Let_def split: if_splits prod.splits)
    then show ?thesis using k2 keeps_trans(1) [OF str(1)] keeps_trans(2) [OF str(2)] by auto
  next
    case (Ov_failed e)
    then have "e \<noteq> ERROR_IO_INCOMPLETE" "e \<noteq> 0" using inv by (auto simp: pipe_inv_defs ov_ok_def)
    then have e: "pipe_inv ph' k" "keeps_rd ph k ph' k" "keeps_wr ph k ph' k"
      using eq True Ov_failed inv lis
      by (auto simp: check_cn_def GetOverlappedResult_def Let_def pipe_inv_defs keeps_rd_def keeps_wr_def buffered_def
          wr_ok_def pending_out_def)
    have "k' = k \<or> (\<exists>h. k' = set_signal h True k) \<or> (\<exists>h h'. k' = set_signal h True (set_signal h' True k))"
      using eq True Ov_failed by (auto simp: check_cn_def GetOverlappedResult_def Let_def split: if_splits)
    then show ?thesis using e by auto
  qed (use eq True inv in \<open>simp_all add: check_cn_def GetOverlappedResult_def\<close>)
qed

lemma check_for_pending_keeps:
  assumes os: "pipe_os_ok os" and inv: "pipe_inv ph k" "pipe_is_open ph"
    and eq: "check_for_pending_operations os ph k = (ph', k')"
  shows "pipe_inv ph' k' \<and> keeps_rd ph k ph' k' \<and> keeps_wr ph k ph' k'"
proof -
  note rd = check_rd_keeps [OF inv(1)]
  note wr = check_wr_keeps [of "check_rd ph k" k]
  have op: "pipe_is_open (check_wr (check_rd ph k) k)" using inv(2) by simp
  have inv2: "pipe_inv (check_wr (check_rd ph k) k) k" using rd wr by blast
  note cn = check_cn_keeps [OF os inv2 op eq [unfolded check_for_pending_operations_def]]
  show ?thesis
    using rd wr cn by (auto intro: keeps_trans)
qed

lemma check_open_keeps:
  assumes "pipe_os_ok os" "pipe_inv ph k" "check_open os ph k = (ph', k')"
  shows "pipe_inv ph' k' \<and> keeps_rd ph k ph' k' \<and> keeps_wr ph k ph' k'"
  using check_for_pending_keeps [OF assms(1,2)] assms by (auto simp: check_open_def split: if_splits)

section \<open>The primitives keep the invariant and the streams\<close>

lemma start_writing_keeps:
  assumes os: "pipe_os_ok os" and inv: "pipe_inv ph k" "\<not> pipe_wr_ovrlp_started ph" "pipe_error_wr ph = 0"
    and st: "pipe_conn_state ph = PIPE_CONNECTED" and eq: "start_writing os ph k = (ph', k')"
  shows "pipe_inv ph' k' \<and> keeps_rd ph k ph' k' \<and> prefix (k_out k') (k_out k @ take (pipe_wr_buf_size ph) (pipe_wr_buf ph)) \<and>
    prefix (k_out k) (k_out k') \<and>
    (wr_ok ph' k' \<longrightarrow> k_out k' @ pending_out ph' k' = k_out k @ take (pipe_wr_buf_size ph) (pipe_wr_buf ph))"
proof (cases "po_write os k")
  case (Io_now n)
  then have "ph' = ph\<lparr>pipe_wr_buf_size := 0\<rparr>"
    "k' = set_signal (pipe_wr_ev ph) True (k\<lparr>k_out := k_out k @ take (pipe_wr_buf_size ph) (pipe_wr_buf ph)\<rparr>)"
    using eq by (simp_all add: start_writing_def WriteFile_def)
  then show ?thesis
    using inv st by (simp add: pipe_inv_defs keeps_rd_def buffered_def wr_ok_def pending_out_def cong: ovl.case_cong)
next
  case Io_pending
  then have "ph' = ph\<lparr>pipe_wr_ovrlp_started := True\<rparr>" "k' = set_signal (pipe_wr_ev ph) False (k\<lparr>k_wr := Ov_pending\<rparr>)"
    using eq by (simp_all add: start_writing_def WriteFile_def)
  then show ?thesis
    using inv st by (simp add: pipe_inv_defs keeps_rd_def buffered_def wr_ok_def pending_out_def ov_ok_def cong: ovl.case_cong)
next
  case (Io_error e)
  then have "e \<noteq> ERROR_IO_PENDING" "e \<noteq> 0" using os by (auto simp: pipe_os_ok_def answer_ok_def)
  then have "ph' = ph\<lparr>pipe_error_wr := e\<rparr>" "k' = set_signal (pipe_wr_ev ph) False k" "e \<noteq> 0"
    using eq Io_error by (simp_all add: start_writing_def WriteFile_def)
  then show ?thesis
    using inv st by (simp add: pipe_inv_defs keeps_rd_def buffered_def wr_ok_def cong: ovl.case_cong)
qed

text \<open>Reading: what is returned comes first in the stream.\<close>

lemma netsys_pipe_read_keeps:
  assumes os: "pipe_os_ok os" and inv: "pipe_inv ph k" and eq: "netsys_pipe_read os ph len k = (r, ph', k')"
  shows "pipe_inv ph' k' \<and> keeps_wr ph k ph' k' \<and>
    (case r of Inr bs \<Rightarrow> bs @ buffered ph' k' @ k_in k' = buffered ph k @ k_in k | Inl e \<Rightarrow> keeps_rd ph k ph' k')"
proof -
  obtain ph1 k1 where c: "check_open os ph k = (ph1, k1)" by fastforce
  note k1 = check_open_keeps [OF os inv c]
  show ?thesis
  proof (cases "pipe_error_rd ph1 \<noteq> 0 \<or> len = 0 \<or> \<not> pipe_is_open ph1 \<or> \<not> pipe_mode_rd ph1 \<or>
      pipe_conn_state ph1 \<noteq> PIPE_CONNECTED \<or> pipe_rd_ovrlp_started ph1")
    case True
    then have "ph' = ph1 \<and> k' = k1 \<and> (\<forall>bs. r = Inr bs \<longrightarrow> bs = [])"
      using eq c by (auto simp: netsys_pipe_read_def split: if_splits)
    then show ?thesis using k1 by (auto simp: keeps_rd_def split: sum.split)
  next
    case False
    let ?l = "min len (pipe_rd_buf_size ph1)"
    let ?n = "pipe_rd_buf_size ph1 - ?l"
    let ?ph2 = "ph1\<lparr>pipe_rd_buf := take ?n (drop ?l (pipe_rd_buf ph1)) @ drop ?n (pipe_rd_buf ph1), pipe_rd_buf_size := ?n\<rparr>"
    have sz: "length (pipe_rd_buf ph1) = PIPE_HELPER_BUF_SIZE" "pipe_rd_buf_size ph1 \<le> PIPE_HELPER_BUF_SIZE"
      using k1 by (simp_all add: pipe_inv_defs)
    have inv2: "pipe_inv ?ph2 k1" using k1 False sz by (simp add: pipe_inv_defs)
    have wr2: "keeps_wr ph1 k1 ?ph2 k1" by (simp add: keeps_wr_def wr_ok_def pending_out_def)
    have bs: "take ?l (pipe_rd_buf ph1) @ buffered ?ph2 k1 = buffered ph1 k1"
      using False sz by (simp add: buffered_def min_def take_add [symmetric] flip: take_add)
    obtain ph3 k3 where s: "(if ?n = 0 \<and> \<not> pipe_rd_eof ph1 then start_reading os ?ph2 k1 else (?ph2, k1)) = (ph3, k3)"
      by fastforce
    have k3: "pipe_inv ph3 k3 \<and> keeps_rd ?ph2 k1 ph3 k3 \<and> keeps_wr ?ph2 k1 ph3 k3"
      using s inv2 start_reading_keeps [OF os inv2, of ph3 k3] False by (auto split: if_splits)
    have "r = Inr (take ?l (pipe_rd_buf ph1))" "ph' = ph3" "k' = k3"
      using eq c False s by (auto simp: netsys_pipe_read_def Let_def)
    moreover have "take ?l (pipe_rd_buf ph1) @ buffered ph3 k3 @ k_in k3 = buffered ph k @ k_in k"
    proof -
      have "take ?l (pipe_rd_buf ph1) @ buffered ph3 k3 @ k_in k3 = (take ?l (pipe_rd_buf ph1) @ buffered ?ph2 k1) @ k_in k1"
        using k3 unfolding keeps_rd_def by simp
      then show ?thesis using k1 unfolding bs keeps_rd_def by simp
    qed
    ultimately show ?thesis using k1 k3 wr2 by (auto intro: keeps_trans(2))
  qed
qed

text \<open>The histories of both directions: what was sent by one end and received by the other.\<close>

definition rd_stream :: "pipe_helper \<Rightarrow> pk \<Rightarrow> u8 list \<Rightarrow> u8 list \<Rightarrow> bool" where
  "rd_stream ph k arrived delivered \<longleftrightarrow> arrived = delivered @ buffered ph k @ k_in k"

definition wr_stream :: "pipe_helper \<Rightarrow> pk \<Rightarrow> u8 list \<Rightarrow> bool" where
  "wr_stream ph k accepted \<longleftrightarrow> prefix (k_out k) accepted \<and> (wr_ok ph k \<longrightarrow> accepted = k_out k @ pending_out ph k)"

lemma rd_stream_keeps: "rd_stream ph k arr del \<Longrightarrow> keeps_rd ph k ph' k' \<Longrightarrow> rd_stream ph' k' arr del"
  by (simp add: rd_stream_def keeps_rd_def)

lemma wr_stream_keeps: "wr_stream ph k acc \<Longrightarrow> keeps_wr ph k ph' k' \<Longrightarrow> wr_stream ph' k' acc"
  by (auto simp: wr_stream_def keeps_wr_def)

lemma netsys_pipe_write_keeps:
  assumes os: "pipe_os_ok os" and inv: "pipe_inv ph k" "wr_stream ph k acc"
    and eq: "netsys_pipe_write os ph s k = (r, ph', k')"
  shows "pipe_inv ph' k' \<and> keeps_rd ph k ph' k' \<and>
    wr_stream ph' k' (acc @ (case r of Inr l \<Rightarrow> take l s | Inl e \<Rightarrow> [])) \<and> (\<forall>l. r = Inr l \<longrightarrow> l \<le> length s)"
proof -
  obtain ph1 k1 where c: "check_open os ph k = (ph1, k1)" by fastforce
  note k1 = check_open_keeps [OF os inv(1) c]
  have ws: "wr_stream ph1 k1 acc" using wr_stream_keeps [OF inv(2)] k1 by blast
  show ?thesis
  proof (cases "pipe_error_wr ph1 \<noteq> 0 \<or> length s = 0 \<or> \<not> pipe_is_open ph1 \<or> \<not> pipe_mode_wr ph1 \<or>
      pipe_conn_state ph1 \<noteq> PIPE_CONNECTED \<or> pipe_wr_ovrlp_started ph1")
    case True
    then have "ph' = ph1 \<and> k' = k1 \<and> (\<forall>l. r = Inr l \<longrightarrow> l = 0)"
      using eq c by (auto simp: netsys_pipe_write_def split: if_splits)
    then show ?thesis using k1 ws by (cases r) auto
  next
    case False
    let ?l = "min (length s) PIPE_HELPER_BUF_SIZE"
    let ?ph2 = "ph1\<lparr>pipe_wr_buf := take ?l s @ drop ?l (pipe_wr_buf ph1), pipe_wr_buf_size := ?l\<rparr>"
    have l: "?l > 0" using False by (simp add: PIPE_HELPER_BUF_SIZE_def)
    have inv2: "pipe_inv ?ph2 k1" using k1 False by (simp add: pipe_inv_defs)
    have rd2: "keeps_rd ph1 k1 ?ph2 k1" by (simp add: keeps_rd_def buffered_def cong: ovl.case_cong)
    have acc: "acc = k_out k1" using ws False by (simp add: wr_stream_def wr_ok_def pending_out_def)
    obtain ph3 k3 where s: "start_writing os ?ph2 k1 = (ph3, k3)" by fastforce
    have sw: "pipe_inv ph3 k3" "keeps_rd ?ph2 k1 ph3 k3" "prefix (k_out k3) (k_out k1 @ take ?l s)"
      "wr_ok ph3 k3 \<longrightarrow> k_out k3 @ pending_out ph3 k3 = k_out k1 @ take ?l s"
      using start_writing_keeps [OF os inv2 _ _ _ s] False by simp_all
    have r: "r = Inr ?l" "ph' = ph3" "k' = k3"
      using eq c False s l by (auto simp: netsys_pipe_write_def Let_def)
    have "keeps_rd ph k ph3 k3" using k1 rd2 sw(2) by (blast intro: keeps_trans(1))
    moreover have "wr_stream ph3 k3 (acc @ take ?l s)" unfolding acc wr_stream_def using sw(3,4) by simp
    ultimately show ?thesis unfolding r using sw(1) by simp
  qed
qed

lemma listen_connect_keeps:
  assumes inv: "pipe_inv ph k" and st: "pipe_is_open ph" "pipe_conn_state ph = PIPE_DEAF"
    and eq: "listen_connect os was_set ph k = (r, ph', k')"
  shows "pipe_inv ph' k' \<and> keeps_rd ph k ph' k' \<and> keeps_wr ph k ph' k'"
proof -
  have upd: "pipe_inv (ph\<lparr>pipe_conn_state := PIPE_CONNECTED\<rparr>) k"
    "pipe_inv (ph\<lparr>pipe_cn_ovrlp_started := True, pipe_conn_state := PIPE_LISTENING\<rparr>) (k\<lparr>k_cn := Ov_pending\<rparr>)"
    using inv st by (simp_all add: pipe_inv_defs ov_ok_def)
  have str: "keeps_rd ph k (ph\<lparr>pipe_conn_state := PIPE_CONNECTED\<rparr>) k"
    "keeps_wr ph k (ph\<lparr>pipe_conn_state := PIPE_CONNECTED\<rparr>) k"
    "keeps_rd ph k (ph\<lparr>pipe_cn_ovrlp_started := True, pipe_conn_state := PIPE_LISTENING\<rparr>) (k\<lparr>k_cn := Ov_pending\<rparr>)"
    "keeps_wr ph k (ph\<lparr>pipe_cn_ovrlp_started := True, pipe_conn_state := PIPE_LISTENING\<rparr>) (k\<lparr>k_cn := Ov_pending\<rparr>)"
    by (simp_all add: keeps_rd_def keeps_wr_def buffered_def wr_ok_def pending_out_def cong: ovl.case_cong)
  have "same_io k k' \<and> (ph' = ph \<or> ph' = ph\<lparr>pipe_conn_state := PIPE_CONNECTED\<rparr>) \<or>
      same_io (k\<lparr>k_cn := Ov_pending\<rparr>) k' \<and> ph' = ph\<lparr>pipe_cn_ovrlp_started := True, pipe_conn_state := PIPE_LISTENING\<rparr>"
    using eq by (auto simp: listen_connect_def Let_def same_io_def split: io_answer.splits if_splits)
  then show ?thesis using same_io_keeps inv upd str by auto
qed

lemma netsys_pipe_listen_keeps:
  assumes os: "pipe_os_ok os" and inv: "pipe_inv ph k" and eq: "netsys_pipe_listen os ph k = (r, ph', k')"
  shows "pipe_inv ph' k' \<and> keeps_rd ph k ph' k' \<and> keeps_wr ph k ph' k'"
proof -
  obtain ph1 k1 where c: "check_open os ph k = (ph1, k1)" by fastforce
  note k1 = check_open_keeps [OF os inv c]
  have "ph' = ph1 \<and> k' = k1 \<or>
      pipe_is_open ph1 \<and> pipe_conn_state ph1 = PIPE_DEAF \<and> (\<exists>b. listen_connect os b ph1 k1 = (r, ph', k'))"
    using eq c by (auto simp: netsys_pipe_listen_def split: if_splits option.splits sum.splits)
  then show ?thesis
  proof (elim disjE conjE exE)
    fix b
    assume "pipe_is_open ph1" "pipe_conn_state ph1 = PIPE_DEAF" "listen_connect os b ph1 k1 = (r, ph', k')"
    then show ?thesis using k1 listen_connect_keeps [of ph1 k1 os b r ph' k'] by (blast intro: keeps_trans)
  qed (use k1 in simp)
qed

lemma abort_all_simps [simp]:
  "k_rd (abort_all ab ph k) = abort (ab 0) (k_rd k)" "k_wr (abort_all ab ph k) = abort (ab 1) (k_wr k)"
  "k_cn (abort_all ab ph k) = abort (ab 2) (k_cn k)" "k_in (abort_all ab ph k) = k_in k" "k_out (abort_all ab ph k) = k_out k"
  "w_obj (abort_all ab ph k) = w_obj k" "w_bad (abort_all ab ph k) = w_bad k"
  by (simp_all add: abort_all_def abort_signal_def)

lemma abort_all_keeps:
  assumes inv: "pipe_inv ph k" and ab: "\<forall>i e. ab i = Some e \<longrightarrow> e \<noteq> 0 \<and> e \<noteq> ERROR_IO_INCOMPLETE"
  shows "pipe_inv ph (abort_all ab ph k) \<and> keeps_rd ph k ph (abort_all ab ph k) \<and> keeps_wr ph k ph (abort_all ab ph k)"
proof -
  have ok: "ov_ok ov \<Longrightarrow> ov_ok (abort (ab i) ov)" for ov i
    using ab by (auto simp: abort_def ov_ok_def split: option.split)
  have np: "ov \<noteq> Ov_pending \<Longrightarrow> abort (ab i) ov \<noteq> Ov_pending" for ov i
    by (auto simp: abort_def split: option.split)
  have "pipe_inv ph (abort_all ab ph k)"
    using inv unfolding pipe_inv_def buf_inv_def abort_all_simps by (simp add: ok np)
  moreover have "buffered ph (abort_all ab ph k) = buffered ph k"
    by (cases "k_rd k"; cases "ab 0") (simp_all add: buffered_def abort_def)
  moreover have "wr_ok ph (abort_all ab ph k) \<Longrightarrow> wr_ok ph k \<and> pending_out ph (abort_all ab ph k) = pending_out ph k"
    by (cases "k_wr k"; cases "ab 1") (simp_all add: wr_ok_def pending_out_def abort_def)
  ultimately show ?thesis by (simp add: keeps_rd_def keeps_wr_def)
qed

lemma reset_events_simps [simp]:
  "same_io k (reset_events ph k)" "w_obj (reset_events ph k) = w_obj k" "w_bad (reset_events ph k) = w_bad k"
  by (simp_all add: reset_events_def Let_def same_io_def)

lemma same_io_trans: "same_io k k1 \<Longrightarrow> same_io k1 k2 \<Longrightarrow> same_io k k2"
  by (simp add: same_io_def)

lemma netsys_pipe_shutdown_keeps:
  assumes inv: "pipe_inv ph k" and eq: "netsys_pipe_shutdown os ph k = (r, ph', k')"
  shows "pipe_inv ph' k' \<and> keeps_rd ph k ph' k' \<and> keeps_wr ph k ph' k'"
proof -
  let ?k1 = "abort_all (\<lambda>i. Some ERROR_OPERATION_ABORTED) ph k"
  let ?ph1 = "ph\<lparr>pipe_is_open := False, pipe_conn_state := PIPE_DOWN\<rparr>"
  have a: "pipe_inv ph ?k1 \<and> keeps_rd ph k ph ?k1 \<and> keeps_wr ph k ph ?k1"
    by (rule abort_all_keeps [OF inv]) simp
  have d: "keeps_rd ph ?k1 ?ph1 ?k1" "keeps_wr ph ?k1 ?ph1 ?k1"
    by (simp_all add: keeps_rd_def keeps_wr_def buffered_def wr_ok_def pending_out_def cong: ovl.case_cong)
  have "pipe_inv ph ?k1" using a by blast
  then have i: "pipe_inv ?ph1 ?k1" unfolding pipe_inv_defs by simp
  have "ph' = ph \<and> k' = k \<or> ph' = ?ph1 \<and> same_io ?k1 k'"
    using eq by (auto simp: netsys_pipe_shutdown_def Let_def CloseHandle_def reset_events_def same_io_def
        split: if_splits option.splits)
  then show ?thesis
  proof (elim disjE conjE)
    assume "ph' = ?ph1" "same_io ?k1 k'"
    then show ?thesis using same_io_keeps [of ?k1 k'] i d a by (blast intro: keeps_trans)
  qed (use inv in simp)
qed

text \<open>
  \<^verbatim>\<open>netsys_pipe_deafen\<close>: an error of its own leaves the streams alone; when the disconnection was done, what was not read
  from the kernel is lost; after success the helper is as after its creation.
\<close>

lemma netsys_pipe_deafen_keeps:
  assumes os: "pipe_os_ok os" and inv: "pipe_inv ph k" and eq: "netsys_pipe_deafen os ph k = (r, ph', k')"
    and ck: "check_open os ph k = (ph1, k1)"
  shows "pipe_inv ph' k' \<and>
    (case r of
       Inr u \<Rightarrow> pipe_conn_state ph' = PIPE_DEAF \<and> buffered ph' k' = [] \<and> k_in k' = [] \<and> pending_out ph' k' = []
     | Inl (Failure m) \<Rightarrow> buffered ph' k' @ k_in k' = buffered ph1 k1 \<and> keeps_wr ph k ph' k'
     | Inl e \<Rightarrow> keeps_rd ph k ph' k' \<and> keeps_wr ph k ph' k')"
proof -
  note k1 = check_open_keeps [OF os inv ck]
  show ?thesis
  proof (cases "pipe_is_open ph1 \<and> pipe_is_server ph1 \<and> pipe_conn_state ph1 \<noteq> PIPE_DEAF \<and> os_err os 1134 = None")
    case False
    then have "ph' = ph1 \<and> k' = k1 \<and> (\<exists>e f. r = Inl (Unix_error e f))"
      using eq ck by (auto simp: netsys_pipe_deafen_def uerror_win_def split: if_splits option.splits)
    then show ?thesis using k1 by auto
  next
    case True
    let ?k2 = "abort_all (po_abort os) ph1 (k1\<lparr>k_in := []\<rparr>)"
    have "pipe_inv ph1 (k1\<lparr>k_in := []\<rparr>)" using k1 by (simp add: pipe_inv_defs)
    moreover have "\<forall>i e. po_abort os i = Some e \<longrightarrow> e \<noteq> 0 \<and> e \<noteq> ERROR_IO_INCOMPLETE" using os by (simp add: pipe_os_ok_def)
    ultimately have k2: "pipe_inv ph1 ?k2" "keeps_rd ph1 (k1\<lparr>k_in := []\<rparr>) ph1 ?k2" "keeps_wr ph1 (k1\<lparr>k_in := []\<rparr>) ph1 ?k2"
      using abort_all_keeps by blast+
    obtain ph3 k3 where c3: "check_for_pending_operations os ph1 ?k2 = (ph3, k3)" by fastforce
    have k3: "pipe_inv ph3 k3 \<and> keeps_rd ph1 ?k2 ph3 k3 \<and> keeps_wr ph1 ?k2 ph3 k3"
      using check_for_pending_keeps [OF os k2(1) _ c3] True by simp
    have st: "buffered ph3 k3 @ k_in k3 = buffered ph1 k1"
      using k3 k2(2) by (simp add: keeps_rd_def buffered_def)
    have wr: "keeps_wr ph k ph3 k3"
    proof -
      have "keeps_wr ph1 k1 ph1 (k1\<lparr>k_in := []\<rparr>)" by (simp add: keeps_wr_def wr_ok_def pending_out_def)
      then show ?thesis using k1 k2(3) k3 by (blast intro: keeps_trans(2))
    qed
    show ?thesis
    proof (cases "pipe_cn_ovrlp_started ph3 \<or> pipe_rd_ovrlp_started ph3 \<or> pipe_wr_ovrlp_started ph3")
      case st3: True
      then have "ph' = ph3 \<and> k' = k3 \<and> (\<exists>m. r = Inl (Failure m))"
        using eq ck True c3 by (auto simp: netsys_pipe_deafen_def split: if_splits)
      then show ?thesis using k3 st wr by auto
    next
      case False
      let ?ph4 = "ph3\<lparr>pipe_conn_state := PIPE_DEAF, pipe_error_rd := 0, pipe_error_wr := 0,
         pipe_rd_buf_size := 0, pipe_rd_eof := False, pipe_wr_buf_size := 0\<rparr>"
      have r: "r = Inr ()" "ph' = ?ph4" "k' = reset_events ph3 k3"
        using eq ck True c3 False by (auto simp: netsys_pipe_deafen_def)
      have op: "pipe_is_open ph3" using True check_open_frame(1) [where ph = ph1 and os = os and k = ?k2] c3 by simp
      have "pipe_inv ?ph4 k3" "buffered ?ph4 k3 = []" "pending_out ?ph4 k3 = []"
        using k3 False op by (simp_all add: pipe_inv_defs buffered_def pending_out_def)
      moreover have "k_in k3 = []" using check_for_pending_in [of ?k2 os ph1] c3 by simp
      ultimately show ?thesis
        using same_io_keeps(1) [OF reset_events_simps(1)] same_io_streams [OF reset_events_simps(1)] unfolding r by simp
    qed
  qed
qed

end
