(* ===== verification/Pipe_stream.thy ===== *)
theory Pipe_stream
  imports Pipe_helper
begin

text \<open>
  Named pipes over time: a helper, the kernel and the peer make steps in any order. The histories record the bytes the peer has
  sent (\<open>pc_arrived\<close>), the bytes that reads have returned (\<open>pc_delivered\<close>) and the bytes that writes have taken
  (\<open>pc_accepted\<close>); the bytes sent to the peer are in \<open>k_out\<close>. The theorems: the buffers are never used by both sides, no byte
  is lost, duplicated or reordered within a connection, and a waiting reader or writer is woken up, except by an end of stream or an error that the system
  gives as the immediate answer to the start of an operation.
\<close>

section \<open>Steps\<close>

record pipe_conc =
  pc_ph :: pipe_helper
  pc_k :: pk
  pc_arrived :: "u8 list"
  pc_delivered :: "u8 list"
  pc_accepted :: "u8 list"

abbreviation (input) real_error :: "u32 \<Rightarrow> bool" where
  "real_error e \<equiv> e \<noteq> 0 \<and> e \<noteq> ERROR_IO_INCOMPLETE"

inductive pipe_step :: "pipe_conc \<Rightarrow> pipe_conc \<Rightarrow> bool" where
  peer_sends:
    "pipe_step s (s\<lparr>pc_k := (pc_k s)\<lparr>k_in := k_in (pc_k s) @ bs\<rparr>, pc_arrived := pc_arrived s @ bs\<rparr>)"
| read_completes:
    "k_rd (pc_k s) = Ov_pending \<Longrightarrow> m = min n (min PIPE_HELPER_BUF_SIZE (length (k_in (pc_k s)))) \<Longrightarrow>
     pipe_step s (s\<lparr>
       pc_ph := (pc_ph s)\<lparr>pipe_rd_buf := take m (k_in (pc_k s)) @ drop m (pipe_rd_buf (pc_ph s))\<rparr>,
       pc_k := set_signal (pipe_rd_ev (pc_ph s)) True ((pc_k s)\<lparr>k_in := drop m (k_in (pc_k s)), k_rd := Ov_done m\<rparr>)\<rparr>)"
| read_fails:
    "k_rd (pc_k s) = Ov_pending \<Longrightarrow> real_error e \<Longrightarrow>
     pipe_step s (s\<lparr>pc_k := set_signal (pipe_rd_ev (pc_ph s)) True ((pc_k s)\<lparr>k_rd := Ov_failed e\<rparr>)\<rparr>)"
| write_completes:
    "k_wr (pc_k s) = Ov_pending \<Longrightarrow>
     pipe_step s (s\<lparr>pc_k := set_signal (pipe_wr_ev (pc_ph s)) True ((pc_k s)\<lparr>k_wr := Ov_done (pipe_wr_buf_size (pc_ph s)),
       k_out := k_out (pc_k s) @ take (pipe_wr_buf_size (pc_ph s)) (pipe_wr_buf (pc_ph s))\<rparr>)\<rparr>)"
| write_fails:
    "k_wr (pc_k s) = Ov_pending \<Longrightarrow> real_error e \<Longrightarrow> j \<le> pipe_wr_buf_size (pc_ph s) \<Longrightarrow>
     pipe_step s (s\<lparr>pc_k := set_signal (pipe_wr_ev (pc_ph s)) True ((pc_k s)\<lparr>k_wr := Ov_failed e,
       k_out := k_out (pc_k s) @ take j (pipe_wr_buf (pc_ph s))\<rparr>)\<rparr>)"
| connect_completes:
    "k_cn (pc_k s) = Ov_pending \<Longrightarrow>
     pipe_step s (s\<lparr>pc_k := set_signal (pipe_cn_ev (pc_ph s)) True ((pc_k s)\<lparr>k_cn := Ov_done 0\<rparr>)\<rparr>)"
| connect_fails:
    "k_cn (pc_k s) = Ov_pending \<Longrightarrow> real_error e \<Longrightarrow>
     pipe_step s (s\<lparr>pc_k := set_signal (pipe_cn_ev (pc_ph s)) True ((pc_k s)\<lparr>k_cn := Ov_failed e\<rparr>)\<rparr>)"
| do_read:
    "pipe_os_ok os \<Longrightarrow> netsys_pipe_read os (pc_ph s) len (pc_k s) = (r, ph', k') \<Longrightarrow>
     pipe_step s (s\<lparr>pc_ph := ph', pc_k := k',
       pc_delivered := pc_delivered s @ (case r of Inr bs \<Rightarrow> bs | Inl e \<Rightarrow> [])\<rparr>)"
| do_write:
    "pipe_os_ok os \<Longrightarrow> netsys_pipe_write os (pc_ph s) bs (pc_k s) = (r, ph', k') \<Longrightarrow>
     pipe_step s (s\<lparr>pc_ph := ph', pc_k := k',
       pc_accepted := pc_accepted s @ (case r of Inr l \<Rightarrow> take l bs | Inl e \<Rightarrow> [])\<rparr>)"
| do_listen:
    "pipe_os_ok os \<Longrightarrow> netsys_pipe_listen os (pc_ph s) (pc_k s) = (r, ph', k') \<Longrightarrow>
     pipe_step s (s\<lparr>pc_ph := ph', pc_k := k'\<rparr>)"
| do_conn_state:
    "pipe_os_ok os \<Longrightarrow> netsys_pipe_conn_state os (pc_ph s) (pc_k s) = (r, ph', k') \<Longrightarrow>
     pipe_step s (s\<lparr>pc_ph := ph', pc_k := k'\<rparr>)"
| do_shutdown:
    "netsys_pipe_shutdown os (pc_ph s) (pc_k s) = (r, ph', k') \<Longrightarrow> pipe_step s (s\<lparr>pc_ph := ph', pc_k := k'\<rparr>)"
| do_signal:
    "pipe_step s (s\<lparr>pc_ph := netsys_pipe_signal (pc_ph s) ev\<rparr>)"
| do_auto_close:
    "pipe_step s (s\<lparr>pc_ph := netsys_set_auto_close_pipe_proxy (pc_ph s) b\<rparr>)"
| do_deafen:
    "pipe_os_ok os \<Longrightarrow> netsys_pipe_deafen os (pc_ph s) (pc_k s) = (Inr (), ph', k') \<Longrightarrow>
     pipe_step s \<lparr>pc_ph = ph', pc_k = k'\<lparr>k_out := []\<rparr>, pc_arrived = [], pc_delivered = [], pc_accepted = []\<rparr>"
| do_deafen_error:
    "pipe_os_ok os \<Longrightarrow> netsys_pipe_deafen os (pc_ph s) (pc_k s) = (Inl (Unix_error e f), ph', k') \<Longrightarrow>
     pipe_step s (s\<lparr>pc_ph := ph', pc_k := k'\<rparr>)"
| do_deafen_failure:
    "pipe_os_ok os \<Longrightarrow> netsys_pipe_deafen os (pc_ph s) (pc_k s) = (Inl (Failure f), ph', k') \<Longrightarrow>
     check_open os (pc_ph s) (pc_k s) = (ph1, k1) \<Longrightarrow>
     pipe_step s (s\<lparr>pc_ph := ph', pc_k := k',
       pc_arrived := take (length (pc_arrived s) - length (k_in k1)) (pc_arrived s)\<rparr>)"

text \<open>
  A successful \<^verbatim>\<open>deafen\<close> ends a connection: the histories start again. When it fails after the disconnection, the bytes
  that nobody had read from the kernel are gone.
\<close>

inductive pipe_reachable :: "pipe_conc \<Rightarrow> bool" where
  client:
    "pipe_os_ok os \<Longrightarrow> k_out k = [] \<Longrightarrow> netsys_pipe_connect os mode k = (Inr ph, k') \<Longrightarrow>
     pipe_reachable \<lparr>pc_ph = ph, pc_k = k', pc_arrived = k_in k, pc_delivered = [], pc_accepted = []\<rparr>"
| server:
    "pipe_os_ok os \<Longrightarrow> k_out k = [] \<Longrightarrow> k_in k = [] \<Longrightarrow> netsys_create_local_named_pipe os alloc mode ev sd k = (Inr ph, sd', k') \<Longrightarrow>
     pipe_reachable \<lparr>pc_ph = ph, pc_k = k', pc_arrived = [], pc_delivered = [], pc_accepted = []\<rparr>"
| more: "pipe_reachable s \<Longrightarrow> pipe_step s s' \<Longrightarrow> pipe_reachable s'"

section \<open>The invariant\<close>

definition conc_inv :: "pipe_conc \<Rightarrow> bool" where
  "conc_inv s \<longleftrightarrow> pipe_inv (pc_ph s) (pc_k s) \<and> rd_stream (pc_ph s) (pc_k s) (pc_arrived s) (pc_delivered s) \<and>
     wr_stream (pc_ph s) (pc_k s) (pc_accepted s)"

lemma alloc_pipe_helper_new:
  assumes "alloc_pipe_helper os h cn k = (Inr ph, k')"
  shows "k_in k' = k_in k \<and> k_out k' = k_out k \<and> k_rd k' = Ov_idle \<and> k_wr k' = Ov_idle \<and> k_cn k' = Ov_idle \<and>
    pipe_is_open ph \<and> pipe_conn_state ph = PIPE_DEAF \<and> pipe_error_rd ph = 0 \<and> pipe_error_wr ph = 0 \<and>
    \<not> pipe_rd_ovrlp_started ph \<and> \<not> pipe_wr_ovrlp_started ph \<and> \<not> pipe_cn_ovrlp_started ph \<and>
    length (pipe_rd_buf ph) = PIPE_HELPER_BUF_SIZE \<and> length (pipe_wr_buf ph) = PIPE_HELPER_BUF_SIZE \<and>
    pipe_rd_buf_size ph = 0 \<and> pipe_wr_buf_size ph = 0 \<and> \<not> pipe_rd_eof ph \<and> pipe_cn_ev ph = cn"
  using assms
  by (auto simp: alloc_pipe_helper_def CreateEvent_def new_object_def Let_def split: option.splits sum.splits prod.splits)

lemma new_object_io: "new_object os site k = (h, k') \<Longrightarrow> same_io k k'"
  by (auto simp: new_object_def same_io_def Let_def)

lemma server_inv:
  assumes "netsys_create_local_named_pipe os alloc mode ev sd k = (Inr ph, sd', k')" "k_out k = []" "k_in k = []"
  shows "conc_inv \<lparr>pc_ph = ph, pc_k = k', pc_arrived = [], pc_delivered = [], pc_accepted = []\<rparr>"
proof -
  obtain h k1 ph1 where n: "new_object os 907 k = (h, k1)" "alloc_pipe_helper os h (e_ev ev) k1 = (Inr ph1, k')"
      "ph = ph1\<lparr>pipe_is_server := True, pipe_mode_rd := mode_rd mode, pipe_mode_wr := mode_wr mode\<rparr>"
    using assms(1) by (auto simp: netsys_create_local_named_pipe_def split: option.splits prod.splits sum.splits)
  show ?thesis
    using alloc_pipe_helper_new [OF n(2)] new_object_io [OF n(1)] assms(2,3) unfolding n(3)
    by (simp add: conc_inv_def pipe_inv_defs ov_ok_def rd_stream_def wr_stream_def buffered_def pending_out_def same_io_def)
qed

lemma client_start_inv:
  assumes "pipe_os_ok os" "netsys_pipe_connect os mode k = (Inr ph, k')" "k_out k = []"
  shows "conc_inv \<lparr>pc_ph = ph, pc_k = k', pc_arrived = k_in k, pc_delivered = [], pc_accepted = []\<rparr>"
proof -
  obtain h k1 ph1 k2 where n: "new_object os 1205 k = (h, k1)" "alloc_pipe_helper os h INVALID_HANDLE_VALUE k1 = (Inr ph1, k2)"
    using assms(2) by (auto simp: netsys_pipe_connect_def Let_def split: option.splits prod.splits sum.splits)
  let ?ph2 = "ph1\<lparr>pipe_conn_state := PIPE_CONNECTED, pipe_mode_rd := mode_rd mode, pipe_mode_wr := mode_wr mode\<rparr>"
  let ?k3 = "set_signal (pipe_wr_ev ph1) True k2"
  have eq: "(if mode_rd mode then start_reading os ?ph2 ?k3 else (?ph2, ?k3)) = (ph, k')"
    using assms(2) n by (auto simp: netsys_pipe_connect_def Let_def split: option.splits prod.splits if_splits)
  note a = alloc_pipe_helper_new [OF n(2)]
  have inv: "pipe_inv ?ph2 ?k3" using a by (simp add: pipe_inv_defs ov_ok_def)
  have str: "rd_stream ?ph2 ?k3 (k_in k) []" "wr_stream ?ph2 ?k3 []"
    using a new_object_io [OF n(1)] assms(3)
    by (simp_all add: rd_stream_def wr_stream_def buffered_def pending_out_def same_io_def)
  have "pipe_inv ph k' \<and> keeps_rd ?ph2 ?k3 ph k' \<and> keeps_wr ?ph2 ?k3 ph k'"
    using eq inv start_reading_keeps [OF assms(1) inv, of ph k'] a by (auto split: if_splits)
  then show ?thesis using str by (auto simp: conc_inv_def intro: rd_stream_keeps wr_stream_keeps)
qed

lemma k_out_streams [simp]:
  "buffered ph (k\<lparr>k_out := x\<rparr>) = buffered ph k" "pending_out ph (k\<lparr>k_out := x\<rparr>) = pending_out ph k"
  "pipe_inv ph (k\<lparr>k_out := x\<rparr>) = pipe_inv ph k"
  by (simp_all add: buffered_def pending_out_def pipe_inv_def buf_inv_def)

text \<open>Steps of the kernel: it only touches a buffer that it owns.\<close>

lemma state_inv_rd_buf [simp]: "state_inv (ph\<lparr>pipe_rd_buf := b\<rparr>) = state_inv ph"
  by (simp add: state_inv_def)

lemma read_completes_inv:
  assumes inv: "conc_inv s" and "k_rd (pc_k s) = Ov_pending" and m: "m = min n (min PIPE_HELPER_BUF_SIZE (length (k_in (pc_k s))))"
  shows "conc_inv (s\<lparr>
       pc_ph := (pc_ph s)\<lparr>pipe_rd_buf := take m (k_in (pc_k s)) @ drop m (pipe_rd_buf (pc_ph s))\<rparr>,
       pc_k := set_signal (pipe_rd_ev (pc_ph s)) True ((pc_k s)\<lparr>k_in := drop m (k_in (pc_k s)), k_rd := Ov_done m\<rparr>)\<rparr>)"
proof -
  have st: "pipe_rd_ovrlp_started (pc_ph s)" using assms by (auto simp: conc_inv_def pipe_inv_defs)
  have "length (pipe_rd_buf (pc_ph s)) = PIPE_HELPER_BUF_SIZE" using inv by (simp add: conc_inv_def pipe_inv_defs)
  then show ?thesis
    using inv st assms(2) m
    by (simp add: conc_inv_def pipe_inv_def buf_inv_def ov_ok_def rd_stream_def wr_stream_def buffered_def wr_ok_def pending_out_def min_def)
qed

lemma kernel_step_inv:
  assumes inv: "conc_inv s"
  shows "conc_inv (s\<lparr>pc_k := (pc_k s)\<lparr>k_in := k_in (pc_k s) @ bs\<rparr>, pc_arrived := pc_arrived s @ bs\<rparr>)"
    "k_rd (pc_k s) = Ov_pending \<Longrightarrow> real_error e \<Longrightarrow>
     conc_inv (s\<lparr>pc_k := set_signal (pipe_rd_ev (pc_ph s)) True ((pc_k s)\<lparr>k_rd := Ov_failed e\<rparr>)\<rparr>)"
    "k_cn (pc_k s) = Ov_pending \<Longrightarrow>
     conc_inv (s\<lparr>pc_k := set_signal (pipe_cn_ev (pc_ph s)) True ((pc_k s)\<lparr>k_cn := Ov_done 0\<rparr>)\<rparr>)"
    "k_cn (pc_k s) = Ov_pending \<Longrightarrow> real_error e \<Longrightarrow>
     conc_inv (s\<lparr>pc_k := set_signal (pipe_cn_ev (pc_ph s)) True ((pc_k s)\<lparr>k_cn := Ov_failed e\<rparr>)\<rparr>)"
  using inv
  by (simp_all add: conc_inv_def pipe_inv_def buf_inv_def ov_ok_def rd_stream_def wr_stream_def buffered_def wr_ok_def pending_out_def)

lemma write_step_inv:
  assumes inv: "conc_inv s" and pend: "k_wr (pc_k s) = Ov_pending"
  shows "conc_inv (s\<lparr>pc_k := set_signal (pipe_wr_ev (pc_ph s)) True ((pc_k s)\<lparr>k_wr := Ov_done (pipe_wr_buf_size (pc_ph s)),
       k_out := k_out (pc_k s) @ take (pipe_wr_buf_size (pc_ph s)) (pipe_wr_buf (pc_ph s))\<rparr>)\<rparr>)"
    "real_error e \<Longrightarrow> j \<le> pipe_wr_buf_size (pc_ph s) \<Longrightarrow>
     conc_inv (s\<lparr>pc_k := set_signal (pipe_wr_ev (pc_ph s)) True ((pc_k s)\<lparr>k_wr := Ov_failed e,
       k_out := k_out (pc_k s) @ take j (pipe_wr_buf (pc_ph s))\<rparr>)\<rparr>)"
proof -
  have st: "pipe_wr_ovrlp_started (pc_ph s)" using assms by (auto simp: conc_inv_def pipe_inv_defs)
  have ok: "pipe_error_wr (pc_ph s) = 0" "pipe_wr_buf_size (pc_ph s) \<le> PIPE_HELPER_BUF_SIZE"
    using inv st by (simp_all add: conc_inv_def pipe_inv_def buf_inv_def)
  have ok': "pipe_inv (pc_ph s) (pc_k s)" "rd_stream (pc_ph s) (pc_k s) (pc_arrived s) (pc_delivered s)"
    using inv by (simp_all add: conc_inv_def)
  have acc: "pc_accepted s = k_out (pc_k s) @ take (pipe_wr_buf_size (pc_ph s)) (pipe_wr_buf (pc_ph s))"
    using inv pend st ok(1) by (simp add: conc_inv_def wr_stream_def wr_ok_def pending_out_def)
  have pre: "prefix (take j (pipe_wr_buf (pc_ph s))) (take (pipe_wr_buf_size (pc_ph s)) (pipe_wr_buf (pc_ph s)))"
    if "j \<le> pipe_wr_buf_size (pc_ph s)" for j
    using that take_is_prefix [of j "take (pipe_wr_buf_size (pc_ph s)) (pipe_wr_buf (pc_ph s))"] by (simp add: min_absorb1)
  show "conc_inv (s\<lparr>pc_k := set_signal (pipe_wr_ev (pc_ph s)) True ((pc_k s)\<lparr>k_wr := Ov_done (pipe_wr_buf_size (pc_ph s)),
       k_out := k_out (pc_k s) @ take (pipe_wr_buf_size (pc_ph s)) (pipe_wr_buf (pc_ph s))\<rparr>)\<rparr>)"
    using ok(2) ok' st
    by (simp add: conc_inv_def pipe_inv_def buf_inv_def ov_ok_def rd_stream_def wr_stream_def buffered_def wr_ok_def pending_out_def acc)
  show "conc_inv (s\<lparr>pc_k := set_signal (pipe_wr_ev (pc_ph s)) True ((pc_k s)\<lparr>k_wr := Ov_failed e,
       k_out := k_out (pc_k s) @ take j (pipe_wr_buf (pc_ph s))\<rparr>)\<rparr>)"
    if "real_error e" "j \<le> pipe_wr_buf_size (pc_ph s)"
    using ok' st that(1) pre [OF that(2)]
    by (simp add: conc_inv_def pipe_inv_def buf_inv_def ov_ok_def rd_stream_def wr_stream_def buffered_def wr_ok_def pending_out_def acc)
qed

lemma flag_step_inv:
  "conc_inv s \<Longrightarrow> conc_inv (s\<lparr>pc_ph := netsys_pipe_signal (pc_ph s) ev\<rparr>)"
  "conc_inv s \<Longrightarrow> conc_inv (s\<lparr>pc_ph := netsys_set_auto_close_pipe_proxy (pc_ph s) b\<rparr>)"
  by (simp_all add: conc_inv_def netsys_pipe_signal_def netsys_set_auto_close_pipe_proxy_def pipe_inv_def buf_inv_def state_inv_def
      rd_stream_def wr_stream_def buffered_def wr_ok_def pending_out_def cong: ovl.case_cong)

lemma pipe_step_inv: "pipe_step s s' \<Longrightarrow> conc_inv s \<Longrightarrow> conc_inv s'"
proof (induction rule: pipe_step.induct)
  case (do_read os s len r ph' k')
  then show ?case
    using netsys_pipe_read_keeps [OF do_read.hyps(1) _ do_read.hyps(2)]
    by (cases r) (auto simp: conc_inv_def rd_stream_def keeps_rd_def intro: wr_stream_keeps)
next
  case (do_write os s bs r ph' k')
  then show ?case
    using netsys_pipe_write_keeps [OF do_write.hyps(1) _ _ do_write.hyps(2)]
    by (auto simp: conc_inv_def intro: rd_stream_keeps)
next
  case (do_listen os s r ph' k')
  then show ?case
    using netsys_pipe_listen_keeps [OF do_listen.hyps(1) _ do_listen.hyps(2)]
    by (auto simp: conc_inv_def intro: rd_stream_keeps wr_stream_keeps)
next
  case (do_conn_state os s r ph' k')
  then have "check_open os (pc_ph s) (pc_k s) = (ph', k')" by (auto simp: netsys_pipe_conn_state_def split: prod.splits)
  then show ?case
    using check_open_keeps [OF do_conn_state.hyps(1)] do_conn_state.prems
    by (auto simp: conc_inv_def intro: rd_stream_keeps wr_stream_keeps)
next
  case (do_shutdown os s r ph' k')
  then show ?case
    using netsys_pipe_shutdown_keeps [OF _ do_shutdown.hyps]
    by (auto simp: conc_inv_def intro: rd_stream_keeps wr_stream_keeps)
next
  case (do_deafen os s ph' k')
  obtain ph1 k1 where "check_open os (pc_ph s) (pc_k s) = (ph1, k1)" by fastforce
  then have "pipe_inv ph' k'" "buffered ph' k' = []" "k_in k' = []" "pending_out ph' k' = []"
    using netsys_pipe_deafen_keeps [OF do_deafen.hyps(1) _ do_deafen.hyps(2)] do_deafen.prems by (auto simp: conc_inv_def)
  then show ?case by (simp add: conc_inv_def rd_stream_def wr_stream_def)
next
  case (do_deafen_error os s e f ph' k')
  obtain ph1 k1 where "check_open os (pc_ph s) (pc_k s) = (ph1, k1)" by fastforce
  then show ?case
    using netsys_pipe_deafen_keeps [OF do_deafen_error.hyps(1) _ do_deafen_error.hyps(2)] do_deafen_error.prems
    by (auto simp: conc_inv_def intro: rd_stream_keeps wr_stream_keeps)
next
  case (do_deafen_failure os s f ph' k' ph1 k1)
  have inv: "pipe_inv (pc_ph s) (pc_k s)" and rs: "rd_stream (pc_ph s) (pc_k s) (pc_arrived s) (pc_delivered s)"
    using do_deafen_failure.prems by (simp_all add: conc_inv_def)
  have "rd_stream ph1 k1 (pc_arrived s) (pc_delivered s)"
    using check_open_keeps [OF do_deafen_failure.hyps(1) inv do_deafen_failure.hyps(3)] rd_stream_keeps [OF rs] by blast
  then have "take (length (pc_arrived s) - length (k_in k1)) (pc_arrived s) = pc_delivered s @ buffered ph1 k1"
    by (simp add: rd_stream_def)
  then show ?case
    using netsys_pipe_deafen_keeps [OF do_deafen_failure.hyps(1) inv do_deafen_failure.hyps(2,3)] do_deafen_failure.prems
    by (auto simp: conc_inv_def rd_stream_def intro: wr_stream_keeps)
qed (auto intro: kernel_step_inv write_step_inv read_completes_inv flag_step_inv)

lemma pipe_reachable_inv: "pipe_reachable s \<Longrightarrow> conc_inv s"
  by (induction rule: pipe_reachable.induct) (auto intro: client_start_inv server_inv pipe_step_inv)

section \<open>The kernel and the program never use a buffer at the same time\<close>

lemma check_open_pending:
  assumes inv: "pipe_inv ph k" "pipe_is_open ph" and ck: "check_open os ph k = (ph1, k1)"
  shows "k_rd k = Ov_pending \<Longrightarrow> pipe_rd_ovrlp_started ph1" "k_wr k = Ov_pending \<Longrightarrow> pipe_wr_ovrlp_started ph1"
proof -
  assume pend: "k_rd k = Ov_pending"
  then have st: "pipe_rd_ovrlp_started ph" "\<not> pipe_cn_ovrlp_started ph"
    using inv by (auto simp: pipe_inv_def buf_inv_def state_inv_def)
  have c: "check_rd ph k = ph" using pend by (simp add: check_rd_def GetOverlappedResult_def)
  have "pipe_rd_ovrlp_started (check_wr ph k)" "\<not> pipe_cn_ovrlp_started (check_wr ph k)"
    using st by (simp_all add: check_wr_def split: sum.split)
  then show "pipe_rd_ovrlp_started ph1"
    using ck inv(2) by (auto simp: check_open_def check_for_pending_operations_def c check_cn_def)
next
  assume pend: "k_wr k = Ov_pending"
  then have st: "pipe_wr_ovrlp_started ph" "\<not> pipe_cn_ovrlp_started ph"
    using inv by (auto simp: pipe_inv_def buf_inv_def state_inv_def)
  have rd: "pipe_wr_ovrlp_started (check_rd ph k)" "\<not> pipe_cn_ovrlp_started (check_rd ph k)"
    using st by (simp_all add: check_rd_def split: sum.split)
  have c: "check_wr (check_rd ph k) k = check_rd ph k" using pend by (simp add: check_wr_def GetOverlappedResult_def)
  show "pipe_wr_ovrlp_started ph1"
    using ck inv(2) rd by (auto simp: check_open_def check_for_pending_operations_def c check_cn_def)
qed


lemma check_buffers [simp]:
  "pipe_rd_buf (check_rd ph k) = pipe_rd_buf ph" "pipe_rd_buf (check_wr ph k) = pipe_rd_buf ph"
  "pipe_wr_buf (check_rd ph k) = pipe_wr_buf ph" "pipe_wr_buf (check_wr ph k) = pipe_wr_buf ph"
  "pipe_wr_buf_size (check_rd ph k) = pipe_wr_buf_size ph"
  "k_wr k = Ov_pending \<Longrightarrow> pipe_wr_buf_size (check_wr ph k) = pipe_wr_buf_size ph"
  by (simp_all add: check_rd_def check_wr_def GetOverlappedResult_def split: sum.split)






definition sample_pos :: pipe_os where
  "sample_pos = \<lparr>os_new = (\<lambda>site. free_handle), os_err = (\<lambda>site. None), os_apc = False,
     po_read = (\<lambda>k. Io_pending), po_write = (\<lambda>k. Io_pending), po_connect = (\<lambda>k. Io_now 0), po_abort = (\<lambda>i. None),
     po_garbage = (\<lambda>i. 0)\<rparr>"

definition sample_pk :: pk where
  "sample_pk = \<lparr>w_obj = (\<lambda>h. if h = 1 then Some 0 else None), w_sig = (\<lambda>ob. False), w_inherit = (\<lambda>h. False), w_next = 1,
     w_bad = 0, k_rd = Ov_idle, k_wr = Ov_idle, k_cn = Ov_idle, k_in = [1, 2, 3], k_out = []\<rparr>"

lemma sample_reachable:
  "\<exists>s. pipe_reachable s \<and> k_rd (pc_k s) = Ov_pending \<and> pipe_is_open (pc_ph s) \<and> pc_arrived s = [1, 2, 3] \<and>
     \<not> pipe_is_server (pc_ph s) \<and> pipe_mode_wr (pc_ph s)"
proof -
  have os: "pipe_os_ok sample_pos" by (simp add: pipe_os_ok_def answer_ok_def sample_pos_def)
  obtain ph k' where c: "netsys_pipe_connect sample_pos Pipe_duplex sample_pk = (Inr ph, k')" "k_rd k' = Ov_pending"
      "pipe_is_open ph" "\<not> pipe_is_server ph" "pipe_mode_wr ph"
    by (simp add: netsys_pipe_connect_def sample_pos_def alloc_pipe_helper_def CreateEvent_def new_object_def Let_def
        mode_rd_def mode_wr_def start_reading_def ReadFile_def)
  have "k_out sample_pk = []" "k_in sample_pk = [1, 2, 3]" by (simp_all add: sample_pk_def)
  then show ?thesis using client [OF os _ c(1)] c(2-5) by (intro exI [of _ "\<lparr>pc_ph = ph, pc_k = k', pc_arrived = [1, 2, 3],
      pc_delivered = [], pc_accepted = []\<rparr>"]) simp
qed


text \<open>
  Claim C3: the pipe transports bytes in order and without loss, in both directions, under every interleaving of reads, writes,
  completions, failures and shutdowns, within one connection: disconnecting discards the bytes that were not yet read from the kernel (they no longer
  count as sent, also when the disconnection is followed by a failure). The bytes that the peer has sent are those that reads have returned, followed by those
  in the buffer and those still in the kernel; what the peer gets is a prefix of what writes have accepted, and as long
  as no write has failed it is all of it but the buffer of the write that is under way.
\<close>

theorem pipe_streams_in_order:
  assumes "pipe_reachable s"
  shows "pc_arrived s = pc_delivered s @ buffered (pc_ph s) (pc_k s) @ k_in (pc_k s) \<and>
    prefix (k_out (pc_k s)) (pc_accepted s) \<and>
    (wr_ok (pc_ph s) (pc_k s) \<longrightarrow> pc_accepted s = k_out (pc_k s) @ pending_out (pc_ph s) (pc_k s))"
  using pipe_reachable_inv [OF assms] by (simp add: conc_inv_def rd_stream_def wr_stream_def)

theorem pipe_streams_in_order_witness:
  "\<exists>s. pipe_reachable s \<and> pc_arrived s = [1, 2, 3] \<and>
     pc_arrived s = pc_delivered s @ buffered (pc_ph s) (pc_k s) @ k_in (pc_k s) \<and> prefix (k_out (pc_k s)) (pc_accepted s)"
proof -
  obtain s where c: "pipe_reachable s" "pc_arrived s = [1, 2, 3]" using sample_reachable by blast
  show ?thesis using pipe_streams_in_order [OF c(1)] c by (intro exI [of _ s]) simp
qed

section \<open>Waking up\<close>

text \<open>
  The two event objects of a helper are open and different. For a connected client: when a read would not be answered
  with EAGAIN the read event is signalled, unless no byte is left and the end of the stream or an error was already noticed; likewise for writes.
\<close>

definition events_apart :: "pipe_helper \<Rightarrow> pk \<Rightarrow> bool" where
  "events_apart ph k \<longleftrightarrow> w_obj k (pipe_rd_ev ph) \<noteq> None \<and> w_obj k (pipe_wr_ev ph) \<noteq> None \<and>
     w_obj k (pipe_rd_ev ph) \<noteq> w_obj k (pipe_wr_ev ph) \<and> pipe_handle ph \<noteq> pipe_rd_ev ph \<and> pipe_handle ph \<noteq> pipe_wr_ev ph"

definition rd_wakes :: "pipe_helper \<Rightarrow> pk \<Rightarrow> bool" where
  "rd_wakes ph k \<longleftrightarrow> (pipe_mode_rd ph \<longrightarrow> pipe_rd_ovrlp_started ph \<and> k_rd k = Ov_pending \<or> signaled (pipe_rd_ev ph) k \<or>
     \<not> pipe_rd_ovrlp_started ph \<and> pipe_rd_buf_size ph = 0 \<and> (pipe_error_rd ph \<noteq> 0 \<or> pipe_rd_eof ph)) \<and>
     (k_rd k = Ov_pending \<longrightarrow> \<not> signaled (pipe_rd_ev ph) k) \<and> (pipe_rd_ovrlp_started ph \<longrightarrow> k_rd k \<noteq> Ov_idle)"

definition wr_wakes :: "pipe_helper \<Rightarrow> pk \<Rightarrow> bool" where
  "wr_wakes ph k \<longleftrightarrow> (pipe_mode_wr ph \<longrightarrow> pipe_wr_ovrlp_started ph \<and> k_wr k = Ov_pending \<or>
     signaled (pipe_wr_ev ph) k \<or> \<not> pipe_wr_ovrlp_started ph \<and> pipe_error_wr ph \<noteq> 0) \<and>
     (k_wr k = Ov_pending \<longrightarrow> \<not> signaled (pipe_wr_ev ph) k) \<and> (pipe_wr_ovrlp_started ph \<longrightarrow> k_wr k \<noteq> Ov_idle)"

definition client_ok :: "pipe_helper \<Rightarrow> pk \<Rightarrow> bool" where
  "client_ok ph k \<longleftrightarrow> \<not> pipe_is_server ph \<and> events_apart ph k \<and>
     pipe_conn_state ph \<in> {PIPE_CONNECTED, PIPE_DOWN} \<and> (pipe_is_open ph \<longrightarrow> rd_wakes ph k \<and> wr_wakes ph k)"

lemma signaled_frame [simp]:
  "signaled h (k\<lparr>k_rd := x\<rparr>) = signaled h k" "signaled h (k\<lparr>k_wr := x\<rparr>) = signaled h k" "signaled h (k\<lparr>k_cn := x\<rparr>) = signaled h k"
  "signaled h (k\<lparr>k_in := bs\<rparr>) = signaled h k" "signaled h (k\<lparr>k_out := bs\<rparr>) = signaled h k"
  by (simp_all add: signaled_def split: option.split)

lemmas wake_defs = events_apart_def rd_wakes_def wr_wakes_def

lemma start_reading_wakes:
  assumes os: "pipe_os_ok os" and ap: "events_apart ph k" and wr: "wr_wakes ph k" and eq: "start_reading os ph k = (ph', k')"
    and idle: "k_rd k \<noteq> Ov_pending" "\<not> pipe_rd_ovrlp_started ph"
  shows "events_apart ph' k'" "rd_wakes ph' k'" "wr_wakes ph' k'"
  using assms
  by (cases "po_read os k"; simp add: start_reading_def ReadFile_def Let_def pipe_os_ok_def answer_ok_def wake_defs split: if_splits; force)+

lemma start_writing_wakes:
  assumes os: "pipe_os_ok os" and ap: "events_apart ph k" and rd: "rd_wakes ph k" and eq: "start_writing os ph k = (ph', k')"
    and idle: "k_wr k \<noteq> Ov_pending" "\<not> pipe_wr_ovrlp_started ph"
  shows "events_apart ph' k'" "rd_wakes ph' k'" "wr_wakes ph' k'"
  using assms
  by (cases "po_write os k"; simp add: start_writing_def WriteFile_def Let_def pipe_os_ok_def answer_ok_def wake_defs split: if_splits; force)+

lemma check_rd_wakes:
  assumes "ov_ok (k_rd k)" "rd_wakes ph k" "wr_wakes ph k" "events_apart ph k"
  shows "rd_wakes (check_rd ph k) k" "wr_wakes (check_rd ph k) k" "events_apart (check_rd ph k) k"
  using assms by (cases "k_rd k"; auto simp: check_rd_def GetOverlappedResult_def wake_defs ov_ok_def)+

lemma check_wr_wakes:
  assumes "ov_ok (k_wr k)" "rd_wakes ph k" "wr_wakes ph k" "events_apart ph k"
  shows "rd_wakes (check_wr ph k) k" "wr_wakes (check_wr ph k) k" "events_apart (check_wr ph k) k"
  using assms by (cases "k_wr k"; auto simp: check_wr_def GetOverlappedResult_def wake_defs ov_ok_def)+

lemma check_frame [simp]:
  "pipe_is_open (check_rd ph k) = pipe_is_open ph" "pipe_is_open (check_wr ph k) = pipe_is_open ph"
  "pipe_is_server (check_rd ph k) = pipe_is_server ph" "pipe_is_server (check_wr ph k) = pipe_is_server ph"
  "pipe_conn_state (check_rd ph k) = pipe_conn_state ph" "pipe_conn_state (check_wr ph k) = pipe_conn_state ph"
  "pipe_cn_ovrlp_started (check_rd ph k) = pipe_cn_ovrlp_started ph" "pipe_cn_ovrlp_started (check_wr ph k) = pipe_cn_ovrlp_started ph"
  by (simp_all add: check_rd_def check_wr_def split: sum.split)

lemma check_client:
  assumes inv: "pipe_inv ph k" and cl: "client_ok ph k" and ck: "check_open os ph k = (ph1, k1)"
  shows "k1 = k" "client_ok ph1 k"
    "pipe_is_open ph1 \<Longrightarrow> \<not> pipe_rd_ovrlp_started ph1 \<Longrightarrow> k_rd k \<noteq> Ov_pending"
    "pipe_is_open ph1 \<Longrightarrow> \<not> pipe_wr_ovrlp_started ph1 \<Longrightarrow> k_wr k \<noteq> Ov_pending"
    "pipe_is_open ph1 = pipe_is_open ph" "pipe_conn_state ph1 = pipe_conn_state ph"
proof -
  have cn: "\<not> pipe_cn_ovrlp_started ph" if "pipe_is_open ph"
    using inv cl that by (auto simp: pipe_inv_def state_inv_def client_ok_def)
  then have ph1: "ph1 = (if pipe_is_open ph then check_wr (check_rd ph k) k else ph)" "k1 = k"
    using ck by (auto simp: check_open_def check_for_pending_operations_def check_cn_def split: if_splits)
  have ov: "ov_ok (k_rd k)" "ov_ok (k_wr k)" using inv by (simp_all add: pipe_inv_def buf_inv_def)
  show "k1 = k" by (rule ph1)
  show "pipe_is_open ph1 \<Longrightarrow> \<not> pipe_rd_ovrlp_started ph1 \<Longrightarrow> k_rd k \<noteq> Ov_pending"
    "pipe_is_open ph1 \<Longrightarrow> \<not> pipe_wr_ovrlp_started ph1 \<Longrightarrow> k_wr k \<noteq> Ov_pending"
    using check_open_pending [OF inv _ ck] by (auto simp: ph1 split: if_splits)
  show "client_ok ph1 k"
    using cl check_rd_wakes [OF ov(1), of ph] check_wr_wakes [OF ov(2), of "check_rd ph k"] by (auto simp: ph1 client_ok_def)
  show "pipe_is_open ph1 = pipe_is_open ph" "pipe_conn_state ph1 = pipe_conn_state ph" by (simp_all add: ph1)
qed

lemma check_open_started:
  assumes inv: "pipe_inv ph k" and cl: "client_ok ph k" and op: "pipe_is_open ph" and ck: "check_open os ph k = (ph1, k1)"
  shows "pipe_rd_ovrlp_started ph1 \<longrightarrow> k_rd k = Ov_pending" "pipe_wr_ovrlp_started ph1 \<longrightarrow> k_wr k = Ov_pending"
    "pipe_is_open ph1" "pipe_conn_state ph1 = PIPE_CONNECTED" "pipe_mode_rd ph1 = pipe_mode_rd ph" "pipe_mode_wr ph1 = pipe_mode_wr ph"
proof -
  have cn: "\<not> pipe_cn_ovrlp_started ph" "pipe_conn_state ph = PIPE_CONNECTED"
    using inv cl op by (auto simp: pipe_inv_def state_inv_def client_ok_def)
  then have ph1: "ph1 = check_wr (check_rd ph k) k"
    using ck op by (auto simp: check_open_def check_for_pending_operations_def check_cn_def split: if_splits)
  have ov: "ov_ok (k_rd k)" "ov_ok (k_wr k)" using inv by (simp_all add: pipe_inv_def buf_inv_def)
  have idle: "pipe_rd_ovrlp_started ph \<longrightarrow> k_rd k \<noteq> Ov_idle" "pipe_wr_ovrlp_started ph \<longrightarrow> k_wr k \<noteq> Ov_idle"
    using cl op by (simp_all add: client_ok_def wake_defs)
  show "pipe_rd_ovrlp_started ph1 \<longrightarrow> k_rd k = Ov_pending" "pipe_wr_ovrlp_started ph1 \<longrightarrow> k_wr k = Ov_pending"
    "pipe_is_open ph1" "pipe_conn_state ph1 = PIPE_CONNECTED" "pipe_mode_rd ph1 = pipe_mode_rd ph" "pipe_mode_wr ph1 = pipe_mode_wr ph"
    using ov op cn idle
    by (auto simp: ph1 check_rd_def check_wr_def GetOverlappedResult_def ov_ok_def split: ovl.splits sum.splits)
qed

lemma check_open_quiet:
  assumes inv: "pipe_inv ph k" and cl: "client_ok ph k" and op: "pipe_is_open ph" and q: "\<not> pipe_rd_ovrlp_started ph"
    and ck: "check_open os ph k = (ph1, k1)"
  shows "pipe_rd_buf_size ph1 = pipe_rd_buf_size ph" "pipe_error_rd ph1 = pipe_error_rd ph" "pipe_rd_eof ph1 = pipe_rd_eof ph"
proof -
  have "\<not> pipe_cn_ovrlp_started ph" using inv cl op by (auto simp: pipe_inv_def state_inv_def client_ok_def)
  then have ph1: "ph1 = check_wr ph k"
    using ck op q by (auto simp: check_open_def check_for_pending_operations_def check_cn_def check_rd_def split: if_splits)
  show "pipe_rd_buf_size ph1 = pipe_rd_buf_size ph" "pipe_error_rd ph1 = pipe_error_rd ph" "pipe_rd_eof ph1 = pipe_rd_eof ph"
    by (simp_all add: ph1 check_wr_def split: sum.split)
qed

lemma start_frame:
  "start_reading os ph k = (ph', k') \<Longrightarrow> pipe_is_open ph' = pipe_is_open ph \<and> pipe_is_server ph' = pipe_is_server ph \<and>
     pipe_conn_state ph' = pipe_conn_state ph"
  "start_writing os ph k = (ph', k') \<Longrightarrow> pipe_is_open ph' = pipe_is_open ph \<and> pipe_is_server ph' = pipe_is_server ph \<and>
     pipe_conn_state ph' = pipe_conn_state ph"
  by (auto simp: start_reading_def ReadFile_def start_writing_def WriteFile_def Let_def split: io_answer.splits if_splits)

lemma client_start_reading:
  "start_reading os ph k = (ph', k') \<Longrightarrow> pipe_os_ok os \<Longrightarrow> client_ok ph k \<Longrightarrow> pipe_is_open ph \<Longrightarrow>
     k_rd k \<noteq> Ov_pending \<Longrightarrow> \<not> pipe_rd_ovrlp_started ph \<Longrightarrow> client_ok ph' k'"
  using start_reading_wakes [of os ph k ph' k'] start_frame(1) [of os ph k ph' k'] by (simp add: client_ok_def)

lemma client_start_writing:
  "start_writing os ph k = (ph', k') \<Longrightarrow> pipe_os_ok os \<Longrightarrow> client_ok ph k \<Longrightarrow> pipe_is_open ph \<Longrightarrow>
     k_wr k \<noteq> Ov_pending \<Longrightarrow> \<not> pipe_wr_ovrlp_started ph \<Longrightarrow> client_ok ph' k'"
  using start_writing_wakes [of os ph k ph' k'] start_frame(2) [of os ph k ph' k'] by (simp add: client_ok_def)

lemma client_buffers [simp]:
  "client_ok (ph\<lparr>pipe_rd_buf := b\<rparr>) k = client_ok ph k"
  "client_ok (ph\<lparr>pipe_wr_buf := b\<rparr>) k = client_ok ph k" "client_ok (ph\<lparr>pipe_wr_buf_size := n\<rparr>) k = client_ok ph k"
  "client_ok (ph\<lparr>pipe_signal := h\<rparr>) k = client_ok ph k" "client_ok (ph\<lparr>pipe_descr_auto_close := c\<rparr>) k = client_ok ph k"
  by (simp_all add: client_ok_def wake_defs)

lemma client_consumed [simp]: "client_ok ph k \<Longrightarrow> n \<le> pipe_rd_buf_size ph \<Longrightarrow> client_ok (ph\<lparr>pipe_rd_buf_size := n\<rparr>) k"
  by (auto simp: client_ok_def wake_defs)

lemma client_read:
  assumes os: "pipe_os_ok os" and inv: "pipe_inv ph k" and cl: "client_ok ph k" and eq: "netsys_pipe_read os ph len k = (r, ph', k')"
  shows "client_ok ph' k'"
proof -
  obtain ph1 k1 where ck: "check_open os ph k = (ph1, k1)" by fastforce
  note c = check_client [OF inv cl ck]
  from c(2) show ?thesis
    using eq os c(3)
    by (auto dest!: client_start_reading simp: netsys_pipe_read_def ck c(1) Let_def split: if_splits prod.splits)
qed

lemma client_write:
  assumes os: "pipe_os_ok os" and inv: "pipe_inv ph k" and cl: "client_ok ph k" and eq: "netsys_pipe_write os ph bs k = (r, ph', k')"
  shows "client_ok ph' k'"
proof -
  obtain ph1 k1 where ck: "check_open os ph k = (ph1, k1)" by fastforce
  note c = check_client [OF inv cl ck]
  from c(2) show ?thesis
    using eq os c(4)
    by (auto dest!: client_start_writing simp: netsys_pipe_write_def ck c(1) Let_def split: if_splits prod.splits)
qed

lemma client_shutdown:
  assumes cl: "client_ok ph k" and eq: "netsys_pipe_shutdown os ph k = (r, ph', k')"
  shows "client_ok ph' k'"
proof (cases "pipe_is_open ph \<and> pipe_conn_state ph \<noteq> PIPE_DEAF \<and> os_err os 1389 = None")
  case True
  then have "ph' = ph\<lparr>pipe_is_open := False, pipe_conn_state := PIPE_DOWN\<rparr>" "w_obj k' = (w_obj k)(pipe_handle ph := None)"
    using eq by (auto simp: netsys_pipe_shutdown_def Let_def CloseHandle_def abort_all_def abort_signal_def reset_events_def split: if_splits)
  then show ?thesis using cl by (auto simp: client_ok_def events_apart_def)
qed (use assms in \<open>auto simp: netsys_pipe_shutdown_def split: if_splits option.splits\<close>)

lemma client_no_server:
  assumes inv: "pipe_inv ph k" and cl: "client_ok ph k"
  shows "netsys_pipe_listen os ph k = (r, ph', k') \<Longrightarrow> client_ok ph' k'"
    "netsys_pipe_deafen os ph k = (r, ph', k') \<Longrightarrow> client_ok ph' k' \<and> (\<exists>e f. r = Inl (Unix_error e f))"
    "netsys_pipe_conn_state os ph k = (c, ph', k') \<Longrightarrow> client_ok ph' k'"
proof -
  obtain ph1 k1 where ck: "check_open os ph k = (ph1, k1)" by fastforce
  note c = check_client [OF inv cl ck]
  have "\<not> pipe_is_server ph1" using c(2) by (simp add: client_ok_def)
  then show "netsys_pipe_listen os ph k = (r, ph', k') \<Longrightarrow> client_ok ph' k'"
    "netsys_pipe_deafen os ph k = (r, ph', k') \<Longrightarrow> client_ok ph' k' \<and> (\<exists>e f. r = Inl (Unix_error e f))"
    "netsys_pipe_conn_state os ph k = (c, ph', k') \<Longrightarrow> client_ok ph' k'"
    using c(2) by (auto simp: netsys_pipe_listen_def netsys_pipe_deafen_def netsys_pipe_conn_state_def ck c(1) split: if_splits)
qed

lemma client_kernel:
  assumes cl: "client_ok ph k"
  shows "client_ok ph (k\<lparr>k_in := bs\<rparr>)"
    "client_ok ph (set_signal (pipe_rd_ev ph) True (k\<lparr>k_in := bs, k_rd := Ov_done n\<rparr>))"
    "client_ok ph (set_signal (pipe_rd_ev ph) True (k\<lparr>k_rd := Ov_failed e\<rparr>))"
    "client_ok ph (set_signal (pipe_wr_ev ph) True (k\<lparr>k_wr := Ov_done n, k_out := bs\<rparr>))"
    "client_ok ph (set_signal (pipe_wr_ev ph) True (k\<lparr>k_wr := Ov_failed e, k_out := bs\<rparr>))"
  using cl by (auto simp: client_ok_def wake_defs)

lemma client_connected:
  assumes inv: "pipe_inv ph k" and cl: "client_ok ph k" and "k_cn k = Ov_pending"
  shows "client_ok ph (set_signal (pipe_cn_ev ph) True (k\<lparr>k_cn := x\<rparr>))"
proof -
  have "pipe_cn_ovrlp_started ph" using assms by (auto simp: pipe_inv_def buf_inv_def)
  then have "\<not> pipe_is_open ph" using inv cl by (auto simp: pipe_inv_def state_inv_def client_ok_def)
  then show ?thesis using cl by (simp add: client_ok_def events_apart_def)
qed

lemma client_step: "pipe_step s s' \<Longrightarrow> conc_inv s \<Longrightarrow> client_ok (pc_ph s) (pc_k s) \<Longrightarrow> client_ok (pc_ph s') (pc_k s')"
proof (induction rule: pipe_step.induct)
  case (connect_completes s)
  then show ?case using client_connected by (simp add: conc_inv_def)
next
  case (connect_fails s e)
  then show ?case using client_connected by (simp add: conc_inv_def)
next
  case (do_deafen os s ph' k')
  then show ?case using client_no_server(2) [OF _ do_deafen.prems(2) do_deafen.hyps(2)] by (simp add: conc_inv_def)
next
  case (do_deafen_error os s e f ph' k')
  then show ?case using client_no_server(2) [OF _ do_deafen_error.prems(2) do_deafen_error.hyps(2)] by (simp add: conc_inv_def)
next
  case (do_deafen_failure os s f ph' k' ph1 k1)
  then show ?case using client_no_server(2) [OF _ do_deafen_failure.prems(2) do_deafen_failure.hyps(2)] by (simp add: conc_inv_def)
next
  case (do_read os s len r ph' k')
  then show ?case using client_read [OF do_read.hyps(1) _ do_read.prems(2) do_read.hyps(2)] by (simp add: conc_inv_def)
next
  case (do_write os s bs r ph' k')
  then show ?case using client_write [OF do_write.hyps(1) _ do_write.prems(2) do_write.hyps(2)] by (simp add: conc_inv_def)
next
  case (do_listen os s r ph' k')
  then show ?case using client_no_server(1) [OF _ do_listen.prems(2) do_listen.hyps(2)] by (simp add: conc_inv_def)
next
  case (do_conn_state os s r ph' k')
  then show ?case using client_no_server(3) [OF _ do_conn_state.prems(2) do_conn_state.hyps(2)] by (simp add: conc_inv_def)
next
  case (do_shutdown os s r ph' k')
  then show ?case using client_shutdown [OF do_shutdown.prems(2) do_shutdown.hyps] by simp
qed (simp_all add: client_kernel netsys_pipe_signal_def netsys_set_auto_close_pipe_proxy_def)

interpretation client: step_system "\<lambda>s. conc_inv s \<and> client_ok (pc_ph s) (pc_k s)" pipe_step "\<lambda>s. conc_inv s \<and> client_ok (pc_ph s) (pc_k s)"
  by unfold_locales (auto dest: pipe_step_inv client_step)

text \<open>The handle of the pipe and those of its events are four different ones, for different objects.\<close>

lemma alloc_pipe_helper_apart:
  assumes fr: "fresh_handles os" "objs_ok k" and h: "w_obj k h \<noteq> None" and eq: "alloc_pipe_helper os h cn k = (Inr ph, k')"
  shows "events_apart ph k' \<and> \<not> pipe_is_server ph"
proof -
  obtain rd k1 wr k2 pd k3 where n: "new_object os 576 k = (rd, k1)" "new_object os 582 k1 = (wr, k2)" "new_object os 588 k2 = (pd, k3)"
    by (metis surj_pair)
  have k': "w_obj k' = w_obj k3" "pipe_handle ph = h" "pipe_rd_ev ph = rd" "pipe_wr_ev ph = wr" "\<not> pipe_is_server ph"
    using eq by (auto simp: alloc_pipe_helper_def CreateEvent_def n split: option.splits)
  note a = new_object_fresh [OF fr n(1)]
  note b = new_object_fresh [OF fr(1) a(3) n(2)]
  note c = new_object_fresh [OF fr(1) b(3) n(3)]
  have "rd \<noteq> wr" "pd \<noteq> rd" "pd \<noteq> wr" "h \<noteq> rd" "h \<noteq> wr" using a b c h by (auto split: if_splits)
  then show ?thesis using a(2,4) b(2,4) c(2) k' by (simp add: events_apart_def)
qed

lemma client_start_ok:
  assumes os: "pipe_os_ok os" "fresh_handles os" and k: "objs_ok k" and eq: "netsys_pipe_connect os mode k = (Inr ph, k')"
  shows "client_ok ph k'"
proof -
  obtain h k1 ph1 k2 where n: "new_object os 1205 k = (h, k1)" "alloc_pipe_helper os h INVALID_HANDLE_VALUE k1 = (Inr ph1, k2)"
    using eq by (auto simp: netsys_pipe_connect_def Let_def split: option.splits prod.splits sum.splits)
  let ?ph2 = "ph1\<lparr>pipe_conn_state := PIPE_CONNECTED, pipe_mode_rd := mode_rd mode, pipe_mode_wr := mode_wr mode\<rparr>"
  let ?k3 = "set_signal (pipe_wr_ev ph1) True k2"
  have eq': "(if mode_rd mode then start_reading os ?ph2 ?k3 else (?ph2, ?k3)) = (ph, k')"
    using eq n by (auto simp: netsys_pipe_connect_def Let_def split: option.splits prod.splits if_splits)
  have k1: "objs_ok k1" "w_obj k1 h \<noteq> None" using new_object_fresh [OF os(2) k n(1)] by simp_all
  note a = alloc_pipe_helper_new [OF n(2)] alloc_pipe_helper_apart [OF os(2) k1 n(2)]
  have ap: "events_apart ?ph2 ?k3" "wr_wakes ?ph2 ?k3" "k_rd ?k3 \<noteq> Ov_pending" "\<not> pipe_rd_ovrlp_started ?ph2" using a by (auto simp: wake_defs)
  show ?thesis
  proof (cases "mode_rd mode")
    case True
    then have "start_reading os ?ph2 ?k3 = (ph, k')" using eq' by simp
    from start_reading_wakes [OF os(1) ap(1,2) this ap(3,4)] start_frame(1) [OF this] show ?thesis
      using a by (simp add: client_ok_def)
  next
    case False
    then have eqs: "ph = ?ph2" "k' = ?k3" using eq' by simp_all
    show ?thesis unfolding eqs using False a ap by (simp add: client_ok_def rd_wakes_def)
  qed
qed

text \<open>
  Claim C9: the events of a client pipe, after any sequence of steps from a successful connection. While the kernel has a read
  to answer, the read event is not signalled and a read is refused (so that nobody spins). When the kernel has none, a read returns at once with bytes, the end of
  the stream or the error of the pipe, and the read event is signalled, with one exception: when no byte is left and the end of the stream or an
  error is on record, the event need not be signalled. A program that waits for the event before it reads can miss this end or error (it is
  recorded without a signal when the system gives it as the immediate answer to the start of a read); one that reads first gets exactly the recorded
  error, or no byte at the end. The same holds for writes, where the exception is a recorded write error.
\<close>

theorem pipe_client_wakes:
  assumes "pipe_os_ok os" "fresh_handles os" "objs_ok k" "k_out k = []" "netsys_pipe_connect os mode k = (Inr ph, k')"
    and steps: "pipe_step\<^sup>*\<^sup>* \<lparr>pc_ph = ph, pc_k = k', pc_arrived = k_in k, pc_delivered = [], pc_accepted = []\<rparr> s"
    and op: "pipe_is_open (pc_ph s)" and len: "0 < len" "bs \<noteq> []"
  shows "(pipe_mode_rd (pc_ph s) \<longrightarrow>
      (if k_rd (pc_k s) = Ov_pending
       then \<not> signaled (pipe_rd_ev (pc_ph s)) (pc_k s) \<and> (\<exists>e. fst (netsys_pipe_read os' (pc_ph s) len (pc_k s)) = Inl e)
       else if signaled (pipe_rd_ev (pc_ph s)) (pc_k s)
       then (\<exists>r. fst (netsys_pipe_read os' (pc_ph s) len (pc_k s)) = Inr r) \<or>
          (\<exists>e. e \<noteq> 0 \<and> fst (netsys_pipe_read os' (pc_ph s) len (pc_k s)) = Inl (uerror_win e ''netsys_pipe_read''))
       else pipe_rd_buf_size (pc_ph s) = 0 \<and>
         (if pipe_error_rd (pc_ph s) \<noteq> 0
          then fst (netsys_pipe_read os' (pc_ph s) len (pc_k s)) = Inl (uerror_win (pipe_error_rd (pc_ph s)) ''netsys_pipe_read'')
          else pipe_rd_eof (pc_ph s) \<and> fst (netsys_pipe_read os' (pc_ph s) len (pc_k s)) = Inr []))) \<and>
    (pipe_mode_wr (pc_ph s) \<longrightarrow>
      (if k_wr (pc_k s) = Ov_pending
       then \<not> signaled (pipe_wr_ev (pc_ph s)) (pc_k s) \<and> (\<exists>e. fst (netsys_pipe_write os' (pc_ph s) bs (pc_k s)) = Inl e)
       else (signaled (pipe_wr_ev (pc_ph s)) (pc_k s) \<or> pipe_error_wr (pc_ph s) \<noteq> 0) \<and>
         (fst (netsys_pipe_write os' (pc_ph s) bs (pc_k s)) = Inr (min (length bs) 1024) \<or>
          fst (netsys_pipe_write os' (pc_ph s) bs (pc_k s)) = Inl (Unix_error W_EPIPE ''netsys_pipe_write'') \<or>
          (\<exists>e. e \<noteq> 0 \<and> fst (netsys_pipe_write os' (pc_ph s) bs (pc_k s)) = Inl (uerror_win e ''netsys_pipe_write'')))))"
proof -
  have "conc_inv s \<and> client_ok (pc_ph s) (pc_k s)"
    using client.steps_inv [OF steps] client_start_inv [OF assms(1,5,4)] client_start_ok [OF assms(1,2,3,5)] by simp
  then have inv: "pipe_inv (pc_ph s) (pc_k s)" and cl: "client_ok (pc_ph s) (pc_k s)" by (simp_all add: conc_inv_def)
  obtain ph1 k1 where ck: "check_open os' (pc_ph s) (pc_k s) = (ph1, k1)" by fastforce
  note c = check_client [OF inv cl ck] check_open_pending [OF inv op ck]
  have wk: "rd_wakes (pc_ph s) (pc_k s)" "wr_wakes (pc_ph s) (pc_k s)" using cl op by (simp_all add: client_ok_def)
  have st: "pipe_rd_ovrlp_started ph1 = (k_rd (pc_k s) = Ov_pending)" "pipe_wr_ovrlp_started ph1 = (k_wr (pc_k s) = Ov_pending)"
    using check_open_started [OF inv cl op ck] c by blast+
  have ok: "pipe_is_open ph1" "pipe_conn_state ph1 = PIPE_CONNECTED" "pipe_mode_rd ph1 = pipe_mode_rd (pc_ph s)"
    "pipe_mode_wr ph1 = pipe_mode_wr (pc_ph s)"
    using check_open_started [OF inv cl op ck] by blast+
  let ?rd = "fst (netsys_pipe_read os' (pc_ph s) len (pc_k s))" and ?wr = "fst (netsys_pipe_write os' (pc_ph s) bs (pc_k s))"
  have rd: "if k_rd (pc_k s) = Ov_pending then \<exists>e. ?rd = Inl e
      else (\<exists>r. ?rd = Inr r) \<or> (\<exists>e. e \<noteq> 0 \<and> ?rd = Inl (uerror_win e ''netsys_pipe_read''))" if "pipe_mode_rd (pc_ph s)"
    using st(1) ok len that c(1) by (auto simp: netsys_pipe_read_def ck Let_def split: prod.split)
  have silent: "pipe_rd_buf_size (pc_ph s) = 0 \<and>
      (if pipe_error_rd (pc_ph s) \<noteq> 0 then ?rd = Inl (uerror_win (pipe_error_rd (pc_ph s)) ''netsys_pipe_read'')
       else pipe_rd_eof (pc_ph s) \<and> ?rd = Inr [])"
    if m: "pipe_mode_rd (pc_ph s)" and "k_rd (pc_k s) \<noteq> Ov_pending" "\<not> signaled (pipe_rd_ev (pc_ph s)) (pc_k s)"
  proof -
    have q: "\<not> pipe_rd_ovrlp_started (pc_ph s)" "pipe_rd_buf_size (pc_ph s) = 0" "pipe_error_rd (pc_ph s) \<noteq> 0 \<or> pipe_rd_eof (pc_ph s)"
      using wk(1) that by (auto simp: rd_wakes_def)
    have "pipe_rd_buf_size ph1 = 0" "pipe_error_rd ph1 = pipe_error_rd (pc_ph s)" "pipe_rd_eof ph1 = pipe_rd_eof (pc_ph s)"
      using check_open_quiet [OF inv cl op q(1) ck] q(2) by simp_all
    then show ?thesis using q st(1) ok len m that(2) by (auto simp: netsys_pipe_read_def ck Let_def)
  qed
  have wr: "if k_wr (pc_k s) = Ov_pending then \<exists>e. ?wr = Inl e
      else ?wr = Inr (min (length bs) 1024) \<or> ?wr = Inl (Unix_error W_EPIPE ''netsys_pipe_write'') \<or>
        (\<exists>e. e \<noteq> 0 \<and> ?wr = Inl (uerror_win e ''netsys_pipe_write''))" if "pipe_mode_wr (pc_ph s)"
    using st(2) ok len that c(1) by (auto simp: netsys_pipe_write_def ck Let_def PIPE_HELPER_BUF_SIZE_def split: prod.split)
  have ev: "k_rd (pc_k s) = Ov_pending \<longrightarrow> \<not> signaled (pipe_rd_ev (pc_ph s)) (pc_k s)"
    "k_wr (pc_k s) = Ov_pending \<longrightarrow> \<not> signaled (pipe_wr_ev (pc_ph s)) (pc_k s)"
    "pipe_mode_wr (pc_ph s) \<longrightarrow> k_wr (pc_k s) \<noteq> Ov_pending \<longrightarrow> signaled (pipe_wr_ev (pc_ph s)) (pc_k s) \<or> pipe_error_wr (pc_ph s) \<noteq> 0"
    using wk by (auto simp: rd_wakes_def wr_wakes_def)
  show ?thesis
  proof (intro conjI impI)
    assume m: "pipe_mode_rd (pc_ph s)"
    show "if k_rd (pc_k s) = Ov_pending then \<not> signaled (pipe_rd_ev (pc_ph s)) (pc_k s) \<and> (\<exists>e. ?rd = Inl e)
       else if signaled (pipe_rd_ev (pc_ph s)) (pc_k s)
       then (\<exists>r. ?rd = Inr r) \<or> (\<exists>e. e \<noteq> 0 \<and> ?rd = Inl (uerror_win e ''netsys_pipe_read''))
       else pipe_rd_buf_size (pc_ph s) = 0 \<and>
         (if pipe_error_rd (pc_ph s) \<noteq> 0 then ?rd = Inl (uerror_win (pipe_error_rd (pc_ph s)) ''netsys_pipe_read'')
          else pipe_rd_eof (pc_ph s) \<and> ?rd = Inr [])"
      using rd [OF m] silent [OF m] ev(1) by presburger
  next
    assume m: "pipe_mode_wr (pc_ph s)"
    show "if k_wr (pc_k s) = Ov_pending then \<not> signaled (pipe_wr_ev (pc_ph s)) (pc_k s) \<and> (\<exists>e. ?wr = Inl e)
       else (signaled (pipe_wr_ev (pc_ph s)) (pc_k s) \<or> pipe_error_wr (pc_ph s) \<noteq> 0) \<and>
         (?wr = Inr (min (length bs) 1024) \<or> ?wr = Inl (Unix_error W_EPIPE ''netsys_pipe_write'') \<or>
          (\<exists>e. e \<noteq> 0 \<and> ?wr = Inl (uerror_win e ''netsys_pipe_write'')))"
      using wr [OF m] ev(2,3) m by presburger
  qed
qed

lemma sample_pos_ok: "pipe_os_ok sample_pos" "fresh_handles sample_pos" "objs_ok sample_pk" "k_out sample_pk = []"
proof -
  show "pipe_os_ok sample_pos" by (simp add: pipe_os_ok_def answer_ok_def sample_pos_def)
  show "objs_ok sample_pk" by (auto simp: objs_ok_def sample_pk_def dom_def)
  have "t (free_handle t) = None \<and> free_handle t \<notin> {0, - 1}" if "finite (dom t)" for t
    using free_handle_free [OF that] by auto
  then show "fresh_handles sample_pos" by (simp add: fresh_handles_def sample_pos_def)
qed (simp add: sample_pk_def)

lemma sample_connect:
  "\<exists>ph k'. netsys_pipe_connect sample_pos Pipe_duplex sample_pk = (Inr ph, k') \<and> k_rd k' = Ov_pending \<and>
     pipe_is_open ph \<and> \<not> pipe_is_server ph \<and> pipe_mode_rd ph \<and> pipe_mode_wr ph \<and> k_wr k' = Ov_idle"
  by (simp add: netsys_pipe_connect_def sample_pos_def alloc_pipe_helper_def CreateEvent_def new_object_def Let_def
      mode_rd_def mode_wr_def start_reading_def ReadFile_def)

theorem pipe_client_wakes_witness:
  "\<exists>ph k'. netsys_pipe_connect sample_pos Pipe_duplex sample_pk = (Inr ph, k') \<and> \<not> signaled (pipe_rd_ev ph) k' \<and>
     (\<exists>e. fst (netsys_pipe_read sample_pos ph 10 k') = Inl e) \<and> (signaled (pipe_wr_ev ph) k' \<or> pipe_error_wr ph \<noteq> 0)"
proof -
  obtain ph k' where c: "netsys_pipe_connect sample_pos Pipe_duplex sample_pk = (Inr ph, k')" "k_rd k' = Ov_pending" "pipe_is_open ph"
    "pipe_mode_rd ph" "pipe_mode_wr ph" "k_wr k' = Ov_idle"
    using sample_connect by blast
  show ?thesis
    using pipe_client_wakes [OF sample_pos_ok c(1) rtranclp.rtrancl_refl, of 10 "[0]" sample_pos] c
    by (intro exI [of _ ph] exI [of _ k']) simp
qed

text \<open>The exception occurs: the system answers the first read of a client at once with a broken pipe.\<close>

definition broken_pos :: pipe_os where
  "broken_pos = sample_pos\<lparr>po_read := (\<lambda>k. Io_error ERROR_BROKEN_PIPE)\<rparr>"

lemma connect_silent_error:
  "\<exists>ph k'. netsys_pipe_connect broken_pos Pipe_in sample_pk = (Inr ph, k') \<and> pipe_is_open ph \<and> \<not> signaled (pipe_rd_ev ph) k' \<and>
     fst (netsys_pipe_read broken_pos ph 10 k') = Inl (uerror_win ERROR_BROKEN_PIPE ''netsys_pipe_read'')"
  by (simp add: netsys_pipe_connect_def broken_pos_def sample_pos_def sample_pk_def alloc_pipe_helper_def CreateEvent_def new_object_def Let_def
      mode_rd_def mode_wr_def start_reading_def ReadFile_def netsys_pipe_read_def check_open_def check_for_pending_operations_def check_rd_def
      check_wr_def check_cn_def signaled_def set_signal_def)

text \<open>
  Claim C34: a client that connects before the server listens. The server calls \<^verbatim>\<open>netsys_pipe_listen\<close> on a fresh pipe, and the system answers
  that a client is already connected. Then the server is connected, but no read has been started and the write event is as it was before:
  the first read returns no byte, the sign of the end of the stream, whatever the client has sent; only this read starts the reading.
\<close>

theorem listen_immediate_false_eof:
  assumes "pipe_is_open ph" "pipe_is_server ph" "pipe_conn_state ph = PIPE_DEAF" "pipe_mode_rd ph" "pipe_inv ph k"
    and "po_connect os (if pipe_cn_ev ph = INVALID_HANDLE_VALUE then k else set_signal (pipe_cn_ev ph) False k) = Io_error ERROR_PIPE_CONNECTED"
    and ev: "pipe_cn_ev ph \<noteq> INVALID_HANDLE_VALUE \<longrightarrow> w_obj k (pipe_cn_ev ph) \<noteq> None \<and> w_obj k (pipe_cn_ev ph) \<noteq> w_obj k (pipe_wr_ev ph)"
    and "os_err os 1050 = None" and len: "0 < len"
  shows "\<exists>ph1 k1. netsys_pipe_listen os ph k = (Inr (), ph1, k1) \<and> pipe_conn_state ph1 = PIPE_CONNECTED \<and>
    signaled (pipe_wr_ev ph1) k1 = signaled (pipe_wr_ev ph) k \<and>
    (\<forall>bs. fst (netsys_pipe_read os ph1 len (k1\<lparr>k_in := k_in k1 @ bs\<rparr>)) = Inr [])"
proof -
  have st: "\<not> pipe_rd_ovrlp_started ph" "\<not> pipe_wr_ovrlp_started ph" "\<not> pipe_cn_ovrlp_started ph" "pipe_rd_buf_size ph = 0" "pipe_error_rd ph = 0"
    using assms(1,3,5) by (simp_all add: pipe_inv_def state_inv_def)
  then have ck: "check_open os ph k = (ph, k)" for k
    by (simp add: check_open_def check_for_pending_operations_def check_rd_def check_wr_def check_cn_def)
  let ?ph1 = "ph\<lparr>pipe_conn_state := PIPE_CONNECTED\<rparr>"
  let ?k1 = "if pipe_cn_ev ph = INVALID_HANDLE_VALUE then k
    else set_signal (pipe_cn_ev ph) True (set_signal (pipe_cn_ev ph) False k)"
  have listen: "netsys_pipe_listen os ph k = (Inr (), ?ph1, ?k1)"
    using assms st ck by (auto simp: netsys_pipe_listen_def listen_connect_def Let_def WaitForSingleObject_def)
  have sig: "signaled (pipe_wr_ev ph) ?k1 = signaled (pipe_wr_ev ph) k" using ev by auto
  have ck1: "check_open os ?ph1 k = (?ph1, k)" for k
    using st by (simp add: check_open_def check_for_pending_operations_def check_rd_def check_wr_def check_cn_def)
  have "fst (netsys_pipe_read os ?ph1 len k2) = Inr []" for k2
    using st assms(1,4) len by (simp add: netsys_pipe_read_def ck1 Let_def split: prod.split)
  with listen sig show ?thesis by (intro exI [of _ ?ph1] exI [of _ ?k1]) simp
qed

definition sample_connected_pos :: pipe_os where
  "sample_connected_pos = sample_pos\<lparr>po_connect := (\<lambda>k. Io_error ERROR_PIPE_CONNECTED)\<rparr>"

definition sample_server :: pipe_helper where
  "sample_server =
     \<lparr>pipe_handle = 2, pipe_is_open = True, pipe_is_server = True, pipe_conn_state = PIPE_DEAF,
      pipe_error_rd = 0, pipe_error_wr = 0, pipe_mode_rd = True, pipe_mode_wr = True,
      pipe_rd_ev = 3, pipe_wr_ev = 4, pipe_cn_ev = 1,
      pipe_rd_ovrlp_started = False, pipe_wr_ovrlp_started = False, pipe_cn_ovrlp_started = False,
      pipe_rd_buf = replicate 1024 0, pipe_rd_buf_size = 0, pipe_rd_eof = False,
      pipe_wr_buf = replicate 1024 0, pipe_wr_buf_size = 0,
      pipe_descr = 5, pipe_descr_auto_close = True, pipe_signal = NULL_HANDLE\<rparr>"

theorem listen_immediate_false_eof_witness:
  "\<exists>ph1 k1. netsys_pipe_listen sample_connected_pos sample_server sample_pk = (Inr (), ph1, k1) \<and>
     fst (netsys_pipe_read sample_connected_pos ph1 10 (k1\<lparr>k_in := k_in k1 @ [7, 8]\<rparr>)) = Inr []"
proof -
  have s: "pipe_is_open sample_server" "pipe_is_server sample_server" "pipe_conn_state sample_server = PIPE_DEAF" "pipe_mode_rd sample_server"
    "pipe_cn_ev sample_server = 1" "pipe_wr_ev sample_server = 4"
    by (simp_all add: sample_server_def)
  have inv: "pipe_inv sample_server sample_pk"
    by (simp add: pipe_inv_defs ov_ok_def sample_server_def sample_pk_def PIPE_HELPER_BUF_SIZE_def)
  have os: "po_connect sample_connected_pos k = Io_error ERROR_PIPE_CONNECTED" "os_err sample_connected_pos 1050 = None" for k
    by (simp_all add: sample_connected_pos_def sample_pos_def)
  have ev: "w_obj sample_pk 1 \<noteq> None \<and> w_obj sample_pk 1 \<noteq> w_obj sample_pk 4" by (simp add: sample_pk_def)
  show ?thesis
    using listen_immediate_false_eof [OF s(1-4) inv, of sample_connected_pos 10] os ev s(5,6) by auto
qed

end
