(* ===== verification/Win32_proc.thy ===== *)
theory Win32_proc
  imports Win32 "HOL-Library.Sublist"
begin

text \<open>
  Processes and the search path on Win32, \<^verbatim>\<open>src/src/netsys/netsys_c_win32.c\<close> lines 1519 to 1888: creating a process from a list of
  options, its handle and its proxy, termination and exit status, and the loop of \<^verbatim>\<open>netsys_search_path\<close>.

  The kernel state is extended by the exit codes of process objects and by the calls of \<^verbatim>\<open>CreateProcess\<close> with their arguments.
  A process object is signalled when the process has ended. \<open>w_bad_free\<close> counts the calls of \<^verbatim>\<open>stat_free\<close> with a pointer that \<^verbatim>\<open>stat_alloc\<close> has
  not returned, after which the behaviour of the program is undefined.
\<close>

section \<open>Creating processes\<close>

datatype create_process_option =
    CP_change_directory string
  | CP_set_env string
  | CP_std_handles handle handle handle
  | CP_create_console
  | CP_detach_from_console
  | CP_inherit_console
  | CP_inherit_or_create_console
  | CP_unicode_environment
  | CP_ansi_environment
  | CP_new_process_group
  | CP_inherit_process_group

abbreviation (input) DETACHED_PROCESS :: u32 where "DETACHED_PROCESS \<equiv> 0x8"
abbreviation (input) CREATE_NEW_CONSOLE :: u32 where "CREATE_NEW_CONSOLE \<equiv> 0x10"
abbreviation (input) CREATE_NEW_PROCESS_GROUP :: u32 where "CREATE_NEW_PROCESS_GROUP \<equiv> 0x200"
abbreviation (input) CREATE_UNICODE_ENVIRONMENT :: u32 where "CREATE_UNICODE_ENVIRONMENT \<equiv> 0x400"

text \<open>What \<^verbatim>\<open>CreateProcess\<close> gets. \<open>l_std\<close> are the standard handles when \<^verbatim>\<open>STARTF_USESTDHANDLES\<close> is set.\<close>

record launch =
  l_cmd :: string
  l_cmdline :: string
  l_flags :: u32
  l_env :: "string option"
  l_dir :: "string option"
  l_std :: "(handle \<times> handle \<times> handle) option"

record wproc = w32 +
  w_exit :: "nat \<Rightarrow> u32"
  w_launched :: "launch list"
  w_bad_free :: nat

record process =
  proc :: handle
  proc_proxy :: handle
  p_auto_close :: bool
  win_pid :: u32

definition alloc_process :: "('o :: type) w32_os_scheme \<Rightarrow> handle \<Rightarrow> u32 \<Rightarrow> wproc \<Rightarrow> (exn + process) \<times> wproc" where
  "alloc_process os h pid w =
     (case CreateEvent os 1546 w of
        (Inl e, w1) \<Rightarrow> (Inl (uerror_win e ''alloc_process/CreateEvent''), w1)
      | (Inr p, w1) \<Rightarrow> (Inr \<lparr>proc = h, proc_proxy = p, p_auto_close = True, win_pid = pid\<rparr>, w1))"

definition has_console :: "('o :: type) w32_os_scheme \<Rightarrow> wproc \<Rightarrow> bool \<times> wproc" where
  "has_console os w =
     (case os_err os 1565 of
        Some e \<Rightarrow> (False, w)
      | None \<Rightarrow> (case new_object os 1565 w of (h, w1) \<Rightarrow> (True, CloseHandle h w1)))"

text \<open>The local variables of the loop over the options.\<close>

record cp_vars =
  cp_chdir :: "string option"
  cp_envp :: "string option"
  cp_std :: "(handle \<times> handle \<times> handle) option"
  cp_console :: u32
  cp_env :: u32
  cp_pg :: u32

definition cp_option :: "('o :: type) w32_os_scheme \<Rightarrow> create_process_option \<Rightarrow> cp_vars \<times> wproc \<Rightarrow> cp_vars \<times> wproc" where
  "cp_option os opt = (\<lambda>(v, w).
     (case opt of
        CP_change_directory d \<Rightarrow> (v\<lparr>cp_chdir := Some d\<rparr>, w)
      | CP_set_env e \<Rightarrow> (v\<lparr>cp_envp := Some e\<rparr>, w)
      | CP_std_handles h0 h1 h2 \<Rightarrow> (v\<lparr>cp_std := Some (h0, h1, h2)\<rparr>, w)
      | CP_create_console \<Rightarrow> (v\<lparr>cp_console := CREATE_NEW_CONSOLE\<rparr>, w)
      | CP_detach_from_console \<Rightarrow> (v\<lparr>cp_console := DETACHED_PROCESS\<rparr>, w)
      | CP_inherit_console \<Rightarrow> (v\<lparr>cp_console := 0\<rparr>, w)
      | CP_inherit_or_create_console \<Rightarrow>
          (case has_console os w of
             (b, w1) \<Rightarrow> (v\<lparr>cp_console := (if b then 0 else CREATE_NEW_CONSOLE), cp_env := CREATE_UNICODE_ENVIRONMENT\<rparr>, w1))
      | CP_unicode_environment \<Rightarrow> (v\<lparr>cp_env := CREATE_UNICODE_ENVIRONMENT\<rparr>, w)
      | CP_ansi_environment \<Rightarrow> (v\<lparr>cp_env := 0\<rparr>, w)
      | CP_new_process_group \<Rightarrow> (v\<lparr>cp_pg := CREATE_NEW_PROCESS_GROUP\<rparr>, w)
      | CP_inherit_process_group \<Rightarrow> (v\<lparr>cp_pg := 0\<rparr>, w)))"

definition cp_options :: "('o :: type) w32_os_scheme \<Rightarrow> create_process_option list \<Rightarrow> wproc \<Rightarrow> cp_vars \<times> wproc" where
  "cp_options os opts w =
     fold (cp_option os) opts
       (\<lparr>cp_chdir = None, cp_envp = None, cp_std = None, cp_console = 0, cp_env = 0, cp_pg = 0\<rparr>, w)"

text \<open>\<^verbatim>\<open>CreateProcess\<close> makes a process object and a thread object; the system chooses the process identifier.\<close>

definition CreateProcess :: "('o :: type) w32_os_scheme \<Rightarrow> launch \<Rightarrow> wproc \<Rightarrow> (u32 + handle \<times> handle) \<times> wproc" where
  "CreateProcess os l w =
     (case os_err os 1665 of
        Some e \<Rightarrow> (Inl e, w)
      | None \<Rightarrow>
          (case new_object os 1665 w of
             (hp, w1) \<Rightarrow> (case new_object os 1666 w1 of
                (ht, w2) \<Rightarrow> (Inr (hp, ht), w2\<lparr>w_launched := w_launched w2 @ [l]\<rparr>))))"

definition netsys_create_process ::
    "('o :: type) w32_os_scheme \<Rightarrow> u32 \<Rightarrow> string \<Rightarrow> string \<Rightarrow> create_process_option list \<Rightarrow> wproc \<Rightarrow> (exn + process) \<times> wproc" where
  "netsys_create_process os pid cmd cmdline opts w =
     (case cp_options os opts w of
        (v, w1) \<Rightarrow>
          (case CreateProcess os \<lparr>l_cmd = cmd, l_cmdline = cmdline, l_flags = cp_console v OR cp_env v OR cp_pg v,
                                  l_env = cp_envp v, l_dir = cp_chdir v, l_std = cp_std v\<rparr> w1 of
             (Inl e, w2) \<Rightarrow> (Inl (uerror_win e ''create_process/CreateProcess''), w2)
           | (Inr (hp, ht), w2) \<Rightarrow> alloc_process os hp pid (CloseHandle ht w2)))"

section \<open>Operations on processes\<close>



definition netsys_process_descr :: "process \<Rightarrow> handle" where
  "netsys_process_descr p = proc_proxy p"

definition netsys_set_auto_close_process_proxy :: "process \<Rightarrow> bool \<Rightarrow> process" where
  "netsys_set_auto_close_process_proxy p flag = p\<lparr>p_auto_close := flag\<rparr>"





definition netsys_as_process_event :: "('o :: type) w32_os_scheme \<Rightarrow> process \<Rightarrow> wproc \<Rightarrow> (exn + event) \<times> wproc" where
  "netsys_as_process_event os p w = alloc_event os (proc p) w"

definition netsys_emulated_pid :: "('o :: type) w32_os_scheme \<Rightarrow> process \<Rightarrow> wproc \<Rightarrow> (exn + handle) \<times> wproc" where
  "netsys_emulated_pid os p w =
     (case DuplicateHandle os 1871 (proc p) w of
        (Inl e, w1) \<Rightarrow> (Inl (uerror_win e ''netsys_emulated_pid/DuplicateHandle''), w1)
      | (Inr d, w1) \<Rightarrow> (Inr d, w1))"

definition netsys_win_pid :: "process \<Rightarrow> int" where
  "netsys_win_pid p = uint (win_pid p)"

definition netsys_has_console :: "('o :: type) w32_os_scheme \<Rightarrow> wproc \<Rightarrow> bool \<times> wproc" where
  "netsys_has_console os w = has_console os w"

section \<open>The search path\<close>

text \<open>
  \<open>sp\<close> is \<^verbatim>\<open>SearchPath\<close>: the answer to the \<open>r\<close>-th call with a buffer of \<open>pathlen\<close> bytes, the returned number and the contents of the
  buffer. \<open>alloc\<close> tells whether \<^verbatim>\<open>stat_alloc\<close> gets the memory. The loop asks again with a larger buffer as long as the answer
  does not fit; \<open>None\<close> is a loop that never ends.
\<close>

type_synonym search_sys = "string option \<Rightarrow> string \<Rightarrow> string option \<Rightarrow> nat \<Rightarrow> u32 \<Rightarrow> u32 \<times> string"

partial_function (option) search_loop :: "(nat \<Rightarrow> u32 \<Rightarrow> u32 \<times> string) \<Rightarrow> (u32 \<Rightarrow> bool) \<Rightarrow> nat \<Rightarrow> u32 \<Rightarrow> (exn + u32 \<times> string) option" where
  "search_loop sp alloc r pathlen =
     (if \<not> alloc pathlen then Some (Inl Out_of_memory)
      else if fst (sp r pathlen) \<ge> pathlen then search_loop sp alloc (r + 1) (fst (sp r pathlen) + 1)
      else Some (Inr (sp r pathlen)))"

definition netsys_search_path ::
    "search_sys \<Rightarrow> (u32 \<Rightarrow> bool) \<Rightarrow> string option \<Rightarrow> string \<Rightarrow> string option \<Rightarrow> (exn + string) option" where
  "netsys_search_path sp alloc path file ext =
     (let n = of_nat (length file + 1) :: u32;
          pathlen = (if n < 256 then 256 else n)
      in map_option (\<lambda>res. case res of
             Inl e \<Rightarrow> Inl e
           | Inr (code, fullname) \<Rightarrow> if code = 0 then Inl (Unix_error W_ENOENT ''netsys_search_path'') else Inr fullname)
           (search_loop (sp path file ext) alloc 0 pathlen))"

section \<open>The options of a new process\<close>

text \<open>What the options mean by \<^verbatim>\<open>netsys_win32.mli\<close>: of the options of each kind the last one counts, and the environment is ANSI by default.\<close>

definition last_of :: "('a \<Rightarrow> 'b option) \<Rightarrow> 'a list \<Rightarrow> 'b option" where
  "last_of f xs = (let ys = List.map_filter f xs in if ys = [] then None else Some (last ys))"

lemma last_of_Nil [simp]: "last_of f [] = None"
  by (simp add: last_of_def map_filter_simps)

lemma last_of_snoc [simp]: "last_of f (xs @ [x]) = (case f x of Some y \<Rightarrow> Some y | None \<Rightarrow> last_of f xs)"
  by (simp add: last_of_def map_filter_def Let_def split: option.split)

fun dir_of :: "create_process_option \<Rightarrow> string option" where
  "dir_of (CP_change_directory d) = Some d" | "dir_of _ = None"

fun env_of :: "create_process_option \<Rightarrow> string option" where
  "env_of (CP_set_env e) = Some e" | "env_of _ = None"

fun std_of :: "create_process_option \<Rightarrow> (handle \<times> handle \<times> handle) option" where
  "std_of (CP_std_handles a b c) = Some (a, b, c)" | "std_of _ = None"

fun console_of :: "bool \<Rightarrow> create_process_option \<Rightarrow> u32 option" where
  "console_of con CP_create_console = Some CREATE_NEW_CONSOLE"
| "console_of con CP_detach_from_console = Some DETACHED_PROCESS"
| "console_of con CP_inherit_console = Some 0"
| "console_of con CP_inherit_or_create_console = Some (if con then 0 else CREATE_NEW_CONSOLE)"
| "console_of con _ = None"

fun envflag_of :: "create_process_option \<Rightarrow> u32 option" where
  "envflag_of CP_unicode_environment = Some CREATE_UNICODE_ENVIRONMENT"
| "envflag_of CP_ansi_environment = Some 0"
| "envflag_of _ = None"

fun pg_of :: "create_process_option \<Rightarrow> u32 option" where
  "pg_of CP_new_process_group = Some CREATE_NEW_PROCESS_GROUP"
| "pg_of CP_inherit_process_group = Some 0"
| "pg_of _ = None"

definition flag :: "u32 option \<Rightarrow> u32" where
  "flag x = (case x of Some f \<Rightarrow> f | None \<Rightarrow> 0)"


text \<open>
  The deviation: the case of \<^verbatim>\<open>CP_inherit_or_create_console\<close> falls through, so that this option selects a Unicode environment unless another
  option for the environment follows it.
\<close>

fun env_choice :: "create_process_option \<Rightarrow> create_process_option option" where
  "env_choice CP_unicode_environment = Some CP_unicode_environment"
| "env_choice CP_ansi_environment = Some CP_ansi_environment"
| "env_choice CP_inherit_or_create_console = Some CP_inherit_or_create_console"
| "env_choice _ = None"

definition falls_through :: "create_process_option list \<Rightarrow> bool" where
  "falls_through opts \<longleftrightarrow> last_of env_choice opts = Some CP_inherit_or_create_console"

definition code_env :: "create_process_option list \<Rightarrow> u32" where
  "code_env opts = (if falls_through opts then CREATE_UNICODE_ENVIRONMENT else flag (last_of envflag_of opts))"

lemma code_env_snoc:
  "code_env (opts @ [opt]) =
     (case opt of CP_unicode_environment \<Rightarrow> CREATE_UNICODE_ENVIRONMENT | CP_inherit_or_create_console \<Rightarrow> CREATE_UNICODE_ENVIRONMENT
      | CP_ansi_environment \<Rightarrow> 0 | _ \<Rightarrow> code_env opts)"
  by (cases opt) (simp_all add: code_env_def falls_through_def flag_def)

text \<open>A system call that opens and closes a handle leaves everything as it was but the counter for objects.\<close>

definition same_handles :: "wproc \<Rightarrow> wproc \<Rightarrow> bool" where
  "same_handles w w' \<longleftrightarrow> w_obj w' = w_obj w \<and> w_bad w' = w_bad w \<and> w_exit w' = w_exit w \<and> w_launched w' = w_launched w \<and>
     (\<forall>ob < w_next w. w_sig w' ob = w_sig w ob) \<and> w_next w \<le> w_next w' \<and> objs_ok w'"

lemma has_console_same:
  assumes "fresh_handles os" "objs_ok w" "has_console os w = (b, w')"
  shows "same_handles w w'" "b = (os_err os 1565 = None)"
proof -
  note fr = fresh_handle [OF assms(1,2), of 1565] and ok = objs_ok_new [OF assms(2), of os 1565]
  have "objs_ok (CloseHandle (fst (new_object os 1565 w)) (snd (new_object os 1565 w)))" by (rule objs_ok_close [OF ok])
  then show "same_handles w w'"
    using assms(2,3) fr
    by (auto simp: has_console_def same_handles_def new_object_def Let_def CloseHandle_def fun_upd_idem_iff split: option.splits)
  show "b = (os_err os 1565 = None)" using assms(3) by (auto simp: has_console_def split: option.splits prod.splits)
qed

lemma cp_options_correct:
  assumes "fresh_handles os" "objs_ok w"
  shows "\<exists>v w'. cp_options os opts w = (v, w') \<and> same_handles w w' \<and>
    cp_chdir v = last_of dir_of opts \<and> cp_envp v = last_of env_of opts \<and> cp_std v = last_of std_of opts \<and>
    cp_console v = flag (last_of (console_of (os_err os 1565 = None)) opts) \<and> cp_env v = code_env opts \<and>
    cp_pg v = flag (last_of pg_of opts)"
proof (induction opts rule: rev_induct)
  case Nil
  show ?case using assms(2) by (simp add: cp_options_def same_handles_def flag_def code_env_def falls_through_def)
next
  case (snoc opt opts)
  then obtain v w' where v: "cp_options os opts w = (v, w')" "same_handles w w'"
    "cp_chdir v = last_of dir_of opts \<and> cp_envp v = last_of env_of opts \<and> cp_std v = last_of std_of opts \<and>
    cp_console v = flag (last_of (console_of (os_err os 1565 = None)) opts) \<and> cp_env v = code_env opts \<and>
    cp_pg v = flag (last_of pg_of opts)"
    by blast
  have step: "cp_options os (opts @ [opt]) w = cp_option os opt (v, w')" using v(1) by (simp add: cp_options_def)
  obtain b w2 where hc: "has_console os w' = (b, w2)" by fastforce
  have "objs_ok w'" using v(2) by (simp add: same_handles_def)
  note hc' = has_console_same [OF assms(1) this hc]
  have tr: "same_handles w w2" using v(2) hc'(1) by (auto simp: same_handles_def)
  show ?case
    unfolding step using v(2,3) tr hc'(2) by (cases opt) (simp_all add: cp_option_def hc flag_def code_env_snoc)
qed

section \<open>Life of a process\<close>



text \<open>When \<^verbatim>\<open>CreateProcess\<close> fails, its error is raised, and nothing is started or left open.\<close>

lemma netsys_create_process_refused:
  assumes "fresh_handles os" "objs_ok w" "os_err os 1665 = Some e"
  shows "\<exists>w'. netsys_create_process os pid cmd cmdline opts w = (Inl (uerror_win e ''create_process/CreateProcess''), w') \<and> same_handles w w'"
proof -
  obtain v w1 where "cp_options os opts w = (v, w1)" "same_handles w w1" using cp_options_correct [OF assms(1,2), of opts] by blast
  then show ?thesis using assms(3) by (simp add: netsys_create_process_def CreateProcess_def)
qed




section \<open>The search ends\<close>

text \<open>
  What \<^verbatim>\<open>SearchPath\<close> answers when it finds \<open>found\<close>: the length when the name and the final zero fit into the buffer, otherwise the
  size that is needed, with the zero.
\<close>

definition search_answer :: "string option \<Rightarrow> u32 \<Rightarrow> u32 \<times> string" where
  "search_answer found pathlen =
     (case found of
        None \<Rightarrow> (0, [])
      | Some name \<Rightarrow>
          if length name < unat pathlen then (of_nat (length name), name) else (of_nat (length name + 1), []))"

lemma unat_of_nat_u32: "n < 2 ^ 32 \<Longrightarrow> unat (of_nat n :: u32) = n"
  by (simp add: unat_of_nat take_bit_eq_mod)

lemma search_loop_ends:
  assumes sp: "\<forall>r n. sp r n = search_answer (found r) n" and len: "\<forall>r name. found r = Some name \<longrightarrow> length name + 2 < 2 ^ 32"
    and mem: "\<forall>n. alloc n" and pos: "0 < pathlen"
  shows "\<exists>r'. search_loop sp alloc r pathlen =
    Some (Inr (case found r' of None \<Rightarrow> (0, []) | Some name \<Rightarrow> (of_nat (length name), name)))"
  using pos
proof (induction "2 ^ 32 - unat pathlen" arbitrary: r pathlen rule: less_induct)
  case less
  have unat_lt: "unat (of_nat (length name) :: u32) = length name" if "found r = Some name" for name
  proof (rule unat_of_nat_u32)
    show "length name < 2 ^ 32" using len that by (meson add_lessD1)
  qed
  have unat_Suc: "unat (1 + of_nat (length name) :: u32) = length name + 1" if "found r = Some name" for name
  proof -
    have "length name + 1 < 2 ^ 32" using len that by fastforce
    from unat_of_nat_u32 [OF this] show ?thesis by simp
  qed
  show ?case
  proof (cases "fst (sp r pathlen) \<ge> pathlen")
    case True
    then obtain name where f: "found r = Some name" "\<not> length name < unat pathlen"
      using sp [THEN spec, THEN spec, of r pathlen] less.prems unat_lt
      by (cases "found r") (auto simp: search_answer_def word_le_nat_alt word_less_nat_alt split: if_splits)
    have l: "length name + 2 < 2 ^ 32" using len f(1) by blast
    let ?n = "fst (sp r pathlen) + 1"
    have n: "?n = of_nat (length name + 2)" using f sp by (simp add: search_answer_def)
    have "unat ?n = length name + 2" unfolding n using l by (rule unat_of_nat_u32)
    then have "2 ^ 32 - unat ?n < 2 ^ 32 - unat pathlen" "0 < ?n" using f(2) l by (simp_all add: word_less_nat_alt)
    from less.hyps [OF this, of "r + 1"] show ?thesis using True mem by (simp add: search_loop.simps [of sp alloc r])
  next
    case False
    then have "sp r pathlen = (case found r of None \<Rightarrow> (0, []) | Some name \<Rightarrow> (of_nat (length name), name))"
      using sp [THEN spec, THEN spec, of r pathlen] unat_Suc
      by (cases "found r") (auto simp: search_answer_def word_le_nat_alt split: if_splits)
    then show ?thesis using False mem by (intro exI [of _ r]) (simp add: search_loop.simps [of sp alloc r])
  qed
qed

text \<open>
  \<^verbatim>\<open>netsys_search_path\<close> ends, even when what \<^verbatim>\<open>SearchPath\<close> finds changes from call to call: the buffer grows with every round. The
  result is the complete name that one of the calls has found, never a truncated one, or \<^verbatim>\<open>ENOENT\<close> when a call has found nothing.
\<close>

theorem netsys_search_path_ends:
  assumes "\<forall>r n. sp path file ext r n = search_answer (found r) n"
    and len: "\<forall>r name. found r = Some name \<longrightarrow> name \<noteq> [] \<and> length name + 2 < 2 ^ 32" and "\<forall>n. alloc n"
  shows "\<exists>r. netsys_search_path sp alloc path file ext =
    Some (case found r of None \<Rightarrow> Inl (Unix_error W_ENOENT ''netsys_search_path'') | Some name \<Rightarrow> Inr name)"
proof -
  let ?n = "if of_nat (length file + 1) < (256 :: u32) then 256 else of_nat (length file + 1) :: u32"
  have "0 < (?n :: u32)" by (cases "of_nat (length file + 1) < (256 :: u32)") (simp_all add: word_less_nat_alt)
  then obtain r where r: "search_loop (sp path file ext) alloc 0 ?n =
      Some (Inr (case found r of None \<Rightarrow> (0, []) | Some name \<Rightarrow> (of_nat (length name), name)))"
    using search_loop_ends [of "sp path file ext" found alloc ?n 0] assms by blast
  have "of_nat (length name) \<noteq> (0 :: u32)" if "found r = Some name" for name
  proof -
    have "unat (of_nat (length name) :: u32) = length name" using len that by (force simp: unat_of_nat_u32)
    then show ?thesis using len that by (metis length_0_conv unat_0)
  qed
  then show ?thesis using r by (intro exI [of _ r]) (auto simp: netsys_search_path_def Let_def split: option.split)
qed

theorem netsys_search_path_ends_witness:
  "netsys_search_path (\<lambda>path file ext r n. search_answer (Some (replicate 300 (CHR ''a''))) n) (\<lambda>n. True) None ''a'' None =
     Some (Inr (replicate 300 (CHR ''a'')))"
  using netsys_search_path_ends [of "\<lambda>path file ext r n. search_answer (Some (replicate 300 (CHR ''a''))) n" None "''a''" None
      "\<lambda>r. Some (replicate 300 (CHR ''a''))" "\<lambda>n. True"]
  by simp

end
