(* ===== verification/Win32_console.thy ===== *)
theory Win32_console
  imports Win32 Complex_Main
begin

text \<open>
  The console and \<^verbatim>\<open>select\<close> on Win32, \<^verbatim>\<open>src/src/netsys/netsys_c_win32.c\<close> lines 1899 to 2477.

  The state of the console: the size of the screen buffer, the visible window, the cursor, the attribute for new text, the cells, the modes
  and the code pages. Coordinates are \<^verbatim>\<open>SHORT\<close>s. The documented rules of the system calls are part of the model: the cursor has to be inside
  the buffer and its size between 1 and 100, filling starts at a cell and continues on the next rows up to the end of the buffer, echo needs line
  input, and the insert and quick edit bits are only taken over with \<^verbatim>\<open>ENABLE_EXTENDED_FLAGS\<close>. Not documented, and a parameter, are the answer to
  filling from a cell outside of the buffer (\<open>oc_outside\<close>) and how the window moves when the cursor leaves it (\<open>oc_scroll\<close>).
\<close>

section \<open>State\<close>

type_synonym rect = "int \<times> int \<times> int \<times> int"

text \<open>A rectangle is (left, top, right, bottom), all inclusive.\<close>

record wcon = w32 +
  con_size :: "int \<times> int"
  con_win :: rect
  con_cursor :: "int \<times> int"
  con_cursor_size :: int
  con_visible :: bool
  con_attr :: "16 word"
  con_cells :: "int \<times> int \<Rightarrow> int \<times> 16 word"
  con_modein :: u32
  con_modeout :: u32
  con_cp :: "int \<times> int"

record con_os = w32_os +
  oc_outside :: "u32 option"
  oc_scroll :: "rect \<Rightarrow> int \<times> int \<Rightarrow> rect"
  oc_acp :: int

definition short :: "int \<Rightarrow> int" where
  "short x = sint (word_of_int x :: 16 word)"

definition in_buffer :: "wcon \<Rightarrow> int \<times> int \<Rightarrow> bool" where
  "in_buffer w p \<longleftrightarrow> 0 \<le> fst p \<and> fst p < fst (con_size w) \<and> 0 \<le> snd p \<and> snd p < snd (con_size w)"

fun in_rect :: "rect \<Rightarrow> int \<times> int \<Rightarrow> bool" where
  "in_rect (l, t, r, b) (x, y) \<longleftrightarrow> l \<le> x \<and> x \<le> r \<and> t \<le> y \<and> y \<le> b"

section \<open>System calls\<close>

definition open_console :: "con_os \<Rightarrow> nat \<Rightarrow> wcon \<Rightarrow> (u32 + handle) \<times> wcon" where
  "open_console os site w =
     (case os_err os site of Some e \<Rightarrow> (Inl e, w) | None \<Rightarrow> (case new_object os site w of (h, w1) \<Rightarrow> (Inr h, w1)))"

text \<open>The error handling that all calls share: map the error, close the handle, raise.\<close>

definition con_try :: "u32 option \<Rightarrow> string \<Rightarrow> handle \<Rightarrow> wcon \<Rightarrow> (exn + 'a) \<times> wcon \<Rightarrow> (exn + 'a) \<times> wcon" where
  "con_try err name h w cont = (case err of Some e \<Rightarrow> (Inl (uerror_win e name), CloseHandle h w) | None \<Rightarrow> cont)"

definition or_err :: "u32 option \<Rightarrow> bool \<Rightarrow> u32 option" where
  "or_err err bad = (case err of Some e \<Rightarrow> Some e | None \<Rightarrow> if bad then Some 87 else None)"

definition set_cursor :: "con_os \<Rightarrow> int \<times> int \<Rightarrow> wcon \<Rightarrow> wcon" where
  "set_cursor os p w =
     w\<lparr>con_cursor := p, con_win := (if in_rect (con_win w) p then con_win w else oc_scroll os (con_win w) p)\<rparr>"

definition set_mode_in :: "u32 \<Rightarrow> u32 \<Rightarrow> u32" where
  "set_mode_in old new = (if new AND 0x80 \<noteq> 0 then new else (new AND NOT 0x60) OR (old AND 0x60))"

section \<open>Console attributes and information\<close>

definition netsys_is_console :: "con_os \<Rightarrow> wcon \<Rightarrow> bool" where
  "netsys_is_console os w \<longleftrightarrow> os_err os 1912 = None"

definition netsys_alloc_console :: "con_os \<Rightarrow> wcon \<Rightarrow> exn + unit" where
  "netsys_alloc_console os w =
     (case os_err os 1924 of Some e \<Rightarrow> Inl (uerror_win e ''netsys_alloc_console/AllocConsole'') | None \<Rightarrow> Inr ())"

definition netsys_get_console_attr :: "con_os \<Rightarrow> wcon \<Rightarrow> (exn + (int \<times> int \<times> int \<times> bool \<times> int)) \<times> wcon" where
  "netsys_get_console_attr os w =
     (case open_console os 1941 w of
        (Inl e, w1) \<Rightarrow> (Inl (uerror_win e ''netsys_get_console_attr/CreateFile''), w1)
      | (Inr h, w1) \<Rightarrow>
          con_try (os_err os 1948) ''netsys_get_console_attr/GetConsoleCursorInfo'' h w1
          (con_try (os_err os 1953) ''netsys_get_console_attr/GetConsoleScreenBufferInfo'' h w1
            (Inr (fst (con_cursor w1) - fst (con_win w1), snd (con_cursor w1) - fst (snd (con_win w1)),
                  con_cursor_size w1, con_visible w1, uint (con_attr w1)),
             CloseHandle h w1)))"

definition netsys_set_console_attr :: "con_os \<Rightarrow> int \<times> int \<times> int \<times> bool \<times> int \<Rightarrow> wcon \<Rightarrow> (exn + unit) \<times> wcon" where
  "netsys_set_console_attr os av w =
     (case av of (cx, cy, csize, cvisible, tattr) \<Rightarrow>
     (case open_console os 1988 w of
        (Inl e, w1) \<Rightarrow> (Inl (uerror_win e ''netsys_set_console_attr/CreateFile''), w1)
      | (Inr h, w1) \<Rightarrow>
          con_try (or_err (os_err os 1998) (csize < 1 \<or> csize > 100)) ''netsys_set_console_attr/SetConsoleCursorInfo'' h w1
          (let w2 = w1\<lparr>con_cursor_size := csize, con_visible := cvisible\<rparr>
           in con_try (os_err os 2004) ''netsys_set_console_attr/GetConsoleScreenBufferInfo'' h w2
           (let pos = (short (cx + fst (con_win w2)), short (cy + fst (snd (con_win w2))))
            in con_try (or_err (os_err os 2012) (\<not> in_buffer w2 pos)) ''netsys_set_console_attr/SetConsoleCursorPosition'' h w2
            (let w3 = set_cursor os pos w2
             in con_try (os_err os 2018) ''netsys_set_console_attr/SetConsoleTextAttributes'' h w3
             (Inr (), CloseHandle h (w3\<lparr>con_attr := word_of_int tattr\<rparr>)))))))"

definition netsys_get_console_info :: "con_os \<Rightarrow> wcon \<Rightarrow> (exn + int \<times> int) \<times> wcon" where
  "netsys_get_console_info os w =
     (case open_console os 2039 w of
        (Inl e, w1) \<Rightarrow> (Inl (uerror_win e ''netsys_get_console_info/CreateFile''), w1)
      | (Inr h, w1) \<Rightarrow>
          con_try (os_err os 2047) ''netsys_get_console_info/GetConsoleScreenBufferInfo'' h w1
          (case con_win w1 of (l, t, r, b) \<Rightarrow> (Inr (r - l + 1, b - t + 1), CloseHandle h w1)))"

section \<open>Modes\<close>

record console_mode =
  mode_echo :: bool
  mode_insert :: bool
  mode_line_input :: bool
  mode_processed_input :: bool
  mode_quick_edit :: bool
  mode_processed_output :: bool
  mode_wrap_at_eol :: bool

abbreviation (input) ENABLE_PROCESSED_INPUT :: u32 where "ENABLE_PROCESSED_INPUT \<equiv> 0x1"
abbreviation (input) ENABLE_LINE_INPUT :: u32 where "ENABLE_LINE_INPUT \<equiv> 0x2"
abbreviation (input) ENABLE_ECHO_INPUT :: u32 where "ENABLE_ECHO_INPUT \<equiv> 0x4"
abbreviation (input) ENABLE_INSERT_MODE :: u32 where "ENABLE_INSERT_MODE \<equiv> 0x20"
abbreviation (input) ENABLE_QUICK_EDIT_MODE :: u32 where "ENABLE_QUICK_EDIT_MODE \<equiv> 0x40"
abbreviation (input) ENABLE_PROCESSED_OUTPUT :: u32 where "ENABLE_PROCESSED_OUTPUT \<equiv> 0x1"
abbreviation (input) ENABLE_WRAP_AT_EOL_OUTPUT :: u32 where "ENABLE_WRAP_AT_EOL_OUTPUT \<equiv> 0x2"

definition netsys_get_console_mode :: "con_os \<Rightarrow> wcon \<Rightarrow> (exn + console_mode) \<times> wcon" where
  "netsys_get_console_mode os w =
     (case open_console os 2071 w of
        (Inl e, w1) \<Rightarrow> (Inl (uerror_win e ''netsys_get_console_mode/CreateFile''), w1)
      | (Inr conin, w1) \<Rightarrow>
          con_try (os_err os 2079) ''netsys_get_console_mode/GetConsoleMode'' conin w1
          (let modein = con_modein w1
           in (case open_console os 2087 (CloseHandle conin w1) of
                 (Inl e, w2) \<Rightarrow> (Inl (uerror_win e ''netsys_get_console_mode/CreateFile''), w2)
               | (Inr conout, w2) \<Rightarrow>
                   con_try (os_err os 2095) ''netsys_get_console_mode/GetConsoleMode'' conout w2
                   (let modeout = con_modeout w2
                    in (Inr \<lparr>mode_echo = (modein AND ENABLE_ECHO_INPUT \<noteq> 0), mode_insert = (modein AND ENABLE_INSERT_MODE \<noteq> 0),
                             mode_line_input = (modein AND ENABLE_LINE_INPUT \<noteq> 0),
                             mode_processed_input = (modein AND ENABLE_PROCESSED_INPUT \<noteq> 0),
                             mode_quick_edit = (modein AND ENABLE_QUICK_EDIT_MODE \<noteq> 0),
                             mode_processed_output = (modeout AND ENABLE_PROCESSED_OUTPUT \<noteq> 0),
                             mode_wrap_at_eol = (modeout AND ENABLE_WRAP_AT_EOL_OUTPUT \<noteq> 0)\<rparr>,
                        CloseHandle conout w2)))))"

definition or_if :: "bool \<Rightarrow> u32 \<Rightarrow> u32 \<Rightarrow> u32" where
  "or_if b m x = (if b then x OR m else x)"

definition new_modein :: "console_mode \<Rightarrow> u32 \<Rightarrow> u32" where
  "new_modein mv modein =
     or_if (mode_quick_edit mv) ENABLE_QUICK_EDIT_MODE
     (or_if (mode_processed_input mv) ENABLE_PROCESSED_INPUT
     (or_if (mode_line_input mv) ENABLE_LINE_INPUT
     (or_if (mode_insert mv) ENABLE_INSERT_MODE
     (or_if (mode_echo mv) ENABLE_ECHO_INPUT
       (modein AND (NOT ENABLE_ECHO_INPUT AND NOT ENABLE_INSERT_MODE AND NOT ENABLE_LINE_INPUT AND
                    NOT ENABLE_PROCESSED_INPUT AND NOT ENABLE_QUICK_EDIT_MODE))))))"

definition new_modeout :: "console_mode \<Rightarrow> u32 \<Rightarrow> u32" where
  "new_modeout mv modeout =
     or_if (mode_wrap_at_eol mv) ENABLE_WRAP_AT_EOL_OUTPUT
     (or_if (mode_processed_output mv) ENABLE_PROCESSED_OUTPUT
       (modeout AND (NOT ENABLE_PROCESSED_OUTPUT AND NOT ENABLE_WRAP_AT_EOL_OUTPUT)))"

definition netsys_set_console_mode :: "con_os \<Rightarrow> console_mode \<Rightarrow> wcon \<Rightarrow> (exn + unit) \<times> wcon" where
  "netsys_set_console_mode os mv w =
     (case open_console os 2125 w of
        (Inl e, w1) \<Rightarrow> (Inl (uerror_win e ''netsys_set_console_mode/CreateFile''), w1)
      | (Inr conin, w1) \<Rightarrow>
          con_try (os_err os 2133) ''netsys_set_console_mode/GetConsoleMode'' conin w1
          (let modein = new_modein mv (con_modein w1)
           in con_try (or_err (os_err os 2148) (modein AND ENABLE_ECHO_INPUT \<noteq> 0 \<and> modein AND ENABLE_LINE_INPUT = 0))
                ''netsys_set_console_mode/SetConsoleMode'' conin w1
           (case open_console os 2156 (CloseHandle conin (w1\<lparr>con_modein := set_mode_in (con_modein w1) modein\<rparr>)) of
              (Inl e, w2) \<Rightarrow> (Inl (uerror_win e ''netsys_set_console_mode/CreateFile''), w2)
            | (Inr conout, w2) \<Rightarrow>
                con_try (os_err os 2164) ''netsys_set_console_mode/GetConsoleMode'' conout w2
                (con_try (os_err os 2174) ''netsys_set_console_mode/SetConsoleMode'' conout w2
                  (Inr (), CloseHandle conout (w2\<lparr>con_modeout := new_modeout mv (con_modeout w2)\<rparr>))))))"

section \<open>Code pages\<close>

definition netsys_getacp :: "con_os \<Rightarrow> int" where
  "netsys_getacp os = oc_acp os"

definition netsys_init_console_codepage :: "con_os \<Rightarrow> wcon \<Rightarrow> (exn + unit) \<times> wcon" where
  "netsys_init_console_codepage os w =
     (case os_err os 2201 of
        Some e \<Rightarrow> (Inl (uerror_win e ''netsys_init_console_codepage/SetConsoleCP''), w)
      | None \<Rightarrow>
          let w1 = w\<lparr>con_cp := (oc_acp os, snd (con_cp w))\<rparr>
          in (case os_err os 2205 of
                Some e \<Rightarrow> (Inl (uerror_win e ''netsys_init_console_codepage/SetConsoleOutputCP''), w1)
              | None \<Rightarrow> (Inr (), w1\<lparr>con_cp := (oc_acp os, oc_acp os)\<rparr>)))"

section \<open>Clearing\<close>

definition cell_index :: "wcon \<Rightarrow> int \<times> int \<Rightarrow> int" where
  "cell_index w p = snd p * fst (con_size w) + fst p"

definition fill_err :: "con_os \<Rightarrow> nat \<Rightarrow> int \<times> int \<Rightarrow> wcon \<Rightarrow> u32 option" where
  "fill_err os site p w =
     (case os_err os site of Some e \<Rightarrow> Some e | None \<Rightarrow> if in_buffer w p then None else oc_outside os)"

definition fill :: "(int \<times> 16 word \<Rightarrow> int \<times> 16 word) \<Rightarrow> u32 \<Rightarrow> int \<times> int \<Rightarrow> wcon \<Rightarrow> wcon" where
  "fill f n p w =
     (if in_buffer w p
      then w\<lparr>con_cells := (\<lambda>q. if in_buffer w q \<and> cell_index w p \<le> cell_index w q \<and> cell_index w q < cell_index w p + uint n
                             then f (con_cells w q) else con_cells w q)\<rparr>
      else w)"

definition clear_eol :: "con_os \<Rightarrow> handle \<Rightarrow> int \<times> int \<Rightarrow> int \<Rightarrow> 16 word \<Rightarrow> wcon \<Rightarrow> (exn + unit) \<times> wcon" where
  "clear_eol os h p right attr w =
     (let n = word_of_int (right - fst p + 1) :: u32
      in con_try (fill_err os 2221 p w) ''netsys_clear_console/FillConsoleOutputCharacter'' h w
         (let w1 = fill (\<lambda>c. (32, snd c)) n p w
          in con_try (fill_err os 2227 p w1) ''netsys_clear_console/FillConsoleOutputAttribute'' h w1
             (Inr (), fill (\<lambda>c. (fst c, attr)) n p w1)))"

text \<open>The two loops; \<open>None\<close> is a loop that never ends.\<close>

partial_function (option) clear_below ::
    "con_os \<Rightarrow> handle \<Rightarrow> rect \<Rightarrow> 16 word \<Rightarrow> int \<Rightarrow> wcon \<Rightarrow> ((exn + unit) \<times> wcon) option" where
  "clear_below os h win attr y w =
     (if y < snd (snd (snd win))
      then (case clear_eol os h (fst win, short (y + 1)) (fst (snd (snd win))) attr w of
              (Inl e, w1) \<Rightarrow> Some (Inl e, w1)
            | (Inr u, w1) \<Rightarrow> clear_below os h win attr (short (y + 1)) w1)
      else Some (Inr (), w))"

partial_function (option) clear_all ::
    "con_os \<Rightarrow> handle \<Rightarrow> int \<times> int \<Rightarrow> 16 word \<Rightarrow> int \<Rightarrow> wcon \<Rightarrow> ((exn + unit) \<times> wcon) option" where
  "clear_all os h bufsize attr y w =
     (if y \<le> snd bufsize
      then (case clear_eol os h (0, y) (fst bufsize - 1) attr w of
              (Inl e, w1) \<Rightarrow> Some (Inl e, w1)
            | (Inr u, w1) \<Rightarrow> clear_all os h bufsize attr (short (y + 1)) w1)
      else Some (Inr (), w))"

definition clear_home :: "con_os \<Rightarrow> handle \<Rightarrow> rect \<Rightarrow> wcon \<Rightarrow> (exn + unit) \<times> wcon" where
  "clear_home os h win w =
     con_try (or_err (os_err os 2283) (\<not> in_buffer w (0, 0))) ''netsys_clear_console/SetConsoleCursorPosition'' h w
     (let w1 = set_cursor os (0, 0) w
      in con_try (os_err os 2294) ''netsys_clear_console/SetConsoleWindowInfo'' h w1
         (case win of (l, t, r, b) \<Rightarrow> (Inr (), w1\<lparr>con_win := (0, 0, short (r - l), short (b - t))\<rparr>)))"

definition netsys_clear_console :: "con_os \<Rightarrow> int \<Rightarrow> wcon \<Rightarrow> ((exn + unit) \<times> wcon) option" where
  "netsys_clear_console os mode w =
     (case open_console os 2245 w of
        (Inl e, w1) \<Rightarrow> Some (Inl (uerror_win e ''netsys_clear_console/CreateFile''), w1)
      | (Inr h, w1) \<Rightarrow>
          (case os_err os 2253 of
             Some e \<Rightarrow> Some (Inl (uerror_win e ''netsys_clear_console/GetConsoleScreenBufferInfo''), CloseHandle h w1)
           | None \<Rightarrow>
               let win = con_win w1; attr = con_attr w1
               in map_option (\<lambda>(r, w2). case r of Inl e \<Rightarrow> (Inl e, w2) | Inr u \<Rightarrow> (Inr (), CloseHandle h w2))
                 (if mode = 0 then Some (clear_eol os h (con_cursor w1) (fst (snd (snd win))) attr w1)
                  else if mode = 1
                  then (case clear_eol os h (con_cursor w1) (fst (snd (snd win))) attr w1 of
                          (Inl e, w2) \<Rightarrow> Some (Inl e, w2)
                        | (Inr u, w2) \<Rightarrow> clear_below os h win attr (snd (con_cursor w1)) w2)
                  else (case clear_all os h (con_size w1) attr 0 w1 of
                          Some (Inr u, w2) \<Rightarrow> Some (clear_home os h win w2)
                        | r \<Rightarrow> r))))"

section \<open>Cancelling I/O and select\<close>

text \<open>\<open>have_cancel\<close>: \<^verbatim>\<open>CancelSynchronousIo\<close> exists. \<^verbatim>\<open>ERROR_NOT_FOUND\<close> (1168) is hidden.\<close>

definition netsys_cancel_synchronous_io :: "con_os \<Rightarrow> bool \<Rightarrow> wcon \<Rightarrow> (exn + unit) \<times> wcon" where
  "netsys_cancel_synchronous_io os have_cancel w =
     (if have_cancel
      then (case open_console os 2342 w of
              (Inl e, w1) \<Rightarrow> (Inl (uerror_win e ''netsys_cancel_synchronous_io/OpenThread''), w1)
            | (Inr thread, w1) \<Rightarrow>
                (case os_err os 2347 of
                   None \<Rightarrow> (Inr (), CloseHandle thread w1)
                 | Some e \<Rightarrow>
                     if e \<noteq> 1168
                     then (Inl (uerror_win e ''netsys_cancel_synchronous_io/CancelSynchronousIo''), CloseHandle thread w1)
                     else (Inr (), CloseHandle thread w1)))
      else (Inr (), w))"

text \<open>An \<^verbatim>\<open>fd_set\<close> is an array of at most 64 different sockets; \<^verbatim>\<open>FD_SET\<close> ignores a socket for which there is no room.\<close>

definition FD_SETSIZE :: nat where "FD_SETSIZE = 64"

definition FD_SET :: "handle \<Rightarrow> handle list \<Rightarrow> handle list" where
  "FD_SET s fds = (if s \<in> set fds \<or> length fds \<ge> FD_SETSIZE then fds else fds @ [s])"

definition fdlist_to_fdset :: "handle list \<Rightarrow> handle list" where
  "fdlist_to_fdset fdlist = fold FD_SET fdlist []"

definition fdset_to_fdlist :: "handle list \<Rightarrow> handle list \<Rightarrow> handle list" where
  "fdset_to_fdlist fdlist fds = fold (\<lambda>s res. if s \<in> set fds then s # res else res) fdlist []"

text \<open>
  The timeout is a rational number, the value of the \<^verbatim>\<open>double\<close>; \<open>rnd\<close> rounds the products to a \<^verbatim>\<open>double\<close>, and a conversion to \<^verbatim>\<open>int\<close> truncates.
  \<open>sel\<close> is \<^verbatim>\<open>select\<close>: an error or the three sets of ready sockets.
\<close>

datatype sel_wait = Sel_sleep int | Sel_forever | Sel_timeval int int | Sel_none

definition trunc :: "rat \<Rightarrow> int" where
  "trunc x = (if x < 0 then \<lceil>x\<rceil> else \<lfloor>x\<rfloor>)"

definition select_wait :: "(rat \<Rightarrow> rat) \<Rightarrow> bool \<Rightarrow> rat \<Rightarrow> sel_wait" where
  "select_wait rnd nothing tm =
     (if nothing then if tm > 0 then Sel_sleep (trunc (rnd (tm * 1000))) else Sel_none
      else if tm < 0 then Sel_forever
      else Sel_timeval (trunc tm) (trunc (rnd (1000000 * (tm - of_int (trunc tm))))))"

type_synonym sel_sys =
  "handle list \<Rightarrow> handle list \<Rightarrow> handle list \<Rightarrow> sel_wait \<Rightarrow> u32 + handle list \<times> handle list \<times> handle list"

definition netsys_real_select ::
    "(rat \<Rightarrow> rat) \<Rightarrow> sel_sys \<Rightarrow> handle list \<Rightarrow> handle list \<Rightarrow> handle list \<Rightarrow> rat \<Rightarrow> exn + handle list \<times> handle list \<times> handle list" where
  "netsys_real_select rnd sel readfds writefds exceptfds tm =
     (if readfds = [] \<and> writefds = [] \<and> exceptfds = [] then Inr ([], [], [])
      else (case sel (fdlist_to_fdset readfds) (fdlist_to_fdset writefds) (fdlist_to_fdset exceptfds) (select_wait rnd False tm) of
              Inl e \<Rightarrow> Inl (uerror_win e ''select'')
            | Inr (rs, ws, es) \<Rightarrow>
                Inr (fdset_to_fdlist readfds rs, fdset_to_fdlist writefds ws, fdset_to_fdlist exceptfds es)))"

section \<open>What is cleared\<close>

definition clear_set :: "(int \<times> int) set \<Rightarrow> 16 word \<Rightarrow> wcon \<Rightarrow> wcon" where
  "clear_set S attr w = w\<lparr>con_cells := (\<lambda>q. if q \<in> S then (32, attr) else con_cells w q)\<rparr>"

lemma clear_set_simps [simp]:
  "con_size (clear_set S a w) = con_size w" "con_win (clear_set S a w) = con_win w" "con_cursor (clear_set S a w) = con_cursor w"
  "w_obj (clear_set S a w) = w_obj w" "w_bad (clear_set S a w) = w_bad w" "in_buffer (clear_set S a w) = in_buffer w"
  "clear_set S a (clear_set T a w) = clear_set (S \<union> T) a w" "con_attr (clear_set S a w) = con_attr w"
  "con_cells (clear_set S a w) q = (if q \<in> S then (32, a) else con_cells w q)"
  by (simp_all add: clear_set_def in_buffer_def fun_eq_iff cong: if_cong)

definition row :: "int \<Rightarrow> int \<Rightarrow> int \<Rightarrow> (int \<times> int) set" where
  "row l r y = {(x, y') | x y'. y' = y \<and> l \<le> x \<and> x \<le> r}"

lemma index_row:
  fixes W x y x0 y0 n :: int
  assumes "0 \<le> x" "x < W" "0 \<le> x0" "0 < n" "x0 + n \<le> W"
  shows "y0 * W + x0 \<le> y * W + x \<and> y * W + x < y0 * W + x0 + n \<longleftrightarrow> y = y0 \<and> x0 \<le> x \<and> x < x0 + n"
proof
  assume a: "y0 * W + x0 \<le> y * W + x \<and> y * W + x < y0 * W + x0 + n"
  have W: "0 < W" using assms by simp
  have "(y - y0) * W < W" using a assms by (simp add: left_diff_distrib)
  then have "y - y0 < 1" using W by simp
  moreover have "(y0 - y) * W < W" using a assms by (simp add: left_diff_distrib)
  then have "y0 - y < 1" using W by simp
  ultimately have "y = y0" by simp
  then show "y = y0 \<and> x0 \<le> x \<and> x < x0 + n" using a by simp
qed simp

lemma uint_u32: "0 \<le> k \<Longrightarrow> k < 2 ^ 32 \<Longrightarrow> uint (word_of_int k :: u32) = k"
  by (simp add: uint_word_of_int_eq take_bit_int_eq_self)

lemma clear_eol_row:
  assumes err: "no_errors os" and p: "in_buffer w p" and r: "fst p \<le> right" "right < fst (con_size w)" "fst (con_size w) < 2 ^ 15"
  shows "clear_eol os h p right attr w = (Inr (), clear_set (row (fst p) right (snd p)) attr w)"
proof -
  define n where "n = (word_of_int (right - fst p + 1) :: u32)"
  have n: "uint n = right - fst p + 1"
    unfolding n_def using p r by (intro uint_u32) (simp_all add: in_buffer_def)
  have e: "fill_err os site p w1 = None" if "con_size w1 = con_size w" for site w1
    using err p that by (simp add: fill_err_def no_errors_def in_buffer_def)
  have f: "fill g n p w1 =
      w1\<lparr>con_cells := (\<lambda>q. if q \<in> row (fst p) right (snd p) then g (con_cells w1 q) else con_cells w1 q)\<rparr>"
    if "con_size w1 = con_size w" for g w1
  proof -
    have "in_buffer w1 q \<and> cell_index w1 p \<le> cell_index w1 q \<and> cell_index w1 q < cell_index w1 p + (right - fst p + 1) \<longleftrightarrow>
        q \<in> row (fst p) right (snd p)" for q
    proof (cases "in_buffer w1 q")
      case True
      with index_row [of "fst q" "fst (con_size w)" "fst p" "right - fst p + 1" "snd p" "snd q"] show ?thesis
        using that p r by (cases q) (auto simp: cell_index_def in_buffer_def row_def)
    qed (use p r that in \<open>auto simp: in_buffer_def row_def\<close>)
    moreover have "in_buffer w1 p" using p that by (simp add: in_buffer_def)
    ultimately show ?thesis unfolding fill_def n by simp
  qed
  show ?thesis
    unfolding clear_eol_def n_def [symmetric]
    by (simp add: con_try_def e f Let_def clear_set_def cong: if_cong)
qed

lemma short_id: "- (2 ^ 15) \<le> x \<Longrightarrow> x < 2 ^ 15 \<Longrightarrow> short x = x"
  unfolding short_def by (simp add: sint_word_of_int signed_take_bit_int_eq_self)

lemma rows_split: "y < b \<Longrightarrow> (\<Union>i \<in> {y<..b}. row l r i) = row l r (y + 1) \<union> (\<Union>i \<in> {y + 1<..b}. row l r i)" for y b :: int
proof -
  assume "y < b"
  then have "{y<..b} = insert (y + 1) {y + 1<..b}" by auto
  then show ?thesis by simp
qed

lemma clear_below_rows:
  assumes err: "no_errors os" and "0 \<le> l" "l \<le> r" "r < fst (con_size w)" "fst (con_size w) < 2 ^ 15" "b < snd (con_size w)" "b < 2 ^ 15"
    and "0 \<le> y" "y \<le> b"
  shows "clear_below os h (l, t, r, b) attr y w = Some (Inr (), clear_set (\<Union>i \<in> {y<..b}. row l r i) attr w)"
  using assms(2-)
proof (induction "nat (b - y)" arbitrary: y w)
  case 0
  then show ?case by (simp add: clear_below.simps clear_set_def)
next
  case (Suc n)
  then have y: "y < b" "short (y + 1) = y + 1" by (auto intro: short_id)
  have eol: "clear_eol os h (l, y + 1) r attr w = (Inr (), clear_set (row l r (y + 1)) attr w)"
    using Suc.prems y clear_eol_row [OF err, of w "(l, y + 1)" r h attr] by (simp add: in_buffer_def)
  have "clear_below os h (l, t, r, b) attr (y + 1) (clear_set (row l r (y + 1)) attr w) =
      Some (Inr (), clear_set (\<Union>i \<in> {y + 1<..b}. row l r i) attr (clear_set (row l r (y + 1)) attr w))"
    by (rule Suc.hyps(1)) (use Suc.hyps(2) Suc.prems y in auto)
  then show ?case using y eol by (simp add: clear_below.simps [of os h _ attr y w] rows_split Un_commute)
qed

lemma clear_all_rows:
  assumes err: "no_errors os" and out: "oc_outside os = None"
    and "0 < fst (con_size w)" "fst (con_size w) < 2 ^ 15" "snd (con_size w) + 1 < 2 ^ 15"
    and "0 \<le> y" "y \<le> snd (con_size w) + 1"
  shows "clear_all os h (con_size w) attr y w =
    Some (Inr (), clear_set (\<Union>i \<in> {y..<snd (con_size w)}. row 0 (fst (con_size w) - 1) i) attr w)"
  using assms(3-)
proof (induction "nat (snd (con_size w) + 1 - y)" arbitrary: y w)
  case 0
  then show ?case by (simp add: clear_all.simps clear_set_def)
next
  case (Suc n)
  let ?H = "snd (con_size w)" and ?r = "row 0 (fst (con_size w) - 1)"
  have y: "y \<le> ?H" "short (y + 1) = y + 1" using Suc by (auto intro: short_id)
  let ?w = "if y < ?H then clear_set (?r y) attr w else w"
  have eol: "clear_eol os h (0, y) (fst (con_size w) - 1) attr w = (Inr (), ?w)"
  proof (cases "y < ?H")
    case True
    then show ?thesis using Suc.prems clear_eol_row [OF err, of w "(0, y)" "fst (con_size w) - 1" h attr] by (simp add: in_buffer_def)
  next
    case False
    then show ?thesis using err out by (simp add: clear_eol_def con_try_def fill_err_def fill_def in_buffer_def no_errors_def Let_def)
  qed
  have sz: "con_size ?w = con_size w" by simp
  have "clear_all os h (con_size ?w) attr (y + 1) ?w =
      Some (Inr (), clear_set (\<Union>i \<in> {y + 1..<snd (con_size ?w)}. row 0 (fst (con_size ?w) - 1) i) attr ?w)"
    by (rule Suc.hyps(1)) (use Suc.hyps(2) Suc.prems y in auto)
  then have ih: "clear_all os h (con_size w) attr (y + 1) ?w = Some (Inr (), clear_set (\<Union>i \<in> {y + 1..<?H}. ?r i) attr ?w)"
    unfolding sz .
  have "clear_set (\<Union>i \<in> {y + 1..<?H}. ?r i) attr ?w = clear_set (\<Union>i \<in> {y..<?H}. ?r i) attr w"
  proof (cases "y < ?H")
    case True
    then have "{y..<?H} = insert y {y + 1..<?H}" by auto
    then show ?thesis using True by (simp add: Un_commute)
  qed simp
  then show ?case using y eol ih by (simp add: clear_all.simps [of os h _ attr y w])
qed

definition con_ok :: "wcon \<Rightarrow> bool" where
  "con_ok w \<longleftrightarrow> objs_ok w \<and> 0 < fst (con_size w) \<and> fst (con_size w) < 2 ^ 15 \<and> 0 < snd (con_size w) \<and> snd (con_size w) + 1 < 2 ^ 15 \<and>
     (case con_win w of (l, t, r, b) \<Rightarrow> 0 \<le> l \<and> l \<le> r \<and> r < fst (con_size w) \<and> 0 \<le> t \<and> t \<le> b \<and> b < snd (con_size w)) \<and>
     in_rect (con_win w) (con_cursor w)"

text \<open>Opening the console changes nothing but the handles, and closing the new handle restores them.\<close>

definition opened :: "handle \<Rightarrow> wcon \<Rightarrow> wcon \<Rightarrow> bool" where
  "opened h w w1 \<longleftrightarrow> wcon.more w1 = wcon.more w \<and> con_size w1 = con_size w \<and> con_win w1 = con_win w \<and> con_cursor w1 = con_cursor w \<and>
     con_cursor_size w1 = con_cursor_size w \<and> con_visible w1 = con_visible w \<and> con_attr w1 = con_attr w \<and> con_cells w1 = con_cells w \<and>
     con_modein w1 = con_modein w \<and> con_modeout w1 = con_modeout w \<and> con_cp w1 = con_cp w \<and>
     objs_ok w1 \<and> w_obj w h = None \<and> w_obj w1 h \<noteq> None \<and> (w_obj w1)(h := None) = w_obj w \<and> w_bad w1 = w_bad w"

lemma open_console_ok:
  assumes "no_errors os" "fresh_handles os" "objs_ok w"
  shows "\<exists>h w1. open_console os site w = (Inr h, w1) \<and> opened h w w1"
proof -
  obtain h w1 where n: "new_object os site w = (h, w1)" by fastforce
  then have "open_console os site w = (Inr h, w1)" using assms(1) by (simp add: open_console_def no_errors_def)
  moreover have "opened h w w1"
    using new_object_fresh [OF assms(2,3) n] n by (auto simp: opened_def new_object_def Let_def)
  ultimately show ?thesis by blast
qed

lemma close_frame [simp]:
  "con_size (CloseHandle h w) = con_size w" "con_win (CloseHandle h w) = con_win w" "con_cursor (CloseHandle h w) = con_cursor w"
  "con_cursor_size (CloseHandle h w) = con_cursor_size w" "con_visible (CloseHandle h w) = con_visible w"
  "con_attr (CloseHandle h w) = con_attr w" "con_cells (CloseHandle h w) = con_cells w"
  "con_modein (CloseHandle h w) = con_modein w" "con_modeout (CloseHandle h w) = con_modeout w"
  by (simp_all add: CloseHandle_def)

lemma opened_close:
  "opened h w w1 \<Longrightarrow> w_obj x = w_obj w1 \<Longrightarrow> w_bad x = w_bad w1 \<Longrightarrow> w_obj (CloseHandle h x) = w_obj w \<and> w_bad (CloseHandle h x) = w_bad w"
  by (auto simp: opened_def CloseHandle_def)

text \<open>The cells that a mode clears.\<close>

definition clear_area :: "int \<Rightarrow> wcon \<Rightarrow> (int \<times> int) set" where
  "clear_area mode w =
     (case con_win w of (l, t, r, b) \<Rightarrow>
        if mode = 0 then row (fst (con_cursor w)) r (snd (con_cursor w))
        else if mode = 1 then row (fst (con_cursor w)) r (snd (con_cursor w)) \<union> (\<Union>y \<in> {snd (con_cursor w)<..b}. row l r y)
        else {p. in_buffer w p})"

lemma all_rows: "0 < fst (con_size w) \<Longrightarrow> (\<Union>y \<in> {0..<snd (con_size w)}. row 0 (fst (con_size w) - 1) y) = {p. in_buffer w p}"
  by (auto simp: row_def in_buffer_def)

text \<open>
  Clearing the console ends and clears exactly what it should: to the end of the line the cells of the cursor's row from the cursor to
  the right edge of the window; to the end of the screen also the rows of the window below; otherwise the whole buffer, with the
  cursor in the corner and the window, of the same size, there as well. The cleared cells are blanks with the current attribute. No handle stays open.
\<close>

theorem netsys_clear_console_correct:
  assumes os: "no_errors os" "fresh_handles os" and w: "con_ok w" and out: "mode \<in> {0, 1} \<or> oc_outside os = None"
  shows "\<exists>w'. netsys_clear_console os mode w = Some (Inr (), w') \<and> w_obj w' = w_obj w \<and> w_bad w' = w_bad w \<and>
    (\<forall>p. con_cells w' p = (if p \<in> clear_area mode w then (32, con_attr w) else con_cells w p)) \<and>
    (if mode \<in> {0, 1} then con_cursor w' = con_cursor w \<and> con_win w' = con_win w
     else con_cursor w' = (0, 0) \<and>
       con_win w' = (case con_win w of (l, t, r, b) \<Rightarrow> (0, 0, r - l, b - t)))"
proof -
  obtain l t r b where win: "con_win w = (l, t, r, b)" by (metis prod.exhaust)
  obtain cx cy where cur: "con_cursor w = (cx, cy)" by fastforce
  have ok: "objs_ok w" "0 < fst (con_size w)" "fst (con_size w) < 2 ^ 15" "0 < snd (con_size w)" "snd (con_size w) + 1 < 2 ^ 15"
    "0 \<le> l" "l \<le> r" "r < fst (con_size w)" "0 \<le> t" "t \<le> b" "b < snd (con_size w)" "l \<le> cx" "cx \<le> r" "t \<le> cy" "cy \<le> b"
    using w by (simp_all add: con_ok_def win cur)
  obtain h w1 where opn: "open_console os 2245 w = (Inr h, w1)" "opened h w w1" using open_console_ok [OF os ok(1)] by blast
  have w1: "con_size w1 = con_size w" "con_win w1 = con_win w" "con_cursor w1 = con_cursor w" "con_attr w1 = con_attr w"
    "con_cells w1 = con_cells w"
    using opn(2) by (simp_all add: opened_def)
  have e: "os_err os site = None" for site using os(1) by (simp add: no_errors_def)
  have eol: "clear_eol os h (cx, cy) r (con_attr w) w1 = (Inr (), clear_set (row cx r cy) (con_attr w) w1)"
    using clear_eol_row [OF os(1), of w1 "(cx, cy)" r h "con_attr w"] ok w1 by (simp add: in_buffer_def)
  have below: "clear_below os h (l, t, r, b) (con_attr w) cy (clear_set (row cx r cy) (con_attr w) w1) =
      Some (Inr (), clear_set (\<Union>y \<in> {cy<..b}. row l r y) (con_attr w) (clear_set (row cx r cy) (con_attr w) w1))"
    by (rule clear_below_rows [OF os(1)]) (use ok w1 in auto)
  have all: "clear_all os h (con_size w1) (con_attr w) 0 w1 = Some (Inr (), clear_set {p. in_buffer w1 p} (con_attr w) w1)"
    if "oc_outside os = None"
    using clear_all_rows [OF os(1) that, of w1 0 h "con_attr w"] ok w1 all_rows [of w1] by simp
  note close = opened_close [OF opn(2)]
  consider "mode = 0" | "mode = 1" | "mode \<notin> {0, 1}" "oc_outside os = None" using out by auto
  then show ?thesis
  proof cases
    case 1
    then show ?thesis
      using close [of "clear_set (row cx r cy) (con_attr w) w1"] w1 eol
      by (simp add: netsys_clear_console_def opn(1) e Let_def win cur clear_area_def)
  next
    case 2
    then show ?thesis
      using close [of "clear_set (\<Union>y \<in> {cy<..b}. row l r y) (con_attr w) (clear_set (row cx r cy) (con_attr w) w1)"] w1 eol below
      by (simp add: netsys_clear_console_def opn(1) e Let_def win cur clear_area_def Un_commute)
  next
    case 3
    let ?w2 = "clear_set {p. in_buffer w1 p} (con_attr w) w1"
    let ?w3 = "(set_cursor os (0, 0) ?w2)\<lparr>con_win := (0, 0, r - l, b - t)\<rparr>"
    have "short (r - l) = r - l" "short (b - t) = b - t" using ok by (auto intro!: short_id)
    then have "clear_home os h (l, t, r, b) ?w2 = (Inr (), ?w3)"
      using e ok w1 by (simp add: clear_home_def con_try_def or_err_def in_buffer_def Let_def)
    then show ?thesis
      using 3 close [of ?w3] w1 all
      by (simp add: netsys_clear_console_def opn(1) e Let_def win clear_area_def set_cursor_def in_buffer_def)
  qed
qed

definition sample_con :: wcon where
  "sample_con = \<lparr>w_obj = (\<lambda>h. None), w_sig = (\<lambda>ob. False), w_inherit = (\<lambda>h. False), w_next = 0, w_bad = 0,
     con_size = (80, 300), con_win = (0, 10, 79, 34), con_cursor = (5, 12), con_cursor_size = 25, con_visible = True, con_attr = 7,
     con_cells = (\<lambda>p. (65, 7)), con_modein = 0x87, con_modeout = 3, con_cp = (850, 850)\<rparr>"

definition sample_cos :: con_os where
  "sample_cos = \<lparr>os_new = (\<lambda>site. free_handle), os_err = (\<lambda>site. None), os_apc = False,
     oc_outside = None, oc_scroll = (\<lambda>win p. win), oc_acp = 1252\<rparr>"

lemma sample_con_ok: "no_errors sample_cos" "fresh_handles sample_cos" "con_ok sample_con" "oc_outside sample_cos = None"
proof -
  have "t (free_handle t) = None \<and> free_handle t \<notin> {0, - 1}" if "finite (dom t)" for t
    using free_handle_free [OF that] by auto
  then show "fresh_handles sample_cos" by (simp add: fresh_handles_def sample_cos_def)
qed (simp_all add: no_errors_def sample_cos_def con_ok_def sample_con_def objs_ok_def)

theorem netsys_clear_console_correct_witness:
  "\<exists>w'. netsys_clear_console sample_cos 2 sample_con = Some (Inr (), w') \<and> con_cells w' (79, 299) = (32, 7) \<and>
     con_cursor w' = (0, 0) \<and> con_win w' = (0, 0, 79, 24)"
proof -
  have "con_win sample_con = (0, 10, 79, 34)" "(79, 299) \<in> clear_area 2 sample_con" "con_attr sample_con = 7"
    by (simp_all add: clear_area_def in_buffer_def sample_con_def)
  then show ?thesis using netsys_clear_console_correct [OF sample_con_ok(1,2,3), of 2] sample_con_ok(4) by auto
qed

section \<open>Round trips\<close>

text \<open>
  What is set is read back. After a position inside the window, a cursor size from 1 to 100, a visibility and a text attribute of
  16 bits have been set, \<^verbatim>\<open>netsys_get_console_attr\<close> returns exactly them; the cells are unchanged and no handle stays open.
\<close>

theorem console_attr_roundtrip:
  assumes os: "no_errors os" "fresh_handles os" and w: "con_ok w"
    and pos: "0 \<le> x" "x < fst (snd (snd (con_win w))) - fst (con_win w) + 1"
      "0 \<le> y" "y < snd (snd (snd (con_win w))) - fst (snd (con_win w)) + 1"
    and sz: "1 \<le> csize" "csize \<le> 100" and attr: "0 \<le> a" "a < 2 ^ 16"
  shows "\<exists>w1 w2. netsys_set_console_attr os (x, y, csize, vis, a) w = (Inr (), w1) \<and>
    netsys_get_console_attr os w1 = (Inr (x, y, csize, vis, a), w2) \<and>
    con_cells w2 = con_cells w \<and> con_win w2 = con_win w \<and> w_obj w2 = w_obj w \<and> w_bad w2 = w_bad w"
proof -
  obtain l t r b where win: "con_win w = (l, t, r, b)" by (metis prod.exhaust)
  have ok: "objs_ok w" "fst (con_size w) < 2 ^ 15" "snd (con_size w) < 2 ^ 15" "0 \<le> l" "r < fst (con_size w)" "0 \<le> t" "b < snd (con_size w)"
    using w by (simp_all add: con_ok_def win)
  have e: "os_err os site = None" for site using os(1) by (simp add: no_errors_def)
  obtain h w1 where opn: "open_console os 1988 w = (Inr h, w1)" "opened h w w1" using open_console_ok [OF os ok(1)] by blast
  have sh: "short (x + l) = x + l" "short (y + t) = y + t" using pos ok by (auto simp: win intro!: short_id)
  have inb: "in_buffer (w1\<lparr>con_cursor_size := csize, con_visible := vis\<rparr>) (x + l, y + t)" "in_rect (l, t, r, b) (x + l, y + t)"
    using pos ok opn(2) by (auto simp: in_buffer_def opened_def win)
  let ?w2 = "w1\<lparr>con_cursor_size := csize, con_visible := vis, con_cursor := (x + l, y + t), con_win := (l, t, r, b),
      con_attr := word_of_int a\<rparr>"
  let ?w3 = "CloseHandle h ?w2"
  have cl: "w_obj ?w3 = w_obj w" "w_bad ?w3 = w_bad w" using opened_close [OF opn(2), of ?w2] by simp_all
  have set: "netsys_set_console_attr os (x, y, csize, vis, a) w = (Inr (), ?w3)"
    using sz inb opn(2) by (simp add: netsys_set_console_attr_def opn(1) con_try_def or_err_def e Let_def set_cursor_def sh win opened_def)
  have "objs_ok ?w3" by (rule objs_ok_close) (use opn(2) in \<open>simp add: opened_def objs_ok_def\<close>)
  then obtain h' w4 where opn': "open_console os 1941 ?w3 = (Inr h', w4)" "opened h' ?w3 w4" using open_console_ok [OF os] by blast
  have u: "uint (word_of_int a :: 16 word) = a" using attr by (simp add: uint_word_of_int_eq take_bit_int_eq_self)
  have get: "netsys_get_console_attr os ?w3 = (Inr (x, y, csize, vis, a), CloseHandle h' w4)"
    using opn'(2) opn(2) u by (simp add: netsys_get_console_attr_def opn'(1) con_try_def e opened_def win)
  show ?thesis
    using set get opened_close [OF opn'(2), of w4] cl opn(2) opn'(2)
    by (intro exI [of _ ?w3] exI [of _ "CloseHandle h' w4"]) (simp add: opened_def win)
qed

theorem console_attr_roundtrip_witness:
  "\<exists>w1 w2. netsys_set_console_attr sample_cos (3, 4, 50, False, 0x1f) sample_con = (Inr (), w1) \<and>
     netsys_get_console_attr sample_cos w1 = (Inr (3, 4, 50, False, 0x1f), w2)"
proof -
  have "con_win sample_con = (0, 10, 79, 34)" by (simp add: sample_con_def)
  then show ?thesis
    using console_attr_roundtrip [OF sample_con_ok(1,2,3), of 3 4 50 "0x1f" False] by auto
qed

lemma mode_bits:
  "x AND ENABLE_PROCESSED_INPUT \<noteq> 0 \<longleftrightarrow> bit x 0" "x AND ENABLE_LINE_INPUT \<noteq> 0 \<longleftrightarrow> bit x 1" "x AND ENABLE_ECHO_INPUT \<noteq> 0 \<longleftrightarrow> bit x 2"
  "x AND ENABLE_INSERT_MODE \<noteq> 0 \<longleftrightarrow> bit x 5" "x AND ENABLE_QUICK_EDIT_MODE \<noteq> 0 \<longleftrightarrow> bit x 6" "x AND 0x80 \<noteq> 0 \<longleftrightarrow> bit x 7"
  for x :: u32
  using and_exp_eq_0_iff_not_bit [of x 0] and_exp_eq_0_iff_not_bit [of x 1] and_exp_eq_0_iff_not_bit [of x 2]
    and_exp_eq_0_iff_not_bit [of x 5] and_exp_eq_0_iff_not_bit [of x 6] and_exp_eq_0_iff_not_bit [of x 7]
  by simp_all

lemma bit_or_if: "bit (or_if b m x) i \<longleftrightarrow> b \<and> bit m i \<or> bit x i"
  by (auto simp: or_if_def bit_or_iff)

lemma new_modein_bits:
  "bit (new_modein mv m) 0 = mode_processed_input mv" "bit (new_modein mv m) 1 = mode_line_input mv" "bit (new_modein mv m) 2 = mode_echo mv"
  "bit (new_modein mv m) 5 = mode_insert mv" "bit (new_modein mv m) 6 = mode_quick_edit mv" "bit (new_modein mv m) 7 = bit m 7"
  by (simp_all add: new_modein_def bit_or_if bit_and_iff bit_not_iff)

lemma new_modeout_bits:
  "bit (new_modeout mv m) 0 = mode_processed_output mv" "bit (new_modeout mv m) 1 = mode_wrap_at_eol mv"
  by (simp_all add: new_modeout_def bit_or_if bit_and_iff bit_not_iff)

lemma get_mode_reads:
  assumes os: "no_errors os" "fresh_handles os" and w: "objs_ok w"
  shows "\<exists>w'. netsys_get_console_mode os w = (Inr \<lparr>mode_echo = bit (con_modein w) 2, mode_insert = bit (con_modein w) 5,
      mode_line_input = bit (con_modein w) 1, mode_processed_input = bit (con_modein w) 0, mode_quick_edit = bit (con_modein w) 6,
      mode_processed_output = bit (con_modeout w) 0, mode_wrap_at_eol = bit (con_modeout w) 1\<rparr>, w') \<and>
    w_obj w' = w_obj w \<and> w_bad w' = w_bad w \<and> con_modein w' = con_modein w"
proof -
  have e: "os_err os site = None" for site using os(1) by (simp add: no_errors_def)
  obtain h w1 where a: "open_console os 2071 w = (Inr h, w1)" "opened h w w1" using open_console_ok [OF os w] by blast
  have "objs_ok (CloseHandle h w1)" by (rule objs_ok_close) (use a(2) in \<open>simp add: opened_def\<close>)
  then obtain h' w2 where b: "open_console os 2087 (CloseHandle h w1) = (Inr h', w2)" "opened h' (CloseHandle h w1) w2"
    using open_console_ok [OF os] by blast
  have "w_obj (CloseHandle h' w2) = w_obj w" "w_bad (CloseHandle h' w2) = w_bad w"
    using opened_close [OF b(2), of w2] opened_close [OF a(2), of w1] by simp_all
  moreover have "con_modein w2 = con_modein w" "con_modeout w2 = con_modeout w" "con_modein w1 = con_modein w"
    using a(2) b(2) by (simp_all add: opened_def)
  ultimately show ?thesis by (simp add: netsys_get_console_mode_def a(1) b(1) con_try_def e Let_def mode_bits)
qed

text \<open>
  The modes that are set are read back, when echo is only asked for together with line input and the input mode has
  \<^verbatim>\<open>ENABLE_EXTENDED_FLAGS\<close>. Without that flag the calls succeed too, but the insert and the quick edit mode keep their old values.
\<close>

theorem console_mode_roundtrip:
  assumes os: "no_errors os" "fresh_handles os" and w: "objs_ok w" and echo: "mode_echo mv \<longrightarrow> mode_line_input mv"
  shows "\<exists>w1 w2. netsys_set_console_mode os mv w = (Inr (), w1) \<and> w_obj w2 = w_obj w \<and> w_bad w2 = w_bad w \<and>
    netsys_get_console_mode os w1 =
      (Inr (if con_modein w AND 0x80 \<noteq> 0 then mv
            else mv\<lparr>mode_insert := bit (con_modein w) 5, mode_quick_edit := bit (con_modein w) 6\<rparr>), w2)"
proof -
  have e: "os_err os site = None" for site using os(1) by (simp add: no_errors_def)
  obtain h w1 where a: "open_console os 2125 w = (Inr h, w1)" "opened h w w1" using open_console_ok [OF os w] by blast
  define m where "m = new_modein mv (con_modein w)"
  let ?w2 = "CloseHandle h (w1\<lparr>con_modein := set_mode_in (con_modein w) m\<rparr>)"
  have "objs_ok ?w2" by (rule objs_ok_close) (use a(2) in \<open>simp add: opened_def objs_ok_def\<close>)
  then obtain h' w3 where b: "open_console os 2156 ?w2 = (Inr h', w3)" "opened h' ?w2 w3" using open_console_ok [OF os] by blast
  let ?w4 = "CloseHandle h' (w3\<lparr>con_modeout := new_modeout mv (con_modeout w)\<rparr>)"
  have eq: "con_modein w1 = con_modein w" "con_modeout w3 = con_modeout w" "con_modein ?w4 = set_mode_in (con_modein w) m"
    using a(2) b(2) by (simp_all add: opened_def)
  have "\<not> (m AND ENABLE_ECHO_INPUT \<noteq> 0 \<and> m AND ENABLE_LINE_INPUT = 0)"
    using echo mode_bits(2,3) [of m] new_modein_bits(2,3) [of mv "con_modein w"] by (auto simp: m_def)
  then have set: "netsys_set_console_mode os mv w = (Inr (), ?w4)"
    using e by (simp add: netsys_set_console_mode_def a(1) b(1) con_try_def or_err_def Let_def eq m_def [symmetric])
  have cl: "w_obj ?w4 = w_obj w" "w_bad ?w4 = w_bad w"
    using opened_close [OF b(2), of "w3\<lparr>con_modeout := new_modeout mv (con_modeout w)\<rparr>"]
      opened_close [OF a(2), of "w1\<lparr>con_modein := set_mode_in (con_modein w) m\<rparr>"] by simp_all
  have "objs_ok ?w4" by (rule objs_ok_close) (use b(2) in \<open>simp add: opened_def objs_ok_def\<close>)
  from get_mode_reads [OF os this] obtain w5 where g: "netsys_get_console_mode os ?w4 = (Inr \<lparr>mode_echo = bit (con_modein ?w4) 2,
      mode_insert = bit (con_modein ?w4) 5, mode_line_input = bit (con_modein ?w4) 1, mode_processed_input = bit (con_modein ?w4) 0,
      mode_quick_edit = bit (con_modein ?w4) 6, mode_processed_output = bit (con_modeout ?w4) 0, mode_wrap_at_eol = bit (con_modeout ?w4) 1\<rparr>, w5)"
    "w_obj w5 = w_obj ?w4" "w_bad w5 = w_bad ?w4"
    by blast
  have ext: "m AND 0x80 \<noteq> 0 \<longleftrightarrow> con_modein w AND 0x80 \<noteq> 0" unfolding mode_bits by (simp add: m_def new_modein_bits)
  have bits: "bit (con_modein ?w4) 0 = mode_processed_input mv" "bit (con_modein ?w4) 1 = mode_line_input mv" "bit (con_modein ?w4) 2 = mode_echo mv"
    "bit (con_modein ?w4) 5 = (if con_modein w AND 0x80 \<noteq> 0 then mode_insert mv else bit (con_modein w) 5)"
    "bit (con_modein ?w4) 6 = (if con_modein w AND 0x80 \<noteq> 0 then mode_quick_edit mv else bit (con_modein w) 6)"
    unfolding eq(3) set_mode_in_def ext
    by (simp_all add: m_def new_modein_bits new_modein_bits(2) [unfolded One_nat_def] bit_or_iff bit_and_iff bit_not_iff)
  have "\<lparr>mode_echo = bit (con_modein ?w4) 2, mode_insert = bit (con_modein ?w4) 5, mode_line_input = bit (con_modein ?w4) 1,
      mode_processed_input = bit (con_modein ?w4) 0, mode_quick_edit = bit (con_modein ?w4) 6,
      mode_processed_output = bit (con_modeout ?w4) 0, mode_wrap_at_eol = bit (con_modeout ?w4) 1\<rparr> =
    (if con_modein w AND 0x80 \<noteq> 0 then mv else mv\<lparr>mode_insert := bit (con_modein w) 5, mode_quick_edit := bit (con_modein w) 6\<rparr>)"
    using new_modeout_bits [of mv "con_modeout w"] unfolding bits by (cases mv) simp
  with g(1) have "netsys_get_console_mode os ?w4 = (Inr (if con_modein w AND 0x80 \<noteq> 0 then mv
      else mv\<lparr>mode_insert := bit (con_modein w) 5, mode_quick_edit := bit (con_modein w) 6\<rparr>), w5)"
    by simp
  then have "netsys_set_console_mode os mv w = (Inr (), ?w4) \<and> w_obj w5 = w_obj w \<and> w_bad w5 = w_bad w \<and>
    netsys_get_console_mode os ?w4 = (Inr (if con_modein w AND 0x80 \<noteq> 0 then mv
      else mv\<lparr>mode_insert := bit (con_modein w) 5, mode_quick_edit := bit (con_modein w) 6\<rparr>), w5)"
    using set g(2,3) cl by simp
  then show ?thesis by blast
qed

theorem console_mode_roundtrip_witness:
  "\<exists>w1 w2. netsys_set_console_mode sample_cos \<lparr>mode_echo = False, mode_insert = True, mode_line_input = False, mode_processed_input = True,
       mode_quick_edit = False, mode_processed_output = True, mode_wrap_at_eol = False\<rparr> sample_con = (Inr (), w1) \<and>
     netsys_get_console_mode sample_cos w1 = (Inr \<lparr>mode_echo = False, mode_insert = True, mode_line_input = False,
       mode_processed_input = True, mode_quick_edit = False, mode_processed_output = True, mode_wrap_at_eol = False\<rparr>, w2)"
proof -
  let ?m = "\<lparr>mode_echo = False, mode_insert = True, mode_line_input = False, mode_processed_input = True,
    mode_quick_edit = False, mode_processed_output = True, mode_wrap_at_eol = False\<rparr>"
  have "objs_ok sample_con" "con_modein sample_con AND 0x80 \<noteq> 0" by (simp_all add: objs_ok_def sample_con_def)
  then show ?thesis using console_mode_roundtrip [OF sample_con_ok(1,2), of sample_con ?m] by auto
qed

section \<open>Select\<close>

lemma fdset_to_fdlist_filter: "fdset_to_fdlist fdlist fds = rev (filter (\<lambda>s. s \<in> set fds) fdlist)"
proof -
  have "fold (\<lambda>s res. if s \<in> set fds then s # res else res) fdlist acc = rev (filter (\<lambda>s. s \<in> set fds) fdlist) @ acc" for acc
    by (induction fdlist arbitrary: acc) auto
  then show ?thesis by (simp add: fdset_to_fdlist_def)
qed

lemma FD_SET_keeps:
  "length fds \<le> FD_SETSIZE \<Longrightarrow> distinct fds \<Longrightarrow>
   length (FD_SET s fds) \<le> FD_SETSIZE \<and> distinct (FD_SET s fds) \<and> set fds \<subseteq> set (FD_SET s fds) \<and> set (FD_SET s fds) \<subseteq> insert s (set fds)"
  by (auto simp: FD_SET_def)

lemma fdlist_to_fdset_bounds:
  "length (fdlist_to_fdset fdlist) \<le> FD_SETSIZE \<and> distinct (fdlist_to_fdset fdlist) \<and> set (fdlist_to_fdset fdlist) \<subseteq> set fdlist"
proof (induction fdlist rule: rev_induct)
  case (snoc s fdlist)
  then show ?case using FD_SET_keeps [of "fdlist_to_fdset fdlist" s] by (auto simp: fdlist_to_fdset_def)
qed (simp add: fdlist_to_fdset_def)

lemma fdlist_to_fdset_set: "card (set fdlist) \<le> FD_SETSIZE \<Longrightarrow> set (fdlist_to_fdset fdlist) = set fdlist"
proof (induction fdlist rule: rev_induct)
  case (snoc s fdlist)
  let ?f = "fdlist_to_fdset fdlist"
  have "card (set fdlist) \<le> card (set (fdlist @ [s]))" by (rule card_mono) auto
  then have f: "set ?f = set fdlist" using snoc by simp
  have len: "length ?f = card (set fdlist)" using f fdlist_to_fdset_bounds [of fdlist] distinct_card by metis
  have eq: "fdlist_to_fdset (fdlist @ [s]) = FD_SET s ?f" by (simp add: fdlist_to_fdset_def)
  show ?case
  proof (cases "s \<in> set fdlist")
    case True
    then show ?thesis unfolding eq by (simp add: FD_SET_def f insert_absorb)
  next
    case False
    then have "length ?f < FD_SETSIZE" using snoc.prems len by simp
    then show ?thesis unfolding eq using False by (simp add: FD_SET_def f)
  qed
qed (simp add: fdlist_to_fdset_def)

text \<open>
  \<^verbatim>\<open>netsys_real_select\<close> with up to 64 different sockets per list asks for exactly these sockets and returns of each list
  those that are ready, in reverse order, with the multiplicity they were given; the sets handed to the system never overflow.
\<close>

theorem netsys_real_select_correct:
  assumes ne: "rs \<noteq> [] \<or> ws \<noteq> [] \<or> es \<noteq> []"
    and card: "card (set rs) \<le> 64" "card (set ws) \<le> 64" "card (set es) \<le> 64"
    and sel: "\<And>a b c. set a = set rs \<Longrightarrow> set b = set ws \<Longrightarrow> set c = set es \<Longrightarrow> length a \<le> 64 \<Longrightarrow> length b \<le> 64 \<Longrightarrow> length c \<le> 64 \<Longrightarrow>
      sel a b c (select_wait rnd False tm) = Inr (filter pr a, filter pw b, filter pe c)"
  shows "netsys_real_select rnd sel rs ws es tm = Inr (rev (filter pr rs), rev (filter pw ws), rev (filter pe es))"
proof -
  let ?a = "fdlist_to_fdset rs" and ?b = "fdlist_to_fdset ws" and ?c = "fdlist_to_fdset es"
  have s: "set ?a = set rs" "set ?b = set ws" "set ?c = set es" "length ?a \<le> 64" "length ?b \<le> 64" "length ?c \<le> 64"
    using card fdlist_to_fdset_bounds [of rs] fdlist_to_fdset_bounds [of ws] fdlist_to_fdset_bounds [of es]
    by (simp_all add: fdlist_to_fdset_set FD_SETSIZE_def)
  have "filter (\<lambda>s. s \<in> set (filter p a)) xs = filter p xs" if "set a = set xs" for p and a xs :: "handle list"
    using that by (auto intro: filter_cong)
  then show ?thesis
    using ne sel [OF s] s by (auto simp: netsys_real_select_def fdset_to_fdlist_filter)
qed

theorem netsys_real_select_correct_witness:
  "netsys_real_select id (\<lambda>a b c tv. Inr (filter (\<lambda>s. s < 5) a, [], [])) [3, 9, 4] [] [] 1 = Inr ([4, 3], [], [])"
  using netsys_real_select_correct [of "[3, 9, 4]" "[]" "[]" "\<lambda>a b c tv. Inr (filter (\<lambda>s. s < 5) a, [], [])" id 1
      "\<lambda>s. s < 5" "\<lambda>s. True" "\<lambda>s. True"]
  by simp

end
