(* ===== verification/Clock.thy ===== *)
theory Clock
  imports Not_event Bytemem "HOL-Library.Log_Nat"
begin

text \<open>
  Clocks and timers, \<^verbatim>\<open>src/src/netsys/netsys_c_clock.c\<close>, in the configuration with POSIX clocks, POSIX timers, threads and optionally \<^verbatim>\<open>timerfd\<close>.

  A finite \<^verbatim>\<open>double\<close> is a pair of integers \<open>m\<close> and \<open>e\<close> for the number \<open>m * 2 ^ e\<close>; the operations used on it are exact or round to nearest, ties to even,
  with 53 bits. Time values are pairs (seconds, nanoseconds). Timers belong to the kernel state \<open>tsys\<close>, together with the notification events they
  signal (\<^theory_text>\<open>Not_event\<close>), which are objects with addresses here because a timer keeps a pointer to its event.
\<close>

section \<open>Doubles\<close>

datatype double = Dbl int int | Dbl_inf bool | Dbl_nan

abbreviation bits :: "int \<Rightarrow> nat" where "bits n \<equiv> floorlog 2 (nat n)"

text \<open>Dividing by \<open>2 ^ s\<close>, to nearest, ties to even.\<close>

definition rdiv :: "int \<Rightarrow> nat \<Rightarrow> int" where
  "rdiv n s =
     (let a = n div 2 ^ s; b = n mod 2 ^ s
      in if 2 * b > 2 ^ s \<or> 2 * b = 2 ^ s \<and> odd a then a + 1 else a)"

text \<open>Rounding the number \<open>n * 2 ^ e\<close>, \<open>n \<ge> 0\<close>, to 53 bits.\<close>

definition dround :: "int \<Rightarrow> int \<Rightarrow> int \<times> int" where
  "dround n e = (let s = bits n - 53 in (rdiv n s, e + int s))"

definition dfloor :: "int \<Rightarrow> int \<Rightarrow> int" where
  "dfloor m e = (if 0 \<le> e then m * 2 ^ nat e else m div 2 ^ nat (- e))"

text \<open>The fraction \<^verbatim>\<open>d - floor(d)\<close>, which is exact: its mantissa at the exponent of \<^verbatim>\<open>d\<close>.\<close>

definition dfrac :: "int \<Rightarrow> int \<Rightarrow> int" where
  "dfrac m e = (if 0 \<le> e then 0 else m mod 2 ^ nat (- e))"

definition dgt :: "int \<Rightarrow> int \<Rightarrow> int \<Rightarrow> bool" where
  "dgt m e n \<longleftrightarrow> (if 0 \<le> e then m * 2 ^ nat e > n else m > n * 2 ^ nat (- e))"

definition dbl_of_long :: "int \<Rightarrow> double" where
  "dbl_of_long n = (case dround \<bar>n\<bar> 0 of (m, e) \<Rightarrow> Dbl (sgn n * m) e)"

text \<open>\<^verbatim>\<open>i + 1\<close> for a \<^verbatim>\<open>double\<close> with an integral value.\<close>

definition dadd_one :: "int \<Rightarrow> int" where
  "dadd_one i = (case dround (i + 1) 0 of (m, e) \<Rightarrow> m * 2 ^ nat e)"

section \<open>Time values\<close>

type_synonym timespec = "int \<times> int"

definition frac_nsec :: "int \<Rightarrow> int \<Rightarrow> int" where
  "frac_nsec m e = (case dround (dfrac m e * 1000000000) e of (q, e') \<Rightarrow> dfloor q e')"

function ts_loop :: "int \<Rightarrow> int \<Rightarrow> int \<times> int" where
  "ts_loop i r = (if r > 999999999 then ts_loop (dadd_one i) (r - 1000000000) else (i, r))"
  by auto
termination by (relation "measure (\<lambda>(i, r). nat r)") auto

declare ts_loop.simps [simp del]

text \<open>
  \<^verbatim>\<open>make_timespec\<close>. The bound \<^verbatim>\<open>LONG_MAX-1\<close> becomes \<open>2 ^ 63\<close> in the comparison with a \<^verbatim>\<open>double\<close>; the conversion of a number that does not fit into
  a \<^verbatim>\<open>long\<close> is undefined (\<open>None\<close>).
\<close>

definition make_timespec :: "double \<times> int \<Rightarrow> (exn + timespec) option" where
  "make_timespec tspair =
     (case tspair of (d, n) \<Rightarrow>
       let range_error = Some (Inl (Failure ''Netsys_posix: time value out of range'')) in
       (case d of
          Dbl m e \<Rightarrow>
            if m < 0 \<or> dgt m e (2 ^ 63) then range_error
            else if n < 0 \<or> n > 999999999 then range_error
            else (case ts_loop (dfloor m e) (frac_nsec m e + n) of
                    (i, r) \<Rightarrow> if i < 2 ^ 63 then Some (Inr (i, r)) else None)
        | _ \<Rightarrow> range_error))"

definition alloc_timespec_pair :: "timespec \<Rightarrow> double \<times> int" where
  "alloc_timespec_pair ts = (case ts of (sec, nsec) \<Rightarrow> (dbl_of_long sec, nsec))"

section \<open>Rounding\<close>

lemma rdiv_bounds:
  fixes n :: int
  shows "rdiv n s * 2 ^ s \<le> n + 2 ^ s" "n < (rdiv n s + 1) * 2 ^ s"
proof -
  define a b where "a = n div 2 ^ s" and "b = n mod 2 ^ s"
  have n: "n = a * 2 ^ s + b" unfolding a_def b_def by (rule div_mult_mod_eq [symmetric])
  have b: "0 \<le> b" "b < 2 ^ s" by (simp_all add: b_def)
  have "rdiv n s = a \<or> rdiv n s = a + 1" by (simp add: rdiv_def Let_def a_def)
  then show "rdiv n s * 2 ^ s \<le> n + 2 ^ s" "n < (rdiv n s + 1) * 2 ^ s"
    using b unfolding n by (auto simp: distrib_right)
qed

lemma rdiv_le: "n \<le> N * 2 ^ s \<Longrightarrow> rdiv n s \<le> N" for n N :: int
proof -
  assume le: "n \<le> N * 2 ^ s"
  define a b where "a = n div 2 ^ s" and "b = n mod 2 ^ s"
  have n: "n = a * 2 ^ s + b" unfolding a_def b_def by (rule div_mult_mod_eq [symmetric])
  have b: "0 \<le> b" by (simp add: b_def)
  have "a * 2 ^ s \<le> N * 2 ^ s" using le n b by linarith
  then have a: "a \<le> N" by simp
  have "b = 0" if "a = N" using that le n b by simp
  then show ?thesis using a by (cases "a = N") (auto simp: rdiv_def Let_def a_def [symmetric] b_def [symmetric])
qed

lemma div_pow_bounds: "n div 2 ^ k * 2 ^ k \<le> n" "n < n div 2 ^ k * 2 ^ k + 2 ^ k" for n :: int
proof -
  have "n = n div 2 ^ k * 2 ^ k + n mod 2 ^ k" by (rule div_mult_mod_eq [symmetric])
  moreover have "0 \<le> n mod 2 ^ k" "n mod 2 ^ k < 2 ^ k" by simp_all
  ultimately show "n div 2 ^ k * 2 ^ k \<le> n" "n < n div 2 ^ k * 2 ^ k + 2 ^ k" by linarith+
qed

lemma rdiv_nonneg: "0 \<le> n \<Longrightarrow> 0 \<le> rdiv n s" for n :: int
  by (simp add: rdiv_def Let_def pos_imp_zdiv_nonneg_iff add_increasing2)

lemma rdiv_multiple: "rdiv (a * 2 ^ s) s = a"
  by (simp add: rdiv_def)

lemma bits_le: "n < 2 ^ k \<Longrightarrow> bits n \<le> k" for n :: int
proof (rule floorlog_leI)
  assume "n < 2 ^ k"
  then show "nat n < 2 ^ k" by (simp add: nat_less_iff)
qed simp_all

lemma dround_exact: "0 \<le> n \<Longrightarrow> n \<le> 2 ^ 53 \<Longrightarrow> \<exists>m e. dround n 0 = (m, e) \<and> 0 \<le> e \<and> e \<le> 1 \<and> 0 \<le> m \<and> m * 2 ^ nat e = n" for n :: int
proof (cases "n = 2 ^ 53")
  case True
  have "bits (2 ^ 53) \<le> 54" by (rule bits_le) simp
  moreover have "54 \<le> bits (2 ^ 53)" by (rule floorlog_geI) (simp_all add: nat_power_eq)
  ultimately have "bits (2 ^ 53) = 54" by simp
  then have "dround n 0 = (rdiv (2 ^ 52 * 2 ^ 1) 1, 1)" by (simp add: dround_def True)
  then show ?thesis unfolding rdiv_multiple using True by simp
next
  case False
  assume "0 \<le> n" "n \<le> 2 ^ 53"
  then have "bits n \<le> 53" using False by (intro bits_le) simp
  then have "dround n 0 = (rdiv (n * 2 ^ 0) 0, 0)" by (simp add: dround_def)
  then show ?thesis unfolding rdiv_multiple using \<open>0 \<le> n\<close> by simp
qed

section \<open>Nanoseconds of a fraction\<close>

lemma frac_nsec_integral: "0 \<le> e \<Longrightarrow> frac_nsec m e = 0"
  by (simp add: frac_nsec_def dfrac_def dround_def rdiv_def dfloor_def)

text \<open>The rounded product still has enough bits: one unit of it is far less than a nanosecond.\<close>

lemma frac_nsec_quotient:
  fixes m e :: int
  assumes e: "e < 0"
  defines "P \<equiv> dfrac m e * 1000000000" and "K \<equiv> nat (- e)"
  shows "\<exists>s. s \<le> K \<and> frac_nsec m e = (rdiv P s * 2 ^ s) div 2 ^ K \<and> 0 \<le> P \<and> P < 1000000000 * 2 ^ K"
proof -
  let ?s = "bits P - 53"
  have f: "0 \<le> dfrac m e" "dfrac m e < 2 ^ K" using e by (simp_all add: dfrac_def K_def)
  have P: "0 \<le> P" "P < 1000000000 * 2 ^ K" using f by (simp_all add: P_def)
  have "(1000000000 :: int) * 2 ^ K \<le> 2 ^ 30 * 2 ^ K" by (rule mult_right_mono) simp_all
  with P(2) have "P < 2 ^ 30 * 2 ^ K" by (rule less_le_trans)
  then have "P < 2 ^ (30 + K)" by (simp add: power_add)
  then have s: "?s \<le> K" using bits_le [of P "30 + K"] by simp
  have pw: "(2 :: int) ^ K = 2 ^ (K - ?s) * 2 ^ ?s" using s by (simp flip: power_add)
  have "frac_nsec m e = dfloor (rdiv P ?s) (e + int ?s)" by (simp add: frac_nsec_def dround_def P_def Let_def)
  also have "\<dots> = rdiv P ?s div 2 ^ (K - ?s)"
  proof (cases "e + int ?s = 0")
    case True
    then have "K - ?s = 0" "nat (e + int ?s) = 0" using e by (simp_all add: K_def)
    then show ?thesis using True by (simp add: dfloor_def)
  next
    case False
    then have "e + int ?s < 0" "nat (- (e + int ?s)) = K - ?s" using s e False unfolding K_def by linarith+
    then show ?thesis by (simp add: dfloor_def)
  qed
  also have "\<dots> = (rdiv P ?s * 2 ^ ?s) div 2 ^ K" unfolding pw by simp
  finally show ?thesis using s P by blast
qed

lemma frac_nsec_bounds:
  assumes "e < 0"
  shows "0 \<le> frac_nsec m e" "frac_nsec m e \<le> 1000000000"
    "frac_nsec m e * 2 ^ nat (- e) \<le> dfrac m e * 1000000000 + 2 ^ nat (- e)"
    "dfrac m e * 1000000000 < (frac_nsec m e + 2) * 2 ^ nat (- e)"
proof -
  define P K where "P = dfrac m e * 1000000000" and "K = nat (- e)"
  obtain s where s: "s \<le> K" "frac_nsec m e = (rdiv P s * 2 ^ s) div 2 ^ K" "0 \<le> P" "P < 1000000000 * 2 ^ K"
    using frac_nsec_quotient [OF assms, of m] unfolding P_def K_def by blast
  define Q where "Q = rdiv P s * 2 ^ s"
  have pw: "(2 :: int) ^ K = 2 ^ (K - s) * 2 ^ s" using s(1) by (simp flip: power_add)
  have le: "(2 :: int) ^ s \<le> 2 ^ K" using s(1) by (simp add: power_increasing)
  have b: "Q \<le> P + 2 ^ s" "P < Q + 2 ^ s" using rdiv_bounds [of P s] by (simp_all add: Q_def distrib_right)
  have "rdiv P s \<le> 1000000000 * 2 ^ (K - s)" by (rule rdiv_le) (use s(4) in \<open>simp add: pw\<close>)
  then have "Q \<le> 1000000000 * 2 ^ K" unfolding Q_def pw by simp
  moreover have q0: "0 \<le> Q" using s(3) by (simp add: Q_def rdiv_nonneg)
  ultimately show "0 \<le> frac_nsec m e" "frac_nsec m e \<le> 1000000000"
    using zdiv_mono1 [of Q "1000000000 * 2 ^ K" "2 ^ K"] by (simp_all add: s(2) Q_def [symmetric] pos_imp_zdiv_nonneg_iff)
  have d: "frac_nsec m e * 2 ^ K \<le> Q" "Q < frac_nsec m e * 2 ^ K + 2 ^ K"
    unfolding s(2) Q_def [symmetric] by (rule div_pow_bounds)+
  show "frac_nsec m e * 2 ^ nat (- e) \<le> dfrac m e * 1000000000 + 2 ^ nat (- e)"
    using d(1) b(1) le unfolding P_def K_def by linarith
  show "dfrac m e * 1000000000 < (frac_nsec m e + 2) * 2 ^ nat (- e)"
    using d(2) b(2) le unfolding P_def K_def distrib_right by linarith
qed

section \<open>Conversion to timespec\<close>

definition dbl_ok :: "double \<Rightarrow> bool" where
  "dbl_ok d \<longleftrightarrow> (\<forall>m e. d = Dbl m e \<longrightarrow> \<bar>m\<bar> \<le> 2 ^ 53 \<and> - 1074 \<le> e \<and> e \<le> 971)"

lemma dadd_one_exact: "0 \<le> i \<Longrightarrow> i < 2 ^ 53 \<Longrightarrow> dadd_one i = i + 1"
  using dround_exact [of "i + 1"] by (auto simp: dadd_one_def)

lemma ts_loop_carry:
  assumes "0 \<le> r" "r < 2000000000" "r > 999999999 \<longrightarrow> 0 \<le> i \<and> i < 2 ^ 53"
  shows "ts_loop i r = (if r > 999999999 then (i + 1, r - 1000000000) else (i, r))"
  using assms by (simp add: ts_loop.simps [of i r] ts_loop.simps [of "i + 1" "r - 1000000000"] dadd_one_exact)

lemma dfloor_small: "0 \<le> m \<Longrightarrow> m \<le> 2 ^ 53 \<Longrightarrow> e < 0 \<Longrightarrow> 0 \<le> dfloor m e \<and> dfloor m e < 2 ^ 53"
proof -
  assume m: "0 \<le> m" "m \<le> 2 ^ 53" "e < 0"
  have "nat (- e) = Suc (nat (- e) - 1)" using m(3) by simp
  then have "(2 :: int) ^ nat (- e) = 2 * 2 ^ (nat (- e) - 1)" by (metis power_Suc)
  moreover have "(1 :: int) \<le> 2 ^ (nat (- e) - 1)" by simp
  ultimately have "(2 :: int) \<le> 2 ^ nat (- e)" by linarith
  then have "m div 2 ^ nat (- e) \<le> m div 2" using m(1) by (intro zdiv_mono2) simp_all
  then show ?thesis using m by (simp add: dfloor_def pos_imp_zdiv_nonneg_iff)
qed

lemma dgt_dfloor: "0 \<le> m \<Longrightarrow> dfloor m e < n \<Longrightarrow> \<not> dgt m e n"
proof (cases "0 \<le> e")
  case False
  assume "dfloor m e < n"
  then have "m div 2 ^ nat (- e) < n" using False by (simp add: dfloor_def)
  then have "m < n * 2 ^ nat (- e)"
    using div_pow_bounds(2) [of m "nat (- e)"] mult_right_mono [of "m div 2 ^ nat (- e) + 1" n "2 ^ nat (- e)"]
    by (simp add: distrib_right)
  then show ?thesis using False by (simp add: dgt_def)
qed (simp add: dgt_def dfloor_def)

text \<open>
  Claim C27: \<^verbatim>\<open>make_timespec\<close> on every number that is in range. For a non-negative \<^verbatim>\<open>double\<close> below \<open>2 ^ 63\<close> and a number of nanoseconds from 0 to 999999999 it returns
  a normalised time value; it is the sum of the integral part, the nanoseconds and the fraction, which is converted with an error of less than two
  nanoseconds (and exactly 0 when there is none).
\<close>

theorem make_timespec_correct:
  assumes ok: "dbl_ok (Dbl m e)" and m: "0 \<le> m" and lt: "dfloor m e < 2 ^ 63" and n: "0 \<le> n" "n \<le> 999999999"
  shows "\<exists>s ns f. make_timespec (Dbl m e, n) = Some (Inr (s, ns)) \<and> 0 \<le> ns \<and> ns \<le> 999999999 \<and> 0 \<le> s \<and>
    s * 1000000000 + ns = dfloor m e * 1000000000 + f + n \<and>
    (if 0 \<le> e then f = 0
     else f * 2 ^ nat (- e) \<le> dfrac m e * 1000000000 + 2 ^ nat (- e) \<and> dfrac m e * 1000000000 < (f + 2) * 2 ^ nat (- e))"
proof -
  let ?f = "frac_nsec m e" and ?i = "dfloor m e"
  have lt2: "\<not> dgt m e (2 ^ 63)" using dgt_dfloor [OF m lt] .
  have f: "0 \<le> ?f" "?f \<le> 1000000000" using frac_nsec_bounds(1,2) [of e m] frac_nsec_integral [of e m] by (cases "e < 0"; simp)+
  have i0: "0 \<le> ?i" using m by (simp add: dfloor_def pos_imp_zdiv_nonneg_iff)
  have carry: "?f + n > 999999999 \<longrightarrow> 0 \<le> ?i \<and> ?i < 2 ^ 53"
    using n frac_nsec_integral [of e m] dfloor_small [of m e] m ok by (cases "e < 0") (auto simp: dbl_ok_def)
  have loop: "ts_loop ?i (?f + n) = (if ?f + n > 999999999 then (?i + 1, ?f + n - 1000000000) else (?i, ?f + n))"
    by (rule ts_loop_carry) (use f n carry in auto)
  have "make_timespec (Dbl m e, n) = Some (Inr (if ?f + n > 999999999 then (?i + 1, ?f + n - 1000000000) else (?i, ?f + n)))"
    using m n lt lt2 carry by (auto simp: make_timespec_def loop)
  moreover have "if 0 \<le> e then ?f = 0
     else ?f * 2 ^ nat (- e) \<le> dfrac m e * 1000000000 + 2 ^ nat (- e) \<and> dfrac m e * 1000000000 < (?f + 2) * 2 ^ nat (- e)"
    using frac_nsec_bounds(3,4) [of e m] frac_nsec_integral [of e m] by simp
  ultimately show ?thesis using f n i0 by (intro exI [of _ "fst (if ?f + n > 999999999 then (?i + 1, ?f + n - 1000000000) else (?i, ?f + n))"]
      exI [of _ "snd (if ?f + n > 999999999 then (?i + 1, ?f + n - 1000000000) else (?i, ?f + n))"] exI [of _ ?f]) auto
qed

theorem make_timespec_correct_witness:
  "\<exists>s ns. make_timespec (Dbl 3 (- 1), 600000000) = Some (Inr (s, ns)) \<and> s * 1000000000 + ns \<ge> 2099999999 \<and> s * 1000000000 + ns \<le> 2100000001"
proof -
  have d: "dbl_ok (Dbl 3 (- 1))" "dfloor 3 (- 1) = 1" "dfrac 3 (- 1) = 1" by (simp_all add: dbl_ok_def dfloor_def dfrac_def)
  then show ?thesis using make_timespec_correct [of 3 "- 1" 600000000] by auto
qed

text \<open>
  Time values survive the way to OCaml and back: a normalised value of up to \<open>2 ^ 53\<close> seconds that \<^verbatim>\<open>alloc_timespec_pair\<close> returned is turned by
  \<^verbatim>\<open>make_timespec\<close> into the same value.
\<close>

theorem timespec_roundtrip:
  assumes "0 \<le> sec" "sec \<le> 2 ^ 53" "0 \<le> nsec" "nsec \<le> 999999999"
  shows "make_timespec (alloc_timespec_pair (sec, nsec)) = Some (Inr (sec, nsec))"
proof -
  obtain m e where d: "dround sec 0 = (m, e)" "0 \<le> e" "0 \<le> m" "m * 2 ^ nat e = sec" using dround_exact [OF assms(1,2)] by blast
  have "sgn sec * m = m" using d assms(1) by (cases "sec = 0") auto
  then have "alloc_timespec_pair (sec, nsec) = (Dbl m e, nsec)"
    using d(1) assms(1) by (simp add: alloc_timespec_pair_def dbl_of_long_def)
  moreover have "dfloor m e = sec" "\<not> dgt m e (2 ^ 63)" using d assms(2) by (simp_all add: dfloor_def dgt_def)
  ultimately show ?thesis
    using d(2,3) assms by (simp add: make_timespec_def frac_nsec_integral ts_loop.simps)
qed

theorem timespec_roundtrip_witness: "make_timespec (alloc_timespec_pair (1700000000, 5)) = Some (Inr (1700000000, 5))"
  by (rule timespec_roundtrip) simp_all

lemma make_timespec_rejects:
  "n < 0 \<or> n > 999999999 \<or> (case d of Dbl m e \<Rightarrow> m < 0 \<or> dgt m e (2 ^ 63) | _ \<Rightarrow> True) \<Longrightarrow>
   make_timespec (d, n) = Some (Inl (Failure ''Netsys_posix: time value out of range''))"
  by (auto simp: make_timespec_def Let_def split: double.splits)

text \<open>The smallest number that is too large for a \<^verbatim>\<open>long\<close> passes the range check.\<close>

lemma make_timespec_undefined: "make_timespec (Dbl (2 ^ 52) 11, 0) = None"
  by (simp add: make_timespec_def dgt_def dfloor_def frac_nsec_integral ts_loop.simps)

section \<open>Clocks\<close>

datatype clock = CLOCK_REALTIME | CLOCK_MONOTONIC | CLOCK_ID "u8 list"

abbreviation (input) "ID_REALTIME \<equiv> (0 :: u32)"
abbreviation (input) "ID_MONOTONIC \<equiv> (1 :: u32)"

text \<open>
  \<^verbatim>\<open>clockid_val\<close> copies the four bytes of a \<^verbatim>\<open>clockid_t\<close> out of the string that \<^verbatim>\<open>netsys_clock_getcpuclockid\<close> has made; a shorter
  string would be read behind its end (\<open>None\<close>).
\<close>

definition clockid_bytes :: "u32 \<Rightarrow> u8 list" where
  "clockid_bytes c = take 4 (le64_bytes (ucast c))"

definition clockid_val :: "clock \<Rightarrow> u32 option" where
  "clockid_val c =
     (case c of
        CLOCK_REALTIME \<Rightarrow> Some ID_REALTIME
      | CLOCK_MONOTONIC \<Rightarrow> Some ID_MONOTONIC
      | CLOCK_ID s \<Rightarrow> if length s \<ge> 4 then Some (ucast (le64_of (take 4 s))) else None)"

text \<open>The answers of the system calls on clocks: an \<^verbatim>\<open>errno\<close> or a result. \<^verbatim>\<open>nanosleep\<close> also stores the remaining time.\<close>

record clock_os =
  co_gettime :: "u32 \<Rightarrow> int + timespec"
  co_getres :: "u32 \<Rightarrow> int + timespec"
  co_settime :: "u32 \<Rightarrow> timespec \<Rightarrow> int option"
  co_nanosleep :: "timespec \<Rightarrow> int option \<times> timespec"
  co_getcpuclockid :: "int \<Rightarrow> int + u32"

definition netsys_nanosleep :: "clock_os \<Rightarrow> double \<times> int \<Rightarrow> double \<times> int \<Rightarrow> ((exn + unit) \<times> (double \<times> int)) option" where
  "netsys_nanosleep os tspair tsref =
     do {
       t_in \<leftarrow> make_timespec tspair;
       case t_in of
         Inl e \<Rightarrow> Some (Inl e, tsref)
       | Inr ts \<Rightarrow>
           (case co_nanosleep os ts of
              (r, t_out) \<Rightarrow>
                let tsout = alloc_timespec_pair t_out
                in Some (case r of Some e \<Rightarrow> Inl (Unix_error e ''nanosleep'') | None \<Rightarrow> Inr (), tsout))
     }"

definition netsys_clock_gettime :: "clock_os \<Rightarrow> clock \<Rightarrow> (exn + double \<times> int) option" where
  "netsys_clock_gettime os clock =
     do {
       c \<leftarrow> clockid_val clock;
       Some (case co_gettime os c of Inl e \<Rightarrow> Inl (Unix_error e ''clock_gettime'') | Inr ts \<Rightarrow> Inr (alloc_timespec_pair ts))
     }"

definition netsys_clock_settime :: "clock_os \<Rightarrow> clock \<Rightarrow> double \<times> int \<Rightarrow> (exn + unit) option" where
  "netsys_clock_settime os clock tspair =
     do {
       c \<leftarrow> clockid_val clock;
       t \<leftarrow> make_timespec tspair;
       Some (case t of
               Inl e \<Rightarrow> Inl e
             | Inr ts \<Rightarrow> (case co_settime os c ts of Some e \<Rightarrow> Inl (Unix_error e ''clock_settime'') | None \<Rightarrow> Inr ()))
     }"

definition netsys_clock_getres :: "clock_os \<Rightarrow> clock \<Rightarrow> (exn + double \<times> int) option" where
  "netsys_clock_getres os clock =
     do {
       c \<leftarrow> clockid_val clock;
       Some (case co_getres os c of Inl e \<Rightarrow> Inl (Unix_error e ''clock_getres'') | Inr ts \<Rightarrow> Inr (alloc_timespec_pair ts))
     }"

definition netsys_clock_getcpuclockid :: "clock_os \<Rightarrow> int \<Rightarrow> exn + u8 list" where
  "netsys_clock_getcpuclockid os pid =
     (case co_getcpuclockid os pid of Inl e \<Rightarrow> Inl (Unix_error e ''clock_getcpuclockid'') | Inr c \<Rightarrow> Inr (clockid_bytes c))"

lemma clockid_roundtrip: "clockid_val (CLOCK_ID (clockid_bytes c)) = Some c"
proof -
  have b: "take 4 (le64_bytes w) = [ucast w, ucast (drop_bit 8 w), ucast (drop_bit 16 w), ucast (drop_bit 24 w)]" for w
    by (simp add: le64_bytes_def upt_rec numeral_eq_Suc)
  have "ucast (le64_of (take 4 (le64_bytes (ucast c)))) = c"
  proof (rule bit_word_eqI)
    fix n assume "n < LENGTH(32)"
    then show "bit (ucast (le64_of (take 4 (le64_bytes (ucast c)))) :: u32) n = bit c n"
      unfolding b le64_of_def
      by (cases "n < 8"; cases "n < 16"; cases "n < 24")
        (simp_all add: bit_or_iff bit_push_bit_iff bit_ucast_iff bit_drop_bit_eq; arith)+
  qed
  then show ?thesis by (simp add: clockid_val_def clockid_bytes_def min_absorb1)
qed

section \<open>Timers\<close>

datatype timer_expiration = TEXP_NONE | TEXP_EVENT_CREATE | TEXP_EVENT nat | TEXP_SIGNAL int

datatype timer_mech = TT_POSIX "u8 list" | TT_TIMERFD int

datatype sigevent = SIGEV_NONE | SIGEV_THREAD nat | SIGEV_SIGNAL int

datatype timer_key = Key_posix u64 | Key_fd int

type_synonym posix_timer = "timer_mech \<times> nat option"

text \<open>
  The state: descriptors, event objects by address, POSIX timers with their clock and what they do on expiration, the time that is left
  per timer, and the signals that timers have sent. \<open>to_rel\<close> converts an absolute expiration time.
\<close>

record tsys =
  ts_nk :: nk
  ts_ev :: "nat \<Rightarrow> not_event"
  ts_next :: nat
  ts_posix :: "u64 \<Rightarrow> (u32 \<times> sigevent) option"
  ts_left :: "timer_key \<Rightarrow> timespec"
  ts_signals :: "int list"

record timer_os =
  to_ne :: ne_os
  to_create :: "int + u64"
  to_err :: "nat \<Rightarrow> int option"
  to_signo :: "int \<Rightarrow> int"
  to_rel :: "timespec \<Rightarrow> timespec"

definition new_event :: "(exn + not_event) \<times> nk \<Rightarrow> tsys \<Rightarrow> (exn + nat) \<times> tsys" where
  "new_event res s =
     (case res of
        (Inl e, k) \<Rightarrow> (Inl e, s\<lparr>ts_nk := k\<rparr>)
      | (Inr ne, k) \<Rightarrow> (Inr (ts_next s), s\<lparr>ts_nk := k, ts_ev := (ts_ev s)(ts_next s := ne), ts_next := ts_next s + 1\<rparr>))"

definition create_posix_timer :: "timer_os \<Rightarrow> u32 \<Rightarrow> sigevent \<Rightarrow> nat option \<Rightarrow> tsys \<Rightarrow> (exn + posix_timer) \<times> tsys" where
  "create_posix_timer os c sev v_event s =
     (case to_create os of
        Inl e \<Rightarrow> (Inl (Unix_error e ''timer_create''), s)
      | Inr tm \<Rightarrow> (Inr (TT_POSIX (le64_bytes tm), v_event), s\<lparr>ts_posix := (ts_posix s)(tm \<mapsto> (c, sev))\<rparr>))"

definition netsys_timer_create ::
    "bool \<Rightarrow> bool \<Rightarrow> timer_os \<Rightarrow> clock \<Rightarrow> timer_expiration \<Rightarrow> tsys \<Rightarrow> ((exn + posix_timer) \<times> tsys) option" where
  "netsys_timer_create have_timerfd have_eventfd os clock texp s =
     do {
       c \<leftarrow> clockid_val clock;
       Some (case texp of
               TEXP_NONE \<Rightarrow> create_posix_timer os c SIGEV_NONE None s
             | TEXP_EVENT_CREATE \<Rightarrow>
                 if have_timerfd
                 then (case new_event (netsys_not_event_timerfd (to_ne os) (ts_nk s)) s of
                         (Inl e, s1) \<Rightarrow> (Inl e, s1)
                       | (Inr a, s1) \<Rightarrow>
                           (case netsys_return_not_event_fd (ts_ev s1 a) of
                              Inl e \<Rightarrow> (Inl e, s1)
                            | Inr fd \<Rightarrow> (Inr (TT_TIMERFD fd, Some a), s1)))
                 else (case new_event (netsys_create_not_event have_eventfd (to_ne os) False (ts_nk s)) s of
                         (Inl e, s1) \<Rightarrow> (Inl e, s1)
                       | (Inr a, s1) \<Rightarrow> create_posix_timer os c (SIGEV_THREAD a) (Some a) s1)
             | TEXP_EVENT a \<Rightarrow> create_posix_timer os c (SIGEV_THREAD a) (Some a) s
             | TEXP_SIGNAL n \<Rightarrow> create_posix_timer os c (SIGEV_SIGNAL (to_signo os n)) None s)
     }"

definition extract_timer :: "u8 list \<Rightarrow> u64" where
  "extract_timer v = le64_of v"

fun timer_key_of :: "timer_mech \<Rightarrow> timer_key" where
  "timer_key_of (TT_POSIX v) = Key_posix (extract_timer v)"
| "timer_key_of (TT_TIMERFD fd) = Key_fd fd"

text \<open>A call on a timer that does not exist (22) or on a descriptor that is not open (9) fails; other failures are \<open>to_err\<close>.\<close>

fun timer_call :: "timer_os \<Rightarrow> nat \<Rightarrow> timer_mech \<Rightarrow> tsys \<Rightarrow> int option" where
  "timer_call os site (TT_POSIX v) s = (if ts_posix s (extract_timer v) = None then Some 22 else to_err os site)"
| "timer_call os site (TT_TIMERFD fd) s = (if fd \<notin> nk_open (ts_nk s) then Some 9 else to_err os site)"

definition netsys_timer_settime ::
    "timer_os \<Rightarrow> posix_timer \<Rightarrow> bool \<Rightarrow> double \<times> int \<Rightarrow> double \<times> int \<Rightarrow> tsys \<Rightarrow> ((exn + unit) \<times> tsys) option" where
  "netsys_timer_settime os timer abstime ival expval s =
     do {
       t1 \<leftarrow> make_timespec ival;
       case t1 of
         Inl e \<Rightarrow> Some (Inl e, s)
       | Inr it_interval \<Rightarrow> do {
           t2 \<leftarrow> make_timespec expval;
           case t2 of
             Inl e \<Rightarrow> Some (Inl e, s)
           | Inr it_value \<Rightarrow>
               Some (case timer_call os 345 (fst timer) s of
                 Some e \<Rightarrow>
                   (Inl (Unix_error e (case fst timer of TT_POSIX v \<Rightarrow> ''timer_settime'' | TT_TIMERFD fd \<Rightarrow> ''timerfd_settime'')), s)
               | None \<Rightarrow>
                   (Inr (), s\<lparr>ts_left := (ts_left s)(timer_key_of (fst timer) := if abstime then to_rel os it_value else it_value)\<rparr>))
         }
     }"

definition netsys_timer_gettime :: "timer_os \<Rightarrow> posix_timer \<Rightarrow> tsys \<Rightarrow> exn + double \<times> int" where
  "netsys_timer_gettime os timer s =
     (case timer_call os 384 (fst timer) s of
        Some e \<Rightarrow> Inl (Unix_error e (case fst timer of TT_POSIX v \<Rightarrow> ''timer_gettime'' | TT_TIMERFD fd \<Rightarrow> ''timerfd_gettime''))
      | None \<Rightarrow> Inr (alloc_timespec_pair (ts_left s (timer_key_of (fst timer)))))"

definition netsys_timer_delete :: "timer_os \<Rightarrow> posix_timer \<Rightarrow> tsys \<Rightarrow> (exn + unit) \<times> tsys" where
  "netsys_timer_delete os timer s =
     (case timer of
        (TT_POSIX v, ev) \<Rightarrow>
          (case timer_call os 415 (TT_POSIX v) s of
             Some e \<Rightarrow> (Inl (Unix_error e ''timer_delete''), s)
           | None \<Rightarrow> (Inr (), s\<lparr>ts_posix := (ts_posix s)(extract_timer v := None)\<rparr>))
      | (TT_TIMERFD fd, Some a) \<Rightarrow>
          (case netsys_destroy_not_event (ts_ev s a) (ts_nk s) of
             (ne, k) \<Rightarrow> (Inr (), s\<lparr>ts_ev := (ts_ev s)(a := ne), ts_nk := k\<rparr>))
      | (TT_TIMERFD fd, None) \<Rightarrow> (Inr (), s))"

definition netsys_timer_event :: "posix_timer \<Rightarrow> exn + nat" where
  "netsys_timer_event timer =
     (case snd timer of
        Some a \<Rightarrow> Inr a
      | None \<Rightarrow> Inl (Failure ''Netsys_posix.timer_event: timer is not connected with event''))"

text \<open>Expiration: the thread that the system starts calls \<^verbatim>\<open>forward_to_event\<close>; a \<^verbatim>\<open>timerfd\<close> counts. \<open>None\<close>: there is no such timer.\<close>

definition forward_to_event :: "nat \<Rightarrow> tsys \<Rightarrow> tsys option" where
  "forward_to_event a s =
     do { (ne, k) \<leftarrow> netsys_not_event_signal (ts_ev s a) (ts_nk s); Some (s\<lparr>ts_ev := (ts_ev s)(a := ne), ts_nk := k\<rparr>) }"

fun timer_expires :: "timer_key \<Rightarrow> tsys \<Rightarrow> tsys option" where
  "timer_expires (Key_posix tm) s =
     (case ts_posix s tm of
        None \<Rightarrow> None
      | Some (c, SIGEV_NONE) \<Rightarrow> Some s
      | Some (c, SIGEV_THREAD a) \<Rightarrow> forward_to_event a s
      | Some (c, SIGEV_SIGNAL n) \<Rightarrow> Some (s\<lparr>ts_signals := ts_signals s @ [n]\<rparr>))"
| "timer_expires (Key_fd fd) s =
     (if fd \<in> nk_open (ts_nk s)
      then Some (s\<lparr>ts_nk := (ts_nk s)\<lparr>nk_data := (nk_data (ts_nk s))(fd := nk_data (ts_nk s) fd + 1)\<rparr>\<rparr>) else None)"

section \<open>Timers and their events\<close>

text \<open>Waiting on the event at an address.\<close>

abbreviation ev_ok :: "nat \<Rightarrow> tsys \<Rightarrow> bool" where "ev_ok a s \<equiv> ne_ok (ts_ev s a) (ts_nk s)"

lemma forward_to_event_sets:
  assumes "ev_ok a s" "ne_type (ts_ev s a) \<noteq> NE_TIMERFD" "nk_data (ts_nk s) (ne_fd1 (ts_ev s a)) < 2 ^ 64 - 2"
  shows "\<exists>s2. forward_to_event a s = Some s2 \<and> ev_ok a s2 \<and> ne_set (ts_ev s2 a) (ts_nk s2)"
proof -
  obtain ne' k' where "netsys_not_event_signal (ts_ev s a) (ts_nk s) = Some (ne', k')" "ne_ok ne' k'" "ne_set ne' k'"
    using signal_ok [OF assms] by blast
  then show ?thesis by (simp add: forward_to_event_def)
qed

lemma event_consumed:
  assumes "ne_ok ne k" "ne_set ne k" "no_poll os = None"
  shows "netsys_wait_not_event os ne k = Some (Inr ()) \<and>
    (\<exists>ne' k'. netsys_consume_not_event os ne k = Some (Inr (), ne', k') \<and> netsys_wait_not_event os ne' k' = None)"
proof -
  obtain k' where c: "netsys_consume_not_event os ne k = Some (Inr (), ne\<lparr>ne_state := False\<rparr>, k')"
    "\<not> ne_set (ne\<lparr>ne_state := False\<rparr>) k'" using consume_ok [OF assms(1,2)] by blast
  have "ne_fd1 ne \<noteq> -1" using assms(1) by (simp add: ne_ok_def)
  then show ?thesis using assms(2,3) c by (simp add: netsys_wait_not_event_def ne_set_def)
qed

lemma create_posix_timer_fires:
  assumes "create_posix_timer os c (SIGEV_THREAD a) (Some a) s = (Inr timer, s1)"
    and "ev_ok a s" "ne_type (ts_ev s a) \<noteq> NE_TIMERFD" "nk_data (ts_nk s) (ne_fd1 (ts_ev s a)) < 2 ^ 64 - 2"
  shows "netsys_timer_event timer = Inr a \<and> ts_ev s1 = ts_ev s \<and> ts_nk s1 = ts_nk s \<and>
    (\<exists>s2. timer_expires (timer_key_of (fst timer)) s1 = Some s2 \<and> ev_ok a s2 \<and> ne_set (ts_ev s2 a) (ts_nk s2))"
proof -
  obtain tm where t: "timer = (TT_POSIX (le64_bytes tm), Some a)" "s1 = s\<lparr>ts_posix := (ts_posix s)(tm \<mapsto> (c, SIGEV_THREAD a))\<rparr>"
    using assms(1) by (auto simp: create_posix_timer_def split: sum.splits)
  have "\<exists>s2. forward_to_event a s1 = Some s2 \<and> ev_ok a s2 \<and> ne_set (ts_ev s2 a) (ts_nk s2)"
    using forward_to_event_sets [where a = a and s = s1] assms(2-4) by (simp add: t(2))
  then show ?thesis by (simp add: t extract_timer_def le64_of_bytes netsys_timer_event_def)
qed

text \<open>
  A timer with an event. When a timer has been created for a new event (on a \<^verbatim>\<open>timerfd\<close>, or with a thread that forwards to the event) or for an
  existing one, \<^verbatim>\<open>netsys_timer_event\<close> gives that event; a new event is clear, so that a wait blocks; after the expiration of the timer a wait returns,
  and consuming clears the event again.
\<close>

theorem timer_event_fires:
  assumes create: "netsys_timer_create have_timerfd have_eventfd os clock texp s = Some (Inr timer, s1)"
    and texp: "texp = TEXP_EVENT_CREATE \<or>
      (\<exists>a. texp = TEXP_EVENT a \<and> ev_ok a s \<and> ne_type (ts_ev s a) \<noteq> NE_TIMERFD \<and> nk_data (ts_nk s) (ne_fd1 (ts_ev s a)) < 2 ^ 64 - 2)"
    and os: "\<forall>fd. no_eventfd (to_ne os) = Inr fd \<longrightarrow> 0 \<le> fd" "\<forall>fd. no_timerfd (to_ne os) = Inr fd \<longrightarrow> 0 \<le> fd"
      "\<forall>fd1 fd2. no_pipe (to_ne os) = Inr (fd1, fd2) \<longrightarrow> 0 \<le> fd1 \<and> 0 \<le> fd2 \<and> fd1 \<noteq> fd2" "no_poll (to_ne os) = None"
  shows "\<exists>a s2. netsys_timer_event timer = Inr a \<and>
    (texp = TEXP_EVENT_CREATE \<longrightarrow> netsys_wait_not_event (to_ne os) (ts_ev s1 a) (ts_nk s1) = None) \<and>
    timer_expires (timer_key_of (fst timer)) s1 = Some s2 \<and>
    netsys_wait_not_event (to_ne os) (ts_ev s2 a) (ts_nk s2) = Some (Inr ()) \<and>
    (\<exists>ne k. netsys_consume_not_event (to_ne os) (ts_ev s2 a) (ts_nk s2) = Some (Inr (), ne, k) \<and>
      netsys_wait_not_event (to_ne os) ne k = None)"
proof -
  have fires: ?thesis
    if "netsys_timer_event timer = Inr a" "timer_expires (timer_key_of (fst timer)) s1 = Some s2" "ev_ok a s2" "ne_set (ts_ev s2 a) (ts_nk s2)"
      "texp = TEXP_EVENT_CREATE \<longrightarrow> ev_ok a s1 \<and> \<not> ne_set (ts_ev s1 a) (ts_nk s1)" for a s2
  proof -
    have "netsys_wait_not_event (to_ne os) (ts_ev s1 a) (ts_nk s1) = None" if "ev_ok a s1" "\<not> ne_set (ts_ev s1 a) (ts_nk s1)"
      using that os(4) by (simp add: netsys_wait_not_event_def ne_ok_def ne_set_def)
    then show ?thesis using that event_consumed [OF that(3,4) os(4)] by blast
  qed
  obtain c where c: "clockid_val clock = Some c" using create by (cases "clockid_val clock") (auto simp: netsys_timer_create_def)
  consider (ev) a where "texp = TEXP_EVENT a" "ev_ok a s" "ne_type (ts_ev s a) \<noteq> NE_TIMERFD" "nk_data (ts_nk s) (ne_fd1 (ts_ev s a)) < 2 ^ 64 - 2"
    | (fd) "texp = TEXP_EVENT_CREATE" "have_timerfd" | (new) "texp = TEXP_EVENT_CREATE" "\<not> have_timerfd"
    using texp by blast
  then show ?thesis
  proof cases
    case ev
    then have "create_posix_timer os c (SIGEV_THREAD a) (Some a) s = (Inr timer, s1)" using create c by (simp add: netsys_timer_create_def)
    from create_posix_timer_fires [OF this ev(2-4)] show ?thesis using ev(1) fires by blast
  next
    case fd
    then obtain ne k where n: "netsys_not_event_timerfd (to_ne os) (ts_nk s) = (Inr ne, k)"
      "s1 = s\<lparr>ts_nk := k, ts_ev := (ts_ev s)(ts_next s := ne), ts_next := ts_next s + 1\<rparr>"
      "timer = (TT_TIMERFD (ne_fd1 ne), Some (ts_next s))"
      using create c by (auto simp: netsys_timer_create_def new_event_def netsys_return_not_event_fd_def split: sum.splits prod.splits if_splits)
    have "ne_ok ne k \<and> \<not> ne_set ne k \<and> ne_type ne = NE_TIMERFD"
      using n(1) os(2) by (auto simp: netsys_not_event_timerfd_def nk_new_def ne_ok_def ne_set_def Let_def split: sum.splits option.splits)
    then show ?thesis using fires [of "ts_next s"] fd by (auto simp: n(2,3) netsys_timer_event_def ne_ok_def ne_set_def)
  next
    case new
    then obtain ne k s' where n: "netsys_create_not_event have_eventfd (to_ne os) False (ts_nk s) = (Inr ne, k)"
      "s' = s\<lparr>ts_nk := k, ts_ev := (ts_ev s)(ts_next s := ne), ts_next := ts_next s + 1\<rparr>"
      "create_posix_timer os c (SIGEV_THREAD (ts_next s)) (Some (ts_next s)) s' = (Inr timer, s1)"
      using create c by (auto simp: netsys_timer_create_def new_event_def split: sum.splits prod.splits)
    note ok = create_ok [OF n(1) os(1,3)]
    then have "ev_ok (ts_next s) s'" "ne_type (ts_ev s' (ts_next s)) \<noteq> NE_TIMERFD" "\<not> ne_set (ts_ev s' (ts_next s)) (ts_nk s')"
      "nk_data (ts_nk s') (ne_fd1 (ts_ev s' (ts_next s))) < 2 ^ 64 - 2"
      by (auto simp: n(2) ne_set_def)
    then show ?thesis using create_posix_timer_fires [OF n(3)] fires new(1) by metis
  qed
qed

definition sample_timer_os :: timer_os where
  "sample_timer_os = \<lparr>to_ne = sample_ne_os, to_create = Inr 0x1234, to_err = (\<lambda>site. None), to_signo = id, to_rel = id\<rparr>"

definition sample_tsys :: tsys where
  "sample_tsys = \<lparr>ts_nk = sample_ne_nk, ts_ev = (\<lambda>a. sample_ne), ts_next = 1, ts_posix = (\<lambda>tm. None), ts_left = (\<lambda>key. (0, 0)), ts_signals = []\<rparr>"

theorem timer_event_fires_witness:
  "\<exists>timer s1 s2. netsys_timer_create True False sample_timer_os CLOCK_REALTIME (TEXP_EVENT 0) sample_tsys = Some (Inr timer, s1) \<and>
     timer_expires (timer_key_of (fst timer)) s1 = Some s2 \<and>
     netsys_wait_not_event sample_ne_os (ts_ev s2 0) (ts_nk s2) = Some (Inr ())"
proof -
  let ?t = "(TT_POSIX (le64_bytes 0x1234), Some 0)"
  obtain s1 where c: "netsys_timer_create True False sample_timer_os CLOCK_REALTIME (TEXP_EVENT 0) sample_tsys = Some (Inr ?t, s1)"
    by (simp add: netsys_timer_create_def clockid_val_def create_posix_timer_def sample_timer_os_def)
  have ev: "TEXP_EVENT 0 = TEXP_EVENT_CREATE \<or> (\<exists>a. TEXP_EVENT 0 = TEXP_EVENT a \<and> ev_ok a sample_tsys \<and>
      ne_type (ts_ev sample_tsys a) \<noteq> NE_TIMERFD \<and> nk_data (ts_nk sample_tsys) (ne_fd1 (ts_ev sample_tsys a)) < 2 ^ 64 - 2)"
    using sample_ne_ok by (simp add: sample_tsys_def) (simp add: sample_ne_def sample_ne_nk_def)
  have os: "\<forall>fd. no_eventfd (to_ne sample_timer_os) = Inr fd \<longrightarrow> 0 \<le> fd" "\<forall>fd. no_timerfd (to_ne sample_timer_os) = Inr fd \<longrightarrow> 0 \<le> fd"
      "\<forall>fd1 fd2. no_pipe (to_ne sample_timer_os) = Inr (fd1, fd2) \<longrightarrow> 0 \<le> fd1 \<and> 0 \<le> fd2 \<and> fd1 \<noteq> fd2"
      "no_poll (to_ne sample_timer_os) = None"
    by (simp_all add: sample_timer_os_def sample_ne_os_def)
  have "netsys_timer_event ?t = Inr 0" "to_ne sample_timer_os = sample_ne_os"
    by (simp_all add: netsys_timer_event_def sample_timer_os_def)
  then obtain s2 where "timer_expires (timer_key_of (fst ?t)) s1 = Some s2"
      "netsys_wait_not_event sample_ne_os (ts_ev s2 0) (ts_nk s2) = Some (Inr ())"
    using timer_event_fires [OF c ev os] by auto
  then show ?thesis using c by - (rule exI [of _ ?t], rule exI [of _ s1], rule exI [of _ s2], simp)
qed

text \<open>Deleting: a POSIX timer never expires again, the descriptor of a \<^verbatim>\<open>timerfd\<close> is closed; a second deletion of a POSIX timer fails.\<close>

lemma netsys_timer_delete_posix:
  assumes "netsys_timer_delete os (TT_POSIX v, ev) s = (Inr (), s1)"
  shows "timer_expires (timer_key_of (TT_POSIX v)) s1 = None"
    "netsys_timer_delete os (TT_POSIX v, ev) s1 = (Inl (Unix_error 22 ''timer_delete''), s1)"
  using assms by (auto simp: netsys_timer_delete_def split: option.splits)

lemma netsys_timer_delete_fd:
  assumes "ev_ok a s" "ne_fd1 (ts_ev s a) = fd" "netsys_timer_delete os (TT_TIMERFD fd, Some a) s = (r, s1)"
  shows "r = Inr () \<and> timer_expires (timer_key_of (TT_TIMERFD fd)) s1 = None"
  using assms by (auto simp: netsys_timer_delete_def netsys_destroy_not_event_def nk_close_def ne_ok_def Let_def split: if_splits)

lemma timer_settime_gettime:
  assumes "0 \<le> sec" "sec \<le> 2 ^ 53" "0 \<le> nsec" "nsec \<le> 999999999" "\<forall>site. timer_call os site (fst timer) s = None"
    "make_timespec ival = Some (Inr ts)"
  shows "\<exists>s1. netsys_timer_settime os timer False ival (alloc_timespec_pair (sec, nsec)) s = Some (Inr (), s1) \<and>
    netsys_timer_gettime os timer s1 = Inr (alloc_timespec_pair (sec, nsec))"
proof -
  have "timer_call os site (fst timer) (s\<lparr>ts_left := x\<rparr>) = timer_call os site (fst timer) s" for site x by (cases "fst timer") simp_all
  then show ?thesis
    using assms timespec_roundtrip [OF assms(1-4)] by (simp add: netsys_timer_settime_def netsys_timer_gettime_def)
qed

end
