(* ===== verification/Sem.thy ===== *)
theory Sem
  imports Netsys_Prelude "HOL-Library.Multiset"
begin

text \<open>
  Semaphores, \<^verbatim>\<open>src/src/netsys/netsys_c_sem.c\<close>, in the configuration with named and anonymous POSIX semaphores on a 64 bit platform.

  The state of the system: the values of the semaphores by address, the names, how many references this process has to a named semaphore, and
  which addresses hold anonymous ones. A reference to a named semaphore that is already open gives the same address. An operation on a semaphore that is not
  there (closed or destroyed) has the outcome \<open>Undefined\<close>, a wait that cannot continue the outcome \<open>Blocked\<close>.
\<close>

section \<open>State\<close>

record sem_block =
  sem_ptr :: "nat option"
  sem_close_flag :: bool

record sem_sys =
  ss_val :: "nat \<Rightarrow> nat"
  ss_name :: "string \<Rightarrow> nat option"
  ss_refs :: "nat \<Rightarrow> nat"
  ss_anon :: "nat set"

text \<open>\<open>so_new\<close> is the address of a new named semaphore; \<open>so_err\<close> are failures of the calls for other reasons, such as an interrupted wait.\<close>

record sem_os =
  so_new :: nat
  so_err :: "nat \<Rightarrow> int option"

datatype 'a outcome = Done 'a | Blocked | Undefined

definition SEM_VALUE_MAX :: nat where "SEM_VALUE_MAX = 2147483647"

definition sem_there :: "nat \<Rightarrow> sem_sys \<Rightarrow> bool" where
  "sem_there a s \<longleftrightarrow> 0 < ss_refs s a \<or> a \<in> ss_anon s"

section \<open>System calls\<close>


definition sys_sem_close :: "sem_os \<Rightarrow> nat \<Rightarrow> sem_sys \<Rightarrow> int option \<times> sem_sys" where
  "sys_sem_close os a s =
     (if ss_refs s a = 0 then (Some 22, s)
      else (None, s\<lparr>ss_refs := (ss_refs s)(a := ss_refs s a - 1)\<rparr>))"

section \<open>Primitives\<close>

definition alloc_sem_block :: "nat \<Rightarrow> bool \<Rightarrow> sem_block" where
  "alloc_sem_block a close_flag = \<lparr>sem_ptr = Some a, sem_close_flag = close_flag\<rparr>"



definition netsys_sem_value_max :: nat where
  "netsys_sem_value_max = SEM_VALUE_MAX"


definition netsys_sem_close :: "sem_os \<Rightarrow> sem_block \<Rightarrow> sem_sys \<Rightarrow> (exn + unit) \<times> sem_block \<times> sem_sys" where
  "netsys_sem_close os sb s =
     (case sem_ptr sb of
        None \<Rightarrow> (Inl (Invalid_argument ''Netsys.sem_close: stale semaphore''), sb, s)
      | Some a \<Rightarrow>
          (case sys_sem_close os a s of
             (Some e, s1) \<Rightarrow> (Inl (Unix_error e ''sem_close''), sb, s1)
           | (None, s1) \<Rightarrow> (Inr (), sb\<lparr>sem_ptr := None\<rparr>, s1)))"


definition netsys_sem_init :: "sem_os \<Rightarrow> nat \<Rightarrow> u64 \<Rightarrow> sem_sys \<Rightarrow> (exn + sem_block) \<times> sem_sys" where
  "netsys_sem_init os a initv s =
     (let init = ucast (Long_val initv) :: u32
      in (case (if unat init > SEM_VALUE_MAX then Some 22 else so_err os 179) of
            Some e \<Rightarrow> (Inl (Unix_error e ''sem_init''), s)
          | None \<Rightarrow> (Inr (alloc_sem_block a False), s\<lparr>ss_val := (ss_val s)(a := unat init), ss_anon := insert a (ss_anon s)\<rparr>)))"

definition netsys_as_sem :: "nat \<Rightarrow> sem_block" where
  "netsys_as_sem a = alloc_sem_block a False"


definition netsys_sem_getvalue :: "sem_os \<Rightarrow> sem_block \<Rightarrow> sem_sys \<Rightarrow> (exn + int) outcome" where
  "netsys_sem_getvalue os sb s =
     (case sem_ptr sb of
        None \<Rightarrow> Done (Inl (Invalid_argument ''Netsys.sem_getvalue: stale semaphore''))
      | Some a \<Rightarrow>
          if \<not> sem_there a s then Undefined
          else (case so_err os 233 of
                  Some e \<Rightarrow> Done (Inl (Unix_error e ''sem_getvalue''))
                | None \<Rightarrow> let sval = int (ss_val s a) in Done (Inr (if sval < 0 then 0 else sval))))"

definition netsys_sem_post :: "sem_os \<Rightarrow> sem_block \<Rightarrow> sem_sys \<Rightarrow> ((exn + unit) \<times> sem_sys) outcome" where
  "netsys_sem_post os sb s =
     (case sem_ptr sb of
        None \<Rightarrow> Done (Inl (Invalid_argument ''Netsys.sem_post: stale semaphore''), s)
      | Some a \<Rightarrow>
          if \<not> sem_there a s then Undefined
          else if ss_val s a \<ge> SEM_VALUE_MAX then Done (Inl (Unix_error 75 ''sem_post''), s)
          else Done (Inr (), s\<lparr>ss_val := (ss_val s)(a := ss_val s a + 1)\<rparr>))"

text \<open>The second argument is the constant constructor \<^verbatim>\<open>SEM_WAIT_BLOCK\<close> (0) or \<^verbatim>\<open>SEM_WAIT_NONBLOCK\<close>.\<close>

definition netsys_sem_wait :: "sem_os \<Rightarrow> sem_block \<Rightarrow> int \<Rightarrow> sem_sys \<Rightarrow> ((exn + unit) \<times> sem_sys) outcome" where
  "netsys_sem_wait os sb tag s =
     (case sem_ptr sb of
        None \<Rightarrow> Done (Inl (Invalid_argument ''Netsys.sem_wait: stale semaphore''), s)
      | Some a \<Rightarrow>
          if \<not> sem_there a s then Undefined
          else (case so_err os 278 of
                  Some e \<Rightarrow> Done (Inl (Unix_error e ''sem_wait''), s)
                | None \<Rightarrow>
                    if 0 < ss_val s a then Done (Inr (), s\<lparr>ss_val := (ss_val s)(a := ss_val s a - 1)\<rparr>)
                    else if tag = 0 then Blocked else Done (Inl (Unix_error 11 ''sem_wait''), s)))"

section \<open>References to semaphores\<close>

























text \<open>A process that has created one named semaphore.\<close>

definition sem_example_sys :: sem_sys where
  "sem_example_sys = \<lparr>ss_val = (\<lambda>a. 0), ss_name = Map.empty, ss_refs = (\<lambda>a. 0), ss_anon = {}\<rparr>"

definition sem_example_os :: sem_os where
  "sem_example_os = \<lparr>so_new = 7, so_err = (\<lambda>k. None)\<rparr>"



section \<open>Counting\<close>

text \<open>
  Clients of one semaphore: \<open>H\<close> are the threads that have waited successfully and not posted since. They share the block \<open>sb\<close>; the calls of
  different threads interleave in any order.
\<close>

inductive sem_client_step :: "sem_block \<Rightarrow> nat set \<times> sem_sys \<Rightarrow> nat set \<times> sem_sys \<Rightarrow> bool" for sb where
  acquired: "t \<notin> H \<Longrightarrow> netsys_sem_wait os sb tag s = Done (Inr (), s') \<Longrightarrow> sem_client_step sb (H, s) (insert t H, s')"
| not_acquired: "netsys_sem_wait os sb tag s = Done (Inl e, s') \<Longrightarrow> sem_client_step sb (H, s) (H, s')"
| released: "t \<in> H \<Longrightarrow> netsys_sem_post os sb s = Done (Inr (), s') \<Longrightarrow> sem_client_step sb (H, s) (H - {t}, s')"
| not_released: "netsys_sem_post os sb s = Done (Inl e, s') \<Longrightarrow> sem_client_step sb (H, s) (H, s')"

definition count_inv :: "nat \<Rightarrow> nat \<Rightarrow> nat set \<times> sem_sys \<Rightarrow> bool" where
  "count_inv a n st \<longleftrightarrow> finite (fst st) \<and> sem_there a (snd st) \<and> ss_val (snd st) a + card (fst st) = n"

lemma sem_client_step_inv: "sem_client_step sb st st' \<Longrightarrow> sem_ptr sb = Some a \<Longrightarrow> count_inv a n st \<Longrightarrow> count_inv a n st'"
proof (induction rule: sem_client_step.induct)
  case (acquired t H os tag s s')
  then show ?case by (auto simp: count_inv_def netsys_sem_wait_def sem_there_def split: if_splits option.splits)
next
  case (not_acquired os tag s e s' H)
  then show ?case by (auto simp: netsys_sem_wait_def split: if_splits option.splits)
next
  case (released t H os s s')
  then have "0 < card H" by (auto simp: count_inv_def card_gt_0_iff)
  then show ?case using released by (auto simp: count_inv_def netsys_sem_post_def sem_there_def split: if_splits)
next
  case (not_released os s e s' H)
  then show ?case by (auto simp: netsys_sem_post_def split: if_splits)
qed

interpretation counting: step_system
  "\<lambda>st. sem_there a (snd st) \<and> fst st = {} \<and> ss_val (snd st) a = n \<and> sem_ptr sb = Some a"
  "\<lambda>st st'. sem_client_step sb st st' \<and> sem_ptr sb = Some a" "count_inv a n" for a n sb
  by (unfold_locales, simp add: count_inv_def, auto intro: sem_client_step_inv)

text \<open>
  Claim C10: counting. A semaphore initialised with \<open>n\<close> (at most \<^verbatim>\<open>SEM_VALUE_MAX\<close>) that threads wait for and post in any interleaving, failed
  and non-blocking calls included, is held by at most \<open>n\<close> threads at a time (one at a time for \<open>n = 1\<close>), and its value is the number of
  threads that can still acquire it. A wait blocks only when \<open>n\<close> threads hold the semaphore, the non-blocking one then fails with \<^verbatim>\<open>EAGAIN\<close>, and a holder
  can always post.
\<close>

theorem sem_counting:
  assumes init: "netsys_sem_init os0 a (Val_long (of_nat n)) s00 = (Inr sb, s0)" "n \<le> SEM_VALUE_MAX"
    and run: "(sem_client_step sb)\<^sup>*\<^sup>* ({}, s0) (H, s)"
    and no_err: "so_err os = (\<lambda>k. None)"
  shows "finite H \<and> card H \<le> n \<and> netsys_sem_getvalue os sb s = Done (Inr (int (n - card H))) \<and>
    (netsys_sem_wait os sb 0 s = Blocked \<longleftrightarrow> card H = n) \<and>
    (card H = n \<longrightarrow> netsys_sem_wait os sb 1 s = Done (Inl (Unix_error 11 ''sem_wait''), s)) \<and>
    (card H < n \<longrightarrow> (\<exists>s'. netsys_sem_wait os sb tag s = Done (Inr (), s'))) \<and>
    (H \<noteq> {} \<longrightarrow> (\<exists>s'. netsys_sem_post os sb s = Done (Inr (), s')))"
proof -
  have "int n < 2 ^ 62" using init(2) by (simp add: SEM_VALUE_MAX_def)
  then have "Long_val (Val_long (of_nat n)) = of_nat n" using Long_val_Val_long [of "int n"] by simp
  moreover have "unat (ucast (of_nat n :: u64) :: u32) = n"
    using init(2) by (simp add: SEM_VALUE_MAX_def unsigned_ucast_eq unat_of_nat take_bit_nat_eq_self_iff)
  ultimately have s0: "sb = alloc_sem_block a False" "ss_val s0 a = n" "sem_there a s0"
    using init(1) by (auto simp: netsys_sem_init_def sem_there_def Let_def split: option.splits if_splits)
  have ptr: "sem_ptr sb = Some a" using s0(1) by (simp add: alloc_sem_block_def)
  have "(\<lambda>st st'. sem_client_step sb st st' \<and> sem_ptr sb = Some a)\<^sup>*\<^sup>* ({}, s0) (H, s)" using run ptr by simp
  from counting.reachable_inv [OF _ this] have inv: "count_inv a n (H, s)" using s0 ptr by simp
  then have "H = {} \<or> 0 < card H" by (auto simp: count_inv_def card_gt_0_iff)
  then show ?thesis using inv ptr no_err init(2)
    by (auto simp: count_inv_def netsys_sem_getvalue_def netsys_sem_wait_def netsys_sem_post_def)
qed

text \<open>A mutex of which one thread is the holder.\<close>

theorem sem_counting_witness:
  "netsys_sem_wait sem_example_os (netsys_as_sem 7) 0 (sem_example_sys\<lparr>ss_anon := {7}\<rparr>) = Blocked"
proof -
  have 1: "Long_val (Val_long 1) = 1" using Long_val_Val_long [of 1] by simp
  have init: "netsys_sem_init sem_example_os 7 (Val_long (of_nat 1)) sem_example_sys =
      (Inr (netsys_as_sem 7), sem_example_sys\<lparr>ss_val := (\<lambda>a. 0)(7 := 1), ss_anon := {7}\<rparr>)"
    by (simp add: netsys_sem_init_def 1 sem_example_os_def sem_example_sys_def SEM_VALUE_MAX_def netsys_as_sem_def)
  have "netsys_sem_wait sem_example_os (netsys_as_sem 7) 0 (sem_example_sys\<lparr>ss_val := (\<lambda>a. 0)(7 := 1), ss_anon := {7}\<rparr>) =
      Done (Inr (), sem_example_sys\<lparr>ss_anon := {7}\<rparr>)"
    by (simp add: netsys_sem_wait_def netsys_as_sem_def alloc_sem_block_def sem_there_def sem_example_os_def sem_example_sys_def fun_eq_iff)
  from sem_client_step.acquired [OF _ this, of 5 "{}"] have run: "(sem_client_step (netsys_as_sem 7))\<^sup>*\<^sup>*
      ({}, sem_example_sys\<lparr>ss_val := (\<lambda>a. 0)(7 := 1), ss_anon := {7}\<rparr>) ({5}, sem_example_sys\<lparr>ss_anon := {7}\<rparr>)"
    by (simp add: r_into_rtranclp)
  show ?thesis using sem_counting [OF init _ run, of sem_example_os] by (simp add: SEM_VALUE_MAX_def sem_example_os_def)
qed

text \<open>
  The initial value is an \<^verbatim>\<open>unsigned int\<close>: of a larger OCaml integer only the low 32 bits count, so a request for \<open>2 ^ 32\<close> creates a semaphore
  with value 0 instead of failing.
\<close>

lemma sem_init_truncates:
  "so_err os = (\<lambda>k. None) \<Longrightarrow>
   netsys_sem_init os a (Val_long 4294967296) s = (Inr (netsys_as_sem a), s\<lparr>ss_val := (ss_val s)(a := 0), ss_anon := insert a (ss_anon s)\<rparr>)"
  using Long_val_Val_long [of 4294967296] by (simp add: netsys_sem_init_def netsys_as_sem_def)

text \<open>Closing an anonymous semaphore fails and leaves the block and the semaphore as they were.\<close>

lemma sem_close_anonymous:
  "ss_refs s a = 0 \<Longrightarrow> netsys_sem_close os (netsys_as_sem a) s = (Inl (Unix_error 22 ''sem_close''), netsys_as_sem a, s)"
  by (simp add: netsys_sem_close_def netsys_as_sem_def alloc_sem_block_def sys_sem_close_def)

end
