(* ===== verification/Outofheap.thy ===== *)
theory Outofheap
  imports Netsys_Prelude
begin

text \<open>
  The write barrier of the OCaml runtime, \<^verbatim>\<open>src/src/netsys/netsys_c_outofheap.c\<close>: replacements of \<^verbatim>\<open>caml_modify\<close> and \<^verbatim>\<open>caml_initialize\<close> that
  may also be called for fields outside the heap.

  The state: the fields of values, the table of remembered fields \<^verbatim>\<open>caml_ref_table\<close> (the entries before \<^verbatim>\<open>ptr\<close> and the number of entries up to
  \<^verbatim>\<open>limit\<close>), the phase of the collector, and the values that were passed to \<^verbatim>\<open>caml_darken\<close>. The macros \<^verbatim>\<open>Is_in_heap\<close> (the major
  heap) and \<^verbatim>\<open>Is_young\<close> and the function \<^verbatim>\<open>caml_realloc_ref_table\<close> of the runtime are parameters. A write behind the table is \<open>None\<close>.
\<close>

record gc_state =
  gc_field :: "addr \<Rightarrow> u64"
  gc_ref :: "addr list"
  gc_limit :: nat
  gc_marking :: bool
  gc_darkened :: "u64 list"

record runtime =
  Is_in_heap :: "addr \<Rightarrow> bool"
  Is_young :: "u64 \<Rightarrow> bool"
  caml_realloc_ref_table :: "addr list \<times> nat \<Rightarrow> addr list \<times> nat"

definition young_block :: "runtime \<Rightarrow> u64 \<Rightarrow> bool" where
  "young_block rt v \<longleftrightarrow> Is_block v \<and> Is_young rt v"

text \<open>The entry of a field into the table, with the test for a full table.\<close>

definition ref_table_add :: "runtime \<Rightarrow> addr \<Rightarrow> gc_state \<Rightarrow> gc_state option" where
  "ref_table_add rt fp s =
     (let (ents, lim) = (if gc_limit s \<le> length (gc_ref s) then caml_realloc_ref_table rt (gc_ref s, gc_limit s) else (gc_ref s, gc_limit s))
      in if length ents < lim then Some (s\<lparr>gc_ref := ents @ [fp], gc_limit := lim\<rparr>) else None)"

definition caml_modify :: "runtime \<Rightarrow> addr \<Rightarrow> u64 \<Rightarrow> gc_state \<Rightarrow> gc_state option" where
  "caml_modify rt fp v s =
     (let old = gc_field s fp;
          s1 = s\<lparr>gc_field := (gc_field s)(fp := v)\<rparr>
      in if Is_in_heap rt fp
         then (let s2 = (if gc_marking s then s1\<lparr>gc_darkened := gc_darkened s1 @ [old]\<rparr> else s1)
               in if young_block rt v \<and> \<not> young_block rt old then ref_table_add rt fp s2 else Some s2)
         else Some s1)"

definition caml_initialize :: "runtime \<Rightarrow> addr \<Rightarrow> u64 \<Rightarrow> gc_state \<Rightarrow> gc_state option" where
  "caml_initialize rt fp v s =
     (let s1 = s\<lparr>gc_field := (gc_field s)(fp := v)\<rparr>
      in if young_block rt v \<and> Is_in_heap rt fp then ref_table_add rt fp s1 else Some s1)"

section \<open>Behaviour\<close>

text \<open>What the runtime promises of \<^verbatim>\<open>caml_realloc_ref_table\<close>: the entries stay and there is room for one more.\<close>

definition realloc_ok :: "runtime \<Rightarrow> bool" where
  "realloc_ok rt \<longleftrightarrow> (\<forall>ents lim. fst (caml_realloc_ref_table rt (ents, lim)) = ents \<and> length ents < snd (caml_realloc_ref_table rt (ents, lim)))"

lemma ref_table_add_ok:
  assumes "realloc_ok rt"
  shows "\<exists>lim. ref_table_add rt fp s = Some (s\<lparr>gc_ref := gc_ref s @ [fp], gc_limit := lim\<rparr>)"
proof -
  obtain ents lim where r: "caml_realloc_ref_table rt (gc_ref s, gc_limit s) = (ents, lim)" by fastforce
  then have "ents = gc_ref s" "length ents < lim" using assms unfolding realloc_ok_def by (metis fst_conv, metis fst_conv snd_conv)
  then show ?thesis using r
    by (cases "gc_limit s \<le> length (gc_ref s)") (auto simp: ref_table_add_def intro: exI [of _ "gc_limit s"])
qed

text \<open>
  The remembered set: the minor collector finds the young blocks that fields of the major heap point to, because each such field is in the table; and
  the table has fields of the major heap only.
\<close>

definition remembered :: "runtime \<Rightarrow> gc_state \<Rightarrow> bool" where
  "remembered rt s \<longleftrightarrow> (\<forall>fp. Is_in_heap rt fp \<and> young_block rt (gc_field s fp) \<longrightarrow> fp \<in> set (gc_ref s)) \<and> (\<forall>fp \<in> set (gc_ref s). Is_in_heap rt fp)"

inductive mutator_step :: "runtime \<Rightarrow> gc_state \<Rightarrow> gc_state \<Rightarrow> bool" for rt where
  modified: "caml_modify rt fp v s = Some s' \<Longrightarrow> mutator_step rt s s'"
| initialized: "caml_initialize rt fp v s = Some s' \<Longrightarrow> mutator_step rt s s'"

definition barrier_inv :: "runtime \<Rightarrow> gc_state \<Rightarrow> gc_state \<Rightarrow> bool" where
  "barrier_inv rt s0 s \<longleftrightarrow> remembered rt s \<and> gc_marking s = gc_marking s0 \<and> (\<exists>ext. gc_darkened s = gc_darkened s0 @ ext)"

lemma caml_modify_ok:
  assumes "realloc_ok rt" "remembered rt s"
  shows "\<exists>s'. caml_modify rt fp v s = Some s' \<and> remembered rt s' \<and> gc_field s' = (gc_field s)(fp := v) \<and> gc_marking s' = gc_marking s \<and>
    gc_darkened s' = gc_darkened s @ (if Is_in_heap rt fp \<and> gc_marking s then [gc_field s fp] else [])"
proof -
  obtain s2 where s2: "s2 = s\<lparr>gc_field := (gc_field s)(fp := v), gc_darkened := gc_darkened s @ (if gc_marking s then [gc_field s fp] else [])\<rparr>"
    by blast
  obtain lim where "ref_table_add rt fp s2 = Some (s2\<lparr>gc_ref := gc_ref s2 @ [fp], gc_limit := lim\<rparr>)"
    using ref_table_add_ok [OF assms(1)] by blast
  then show ?thesis using assms(2) s2 by (auto simp: caml_modify_def remembered_def Let_def)
qed

lemma caml_initialize_ok:
  assumes "realloc_ok rt" "remembered rt s"
  shows "\<exists>s'. caml_initialize rt fp v s = Some s' \<and> remembered rt s' \<and> gc_field s' = (gc_field s)(fp := v) \<and> gc_marking s' = gc_marking s \<and>
    gc_darkened s' = gc_darkened s"
proof -
  obtain s1 where s1: "s1 = s\<lparr>gc_field := (gc_field s)(fp := v)\<rparr>" by blast
  obtain lim where "ref_table_add rt fp s1 = Some (s1\<lparr>gc_ref := gc_ref s1 @ [fp], gc_limit := lim\<rparr>)"
    using ref_table_add_ok [OF assms(1)] by blast
  then show ?thesis using assms(2) s1 by (auto simp: caml_initialize_def remembered_def Let_def)
qed

lemma mutator_step_inv: "mutator_step rt s s' \<Longrightarrow> realloc_ok rt \<Longrightarrow> barrier_inv rt s0 s \<Longrightarrow> barrier_inv rt s0 s'"
proof (induction rule: mutator_step.induct)
  case (modified fp v s s')
  then show ?case using caml_modify_ok [of rt s fp v] by (force simp: barrier_inv_def)
next
  case (initialized fp v s s')
  then show ?case using caml_initialize_ok [of rt s fp v] by (auto simp: barrier_inv_def)
qed

interpretation barrier: step_system "\<lambda>s. s = s0 \<and> remembered rt s \<and> realloc_ok rt" "\<lambda>s s'. mutator_step rt s s' \<and> realloc_ok rt" "barrier_inv rt s0" for rt s0
  by (unfold_locales, simp add: barrier_inv_def, auto intro: mutator_step_inv)

text \<open>
  Claim C12: the write barrier. In any sequence of modifications and initialisations of fields inside and outside the heap, no call writes behind
  the table, every field of the major heap that points to a young block is in the table, and no field outside the heap enters it; each
  modification stores the value, and while the collector marks, the overwritten content of a heap field is handed to \<^verbatim>\<open>caml_darken\<close>.
\<close>

theorem write_barrier:
  assumes rt: "realloc_ok rt" and s0: "remembered rt s0" and run: "(mutator_step rt)\<^sup>*\<^sup>* s0 s"
  shows "(\<forall>fp. Is_in_heap rt fp \<and> young_block rt (gc_field s fp) \<longrightarrow> fp \<in> set (gc_ref s)) \<and> (\<forall>fp \<in> set (gc_ref s). Is_in_heap rt fp) \<and>
    (\<exists>s'. caml_modify rt fp v s = Some s' \<and> gc_field s' = (gc_field s)(fp := v) \<and>
       gc_darkened s' = gc_darkened s @ (if Is_in_heap rt fp \<and> gc_marking s0 then [gc_field s fp] else [])) \<and>
    (\<exists>s'. caml_initialize rt fp v s = Some s' \<and> gc_field s' = (gc_field s)(fp := v))"
proof -
  have "(\<lambda>s s'. mutator_step rt s s' \<and> realloc_ok rt)\<^sup>*\<^sup>* s0 s" using run rt by simp
  from barrier.reachable_inv [OF _ this] have inv: "barrier_inv rt s0 s" using s0 rt by simp
  then have rem: "remembered rt s" "gc_marking s = gc_marking s0" by (simp_all add: barrier_inv_def)
  have "\<exists>s'. caml_modify rt fp v s = Some s' \<and> gc_field s' = (gc_field s)(fp := v) \<and>
      gc_darkened s' = gc_darkened s @ (if Is_in_heap rt fp \<and> gc_marking s0 then [gc_field s fp] else [])"
    using caml_modify_ok [OF rt rem(1), of fp v] unfolding rem(2) by blast
  moreover have "\<exists>s'. caml_initialize rt fp v s = Some s' \<and> gc_field s' = (gc_field s)(fp := v)"
    using caml_initialize_ok [OF rt rem(1), of fp v] by blast
  ultimately show ?thesis using rem(1) unfolding remembered_def by blast
qed

definition sample_rt :: runtime where
  "sample_rt = \<lparr>Is_in_heap = (\<lambda>fp. 1000 \<le> fp \<and> fp < 2000), Is_young = (\<lambda>v. v < 1000), caml_realloc_ref_table = (\<lambda>(ents, lim). (ents, length ents + 1))\<rparr>"

definition sample_gc :: gc_state where
  "sample_gc = \<lparr>gc_field = (\<lambda>fp. 1), gc_ref = [], gc_limit = 0, gc_marking = True, gc_darkened = []\<rparr>"

theorem write_barrier_witness:
  "\<exists>s. caml_modify sample_rt 1000 16 sample_gc = Some s \<and> 1000 \<in> set (gc_ref s) \<and> caml_modify sample_rt 2000 16 sample_gc \<noteq> None"
proof -
  have rt: "realloc_ok sample_rt" by (simp add: realloc_ok_def sample_rt_def)
  have s0: "remembered sample_rt sample_gc" by (simp add: remembered_def sample_gc_def young_block_def Is_block_def)
  obtain s where s: "caml_modify sample_rt 1000 16 sample_gc = Some s" "gc_field s = (gc_field sample_gc)(1000 := 16)"
    using write_barrier [OF rt s0 rtranclp.rtrancl_refl] by blast
  have run: "(mutator_step sample_rt)\<^sup>*\<^sup>* sample_gc s" using s(1) by (blast intro: mutator_step.modified)
  have "1000 \<in> set (gc_ref s)"
    using write_barrier [OF rt s0 run] s(2) by (simp add: sample_rt_def young_block_def Is_block_def)
  then show ?thesis using s(1) write_barrier [OF rt s0 rtranclp.rtrancl_refl, of 2000 16] by blast
qed

end
