(* ===== verification/Ioprio.thy ===== *)
theory Ioprio
  imports Netsys_Prelude
begin

text \<open>
  I/O priorities, \<^verbatim>\<open>src/src/netsys/netsys_c_ioprio.c\<close>, on a Linux system that supports them.

  The system calls \<^verbatim>\<open>ioprio_get\<close> and \<^verbatim>\<open>ioprio_set\<close> act on the processes that a target selects (\<^verbatim>\<open>who = 0\<close> is the caller, its group or its user): setting changes all
  of them, after the checks for the class and the level 0 to 7; getting answers the best of their priorities (\<open>io_best\<close>, the kernel's choice). An OCaml
  integer is passed as a C \<^verbatim>\<open>int\<close>, modulo \<open>2 ^ 32\<close>.
\<close>

record proc =
  p_pid :: u32
  p_pgrp :: u32
  p_uid :: u32
  p_ioprio :: u32

record io_os =
  io_self :: proc
  io_best :: "u32 list \<Rightarrow> u32"
  io_denied :: "int option"

datatype ioprio_who = IOPRIO_WHO_PROCESS | IOPRIO_WHO_PGRP | IOPRIO_WHO_USER

fun who_of :: "ioprio_who \<Rightarrow> proc \<Rightarrow> u32" where
  "who_of IOPRIO_WHO_PROCESS p = p_pid p"
| "who_of IOPRIO_WHO_PGRP p = p_pgrp p"
| "who_of IOPRIO_WHO_USER p = p_uid p"

definition selected :: "io_os \<Rightarrow> ioprio_who \<Rightarrow> u32 \<Rightarrow> proc \<Rightarrow> bool" where
  "selected os which who p \<longleftrightarrow> who_of which p = (if who = 0 then who_of which (io_self os) else who)"

abbreviation (input) "IOPRIO_CLASS_NONE \<equiv> (0 :: u32)"
abbreviation (input) "IOPRIO_CLASS_RT \<equiv> (1 :: u32)"
abbreviation (input) "IOPRIO_CLASS_BE \<equiv> (2 :: u32)"
abbreviation (input) "IOPRIO_CLASS_IDLE \<equiv> (3 :: u32)"



definition sys_ioprio_get :: "io_os \<Rightarrow> ioprio_who \<Rightarrow> u32 \<Rightarrow> proc list \<Rightarrow> int + u32" where
  "sys_ioprio_get os which who ps =
     (case filter (selected os which who) ps of
        [] \<Rightarrow> Inl 3
      | sel \<Rightarrow> Inr (io_best os (map p_ioprio sel)))"

section \<open>Primitives\<close>

datatype ioprio_target = Ioprio_process int | Ioprio_pgrp int | Ioprio_user int

datatype ioprio = Noprio | Real_time int | Best_effort int | Idle

fun target_call :: "(ioprio_who \<Rightarrow> u32 \<Rightarrow> 'r) \<Rightarrow> ioprio_target \<Rightarrow> 'r" where
  "target_call f (Ioprio_process i) = f IOPRIO_WHO_PROCESS (word_of_int i)"
| "target_call f (Ioprio_pgrp i) = f IOPRIO_WHO_PGRP (word_of_int i)"
| "target_call f (Ioprio_user i) = f IOPRIO_WHO_USER (word_of_int i)"

definition decode :: "u32 \<Rightarrow> exn + ioprio" where
  "decode ioprio =
     (let ioprio_class = drop_bit 13 ioprio; ioprio_data = ioprio AND 0xff
      in if ioprio_class = IOPRIO_CLASS_NONE then Inr Noprio
         else if ioprio_class = IOPRIO_CLASS_RT then Inr (Real_time (uint ioprio_data))
         else if ioprio_class = IOPRIO_CLASS_BE then Inr (Best_effort (uint ioprio_data))
         else if ioprio_class = IOPRIO_CLASS_IDLE then Inr Idle
         else Inl (Failure ''netsys_ioprio_get: Unexpected result''))"

definition netsys_ioprio_get :: "io_os \<Rightarrow> ioprio_target \<Rightarrow> proc list \<Rightarrow> exn + ioprio" where
  "netsys_ioprio_get os target ps =
     (case target_call (\<lambda>which who. sys_ioprio_get os which who ps) target of
        Inl e \<Rightarrow> Inl (Unix_error e ''ioprio_get'')
      | Inr ioprio \<Rightarrow> decode ioprio)"



section \<open>Encoding\<close>







text \<open>What a request means: the class and the level that the source computes, the level modulo 256.\<close>

fun effective :: "ioprio \<Rightarrow> ioprio" where
  "effective (Real_time n) = Real_time (n mod 256)"
| "effective (Best_effort n) = Best_effort (n mod 256)"
| "effective Noprio = Best_effort 4"
| "effective Idle = Idle"

fun in_range :: "ioprio \<Rightarrow> bool" where
  "in_range (Real_time n) \<longleftrightarrow> 0 \<le> n \<and> n < 8"
| "in_range (Best_effort n) \<longleftrightarrow> 0 \<le> n \<and> n < 8"
| "in_range Noprio \<longleftrightarrow> True"
| "in_range Idle \<longleftrightarrow> True"




section \<open>Setting and getting\<close>

lemma selected_update [simp]: "selected os which who (p\<lparr>p_ioprio := x\<rparr>) = selected os which who p"
  by (cases which) (simp_all add: selected_def)







lemma in_range_effective: "in_range arg \<Longrightarrow> arg \<noteq> Noprio \<Longrightarrow> effective arg = arg"
  by (cases arg) simp_all

text \<open>A level of 256 passes as the highest one.\<close>

lemma level_256: "in_range (effective (Real_time 256))" "effective (Real_time 256) = Real_time 0"
  by simp_all




end
