(* ===== verification/Multicast.thy ===== *)
theory Multicast
  imports Netsys_Prelude
begin

text \<open>
  Multicast options of sockets, \<^verbatim>\<open>src/src/netsys/netsys_c_multicast.c\<close>, on a Unix system with IPv6. The descriptors of the process are a map to sockets with
  their family, the loop and time-to-live options and the memberships, pairs of a group and an interface in network representation. \<^verbatim>\<open>setsockopt\<close> follows its
  documentation: a group can be joined once per interface and left when it was joined; \<open>mc_err\<close> are failures for other reasons.
\<close>

datatype family = AF_INET | AF_INET6 | AF_OTHER

record socket =
  sk_family :: family
  sk_loop :: bool
  sk_ttl :: int
  sk_groups :: "(u8 list \<times> u8 list) list"

type_synonym sockets = "int \<Rightarrow> socket option"

record mc_os =
  mc_fds :: "int set"
  mc_err :: "nat \<Rightarrow> int option"

datatype sockopt =
    MULTICAST_LOOP u32
  | MULTICAST_TTL u32
  | ADD_MEMBERSHIP "u8 list" "u8 list"
  | DROP_MEMBERSHIP "u8 list" "u8 list"

fun group_ok :: "family \<Rightarrow> u8 list \<Rightarrow> bool" where
  "group_ok AF_INET g \<longleftrightarrow> length g = 4 \<and> 224 \<le> hd g \<and> hd g < 240"
| "group_ok AF_INET6 g \<longleftrightarrow> length g = 16 \<and> hd g = 255"
| "group_ok AF_OTHER g \<longleftrightarrow> False"

fun apply_opt :: "sockopt \<Rightarrow> socket \<Rightarrow> int + socket" where
  "apply_opt (MULTICAST_LOOP f) sk = Inr (sk\<lparr>sk_loop := (f \<noteq> 0)\<rparr>)"
| "apply_opt (MULTICAST_TTL v) sk =
     (if sint v = -1 then Inr (sk\<lparr>sk_ttl := 1\<rparr>) else if 0 \<le> sint v \<and> sint v \<le> 255 then Inr (sk\<lparr>sk_ttl := sint v\<rparr>) else Inl 22)"
| "apply_opt (ADD_MEMBERSHIP g i) sk =
     (if \<not> group_ok (sk_family sk) g then Inl 22
      else if (g, i) \<in> set (sk_groups sk) then Inl 98 else Inr (sk\<lparr>sk_groups := sk_groups sk @ [(g, i)]\<rparr>))"
| "apply_opt (DROP_MEMBERSHIP g i) sk =
     (if (g, i) \<in> set (sk_groups sk) then Inr (sk\<lparr>sk_groups := remove1 (g, i) (sk_groups sk)\<rparr>) else Inl 99)"

text \<open>\<^verbatim>\<open>setsockopt\<close> for the level of the socket's own family; the numbers of the two levels and of the options are not represented.\<close>

definition sys_setsockopt :: "mc_os \<Rightarrow> int \<Rightarrow> family \<Rightarrow> sockopt \<Rightarrow> sockets \<Rightarrow> int option \<times> sockets" where
  "sys_setsockopt os fd level opt s =
     (case s fd of
        None \<Rightarrow> (Some (if fd \<in> mc_fds os then 88 else 9), s)
      | Some sk \<Rightarrow>
          if sk_family sk \<noteq> level then (Some 92, s)
          else (case mc_err os 63 of
                  Some e \<Rightarrow> (Some e, s)
                | None \<Rightarrow> (case apply_opt opt sk of Inl e \<Rightarrow> (Some e, s) | Inr sk' \<Rightarrow> (None, s(fd \<mapsto> sk')))))"

section \<open>Primitives\<close>

definition socket_domain :: "mc_os \<Rightarrow> int \<Rightarrow> sockets \<Rightarrow> exn + family" where
  "socket_domain os fd s =
     (case s fd of
        None \<Rightarrow> Inl (Unix_error (if fd \<in> mc_fds os then 88 else 9) ''getsockname'')
      | Some sk \<Rightarrow> if sk_family sk = AF_INET then Inr AF_INET else if sk_family sk = AF_INET6 then Inr AF_INET6
          else Inl (Invalid_argument ''Not an Internet socket''))"

definition set_result :: "int option \<times> sockets \<Rightarrow> (exn + unit) \<times> sockets" where
  "set_result r = (case fst r of Some e \<Rightarrow> Inl (Unix_error e ''setsockopt'') | None \<Rightarrow> Inr (), snd r)"

definition netsys_mcast_set_loop :: "mc_os \<Rightarrow> int \<Rightarrow> bool \<Rightarrow> sockets \<Rightarrow> (exn + unit) \<times> sockets" where
  "netsys_mcast_set_loop os fd flag s =
     (case socket_domain os fd s of
        Inl e \<Rightarrow> (Inl e, s)
      | Inr t \<Rightarrow> set_result (sys_setsockopt os fd t (MULTICAST_LOOP (if flag then 1 else 0)) s))"

definition netsys_mcast_set_ttl :: "mc_os \<Rightarrow> int \<Rightarrow> u64 \<Rightarrow> sockets \<Rightarrow> (exn + unit) \<times> sockets" where
  "netsys_mcast_set_ttl os fd ttl s =
     (case socket_domain os fd s of
        Inl e \<Rightarrow> (Inl e, s)
      | Inr t \<Rightarrow> set_result (sys_setsockopt os fd t (MULTICAST_TTL (Int_val ttl)) s))"

definition netsys_mcast_add_membership :: "mc_os \<Rightarrow> int \<Rightarrow> u8 list \<Rightarrow> u8 list \<Rightarrow> sockets \<Rightarrow> (exn + unit) \<times> sockets" where
  "netsys_mcast_add_membership os fd group_addr if_addr s =
     (case socket_domain os fd s of
        Inl e \<Rightarrow> (Inl e, s)
      | Inr t \<Rightarrow>
          if t = AF_INET
          then if length group_addr \<noteq> 4 \<or> length if_addr \<noteq> 4
               then (Inl (Invalid_argument ''Netsys.mcast_add_membership: Not an IPV4 address''), s)
               else set_result (sys_setsockopt os fd t (ADD_MEMBERSHIP (take 4 group_addr) (take 4 if_addr)) s)
          else if length group_addr \<noteq> 16 \<or> length if_addr \<noteq> 16
               then (Inl (Invalid_argument ''Netsys.mcast_add_membership: Not an IPV6 address''), s)
               else set_result (sys_setsockopt os fd t (ADD_MEMBERSHIP (take 16 group_addr) [0, 0, 0, 0]) s))"

definition netsys_mcast_drop_membership :: "mc_os \<Rightarrow> int \<Rightarrow> u8 list \<Rightarrow> u8 list \<Rightarrow> sockets \<Rightarrow> (exn + unit) \<times> sockets" where
  "netsys_mcast_drop_membership os fd group_addr if_addr s =
     (case socket_domain os fd s of
        Inl e \<Rightarrow> (Inl e, s)
      | Inr t \<Rightarrow>
          if t = AF_INET
          then if length group_addr \<noteq> 4 \<or> length if_addr \<noteq> 4
               then (Inl (Invalid_argument ''Netsys.mcast_drop_membership: Not an IPV4 address''), s)
               else set_result (sys_setsockopt os fd t (DROP_MEMBERSHIP (take 4 group_addr) (take 4 if_addr)) s)
          else if length group_addr \<noteq> 16 \<or> length if_addr \<noteq> 16
               then (Inl (Invalid_argument ''Netsys.mcast_drop_membership: Not an IPV6 address''), s)
               else set_result (sys_setsockopt os fd t (DROP_MEMBERSHIP (take 16 group_addr) [0, 0, 0, 0]) s))"

section \<open>Memberships\<close>

fun interface_of :: "family \<Rightarrow> u8 list \<Rightarrow> u8 list" where
  "interface_of AF_INET i = i"
| "interface_of _ i = [0, 0, 0, 0]"

fun addr_len :: "family \<Rightarrow> nat" where
  "addr_len AF_INET = 4"
| "addr_len _ = 16"

lemma add_membership_ok:
  assumes "s fd = Some sk" "sk_family sk \<noteq> AF_OTHER" "mc_err os 63 = None" "group_ok (sk_family sk) g" "length i = addr_len (sk_family sk)"
    and "(g, interface_of (sk_family sk) i) \<notin> set (sk_groups sk)"
  shows "netsys_mcast_add_membership os fd g i s = (Inr (), s(fd \<mapsto> sk\<lparr>sk_groups := sk_groups sk @ [(g, interface_of (sk_family sk) i)]\<rparr>))"
  using assms by (cases "sk_family sk") (simp_all add: netsys_mcast_add_membership_def socket_domain_def set_result_def sys_setsockopt_def)

lemma drop_membership_ok:
  assumes "s fd = Some sk" "sk_family sk \<noteq> AF_OTHER" "mc_err os 63 = None" "length g = addr_len (sk_family sk)" "length i = addr_len (sk_family sk)"
    and "(g, interface_of (sk_family sk) i) \<in> set (sk_groups sk)"
  shows "netsys_mcast_drop_membership os fd g i s = (Inr (), s(fd \<mapsto> sk\<lparr>sk_groups := remove1 (g, interface_of (sk_family sk) i) (sk_groups sk)\<rparr>))"
  using assms by (cases "sk_family sk") (simp_all add: netsys_mcast_drop_membership_def socket_domain_def set_result_def sys_setsockopt_def)

lemma group_ok_len: "group_ok f g \<Longrightarrow> length g = addr_len f"
  by (cases f) simp_all

text \<open>
  Joining and leaving. On an IPv4 or IPv6 socket a group that is not joined yet is joined with exactly the group (and, for IPv4, the interface) of the
  arguments, joining it again fails with \<^verbatim>\<open>EADDRINUSE\<close>, and leaving it restores the memberships there were before, in their order. For IPv6 the
  interface argument is ignored: a second interface counts as joined already.
\<close>

theorem mcast_join_leave:
  assumes "s fd = Some sk" "sk_family sk \<noteq> AF_OTHER" "mc_err os 63 = None" "group_ok (sk_family sk) g" "length i = addr_len (sk_family sk)"
    and "(g, interface_of (sk_family sk) i) \<notin> set (sk_groups sk)"
  shows "\<exists>s'. netsys_mcast_add_membership os fd g i s = (Inr (), s') \<and>
    s' = s(fd \<mapsto> sk\<lparr>sk_groups := sk_groups sk @ [(g, interface_of (sk_family sk) i)]\<rparr>) \<and>
    netsys_mcast_add_membership os fd g i s' = (Inl (Unix_error 98 ''setsockopt''), s') \<and>
    (sk_family sk = AF_INET6 \<longrightarrow> (\<forall>j. length j = 16 \<longrightarrow> netsys_mcast_add_membership os fd g j s' = (Inl (Unix_error 98 ''setsockopt''), s'))) \<and>
    netsys_mcast_drop_membership os fd g i s' = (Inr (), s)"
proof -
  let ?m = "(g, interface_of (sk_family sk) i)" and ?sk = "sk\<lparr>sk_groups := sk_groups sk @ [(g, interface_of (sk_family sk) i)]\<rparr>"
  note add = add_membership_ok [of s fd, OF assms]
  have "netsys_mcast_drop_membership os fd g i (s(fd \<mapsto> ?sk)) = (Inr (), (s(fd \<mapsto> ?sk))(fd \<mapsto> ?sk\<lparr>sk_groups := remove1 ?m (sk_groups ?sk)\<rparr>))"
    using drop_membership_ok [of "s(fd \<mapsto> ?sk)" fd ?sk os g i] assms group_ok_len by simp
  moreover have "?sk\<lparr>sk_groups := remove1 ?m (sk_groups ?sk)\<rparr> = sk" using assms(6) by (simp add: remove1_append)
  ultimately have drop: "netsys_mcast_drop_membership os fd g i (s(fd \<mapsto> ?sk)) = (Inr (), s)" using assms(1) by (simp add: fun_upd_idem)
  have again: "netsys_mcast_add_membership os fd g j (s(fd \<mapsto> ?sk)) = (Inl (Unix_error 98 ''setsockopt''), s(fd \<mapsto> ?sk))"
    if "length j = addr_len (sk_family sk)" "interface_of (sk_family sk) j = interface_of (sk_family sk) i" for j
    using assms that
    by (cases "sk_family sk") (simp_all add: netsys_mcast_add_membership_def socket_domain_def set_result_def sys_setsockopt_def)
  show ?thesis using add drop again [OF assms(5) refl] again by (auto simp: fun_upd_upd)
qed

definition sample_sk :: socket where
  "sample_sk = \<lparr>sk_family = AF_INET, sk_loop = True, sk_ttl = 1, sk_groups = []\<rparr>"

definition sample_mc :: mc_os where
  "sample_mc = \<lparr>mc_fds = {3}, mc_err = (\<lambda>k. None)\<rparr>"

theorem mcast_join_leave_witness:
  "\<exists>s'. netsys_mcast_add_membership sample_mc 3 [224, 0, 0, 1] [0, 0, 0, 0] [3 \<mapsto> sample_sk] = (Inr (), s') \<and>
     netsys_mcast_drop_membership sample_mc 3 [224, 0, 0, 1] [0, 0, 0, 0] s' = (Inr (), [3 \<mapsto> sample_sk])"
  using mcast_join_leave [of "[3 \<mapsto> sample_sk]" 3 sample_sk sample_mc "[224, 0, 0, 1]" "[0, 0, 0, 0]"]
  by (simp add: sample_sk_def sample_mc_def)

section \<open>Other options and errors\<close>

lemma mcast_set_loop_ok:
  "s fd = Some sk \<Longrightarrow> sk_family sk \<noteq> AF_OTHER \<Longrightarrow> mc_err os 63 = None \<Longrightarrow>
   netsys_mcast_set_loop os fd flag s = (Inr (), s(fd \<mapsto> sk\<lparr>sk_loop := flag\<rparr>))"
  by (cases "sk_family sk") (simp_all add: netsys_mcast_set_loop_def socket_domain_def set_result_def sys_setsockopt_def)

lemma mcast_set_ttl_ok:
  assumes "s fd = Some sk" "sk_family sk \<noteq> AF_OTHER" "mc_err os 63 = None" "n \<le> 255"
  shows "netsys_mcast_set_ttl os fd (Val_long (of_nat n)) s = (Inr (), s(fd \<mapsto> sk\<lparr>sk_ttl := int n\<rparr>))"
proof -
  have "sint (Int_val (Val_long (of_nat n))) = int n" using Int_val_Val_long(2) [of n] assms(4) by simp
  then show ?thesis using assms by (cases "sk_family sk")
      (simp_all add: netsys_mcast_set_ttl_def socket_domain_def set_result_def sys_setsockopt_def)
qed

text \<open>A call that fails changes no socket, whatever the reason.\<close>

lemma mcast_error_unchanged:
  "netsys_mcast_set_loop os fd flag s = (Inl e, s') \<Longrightarrow> s' = s"
  "netsys_mcast_set_ttl os fd ttl s = (Inl e, s') \<Longrightarrow> s' = s"
  "netsys_mcast_add_membership os fd g i s = (Inl e, s') \<Longrightarrow> s' = s"
  "netsys_mcast_drop_membership os fd g i s = (Inl e, s') \<Longrightarrow> s' = s"
  by (auto simp: netsys_mcast_set_loop_def netsys_mcast_set_ttl_def netsys_mcast_add_membership_def netsys_mcast_drop_membership_def
      set_result_def sys_setsockopt_def split: sum.splits option.splits if_splits prod.splits)

end
