(* ===== verification/At_calls.thy ===== *)
theory At_calls
  imports Netsys_Prelude
begin

text \<open>
  File system calls relative to directory descriptors, \<^verbatim>\<open>src/src/netsys/netsys_c.c\<close> (from \<^verbatim>\<open>netsys_mknod\<close> on, and \<^verbatim>\<open>netsys_fchdir\<close>), with the flag values of
  Linux.

  The state of the system: nodes with kind and permission bits, directory entries (a name in a directory leads to a node), the open descriptors and the
  working directory. The last component of a path is looked up in the entries; walking through the directories before it is a parameter
  (\<open>pw_walk\<close>), as are following a final symbolic link (\<open>pw_follow\<close>), the numbers of a new node and a new descriptor, permissions, and failures for other
  reasons, by the line of the call (\<open>pw_err\<close>). A path that is passed to C ends at its first NUL character.
\<close>

section \<open>State\<close>

datatype kind = K_dir | K_reg | K_symlink string | K_fifo | K_chr u64 | K_blk u64 | K_sock

record node =
  nd_kind :: kind
  nd_mode :: u32

record ofd =
  of_node :: nat
  of_flags :: u32
  of_cloexec :: bool

record px =
  px_nodes :: "nat \<Rightarrow> node option"
  px_entries :: "((nat \<times> string) \<times> nat) list"
  px_fds :: "int \<Rightarrow> ofd option"
  px_root :: nat
  px_cwd :: nat

record px_os =
  pw_walk :: "nat \<Rightarrow> string \<Rightarrow> int + nat \<times> string"
  pw_follow :: "nat \<Rightarrow> string \<Rightarrow> int + nat"
  pw_node :: nat
  pw_fd :: int
  pw_access :: "nat \<Rightarrow> u32 \<Rightarrow> bool \<Rightarrow> bool"
  pw_err :: "nat \<Rightarrow> int option"

definition cstr :: "string \<Rightarrow> string" where
  "cstr s = takeWhile (\<lambda>c. c \<noteq> CHR 0x00) s"

definition AT_FDCWD :: int where "AT_FDCWD = -100"

definition is_dir :: "nat \<Rightarrow> px \<Rightarrow> bool" where
  "is_dir n s = (case px_nodes s n of Some nd \<Rightarrow> nd_kind nd = K_dir | None \<Rightarrow> False)"

definition start_dir :: "int \<Rightarrow> string \<Rightarrow> px \<Rightarrow> int + nat" where
  "start_dir dirfd path s =
     (if path \<noteq> [] \<and> hd path = CHR ''/'' then Inr (px_root s)
      else if dirfd = AT_FDCWD then Inr (px_cwd s)
      else (case px_fds s dirfd of None \<Rightarrow> Inl 9 | Some f \<Rightarrow> if is_dir (of_node f) s then Inr (of_node f) else Inl 20))"

text \<open>The directory and the last component of a path.\<close>

definition locate :: "px_os \<Rightarrow> int \<Rightarrow> string \<Rightarrow> px \<Rightarrow> int + nat \<times> string" where
  "locate os dirfd path s = (case start_dir dirfd path s of Inl e \<Rightarrow> Inl e | Inr d \<Rightarrow> pw_walk os d path)"

definition entry :: "px \<Rightarrow> nat \<times> string \<Rightarrow> nat option" where
  "entry s = map_of (px_entries s)"

definition del_entry :: "nat \<times> string \<Rightarrow> px \<Rightarrow> px" where
  "del_entry k s = s\<lparr>px_entries := filter (\<lambda>e. fst e \<noteq> k) (px_entries s)\<rparr>"

definition add_entry :: "nat \<times> string \<Rightarrow> nat \<Rightarrow> px \<Rightarrow> px" where
  "add_entry k n s = s\<lparr>px_entries := (k, n) # px_entries s\<rparr>"

lemma map_of_filter_key: "map_of (filter (\<lambda>e. fst e \<noteq> k) xs) k' = (if k' = k then None else map_of xs k')"
  by (induction xs) auto

lemma entry_del [simp]: "entry (del_entry k s) = (entry s)(k := None)"
  by (simp add: entry_def del_entry_def map_of_filter_key fun_eq_iff)

lemma entry_add [simp]: "entry (add_entry k n s) = (entry s)(k \<mapsto> n)"
  by (simp add: entry_def add_entry_def)

lemma entry_frame [simp]:
  "px_nodes (del_entry k s) = px_nodes s" "px_nodes (add_entry k n s) = px_nodes s"
  "px_fds (del_entry k s) = px_fds s" "px_fds (add_entry k n s) = px_fds s"
  "px_root (del_entry k s) = px_root s" "px_root (add_entry k n s) = px_root s"
  "px_cwd (del_entry k s) = px_cwd s" "px_cwd (add_entry k n s) = px_cwd s"
  by (simp_all add: del_entry_def add_entry_def)

section \<open>System calls\<close>

definition sys_create :: "px_os \<Rightarrow> nat \<Rightarrow> int \<Rightarrow> string \<Rightarrow> kind \<Rightarrow> u32 \<Rightarrow> px \<Rightarrow> int option \<times> px" where
  "sys_create os site dirfd path k mode s =
     (case locate os dirfd path s of
        Inl e \<Rightarrow> (Some e, s)
      | Inr p \<Rightarrow>
          if entry s p \<noteq> None then (Some 17, s)
          else (case pw_err os site of
                  Some e \<Rightarrow> (Some e, s)
                | None \<Rightarrow> (None, add_entry p (pw_node os) (s\<lparr>px_nodes := (px_nodes s)(pw_node os \<mapsto> \<lparr>nd_kind = k, nd_mode = mode\<rparr>)\<rparr>))))"





definition sys_renameat :: "px_os \<Rightarrow> int \<Rightarrow> string \<Rightarrow> int \<Rightarrow> string \<Rightarrow> px \<Rightarrow> int option \<times> px" where
  "sys_renameat os olddirfd oldpath newdirfd newpath s =
     (case (locate os olddirfd oldpath s, locate os newdirfd newpath s) of
        (Inl e, _) \<Rightarrow> (Some e, s)
      | (_, Inl e) \<Rightarrow> (Some e, s)
      | (Inr p, Inr q) \<Rightarrow>
          (case entry s p of
             None \<Rightarrow> (Some 2, s)
           | Some n \<Rightarrow>
               (case pw_err os 535 of
                  Some e \<Rightarrow> (Some e, s)
                | None \<Rightarrow>
                    (case entry s q of
                       None \<Rightarrow> (None, add_entry q n (del_entry p s))
                     | Some m \<Rightarrow>
                         if m = n then (None, s)
                         else if is_dir m s \<and> \<not> is_dir n s then (Some 21, s)
                         else if is_dir n s \<and> \<not> is_dir m s then (Some 20, s)
                         else if list_ex (\<lambda>e. fst (fst e) = m) (px_entries s) then (Some 39, s)
                         else (None, add_entry q n (del_entry q (del_entry p s)))))))"

definition open_node :: "px_os \<Rightarrow> u32 \<Rightarrow> nat \<Rightarrow> px \<Rightarrow> (int + int) \<times> px" where
  "open_node os flags n s =
     (case pw_err os 476 of
        Some e \<Rightarrow> (Inl e, s)
      | None \<Rightarrow> (Inr (pw_fd os), s\<lparr>px_fds := (px_fds s)(pw_fd os \<mapsto> \<lparr>of_node = n, of_flags = flags, of_cloexec = (flags AND 0x80000 \<noteq> 0)\<rparr>)\<rparr>))"

definition sys_openat :: "px_os \<Rightarrow> int \<Rightarrow> string \<Rightarrow> u32 \<Rightarrow> u32 \<Rightarrow> px \<Rightarrow> (int + int) \<times> px" where
  "sys_openat os dirfd path flags mode s =
     (case locate os dirfd path s of
        Inl e \<Rightarrow> (Inl e, s)
      | Inr p \<Rightarrow>
          (case entry s p of
             None \<Rightarrow>
               if flags AND 0x40 = 0 then (Inl 2, s)
               else (case sys_create os 476 dirfd path K_reg mode s of (Some e, s') \<Rightarrow> (Inl e, s') | (None, s') \<Rightarrow> open_node os flags (pw_node os) s')
           | Some n \<Rightarrow>
               if flags AND 0x40 \<noteq> 0 \<and> flags AND 0x80 \<noteq> 0 then (Inl 17, s)
               else (case map_option nd_kind (px_nodes s n) of
                       Some (K_symlink t) \<Rightarrow> (case pw_follow os (fst p) t of Inl e \<Rightarrow> (Inl e, s) | Inr m \<Rightarrow> open_node os flags m s)
                     | _ \<Rightarrow> open_node os flags n s)))"

definition sys_faccessat :: "px_os \<Rightarrow> int \<Rightarrow> string \<Rightarrow> u32 \<Rightarrow> u32 \<Rightarrow> px \<Rightarrow> int option" where
  "sys_faccessat os dirfd path mode flags s =
     (case locate os dirfd path s of
        Inl e \<Rightarrow> Some e
      | Inr p \<Rightarrow>
          (case entry s p of
             None \<Rightarrow> Some 2
           | Some n0 \<Rightarrow>
               (case (case map_option nd_kind (px_nodes s n0) of
                        Some (K_symlink t) \<Rightarrow> if flags AND 0x100 = 0 then pw_follow os (fst p) t else Inr n0
                      | _ \<Rightarrow> Inr n0) of
                  Inl e \<Rightarrow> Some e
                | Inr n \<Rightarrow> if pw_access os n mode (flags AND 0x200 \<noteq> 0) then None else Some 13)))"

section \<open>Flags\<close>

datatype at_flag = AT_EACCESS | AT_SYMLINK_NOFOLLOW | AT_REMOVEDIR

fun at_flags_table :: "at_flag \<Rightarrow> u32" where
  "at_flags_table AT_EACCESS = 0x200"
| "at_flags_table AT_SYMLINK_NOFOLLOW = 0x100"
| "at_flags_table AT_REMOVEDIR = 0x200"

datatype open_flag =
  O_RDONLY | O_WRONLY | O_RDWR | O_NONBLOCK | O_APPEND | O_CREAT | O_TRUNC | O_EXCL | O_NOCTTY | O_DSYNC | O_SYNC | O_RSYNC | O_SHARE_DELETE | O_CLOEXEC

text \<open>On a system without \<^verbatim>\<open>O_CLOEXEC\<close> the value is 0 and the flag is emulated.\<close>

fun open_flag_table :: "bool \<Rightarrow> open_flag \<Rightarrow> u32" where
  "open_flag_table have_cloexec O_RDONLY = 0"
| "open_flag_table have_cloexec O_WRONLY = 1"
| "open_flag_table have_cloexec O_RDWR = 2"
| "open_flag_table have_cloexec O_NONBLOCK = 0x800"
| "open_flag_table have_cloexec O_APPEND = 0x400"
| "open_flag_table have_cloexec O_CREAT = 0x40"
| "open_flag_table have_cloexec O_TRUNC = 0x200"
| "open_flag_table have_cloexec O_EXCL = 0x80"
| "open_flag_table have_cloexec O_NOCTTY = 0x100"
| "open_flag_table have_cloexec O_DSYNC = 0x1000"
| "open_flag_table have_cloexec O_SYNC = 0x101000"
| "open_flag_table have_cloexec O_RSYNC = 0x101000"
| "open_flag_table have_cloexec O_SHARE_DELETE = 0"
| "open_flag_table have_cloexec O_CLOEXEC = (if have_cloexec then 0x80000 else 0)"

datatype access_permission = R_OK | W_OK | X_OK | F_OK

fun access_permission_table :: "access_permission \<Rightarrow> u32" where
  "access_permission_table R_OK = 4"
| "access_permission_table W_OK = 2"
| "access_permission_table X_OK = 1"
| "access_permission_table F_OK = 0"

text \<open>\<^verbatim>\<open>caml_convert_flag_list\<close> of the OCaml runtime.\<close>

definition convert_flags :: "('f \<Rightarrow> u32) \<Rightarrow> 'f list \<Rightarrow> u32" where
  "convert_flags tbl flags = foldl (\<lambda>res f. res OR tbl f) 0 flags"

section \<open>Primitives\<close>

definition unit_result :: "string \<Rightarrow> int option \<times> px \<Rightarrow> (exn + unit) \<times> px" where
  "unit_result name r = (case fst r of Some e \<Rightarrow> Inl (Unix_error e name) | None \<Rightarrow> Inr (), snd r)"

definition netsys_fchdir :: "px_os \<Rightarrow> int \<Rightarrow> px \<Rightarrow> (exn + unit) \<times> px" where
  "netsys_fchdir os fd s =
     (case px_fds s fd of
        None \<Rightarrow> (Inl (Unix_error 9 ''fchdir''), s)
      | Some f \<Rightarrow>
          if \<not> is_dir (of_node f) s then (Inl (Unix_error 20 ''fchdir''), s)
          else (case pw_err os 250 of Some e \<Rightarrow> (Inl (Unix_error e ''fchdir''), s) | None \<Rightarrow> (Inr (), s\<lparr>px_cwd := of_node f\<rparr>)))"

text \<open>A directory stream is represented by its descriptor.\<close>

definition netsys_fdopendir :: "px_os \<Rightarrow> int \<Rightarrow> px \<Rightarrow> exn + int" where
  "netsys_fdopendir os fd s =
     (case px_fds s fd of
        None \<Rightarrow> Inl (Unix_error 9 ''fdopendir'')
      | Some f \<Rightarrow>
          if \<not> is_dir (of_node f) s then Inl (Unix_error 20 ''fdopendir'')
          else (case pw_err os 262 of Some e \<Rightarrow> Inl (Unix_error e ''fdopendir'') | None \<Rightarrow> Inr fd))"

datatype node_type = S_IFREG | S_IFIFO | S_IFSOCK | S_IFCHR u64 | S_IFBLK u64

text \<open>The argument \<^verbatim>\<open>mode\<close> of \<^verbatim>\<open>mknod\<close>, and how the system understands it: the type in the bits 12 to 15, the permissions below.\<close>

fun mknod_mode :: "u64 \<Rightarrow> node_type \<Rightarrow> u32 \<times> u64" where
  "mknod_mode perm S_IFREG = (ucast (Long_val perm) AND 0xfff OR 0x8000, 0)"
| "mknod_mode perm S_IFIFO = (ucast (Long_val perm) AND 0xfff OR 0x1000, 0)"
| "mknod_mode perm S_IFSOCK = (ucast (Long_val perm) AND 0xfff OR 0xc000, 0)"
| "mknod_mode perm (S_IFCHR dev) = (ucast (Long_val perm) AND 0xfff OR 0x2000, Long_val dev)"
| "mknod_mode perm (S_IFBLK dev) = (ucast (Long_val perm) AND 0xfff OR 0x6000, Long_val dev)"

definition kind_of_mode :: "u32 \<Rightarrow> u64 \<Rightarrow> kind option" where
  "kind_of_mode m dev =
     (let ty = m AND 0xf000
      in if ty = 0x8000 \<or> ty = 0 then Some K_reg else if ty = 0x1000 then Some K_fifo else if ty = 0xc000 then Some K_sock
         else if ty = 0x2000 then Some (K_chr dev) else if ty = 0x6000 then Some (K_blk dev) else None)"

definition netsys_mknod :: "px_os \<Rightarrow> string \<Rightarrow> u64 \<Rightarrow> node_type \<Rightarrow> px \<Rightarrow> (exn + unit) \<times> px" where
  "netsys_mknod os name perm nt s =
     (let (m, d) = mknod_mode perm nt
      in unit_result ''mknod''
           (case kind_of_mode m d of
              None \<Rightarrow> (Some 22, s)
            | Some k \<Rightarrow> sys_create os 392 AT_FDCWD (cstr name) k (m AND 0xfff) s))"

definition netsys_openat :: "bool \<Rightarrow> px_os \<Rightarrow> int \<Rightarrow> string \<Rightarrow> open_flag list \<Rightarrow> u32 \<Rightarrow> px \<Rightarrow> (exn + int) \<times> px" where
  "netsys_openat have_cloexec os dirfd path flags perm s =
     (let cv_flags = convert_flags (open_flag_table have_cloexec) flags
      in (case sys_openat os dirfd (cstr path) cv_flags perm s of
            (Inl e, s1) \<Rightarrow> (Inl (Unix_error e ''openat''), s1)
          | (Inr ret, s1) \<Rightarrow>
              if \<not> have_cloexec \<and> O_CLOEXEC \<in> set flags
              then (case px_fds s1 dirfd of
                      None \<Rightarrow> (Inl (Unix_error 9 ''openat''), s1)
                    | Some f \<Rightarrow> (Inr ret, s1\<lparr>px_fds := (px_fds s1)(dirfd \<mapsto> f\<lparr>of_cloexec := True\<rparr>)\<rparr>))
              else (Inr ret, s1)))"

definition netsys_faccessat :: "px_os \<Rightarrow> int \<Rightarrow> string \<Rightarrow> access_permission list \<Rightarrow> at_flag list \<Rightarrow> px \<Rightarrow> exn + unit" where
  "netsys_faccessat os dirfd path perms flags s =
     (let cv_perms = convert_flags access_permission_table perms;
          cv_flags = convert_flags at_flags_table flags AND (0x200 OR 0x100)
      in (case sys_faccessat os dirfd (cstr path) cv_perms cv_flags s of
            Some e \<Rightarrow> Inl (Unix_error e ''faccessat'')
          | None \<Rightarrow> Inr ()))"

definition netsys_mkdirat :: "px_os \<Rightarrow> int \<Rightarrow> string \<Rightarrow> u32 \<Rightarrow> px \<Rightarrow> (exn + unit) \<times> px" where
  "netsys_mkdirat os dirfd path perm s = unit_result ''mkdirat'' (sys_create os 522 dirfd (cstr path) K_dir perm s)"

definition netsys_renameat :: "px_os \<Rightarrow> int \<Rightarrow> string \<Rightarrow> int \<Rightarrow> string \<Rightarrow> px \<Rightarrow> (exn + unit) \<times> px" where
  "netsys_renameat os olddirfd oldpath newdirfd newpath s =
     unit_result ''renameat'' (sys_renameat os olddirfd (cstr oldpath) newdirfd (cstr newpath) s)"




definition netsys_mkfifoat :: "px_os \<Rightarrow> int \<Rightarrow> string \<Rightarrow> u32 \<Rightarrow> px \<Rightarrow> (exn + unit) \<times> px" where
  "netsys_mkfifoat os dirfd path mode s = unit_result ''mkfifoat'' (sys_create os 594 dirfd (cstr path) K_fifo mode s)"


section \<open>Flags that reach the system\<close>

lemma convert_flags_foldl: "foldl (\<lambda>res f. res OR tbl f) a flags = a OR convert_flags tbl flags"
proof (induction flags arbitrary: a)
  case (Cons x flags)
  show ?case using Cons [of "a OR tbl x"] Cons [of "0 OR tbl x"] by (simp add: convert_flags_def or.assoc)
qed (simp add: convert_flags_def)

lemma convert_flags_simps [simp]:
  "convert_flags tbl [] = 0" "convert_flags tbl (x # flags) = tbl x OR convert_flags tbl flags"
  using convert_flags_foldl [of tbl "tbl x" flags] by (simp_all add: convert_flags_def)

lemma convert_flags_bit: "convert_flags tbl flags AND m \<noteq> 0 \<longleftrightarrow> (\<exists>f \<in> set flags. tbl f AND m \<noteq> 0)"
  by (induction flags) (auto simp: bit.conj_disj_distrib2 or_eq_0_iff)


lemma cstr_cstr [simp]: "cstr (cstr x) = cstr x" "cstr (cstr x @ [CHR 0x00]) = cstr x"
  by (auto simp: cstr_def takeWhile_append takeWhile_eq_all_conv dest: set_takeWhileD)

section \<open>Removing\<close>



section \<open>Symbolic and hard links\<close>



lemma is_dir_simps [simp]:
  "is_dir n (add_entry k m s) = is_dir n s" "is_dir n (del_entry k s) = is_dir n s"
  by (simp_all add: is_dir_def)


lemma entry_nodes [simp]: "entry (s\<lparr>px_nodes := x\<rparr>) = entry s"
  by (simp add: entry_def)




text \<open>A root directory (node 1) with the file \<open>f\<close> and an empty directory \<open>d\<close>, opened as descriptor 3; names with one component.\<close>

definition sample_px :: px where
  "sample_px = \<lparr>px_nodes = [1 \<mapsto> \<lparr>nd_kind = K_dir, nd_mode = 493\<rparr>, 2 \<mapsto> \<lparr>nd_kind = K_reg, nd_mode = 420\<rparr>, 3 \<mapsto> \<lparr>nd_kind = K_dir, nd_mode = 493\<rparr>],
     px_entries = [((1, ''f''), 2), ((1, ''d''), 3)], px_fds = [3 \<mapsto> \<lparr>of_node = 3, of_flags = 0, of_cloexec = False\<rparr>], px_root = 1, px_cwd = 1\<rparr>"

definition sample_px_os :: px_os where
  "sample_px_os = \<lparr>pw_walk = (\<lambda>d path. Inr (d, path)), pw_follow = (\<lambda>d t. Inl 2), pw_node = 4, pw_fd = 5, pw_access = (\<lambda>n m e. True),
     pw_err = (\<lambda>k. None)\<rparr>"

lemmas sample_px_defs = sample_px_def sample_px_os_def locate_def start_dir_def cstr_def AT_FDCWD_def entry_def is_dir_def



section \<open>Opening\<close>

lemma open_node_fd:
  "open_node os flags n s = (Inr fd, s') \<Longrightarrow>
   fd = pw_fd os \<and> s' = s\<lparr>px_fds := (px_fds s)(fd \<mapsto> \<lparr>of_node = n, of_flags = flags, of_cloexec = (flags AND 0x80000 \<noteq> 0)\<rparr>)\<rparr>"
  by (auto simp: open_node_def split: option.splits)

lemma sys_openat_fd:
  assumes "sys_openat os dirfd path flags mode s = (Inr fd, s')"
  shows "\<exists>n. fd = pw_fd os \<and> px_fds s' = (px_fds s)(fd \<mapsto> \<lparr>of_node = n, of_flags = flags, of_cloexec = (flags AND 0x80000 \<noteq> 0)\<rparr>)"
proof -
  obtain n s0 where "open_node os flags n s0 = (Inr fd, s')" "px_fds s0 = px_fds s"
    using assms by (fastforce simp: sys_openat_def sys_create_def split: sum.splits option.splits if_splits kind.splits prod.splits)
  then show ?thesis using open_node_fd by fastforce
qed

lemma cloexec_flag: "convert_flags (open_flag_table hc) flags AND 0x80000 \<noteq> 0 \<longleftrightarrow> hc \<and> O_CLOEXEC \<in> set flags"
proof -
  have "open_flag_table hc f AND 0x80000 \<noteq> 0 \<longleftrightarrow> hc \<and> f = O_CLOEXEC" for f by (cases f) simp_all
  then show ?thesis using convert_flags_bit [of "open_flag_table hc" flags "0x80000"] by auto
qed

text \<open>
  Claim C39: opening a file and the close-on-exec flag. Where the system has \<^verbatim>\<open>O_CLOEXEC\<close>, or the flag is not given, a successful \<^verbatim>\<open>netsys_openat\<close> returns a new descriptor that is
  close-on-exec exactly when the flag was given, and no other descriptor changes. Where the flag is given and emulated, the new descriptor never gets it: it is the
  descriptor of the directory that becomes close-on-exec, and for \<^verbatim>\<open>AT_FDCWD\<close> the call fails after the file was opened.
\<close>

theorem openat_cloexec:
  assumes "sys_openat os dirfd (cstr path) (convert_flags (open_flag_table hc) flags) perm s = (Inr fd, s1)"
    and "px_fds s fd = None" "dirfd \<noteq> fd" "px_fds s AT_FDCWD = None" "fd \<noteq> AT_FDCWD"
  shows "(hc \<or> O_CLOEXEC \<notin> set flags \<longrightarrow> netsys_openat hc os dirfd path flags perm s = (Inr fd, s1) \<and>
      (\<exists>f. px_fds s1 = (px_fds s)(fd \<mapsto> f) \<and> of_cloexec f = (O_CLOEXEC \<in> set flags))) \<and>
    (\<not> hc \<and> O_CLOEXEC \<in> set flags \<longrightarrow>
      (case px_fds s dirfd of
         Some d \<Rightarrow> \<exists>s' f. netsys_openat hc os dirfd path flags perm s = (Inr fd, s') \<and>
           px_fds s' = (px_fds s)(fd \<mapsto> f, dirfd \<mapsto> d\<lparr>of_cloexec := True\<rparr>) \<and> \<not> of_cloexec f
       | None \<Rightarrow> \<exists>s'. netsys_openat hc os dirfd path flags perm s = (Inl (Unix_error 9 ''openat''), s') \<and> px_fds s' fd \<noteq> None))"
proof -
  obtain n where n: "px_fds s1 = (px_fds s)(fd \<mapsto> \<lparr>of_node = n, of_flags = convert_flags (open_flag_table hc) flags,
      of_cloexec = (hc \<and> O_CLOEXEC \<in> set flags)\<rparr>)"
    using sys_openat_fd [OF assms(1)] cloexec_flag [of hc flags] by auto
  show ?thesis
  proof (cases "hc \<or> O_CLOEXEC \<notin> set flags")
    case True
    then show ?thesis using assms(1) n by (auto simp: netsys_openat_def)
  next
    case False
    have d: "px_fds s1 dirfd = px_fds s dirfd" using n assms(3) by simp
    show ?thesis
    proof (cases "px_fds s dirfd")
      case None
      then show ?thesis using False assms(1) n d by (simp add: netsys_openat_def)
    next
      case (Some f)
      then show ?thesis using False assms(1) n d by (auto simp: netsys_openat_def)
    qed
  qed
qed

theorem openat_cloexec_witness:
  "\<exists>s'. netsys_openat True sample_px_os (-100) ''new'' [O_RDWR, O_CREAT, O_CLOEXEC] 420 sample_px = (Inr 5, s') \<and>
     (\<exists>f. px_fds s' 5 = Some f \<and> of_cloexec f)"
proof -
  obtain s1 where "sys_openat sample_px_os (-100) (cstr ''new'') (convert_flags (open_flag_table True) [O_RDWR, O_CREAT, O_CLOEXEC]) 420 sample_px = (Inr 5, s1)"
    by (simp add: sys_openat_def sys_create_def open_node_def sample_px_defs)
  from openat_cloexec [OF this] show ?thesis by (auto simp: sample_px_defs)
qed

section \<open>Making nodes\<close>

lemma mode_type: "(x AND 0xfff OR m) AND 0xf000 = m AND (0xf000 :: u32)" "m AND 0xfff = 0 \<Longrightarrow> (x AND 0xfff OR m) AND 0xfff = x AND (0xfff :: u32)"
  by (simp_all add: bit.conj_disj_distrib2 and.assoc)

fun kind_of_type :: "node_type \<Rightarrow> kind" where
  "kind_of_type S_IFREG = K_reg"
| "kind_of_type S_IFIFO = K_fifo"
| "kind_of_type S_IFSOCK = K_sock"
| "kind_of_type (S_IFCHR dev) = K_chr (Long_val dev)"
| "kind_of_type (S_IFBLK dev) = K_blk (Long_val dev)"

lemma mknod_mode_kind:
  "kind_of_mode (fst (mknod_mode perm nt)) (snd (mknod_mode perm nt)) = Some (kind_of_type nt)"
  "fst (mknod_mode perm nt) AND 0xfff = ucast (Long_val perm) AND 0xfff"
  by (cases nt; simp add: kind_of_mode_def mode_type)+

text \<open>A node is made with the kind and device of the argument and the lower twelve bits of the permissions.\<close>

lemma mknod_ok:
  assumes "locate os AT_FDCWD (cstr name) s = Inr p" "entry s p = None" "pw_err os 392 = None"
  shows "netsys_mknod os name perm nt s = (Inr (), add_entry p (pw_node os)
    (s\<lparr>px_nodes := (px_nodes s)(pw_node os \<mapsto> \<lparr>nd_kind = kind_of_type nt, nd_mode = ucast (Long_val perm) AND 0xfff\<rparr>)\<rparr>))"
  using assms mknod_mode_kind [of perm nt]
  by (simp add: netsys_mknod_def unit_result_def sys_create_def case_prod_beta Let_def)

end
