(* ===== verification/Syslog.thy ===== *)
theory Syslog
  imports At_calls
begin

text \<open>
  The system log, \<^verbatim>\<open>src/src/netsys/netsys_c_syslog.c\<close>, with the constants of Linux. The C library keeps the pointer to the identification that was passed to
  \<^verbatim>\<open>openlog\<close>, so the module copies it to a static buffer of 256 bytes; \<open>sl_tag\<close> says whether the library has this pointer (otherwise it uses the name of the program).
  A message whose facility is 0 gets the default facility. A write outside the buffer is \<open>None\<close>.
\<close>

record slog =
  ident_buf :: "string option"
  sl_tag :: bool
  sl_options :: u32
  sl_facility :: u32
  sl_log :: "(u32 \<times> string option \<times> string) list"







abbreviation (input) "IDENT_BUF_LEN \<equiv> (256 :: nat)"





definition netsys_closelog :: "slog \<Rightarrow> slog" where
  "netsys_closelog s = s\<lparr>sl_tag := False\<rparr>"

section \<open>Messages\<close>








end
