(* ===== verification/Posix_misc.thy ===== *)
theory Posix_misc
  imports At_calls
begin

text \<open>
  The other POSIX primitives: process groups, sessions, terminals, users, synchronisation and pseudo terminals of \<^verbatim>\<open>src/src/netsys/netsys_c.c\<close>; shared memory, advice and allocation
  (\<^verbatim>\<open>netsys_c_shm.c\<close>, \<^verbatim>\<open>netsys_c_fadvise.c\<close>, \<^verbatim>\<open>netsys_c_fallocate.c\<close>); \<^verbatim>\<open>netsys_c_locale.c\<close>; the credentials of a peer (\<^verbatim>\<open>rpc-auth-local/rpclocal.c\<close>, Linux variant) and
  \<^verbatim>\<open>rpc-xti/rpcxti.c\<close>. The system calls act on explicit states as POSIX describes them; failures for other reasons are parameters.
\<close>

section \<open>Processes, sessions and terminals\<close>

record pproc =
  pp_pid :: int
  pp_pgid :: int
  pp_sid :: int

text \<open>\<open>pm_tty\<close>: the terminals by descriptor, with their session and foreground process group.\<close>

record pm =
  pm_self :: int
  pm_procs :: "pproc list"
  pm_tty :: "int \<Rightarrow> (int \<times> int) option"
  pm_ids :: "(u32 \<times> u32) \<times> (u32 \<times> u32)"
  pm_groups :: "u32 set"

definition the_pid :: "int \<Rightarrow> pm \<Rightarrow> int" where
  "the_pid pid s = (if pid = 0 then pm_self s else pid)"

definition find_proc :: "int \<Rightarrow> pm \<Rightarrow> pproc option" where
  "find_proc pid s = List.find (\<lambda>p. pp_pid p = the_pid pid s) (pm_procs s)"

definition sys_setpgid :: "int \<Rightarrow> int \<Rightarrow> pm \<Rightarrow> int option \<times> pm" where
  "sys_setpgid pid pgid s =
     (if pgid < 0 then (Some 22, s)
      else (case find_proc pid s of
              None \<Rightarrow> (Some 3, s)
            | Some p \<Rightarrow>
                let g = (if pgid = 0 then pp_pid p else pgid)
                in if pp_sid p = pp_pid p then (Some 1, s)
                   else if g \<noteq> pp_pid p \<and> \<not> list_ex (\<lambda>q. pp_pgid q = g \<and> pp_sid q = pp_sid p) (pm_procs s) then (Some 1, s)
                   else (None, s\<lparr>pm_procs := map (\<lambda>q. if pp_pid q = pp_pid p then q\<lparr>pp_pgid := g\<rparr> else q) (pm_procs s)\<rparr>)))"

definition netsys_getpgid :: "int \<Rightarrow> pm \<Rightarrow> exn + int" where
  "netsys_getpgid pid s = (case find_proc pid s of None \<Rightarrow> Inl (Unix_error 3 ''getpgid'') | Some p \<Rightarrow> Inr (pp_pgid p))"

definition netsys_setpgid :: "int \<Rightarrow> int \<Rightarrow> pm \<Rightarrow> (exn + unit) \<times> pm" where
  "netsys_setpgid pid pgid s =
     (case sys_setpgid pid pgid s of (Some e, s') \<Rightarrow> (Inl (Unix_error e ''setpgid''), s') | (None, s') \<Rightarrow> (Inr (), s'))"

definition netsys_getsid :: "int \<Rightarrow> pm \<Rightarrow> exn + int" where
  "netsys_getsid pid s = (case find_proc pid s of None \<Rightarrow> Inl (Unix_error 3 ''getsid'') | Some p \<Rightarrow> Inr (pp_sid p))"

definition netsys_tcgetpgrp :: "int \<Rightarrow> pm \<Rightarrow> exn + int" where
  "netsys_tcgetpgrp fd s = (case pm_tty s fd of None \<Rightarrow> Inl (Unix_error 25 ''tcgetpgrp'') | Some (sid, g) \<Rightarrow> Inr g)"

definition netsys_tcsetpgrp :: "int \<Rightarrow> int \<Rightarrow> pm \<Rightarrow> (exn + unit) \<times> pm" where
  "netsys_tcsetpgrp fd pgid s =
     (case pm_tty s fd of
        None \<Rightarrow> (Inl (Unix_error 25 ''tcsetpgrp''), s)
      | Some (sid, g) \<Rightarrow>
          if \<not> list_ex (\<lambda>q. pp_pgid q = pgid \<and> pp_sid q = sid) (pm_procs s) then (Inl (Unix_error 1 ''tcsetpgrp''), s)
          else (Inr (), s\<lparr>pm_tty := (pm_tty s)(fd \<mapsto> (sid, pgid))\<rparr>))"

text \<open>Users and groups: the argument \<open>- 1\<close> leaves an identifier as it is; \<open>denied\<close> is the answer of the system to an unprivileged change.\<close>

definition netsys_setreuid :: "bool \<Rightarrow> u32 \<Rightarrow> u32 \<Rightarrow> pm \<Rightarrow> (exn + unit) \<times> pm" where
  "netsys_setreuid denied ruid euid s =
     (if denied then (Inl (Unix_error 1 ''setreuid''), s)
      else (Inr (), s\<lparr>pm_ids := ((if ruid = -1 then fst (fst (pm_ids s)) else ruid, if euid = -1 then snd (fst (pm_ids s)) else euid), snd (pm_ids s))\<rparr>))"

definition netsys_setregid :: "bool \<Rightarrow> u32 \<Rightarrow> u32 \<Rightarrow> pm \<Rightarrow> (exn + unit) \<times> pm" where
  "netsys_setregid denied rgid egid s =
     (if denied then (Inl (Unix_error 1 ''setregid''), s)
      else (Inr (), s\<lparr>pm_ids := (fst (pm_ids s), (if rgid = -1 then fst (snd (pm_ids s)) else rgid, if egid = -1 then snd (snd (pm_ids s)) else egid))\<rparr>))"

text \<open>\<open>group_db\<close>: the groups of a user in the group database. The identifier passes through \<^verbatim>\<open>long\<close> to \<^verbatim>\<open>gid_t\<close>.\<close>

definition netsys_initgroups :: "(string \<Rightarrow> u32 set) \<Rightarrow> int option \<Rightarrow> string \<Rightarrow> u64 \<Rightarrow> pm \<Rightarrow> (exn + unit) \<times> pm" where
  "netsys_initgroups group_db failure user gid s =
     (case failure of
        Some e \<Rightarrow> (Inl (Unix_error e ''initgroups''), s)
      | None \<Rightarrow> (Inr (), s\<lparr>pm_groups := insert (ucast (Long_val gid)) (group_db (cstr user))\<rparr>))"

text \<open>\<open>resolved\<close> and \<open>ttynames\<close> are the answers of the system.\<close>

definition netsys_realpath :: "(string \<Rightarrow> int + string) \<Rightarrow> string \<Rightarrow> exn + string" where
  "netsys_realpath resolved name = (case resolved (cstr name) of Inl e \<Rightarrow> Inl (Unix_error e ''realpath'') | Inr r \<Rightarrow> Inr (cstr r))"

definition netsys_ttyname :: "(int \<Rightarrow> int + string) \<Rightarrow> int \<Rightarrow> exn + string" where
  "netsys_ttyname ttynames fd = (case ttynames fd of Inl e \<Rightarrow> Inl (Unix_error e ''ttyname'') | Inr r \<Rightarrow> Inr (cstr r))"

lemma the_pid_frame [simp]: "the_pid pid (s\<lparr>pm_procs := x\<rparr>) = the_pid pid s" "the_pid pid (s\<lparr>pm_tty := y\<rparr>) = the_pid pid s"
  by (simp_all add: the_pid_def)

lemma find_in: "List.find P xs = Some x \<Longrightarrow> x \<in> set xs"
  by (auto simp: find_Some_iff)

lemma find_proc_update:
  assumes "find_proc pid s = Some p"
  shows "find_proc pid (s\<lparr>pm_procs := map (\<lambda>q. if pp_pid q = pp_pid p then q\<lparr>pp_pgid := g\<rparr> else q) (pm_procs s)\<rparr>) = Some (p\<lparr>pp_pgid := g\<rparr>)"
proof -
  let ?w = "the_pid pid s"
  have "pp_pid p = ?w" using assms by (auto simp: find_proc_def find_Some_iff)
  have "List.find (\<lambda>q. pp_pid q = ?w) ps = Some p \<Longrightarrow>
      List.find (\<lambda>q. pp_pid q = ?w) (map (\<lambda>q. if pp_pid q = pp_pid p then q\<lparr>pp_pgid := g\<rparr> else q) ps) = Some (p\<lparr>pp_pgid := g\<rparr>)" for ps
    using \<open>pp_pid p = ?w\<close> by (induction ps) (auto split: if_splits)
  then show ?thesis using assms by (simp add: find_proc_def)
qed

text \<open>
  A job control shell. A process that is not a session leader is moved into a new group of its own, that group is read back, and
  becomes the foreground group of a terminal of its session, which is read back as well; the session of the process stays the same.
\<close>

theorem job_control:
  assumes "find_proc pid s = Some p" "pp_sid p \<noteq> pp_pid p" "0 < pp_pid p" "pm_tty s fd = Some (pp_sid p, g)"
  shows "\<exists>s1 s2. netsys_setpgid pid 0 s = (Inr (), s1) \<and> netsys_getpgid pid s1 = Inr (pp_pid p) \<and> netsys_getsid pid s1 = Inr (pp_sid p) \<and>
    netsys_tcsetpgrp fd (pp_pid p) s1 = (Inr (), s2) \<and> netsys_tcgetpgrp fd s2 = Inr (pp_pid p) \<and> netsys_getpgid pid s2 = Inr (pp_pid p)"
proof -
  let ?s1 = "s\<lparr>pm_procs := map (\<lambda>q. if pp_pid q = pp_pid p then q\<lparr>pp_pgid := pp_pid p\<rparr> else q) (pm_procs s)\<rparr>"
  let ?s2 = "?s1\<lparr>pm_tty := (pm_tty s)(fd \<mapsto> (pp_sid p, pp_pid p))\<rparr>"
  have f1: "find_proc pid ?s1 = Some (p\<lparr>pp_pgid := pp_pid p\<rparr>)" using find_proc_update [OF assms(1)] .
  then have f2: "find_proc pid ?s2 = Some (p\<lparr>pp_pgid := pp_pid p\<rparr>)" by (simp add: find_proc_def)
  have "p\<lparr>pp_pgid := pp_pid p\<rparr> \<in> set (pm_procs ?s1)" using f1 unfolding find_proc_def by (rule find_in)
  then have "list_ex (\<lambda>q. pp_pgid q = pp_pid p \<and> pp_sid q = pp_sid p) (pm_procs ?s1)" unfolding list_ex_iff by (rule bexI [rotated]) simp
  then have "netsys_tcsetpgrp fd (pp_pid p) ?s1 = (Inr (), ?s2)" using assms(4) by (simp add: netsys_tcsetpgrp_def)
  moreover have "netsys_setpgid pid 0 s = (Inr (), ?s1)" using assms(1-3) by (simp add: netsys_setpgid_def sys_setpgid_def Let_def)
  moreover have "netsys_tcgetpgrp fd ?s2 = Inr (pp_pid p)" by (simp add: netsys_tcgetpgrp_def)
  ultimately show ?thesis using f1 f2 by (auto simp: netsys_getpgid_def netsys_getsid_def)
qed

definition sample_pm :: pm where
  "sample_pm = \<lparr>pm_self = 20, pm_procs = [\<lparr>pp_pid = 10, pp_pgid = 10, pp_sid = 10\<rparr>, \<lparr>pp_pid = 20, pp_pgid = 10, pp_sid = 10\<rparr>],
     pm_tty = [0 \<mapsto> (10, 10)], pm_ids = ((500, 500), (100, 100)), pm_groups = {100}\<rparr>"

theorem job_control_witness:
  "\<exists>s1 s2. netsys_setpgid 0 0 sample_pm = (Inr (), s1) \<and> netsys_tcsetpgrp 0 20 s1 = (Inr (), s2) \<and> netsys_tcgetpgrp 0 s2 = Inr 20"
proof -
  have "find_proc 0 sample_pm = Some \<lparr>pp_pid = 20, pp_pgid = 10, pp_sid = 10\<rparr>" "pm_tty sample_pm 0 = Some (10, 10)"
    by (simp_all add: find_proc_def the_pid_def sample_pm_def)
  then show ?thesis using job_control [of 0 sample_pm "\<lparr>pp_pid = 20, pp_pgid = 10, pp_sid = 10\<rparr>" 0 10] by auto
qed

section \<open>Descriptors: non-blocking mode, synchronisation, pseudo terminals\<close>

text \<open>\<open>fd_dirty\<close>: there is data that is not on the disk yet. \<open>fd_pty\<close>: the master of a pseudo terminal with the name of the slave, granted and locked.\<close>

record pty =
  pt_name :: string
  pt_granted :: bool
  pt_locked :: bool

record fdesc =
  fd_flags :: u32
  fd_dirty :: bool
  fd_pty :: "pty option"

type_synonym fdtab = "int \<Rightarrow> fdesc option"

definition netsys_get_nonblock :: "int \<Rightarrow> fdtab \<Rightarrow> exn + bool" where
  "netsys_get_nonblock fd t = (case t fd of None \<Rightarrow> Inl (Unix_error 9 ''fcntl'') | Some f \<Rightarrow> Inr (fd_flags f AND 0x800 \<noteq> 0))"

definition sys_fsync :: "int option \<Rightarrow> int \<Rightarrow> fdtab \<Rightarrow> int option \<times> fdtab" where
  "sys_fsync io_err fd t =
     (case t fd of
        None \<Rightarrow> (Some 9, t)
      | Some f \<Rightarrow> (case io_err of Some e \<Rightarrow> (Some e, t) | None \<Rightarrow> (None, t(fd \<mapsto> f\<lparr>fd_dirty := False\<rparr>))))"

definition netsys_fsync :: "int option \<Rightarrow> int \<Rightarrow> fdtab \<Rightarrow> (exn + unit) \<times> fdtab" where
  "netsys_fsync io_err fd t = (case sys_fsync io_err fd t of (Some e, t') \<Rightarrow> (Inl (Unix_error e ''fsync''), t') | (None, t') \<Rightarrow> (Inr (), t'))"

definition netsys_fdatasync :: "int option \<Rightarrow> int \<Rightarrow> fdtab \<Rightarrow> (exn + unit) \<times> fdtab" where
  "netsys_fdatasync io_err fd t = (case sys_fsync io_err fd t of (Some e, t') \<Rightarrow> (Inl (Unix_error e ''fdatasync''), t') | (None, t') \<Rightarrow> (Inr (), t'))"

text \<open>\<open>new\<close>: the answer of the system, a descriptor with the name of the slave or an error.\<close>

definition netsys_posix_openpt :: "int + int \<times> string \<Rightarrow> bool \<Rightarrow> fdtab \<Rightarrow> (exn + int) \<times> fdtab" where
  "netsys_posix_openpt new noctty t =
     (let flags = 2 OR (if noctty then 0x100 else 0)
      in (case new of
            Inl e \<Rightarrow> (Inl (Unix_error e ''openpt''), t)
          | Inr (fd, name) \<Rightarrow>
              (Inr fd, t(fd \<mapsto> \<lparr>fd_flags = flags, fd_dirty = False, fd_pty = Some \<lparr>pt_name = name, pt_granted = False, pt_locked = True\<rparr>\<rparr>))))"

definition pty_update :: "string \<Rightarrow> (pty \<Rightarrow> pty) \<Rightarrow> int \<Rightarrow> fdtab \<Rightarrow> (exn + unit) \<times> fdtab" where
  "pty_update name f fd t =
     (case t fd of
        None \<Rightarrow> (Inl (Unix_error 9 name), t)
      | Some d \<Rightarrow> (case fd_pty d of None \<Rightarrow> (Inl (Unix_error 22 name), t) | Some p \<Rightarrow> (Inr (), t(fd \<mapsto> d\<lparr>fd_pty := Some (f p)\<rparr>))))"

definition netsys_grantpt :: "int \<Rightarrow> fdtab \<Rightarrow> (exn + unit) \<times> fdtab" where
  "netsys_grantpt = pty_update ''grantpt'' (\<lambda>p. p\<lparr>pt_granted := True\<rparr>)"

definition netsys_unlockpt :: "int \<Rightarrow> fdtab \<Rightarrow> (exn + unit) \<times> fdtab" where
  "netsys_unlockpt = pty_update ''unlockpt'' (\<lambda>p. p\<lparr>pt_locked := False\<rparr>)"

definition netsys_ptsname :: "int \<Rightarrow> fdtab \<Rightarrow> exn + string" where
  "netsys_ptsname fd t =
     (case t fd of
        None \<Rightarrow> Inl (Unix_error 9 ''ptsname'')
      | Some d \<Rightarrow> (case fd_pty d of None \<Rightarrow> Inl (Unix_error 25 ''ptsname'') | Some p \<Rightarrow> Inr (cstr (pt_name p))))"

lemma pty_session:
  assumes "netsys_posix_openpt (Inr (fd, name)) noctty t = (Inr fd', t1)"
  shows "fd' = fd \<and> (\<exists>t2 t3 d p. netsys_grantpt fd t1 = (Inr (), t2) \<and> netsys_unlockpt fd t2 = (Inr (), t3) \<and> netsys_ptsname fd t3 = Inr (cstr name) \<and>
    t3 fd = Some d \<and> fd_pty d = Some p \<and> pt_granted p \<and> \<not> pt_locked p)"
  using assms by (auto simp: netsys_posix_openpt_def netsys_grantpt_def netsys_unlockpt_def netsys_ptsname_def pty_update_def)

section \<open>Advice and allocation\<close>

text \<open>On a 64 bit system \<^verbatim>\<open>off_t\<close> has 64 bits and the tests for the range never fail.\<close>

definition off_t :: "u64 \<Rightarrow> u64" where
  "off_t x = x"

definition netsys_fadvise :: "(int \<Rightarrow> u64 \<Rightarrow> u64 \<Rightarrow> nat \<Rightarrow> int) \<Rightarrow> int \<Rightarrow> u64 \<Rightarrow> u64 \<Rightarrow> nat \<Rightarrow> exn + unit" where
  "netsys_fadvise posix_fadvise fd start len adv =
     (if 12 \<le> adv then Inl (Invalid_argument ''Netsys.fadvise'')
      else if off_t start \<noteq> start \<or> off_t len \<noteq> len then Inl (Failure ''Netsys.fadvise: large files not supported on this OS'')
      else (let adv_int = [0, 2, 1, 5, 3, 4] ! (adv mod 6);
                r = posix_fadvise fd start len adv_int
            in if r = -1 then Inl (Unix_error 0 ''posix_fadvise64'') else Inr ()))"

definition netsys_fallocate :: "(int \<Rightarrow> u64 \<Rightarrow> u64 \<Rightarrow> int) \<Rightarrow> int \<Rightarrow> u64 \<Rightarrow> u64 \<Rightarrow> exn + unit" where
  "netsys_fallocate posix_fallocate fd start len =
     (if off_t start \<noteq> start \<or> off_t len \<noteq> len then Inl (Failure ''Netsys.fadvise: large files not supported on this OS'')
      else (let r = posix_fallocate fd start len in if r \<noteq> 0 then Inl (Unix_error r ''posix_fallocate64'') else Inr ()))"

text \<open>
  Both system calls return 0 or the error number, and do not set \<^verbatim>\<open>errno\<close>. Allocation reports every error; advice tests for \<open>- 1\<close> and reports none.
\<close>

lemma fallocate_reports: "netsys_fallocate f fd start len = (if f fd start len = 0 then Inr () else Inl (Unix_error (f fd start len) ''posix_fallocate64''))"
  by (simp add: netsys_fallocate_def off_t_def Let_def)

lemma fadvise_ignores_errors: "(\<And>a b c d. 0 \<le> f a b c d) \<Longrightarrow> adv < 12 \<Longrightarrow> netsys_fadvise f fd start len adv = Inr ()"
  by (smt (verit) netsys_fadvise_def off_t_def not_le)

lemma fadvise_names: "adv < 6 \<Longrightarrow> netsys_fadvise f fd start len (adv + 6) = netsys_fadvise f fd start len adv"
  by (simp add: netsys_fadvise_def)

section \<open>Shared memory\<close>

datatype shm_flag = SHM_O_RDONLY | SHM_O_RDWR | SHM_O_CREAT | SHM_O_EXCL | SHM_O_TRUNC

fun shm_open_flag_table :: "shm_flag \<Rightarrow> u32" where
  "shm_open_flag_table SHM_O_RDONLY = 0"
| "shm_open_flag_table SHM_O_RDWR = 2"
| "shm_open_flag_table SHM_O_CREAT = 0x40"
| "shm_open_flag_table SHM_O_EXCL = 0x80"
| "shm_open_flag_table SHM_O_TRUNC = 0x200"

text \<open>Objects by name, the descriptors of the process with their object, and the contents of the objects (truncation empties one).\<close>

record shm =
  shm_names :: "string \<Rightarrow> nat option"
  shm_fds :: "int \<Rightarrow> nat option"
  shm_data :: "nat \<Rightarrow> u8 list"

record shm_os =
  sm_fd :: int
  sm_obj :: nat
  sm_err :: "int option"

definition sys_shm_open :: "shm_os \<Rightarrow> string \<Rightarrow> u32 \<Rightarrow> shm \<Rightarrow> (int + int) \<times> shm" where
  "sys_shm_open os p flags s =
     (case sm_err os of
        Some e \<Rightarrow> (Inl e, s)
      | None \<Rightarrow>
          (case shm_names s p of
             None \<Rightarrow>
               if flags AND 0x40 = 0 then (Inl 2, s)
               else (Inr (sm_fd os), s\<lparr>shm_names := (shm_names s)(p \<mapsto> sm_obj os), shm_fds := (shm_fds s)(sm_fd os \<mapsto> sm_obj os), shm_data := (shm_data s)(sm_obj os := [])\<rparr>)
           | Some obj \<Rightarrow>
               if flags AND 0x40 \<noteq> 0 \<and> flags AND 0x80 \<noteq> 0 then (Inl 17, s)
               else (Inr (sm_fd os), s\<lparr>shm_fds := (shm_fds s)(sm_fd os \<mapsto> obj), shm_data := (if flags AND 0x200 \<noteq> 0 then (shm_data s)(obj := []) else shm_data s)\<rparr>)))"

definition netsys_shm_open :: "shm_os \<Rightarrow> string \<Rightarrow> shm_flag list \<Rightarrow> shm \<Rightarrow> (exn + int) \<times> shm" where
  "netsys_shm_open os path flags s =
     (let cv_flags = convert_flags shm_open_flag_table flags
      in (case sys_shm_open os (cstr path) cv_flags s of (Inl e, s') \<Rightarrow> (Inl (Unix_error e ''shm_open''), s') | (Inr ret, s') \<Rightarrow> (Inr ret, s')))"

definition netsys_shm_unlink :: "shm_os \<Rightarrow> string \<Rightarrow> shm \<Rightarrow> (exn + unit) \<times> shm" where
  "netsys_shm_unlink os path s =
     (case (if shm_names s (cstr path) = None then Some 2 else sm_err os) of
        Some e \<Rightarrow> (Inl (Unix_error e ''shm_unlink''), s)
      | None \<Rightarrow> (Inr (), s\<lparr>shm_names := (shm_names s)(cstr path := None)\<rparr>))"

lemma shm_flag_masks:
  "convert_flags shm_open_flag_table flags AND 0x40 \<noteq> 0 \<longleftrightarrow> SHM_O_CREAT \<in> set flags"
  "convert_flags shm_open_flag_table flags AND 0x80 \<noteq> 0 \<longleftrightarrow> SHM_O_EXCL \<in> set flags"
  "convert_flags shm_open_flag_table flags AND 0x200 \<noteq> 0 \<longleftrightarrow> SHM_O_TRUNC \<in> set flags"
proof -
  have "shm_open_flag_table f AND 0x40 \<noteq> 0 \<longleftrightarrow> f = SHM_O_CREAT" "shm_open_flag_table f AND 0x80 \<noteq> 0 \<longleftrightarrow> f = SHM_O_EXCL"
    "shm_open_flag_table f AND 0x200 \<noteq> 0 \<longleftrightarrow> f = SHM_O_TRUNC" for f
    by (cases f; simp)+
  then show "convert_flags shm_open_flag_table flags AND 0x40 \<noteq> 0 \<longleftrightarrow> SHM_O_CREAT \<in> set flags"
    "convert_flags shm_open_flag_table flags AND 0x80 \<noteq> 0 \<longleftrightarrow> SHM_O_EXCL \<in> set flags"
    "convert_flags shm_open_flag_table flags AND 0x200 \<noteq> 0 \<longleftrightarrow> SHM_O_TRUNC \<in> set flags"
    using convert_flags_bit [of shm_open_flag_table flags "0x40"] convert_flags_bit [of shm_open_flag_table flags "0x80"]
      convert_flags_bit [of shm_open_flag_table flags "0x200"] by auto
qed

text \<open>
  Shared memory objects. A name that does not exist is created as an empty object when creation is requested; opening the name
  again, without truncation, gives a second descriptor of the same object with its contents, exclusive creation fails; after unlinking
  the name is free, and the descriptors still lead to the object.
\<close>

theorem shm_lifecycle:
  assumes "shm_names s (cstr path) = None" "SHM_O_CREAT \<in> set flags" "sm_err os = None" "sm_err os' = None" "sm_fd os' \<noteq> sm_fd os"
    and "SHM_O_TRUNC \<notin> set flags'" "\<not> (SHM_O_CREAT \<in> set flags' \<and> SHM_O_EXCL \<in> set flags')"
  shows "\<exists>s1. netsys_shm_open os path flags s = (Inr (sm_fd os), s1) \<and> shm_data s1 (sm_obj os) = [] \<and>
    netsys_shm_open os' path [SHM_O_CREAT, SHM_O_EXCL] s1 = (Inl (Unix_error 17 ''shm_open''), s1) \<and>
    (\<exists>s2 s3. netsys_shm_open os' path flags' s1 = (Inr (sm_fd os'), s2) \<and> shm_fds s2 (sm_fd os) = Some (sm_obj os) \<and> shm_fds s2 (sm_fd os') = Some (sm_obj os) \<and>
      shm_data s2 = shm_data s1 \<and> netsys_shm_unlink os' path s2 = (Inr (), s3) \<and> shm_names s3 = shm_names s \<and> shm_fds s3 = shm_fds s2 \<and> shm_data s3 = shm_data s2)"
proof -
  obtain s1 where s1: "s1 = s\<lparr>shm_names := (shm_names s)(cstr path \<mapsto> sm_obj os), shm_fds := (shm_fds s)(sm_fd os \<mapsto> sm_obj os), shm_data := (shm_data s)(sm_obj os := [])\<rparr>" by blast
  obtain s2 where s2: "s2 = s1\<lparr>shm_fds := (shm_fds s1)(sm_fd os' \<mapsto> sm_obj os)\<rparr>" by blast
  obtain s3 where s3: "s3 = s2\<lparr>shm_names := (shm_names s2)(cstr path := None)\<rparr>" by blast
  have "netsys_shm_open os path flags s = (Inr (sm_fd os), s1)"
    using assms shm_flag_masks(1) [of flags] by (simp add: netsys_shm_open_def sys_shm_open_def s1 Let_def)
  moreover have "netsys_shm_open os' path [SHM_O_CREAT, SHM_O_EXCL] s1 = (Inl (Unix_error 17 ''shm_open''), s1)"
    using assms by (simp add: netsys_shm_open_def sys_shm_open_def s1)
  moreover have "netsys_shm_open os' path flags' s1 = (Inr (sm_fd os'), s2)"
    using assms shm_flag_masks [of flags'] by (auto simp: netsys_shm_open_def sys_shm_open_def s1 s2 Let_def)
  moreover have "netsys_shm_unlink os' path s2 = (Inr (), s3)" using assms by (simp add: netsys_shm_unlink_def s1 s2 s3)
  moreover have "shm_names s3 = shm_names s" using assms(1) by (simp add: s1 s2 s3 fun_upd_idem)
  ultimately show ?thesis using assms(5) by (simp add: s1 s2 s3)
qed

definition sample_shm_os :: "int \<Rightarrow> shm_os" where
  "sample_shm_os fd = \<lparr>sm_fd = fd, sm_obj = 1, sm_err = None\<rparr>"

theorem shm_lifecycle_witness:
  "\<exists>s1 s2. netsys_shm_open (sample_shm_os 3) ''/seg'' [SHM_O_RDWR, SHM_O_CREAT] \<lparr>shm_names = Map.empty, shm_fds = Map.empty, shm_data = (\<lambda>x. [])\<rparr> = (Inr 3, s1) \<and>
     netsys_shm_open (sample_shm_os 4) ''/seg'' [SHM_O_RDWR] s1 = (Inr 4, s2) \<and> shm_fds s2 3 = shm_fds s2 4"
proof -
  let ?s = "\<lparr>shm_names = Map.empty, shm_fds = Map.empty, shm_data = (\<lambda>x. [])\<rparr> :: shm"
  have "\<exists>s1. netsys_shm_open (sample_shm_os 3) ''/seg'' [SHM_O_RDWR, SHM_O_CREAT] ?s = (Inr 3, s1) \<and>
      (\<exists>s2. netsys_shm_open (sample_shm_os 4) ''/seg'' [SHM_O_RDWR] s1 = (Inr 4, s2) \<and> shm_fds s2 3 = Some 1 \<and> shm_fds s2 4 = Some 1)"
    using shm_lifecycle [of ?s "''/seg''" "[SHM_O_RDWR, SHM_O_CREAT]" "sample_shm_os 3" "sample_shm_os 4" "[SHM_O_RDWR]"]
    by (fastforce simp: sample_shm_os_def)
  then show ?thesis by fastforce
qed

section \<open>Locales\<close>

text \<open>
  \<^verbatim>\<open>setlocale\<close> with \<^verbatim>\<open>NULL\<close> returns a pointer to the name of the current locale; the text it points to may be changed by the next call. \<open>lc_stale\<close> is what the pointer
  shows after that.
\<close>

record lc_os =
  lc_support :: bool
  lc_known :: "string \<Rightarrow> bool"
  lc_info :: "string \<Rightarrow> nat \<Rightarrow> string"
  lc_stale :: "string \<Rightarrow> string \<Rightarrow> string"

definition setlocale :: "lc_os \<Rightarrow> string \<Rightarrow> string \<Rightarrow> string option" where
  "setlocale os name cur = (if lc_known os name then Some name else None)"

text \<open>The result is the list of the 55 items and the locale after the call.\<close>

definition netsys_query_langinfo :: "lc_os \<Rightarrow> string \<Rightarrow> string \<Rightarrow> (exn + string list) \<times> string" where
  "netsys_query_langinfo os name cur =
     (if \<not> lc_support os then (Inl (Failure ''Netsys_posix.query_locale: no locale support''), cur)
      else (case setlocale os (cstr name) cur of
              None \<Rightarrow> (Inl (Failure ''Netsys_posix.query_locale: cannot set this locale''), cur)
            | Some new_locale \<Rightarrow>
                (let s = map (\<lambda>k. cstr (lc_info os new_locale k)) [0..<55];
                     old_locale = lc_stale os cur new_locale
                 in (Inr s, case setlocale os old_locale new_locale of Some l \<Rightarrow> l | None \<Rightarrow> new_locale))))"

text \<open>The locale is restored when the text behind the pointer survives; otherwise it is whatever the pointer shows then, or the queried locale stays.\<close>

lemma query_langinfo_restores:
  "lc_stale os cur (cstr name) = cur \<Longrightarrow> lc_known os cur \<Longrightarrow> snd (netsys_query_langinfo os name cur) = cur"
  by (auto simp: netsys_query_langinfo_def setlocale_def Let_def split: option.splits)

lemma query_langinfo_stale:
  "lc_support os \<Longrightarrow> lc_known os (cstr name) \<Longrightarrow> lc_stale os cur (cstr name) = cstr name \<Longrightarrow> snd (netsys_query_langinfo os name cur) = cstr name"
  by (auto simp: netsys_query_langinfo_def setlocale_def Let_def split: option.splits)

section \<open>Credentials of a peer, and XTI connections\<close>

text \<open>\<open>peer\<close> is the answer to \<^verbatim>\<open>getsockopt\<close> with \<^verbatim>\<open>SO_PEERCRED\<close>: process, user and group; the identifiers are unsigned.\<close>

definition netsys_get_peer_credentials :: "(int \<Rightarrow> int + (u32 \<times> u32 \<times> u32)) \<Rightarrow> int \<Rightarrow> exn + int \<times> int" where
  "netsys_get_peer_credentials peer fd =
     (case peer fd of Inl e \<Rightarrow> Inl (Unix_error e ''getsockopt'') | Inr (pid, uid, gid) \<Rightarrow> Inr (uint uid, uint gid))"

text \<open>The answers of the XTI calls: \<open>Some (syserr, e)\<close> a failure, with \<^verbatim>\<open>errno\<close> \<open>e\<close> when it is a system error. The state is the set of open endpoints and the addresses connected to.\<close>

record xti_os =
  x_open :: "(bool \<times> int) + int"
  x_bind :: "(bool \<times> int) option"
  x_connect :: "u8 list \<Rightarrow> (bool \<times> int) option"
  x_push :: "int option"

record xti =
  xt_open :: "int set"
  xt_peer :: "int \<Rightarrow> u8 list option"

definition xti_error :: "int \<Rightarrow> string \<Rightarrow> bool \<times> int \<Rightarrow> xti \<Rightarrow> (exn + int) \<times> xti" where
  "xti_error fd cmdname err s = (Inl (Unix_error (if fst err then snd err else 0) cmdname), if 0 \<le> fd then s\<lparr>xt_open := xt_open s - {fd}\<rparr> else s)"

definition xti_cots_connect :: "xti_os \<Rightarrow> u8 list \<Rightarrow> xti \<Rightarrow> (exn + int) \<times> xti" where
  "xti_cots_connect os addr s =
     (case x_open os of
        Inl err \<Rightarrow> xti_error (-1) ''t_open'' err s
      | Inr fd \<Rightarrow>
          let s1 = s\<lparr>xt_open := insert fd (xt_open s)\<rparr>
          in (case x_bind os of
                Some err \<Rightarrow> xti_error fd ''t_bind'' err s1
              | None \<Rightarrow>
                  if 1024 < length addr then (Inl (Invalid_argument ''cots_connect: address too long''), s1\<lparr>xt_open := xt_open s1 - {fd}\<rparr>)
                  else (case x_connect os (take 1024 addr) of
                          Some err \<Rightarrow> xti_error fd ''t_connect'' err s1
                        | None \<Rightarrow>
                            (case x_push os of
                               Some e \<Rightarrow> (Inl (Unix_error e ''ioctl(I_PUSH)''), s1\<lparr>xt_open := xt_open s1 - {fd}\<rparr>)
                             | None \<Rightarrow> (Inr fd, s1\<lparr>xt_peer := (xt_peer s1)(fd \<mapsto> addr)\<rparr>)))))"

text \<open>No endpoint is leaked: after an error the open endpoints are those from before, after a success there is one more, connected to the address.\<close>

lemma xti_no_leak:
  assumes "\<And>fd. x_open os = Inr fd \<Longrightarrow> 0 \<le> fd \<and> fd \<notin> xt_open s"
  shows "case xti_cots_connect os addr s of
     (Inl e, s') \<Rightarrow> s' = s
   | (Inr fd, s') \<Rightarrow> x_open os = Inr fd \<and> xt_open s' = insert fd (xt_open s) \<and> xt_peer s' fd = Some addr \<and> length addr \<le> 1024"
  using assms by (auto simp: xti_cots_connect_def xti_error_def Let_def split: sum.splits option.splits)

end
