(* ===== verification/Apache_module.thy ===== *)
theory Apache_module
  imports At_calls
begin

text \<open>
  The Apache module, \<^verbatim>\<open>src/src/netcgi2-apache/handler.c\<close> (Apache 2), with the cleanup functions of \<^verbatim>\<open>apache.c\<close>.

  Configurations are OCaml values in cells that are allocated in pools of Apache and registered as roots of the OCaml collector; a cleanup function of the pool removes
  the root. The state has the cells with their pool and value, the registered roots, and the cleanup functions of each pool, the last registered first, in
  which order Apache runs them before it frees the memory of the pool. The OCaml side is a parameter: the registered functions by name, which
  return a value or raise an exception (given by its text), and the representation of strings, integers and pointers. An access to a freed cell, a missing
  function and an exception that nobody catches are \<open>None\<close>: the server process does not go on.
\<close>

section \<open>State\<close>

datatype cleanup = Remove_root nat | Run_cleanup nat

record 'v ap =
  ap_next :: nat
  ap_cells :: "nat \<Rightarrow> (nat \<times> 'v) option"
  ap_roots :: "nat list"
  ap_cleanups :: "nat \<Rightarrow> cleanup list"
  ap_log :: "string list"

record 'v caml =
  cm_named :: "string \<Rightarrow> ('v list \<Rightarrow> string + 'v) option"
  cm_apply :: "'v \<Rightarrow> string option"
  cm_unit :: 'v
  cm_string :: "string \<Rightarrow> 'v"
  cm_optstring :: "string option \<Rightarrow> 'v"
  cm_ptr :: "nat \<Rightarrow> 'v"
  cm_int :: "'v \<Rightarrow> int"

definition get_cell :: "nat \<Rightarrow> 'v ap \<Rightarrow> 'v option" where
  "get_cell a s = map_option snd (ap_cells s a)"

definition set_cell :: "nat \<Rightarrow> 'v \<Rightarrow> 'v ap \<Rightarrow> 'v ap option" where
  "set_cell a v s = map_option (\<lambda>c. s\<lparr>ap_cells := (ap_cells s)(a \<mapsto> (fst c, v))\<rparr>) (ap_cells s a)"

section \<open>Configuration\<close>

definition new_root :: "nat \<Rightarrow> 'v \<Rightarrow> (nat \<Rightarrow> cleanup) \<Rightarrow> 'v ap \<Rightarrow> nat \<times> 'v ap" where
  "new_root p v c s =
     (let a = ap_next s
      in (a, s\<lparr>ap_next := a + 1, ap_cells := (ap_cells s)(a \<mapsto> (p, v)), ap_roots := a # ap_roots s, ap_cleanups := (ap_cleanups s)(p := c a # ap_cleanups s p)\<rparr>))"

definition remove_root_value :: "nat \<Rightarrow> 'v ap \<Rightarrow> 'v ap" where
  "remove_root_value a s = s\<lparr>ap_roots := remove1 a (ap_roots s)\<rparr>"

definition alloc_root_value :: "'v caml \<Rightarrow> nat \<Rightarrow> 'v ap \<Rightarrow> nat \<times> 'v ap" where
  "alloc_root_value cm p s = new_root p (cm_unit cm) Remove_root s"

definition callback :: "'v caml \<Rightarrow> string \<Rightarrow> 'v list \<Rightarrow> 'v option" where
  "callback cm name args =
     do { f \<leftarrow> cm_named cm name;
          (case f args of Inl e \<Rightarrow> None | Inr r \<Rightarrow> Some r) }"

definition create_dir_config :: "'v caml \<Rightarrow> nat \<Rightarrow> string option \<Rightarrow> 'v ap \<Rightarrow> (nat \<times> 'v ap) option" where
  "create_dir_config cm p dirname s =
     (let arg = cm_optstring cm dirname; (v, s1) = alloc_root_value cm p s
      in do { r \<leftarrow> callback cm ''netcgi2_apache_create_dir_config'' [arg];
              s2 \<leftarrow> set_cell v r s1;
              Some (v, s2) })"

definition merge_dir_config :: "'v caml \<Rightarrow> nat \<Rightarrow> nat \<Rightarrow> nat \<Rightarrow> 'v ap \<Rightarrow> (nat \<times> 'v ap) option" where
  "merge_dir_config cm p base add s =
     (let (v, s1) = alloc_root_value cm p s
      in do { b \<leftarrow> get_cell base s1;
              a \<leftarrow> get_cell add s1;
              r \<leftarrow> callback cm ''netcgi2_apache_merge_dir_config'' [b, a];
              s2 \<leftarrow> set_cell v r s1;
              Some (v, s2) })"

definition create_server_config :: "'v caml \<Rightarrow> nat \<Rightarrow> nat \<Rightarrow> 'v ap \<Rightarrow> (nat \<times> 'v ap) option" where
  "create_server_config cm p srv s =
     (let arg = cm_ptr cm srv; (v, s1) = alloc_root_value cm p s
      in do { r \<leftarrow> callback cm ''netcgi2_apache_create_server_config'' [arg];
              s2 \<leftarrow> set_cell v r s1;
              Some (v, s2) })"

definition merge_server_config :: "'v caml \<Rightarrow> nat \<Rightarrow> nat \<Rightarrow> nat \<Rightarrow> 'v ap \<Rightarrow> (nat \<times> 'v ap) option" where
  "merge_server_config cm p base add s =
     (let (v, s1) = alloc_root_value cm p s
      in do { b \<leftarrow> get_cell base s1;
              a \<leftarrow> get_cell add s1;
              r \<leftarrow> callback cm ''netcgi2_apache_merge_server_config'' [b, a];
              s2 \<leftarrow> set_cell v r s1;
              Some (v, s2) })"

section \<open>Handlers\<close>

abbreviation (input) "HTTP_INTERNAL_SERVER_ERROR \<equiv> (500 :: int)"

text \<open>What is printed to \<^verbatim>\<open>stderr\<close> after the time stamp, which is left out.\<close>

definition exception_in_handler :: "string \<Rightarrow> string \<Rightarrow> 'v ap \<Rightarrow> int \<times> 'v ap" where
  "exception_in_handler exn_text function_name s =
     (HTTP_INTERNAL_SERVER_ERROR,
      s\<lparr>ap_log := ap_log s @ [''[netcgi2_apache] '' @ function_name @ '': Uncaught exception '' @ CHR 0x22 # exn_text @ [CHR 0x22, CHR ''.'', CHR 0x0A]]\<rparr>)"

definition make_handler :: "string \<Rightarrow> 'v caml \<Rightarrow> nat \<Rightarrow> 'v ap \<Rightarrow> (int \<times> 'v ap) option" where
  "make_handler name cm r s =
     do { f \<leftarrow> cm_named cm (''netcgi2_apache_'' @ name);
          (case f [cm_ptr cm r] of
             Inl e \<Rightarrow> Some (exception_in_handler e name s)
           | Inr rv \<Rightarrow> Some (cm_int cm rv, s)) }"

section \<open>Commands\<close>

text \<open>The result of a command is an error message or \<open>None\<close> for success.\<close>

definition make_simple_cmd :: "string \<Rightarrow> 'v caml \<Rightarrow> string \<Rightarrow> 'v ap \<Rightarrow> (string option \<times> 'v ap) option" where
  "make_simple_cmd name cm strarg s =
     (let arg = cm_string cm (cstr strarg)
      in do { f \<leftarrow> cm_named cm (''netcgi2_apache_'' @ name);
              (case f [arg] of Inl e \<Rightarrow> Some (Some e, s) | Inr r \<Rightarrow> Some (None, s)) })"

text \<open>Commands that change a configuration: of the server for \<^verbatim>\<open>cmd_translate_handler\<close>, of the directory for the others.\<close>

definition make_cmd :: "string \<Rightarrow> 'v caml \<Rightarrow> nat \<Rightarrow> string \<Rightarrow> 'v ap \<Rightarrow> (string option \<times> 'v ap) option" where
  "make_cmd name cm config strarg s =
     (let arg = cm_string cm (cstr strarg)
      in do { f \<leftarrow> cm_named cm (''netcgi2_apache_'' @ name);
              c \<leftarrow> get_cell config s;
              (case f [c, arg] of
                 Inl e \<Rightarrow> Some (Some e, s)
               | Inr r \<Rightarrow> do { s1 \<leftarrow> set_cell config r s; Some (None, s1) }) })"

definition cmd_translate_handler :: "'v caml \<Rightarrow> nat \<Rightarrow> string \<Rightarrow> 'v ap \<Rightarrow> (string option \<times> 'v ap) option" where
  "cmd_translate_handler cm sconfig strarg s =
     (let arg = cm_string cm (cstr strarg)
      in do { f \<leftarrow> cm_named cm ''netcgi2_apache_cmd_translate_handler'';
              c \<leftarrow> get_cell sconfig s;
              (case f [c, arg] of
                 Inl e \<Rightarrow> Some (Some e, s)
               | Inr r \<Rightarrow> do { s1 \<leftarrow> set_cell sconfig r s; Some (None, s1) }) })"

datatype command = Simple string | Server_cmd | Dir_cmd string

definition cmds :: "(string \<times> command) list" where
  "cmds =
     [(''NetcgiLoad'', Simple ''cmd_load''), (''NetcgiRequire'', Simple ''cmd_require''), (''NetcgiThread'', Simple ''cmd_thread''),
      (''NetcgiPredicates'', Simple ''cmd_predicates''), (''NetcgiTranslateHandler'', Server_cmd),
      (''NetcgiCheckUserIDHandler'', Dir_cmd ''cmd_check_user_id_handler''), (''NetcgiAuthCheckerHandler'', Dir_cmd ''cmd_auth_checker_handler''),
      (''NetcgiAccessCheckerHandler'', Dir_cmd ''cmd_access_checker_handler''), (''NetcgiTypeCheckerHandler'', Dir_cmd ''cmd_type_checker_handler''),
      (''NetcgiFixerUpperHandler'', Dir_cmd ''cmd_fixer_upper_handler''), (''NetcgiLoggerHandler'', Dir_cmd ''cmd_logger_handler''),
      (''NetcgiHeaderParserHandler'', Dir_cmd ''cmd_header_parser_handler''), (''NetcgiPostReadRequestHandler'', Dir_cmd ''cmd_post_read_request_handler''),
      (''NetcgiHandler'', Dir_cmd ''cmd_handler'')]"

text \<open>A line of the configuration file: Apache looks the directive up and calls the function with the configurations of the server and the directory.\<close>

definition directive :: "'v caml \<Rightarrow> nat \<Rightarrow> nat \<Rightarrow> string \<times> string \<Rightarrow> 'v ap \<Rightarrow> (string option \<times> 'v ap) option" where
  "directive cm sconfig dconfig line s =
     (case map_of cmds (fst line) of
        None \<Rightarrow> Some (Some ''Invalid command'', s)
      | Some (Simple name) \<Rightarrow> make_simple_cmd name cm (snd line) s
      | Some Server_cmd \<Rightarrow> cmd_translate_handler cm sconfig (snd line) s
      | Some (Dir_cmd name) \<Rightarrow> make_cmd name cm dconfig (snd line) s)"

text \<open>The hooks and the function of the OCaml side that each of them calls.\<close>

definition register_hooks :: "(string \<times> string) list" where
  "register_hooks =
     [(''translate_name'', ''translate_handler''), (''check_user_id'', ''check_user_id''), (''auth_checker'', ''auth_checker''),
      (''access_checker'', ''access_checker''), (''type_checker'', ''type_checker''), (''fixups'', ''fixer_upper''), (''log_transaction'', ''logger''),
      (''header_parser'', ''header_parser''), (''post_read_request'', ''post_read_request''), (''handler'', ''ocaml_bytecode_handler'')]"

definition run_hook :: "'v caml \<Rightarrow> string \<Rightarrow> nat \<Rightarrow> 'v ap \<Rightarrow> (int \<times> 'v ap) option" where
  "run_hook cm hook r s = (case map_of register_hooks hook of None \<Rightarrow> Some (-1, s) | Some name \<Rightarrow> make_handler name cm r s)"

section \<open>Cleanup functions and the end of a pool\<close>

definition run_cleanup :: "'v caml \<Rightarrow> nat \<Rightarrow> 'v ap \<Rightarrow> 'v ap option" where
  "run_cleanup cm a s =
     do { f \<leftarrow> get_cell a s;
          (case cm_apply cm f of Some e \<Rightarrow> None | None \<Rightarrow> Some (remove_root_value a s)) }"

definition netcgi2_apache_request_register_cleanup :: "nat \<Rightarrow> 'v \<Rightarrow> 'v ap \<Rightarrow> 'v ap" where
  "netcgi2_apache_request_register_cleanup p f s = snd (new_root p f Run_cleanup s)"

fun cleanups :: "'v caml \<Rightarrow> cleanup list \<Rightarrow> 'v ap \<Rightarrow> 'v ap option" where
  "cleanups cm [] s = Some s"
| "cleanups cm (Remove_root a # cs) s = cleanups cm cs (remove_root_value a s)"
| "cleanups cm (Run_cleanup a # cs) s = do { s1 \<leftarrow> run_cleanup cm a s; cleanups cm cs s1 }"

definition destroy_pool :: "'v caml \<Rightarrow> nat \<Rightarrow> 'v ap \<Rightarrow> 'v ap option" where
  "destroy_pool cm p s =
     do { s1 \<leftarrow> cleanups cm (ap_cleanups s p) s;
          Some (s1\<lparr>ap_cells := (\<lambda>a. case ap_cells s1 a of Some (q, v) \<Rightarrow> if q = p then None else Some (q, v) | None \<Rightarrow> None), ap_cleanups := (ap_cleanups s1)(p := [])\<rparr>) }"

section \<open>Roots and pools\<close>

fun cell_of :: "cleanup \<Rightarrow> nat" where
  "cell_of (Remove_root a) = a"
| "cell_of (Run_cleanup a) = a"

definition pool_of :: "'v ap \<Rightarrow> nat \<Rightarrow> nat option" where
  "pool_of s a = map_option fst (ap_cells s a)"

definition roots_inv :: "'v ap \<Rightarrow> bool" where
  "roots_inv s \<longleftrightarrow> (\<forall>a. pool_of s a \<noteq> None \<longrightarrow> a < ap_next s) \<and> distinct (ap_roots s) \<and> set (ap_roots s) = {a. pool_of s a \<noteq> None} \<and>
     (\<forall>p. distinct (map cell_of (ap_cleanups s p)) \<and> cell_of ` set (ap_cleanups s p) = {a. pool_of s a = Some p})"

lemma new_root_inv:
  assumes inv: "roots_inv s" and new: "new_root p v c s = (a, s')" and c: "cell_of (c (ap_next s)) = ap_next s"
  shows "roots_inv s'" "ap_cells s' = (ap_cells s)(a \<mapsto> (p, v))" "ap_cells s a = None"
proof -
  have s': "a = ap_next s" "ap_next s' = Suc a" "ap_cells s' = (ap_cells s)(a \<mapsto> (p, v))" "ap_roots s' = a # ap_roots s" "ap_cleanups s' = (ap_cleanups s)(p := c a # ap_cleanups s p)"
    using new by (auto simp: new_root_def Let_def)
  have pool: "pool_of s' = (pool_of s)(a \<mapsto> p)" using s'(3) by (auto simp: pool_of_def fun_eq_iff)
  have a: "pool_of s a = None" using inv s'(1) unfolding roots_inv_def by (metis less_irrefl)
  then show "ap_cells s a = None" by (simp add: pool_of_def)
  have "a \<notin> cell_of ` set (ap_cleanups s q)" for q using inv a by (simp add: roots_inv_def)
  then show "roots_inv s'" using inv a c s' pool unfolding roots_inv_def by (auto simp: less_Suc_eq)
  show "ap_cells s' = (ap_cells s)(a \<mapsto> (p, v))" by (rule s'(3))
qed

lemma set_cell_inv: "roots_inv s \<Longrightarrow> set_cell a v s = Some s' \<Longrightarrow> roots_inv s'"
proof -
  assume "roots_inv s" "set_cell a v s = Some s'"
  then have "pool_of s' = pool_of s" "ap_next s' = ap_next s" "ap_roots s' = ap_roots s" "ap_cleanups s' = ap_cleanups s"
    by (auto simp: set_cell_def pool_of_def fun_eq_iff)
  then show ?thesis using \<open>roots_inv s\<close> by (simp add: roots_inv_def)
qed

lemma alloc_root_value_inv: "roots_inv s \<Longrightarrow> alloc_root_value cm p s = (v, s1) \<Longrightarrow> roots_inv s1"
  using new_root_inv(1) [of s p "cm_unit cm" Remove_root v s1] by (simp add: alloc_root_value_def)

lemma remove1_filter: "distinct xs \<Longrightarrow> remove1 a xs = filter (\<lambda>b. b \<noteq> a) xs"
  by (induction xs) (auto intro: sym [OF filter_True])

lemma cleanups_roots:
  "cleanups cm cs s = Some s' \<Longrightarrow> distinct (ap_roots s) \<Longrightarrow>
     s' = s\<lparr>ap_roots := filter (\<lambda>a. a \<notin> cell_of ` set cs) (ap_roots s)\<rparr>"
proof (induction cm cs s arbitrary: s' rule: cleanups.induct)
  case (2 cm a cs s)
  then show ?case by (auto simp: remove_root_value_def remove1_filter conj_commute)
next
  case (3 cm a cs s)
  then obtain s1 where s1: "run_cleanup cm a s = Some s1" "cleanups cm cs s1 = Some s'" by (auto split: bind_splits)
  then have "s1 = remove_root_value a s" by (auto simp: run_cleanup_def split: bind_splits option.splits)
  then show ?case using "3.IH" [OF s1] "3.prems"(2) by (auto simp: remove_root_value_def remove1_filter conj_commute)
qed simp

lemma destroy_pool_eq:
  assumes "roots_inv s" "destroy_pool cm p s = Some s'"
  shows "ap_roots s' = filter (\<lambda>a. pool_of s a \<noteq> Some p) (ap_roots s)"
    "ap_cells s' = (\<lambda>a. if pool_of s a = Some p then None else ap_cells s a)"
    "ap_cleanups s' = (ap_cleanups s)(p := [])" "ap_next s' = ap_next s"
proof -
  obtain s1 where s1: "cleanups cm (ap_cleanups s p) s = Some s1"
    "s' = s1\<lparr>ap_cells := (\<lambda>a. case ap_cells s1 a of Some (q, v) \<Rightarrow> if q = p then None else Some (q, v) | None \<Rightarrow> None), ap_cleanups := (ap_cleanups s1)(p := [])\<rparr>"
    using assms(2) by (auto simp: destroy_pool_def split: bind_splits)
  have "distinct (ap_roots s)" "cell_of ` set (ap_cleanups s p) = {a. pool_of s a = Some p}" using assms(1) by (simp_all add: roots_inv_def)
  with cleanups_roots [OF s1(1)] have eq: "s1 = s\<lparr>ap_roots := filter (\<lambda>a. pool_of s a \<noteq> Some p) (ap_roots s)\<rparr>" by simp
  show "ap_cells s' = (\<lambda>a. if pool_of s a = Some p then None else ap_cells s a)"
    by (auto simp: s1(2) eq pool_of_def fun_eq_iff split: option.splits)
  show "ap_roots s' = filter (\<lambda>a. pool_of s a \<noteq> Some p) (ap_roots s)" "ap_cleanups s' = (ap_cleanups s)(p := [])" "ap_next s' = ap_next s"
    by (simp_all add: s1(2) eq)
qed

lemma destroy_pool_inv:
  assumes "roots_inv s" "destroy_pool cm p s = Some s'"
  shows "roots_inv s'" "pool_of s' = (\<lambda>a. if pool_of s a = Some p then None else pool_of s a)"
proof -
  note eq = destroy_pool_eq [OF assms]
  show pool: "pool_of s' = (\<lambda>a. if pool_of s a = Some p then None else pool_of s a)" using eq(2) by (auto simp: pool_of_def fun_eq_iff)
  show "roots_inv s'" using assms(1) eq(1,3,4) unfolding roots_inv_def pool by auto
qed

text \<open>The operations of a server, in any order.\<close>

inductive ap_step :: "'v caml \<Rightarrow> 'v ap \<Rightarrow> 'v ap \<Rightarrow> bool" for cm where
  dir_created: "create_dir_config cm p dirname s = Some (v, s') \<Longrightarrow> ap_step cm s s'"
| dir_merged: "merge_dir_config cm p base add s = Some (v, s') \<Longrightarrow> ap_step cm s s'"
| server_created: "create_server_config cm p srv s = Some (v, s') \<Longrightarrow> ap_step cm s s'"
| server_merged: "merge_server_config cm p base add s = Some (v, s') \<Longrightarrow> ap_step cm s s'"
| configured: "directive cm sconfig dconfig line s = Some (msg, s') \<Longrightarrow> ap_step cm s s'"
| hooked: "run_hook cm hook r s = Some (status, s') \<Longrightarrow> ap_step cm s s'"
| cleanup_registered: "ap_step cm s (netcgi2_apache_request_register_cleanup p f s)"
| pool_destroyed: "destroy_pool cm p s = Some s' \<Longrightarrow> ap_step cm s s'"

definition ap_start :: "'v ap" where
  "ap_start = \<lparr>ap_next = 0, ap_cells = Map.empty, ap_roots = [], ap_cleanups = (\<lambda>p. []), ap_log = []\<rparr>"

lemma directive_inv: "roots_inv s \<Longrightarrow> directive cm sconfig dconfig line s = Some (msg, s') \<Longrightarrow> roots_inv s'"
  by (auto simp: directive_def make_simple_cmd_def make_cmd_def cmd_translate_handler_def Let_def intro: set_cell_inv
      split: option.splits command.splits bind_splits sum.splits)

lemma roots_inv_log [simp]: "roots_inv (s\<lparr>ap_log := x\<rparr>) = roots_inv s"
proof -
  have "pool_of (s\<lparr>ap_log := x\<rparr>) = pool_of s" by (simp add: pool_of_def fun_eq_iff)
  then show ?thesis by (simp add: roots_inv_def)
qed

lemma hook_inv: "roots_inv s \<Longrightarrow> run_hook cm hook r s = Some (status, s') \<Longrightarrow> roots_inv s'"
  by (auto simp: run_hook_def make_handler_def exception_in_handler_def split: option.splits bind_splits sum.splits)

lemma ap_step_inv: "ap_step cm s s' \<Longrightarrow> roots_inv s \<Longrightarrow> roots_inv s'"
proof (induction rule: ap_step.induct)
  case (configured sconfig dconfig line s msg s')
  then show ?case using directive_inv by blast
next
  case (hooked hook r s status s')
  then show ?case using hook_inv by blast
next
  case (cleanup_registered s p f)
  obtain a s' where n: "new_root p f Run_cleanup s = (a, s')" by fastforce
  then show ?case using new_root_inv(1) [OF cleanup_registered n] by (simp add: netcgi2_apache_request_register_cleanup_def)
next
  case (pool_destroyed p s s')
  then show ?case using destroy_pool_inv(1) by blast
qed (auto simp: create_dir_config_def merge_dir_config_def create_server_config_def merge_server_config_def Let_def
    split: prod.splits bind_splits intro: set_cell_inv dest: alloc_root_value_inv)

interpretation apache: step_system "\<lambda>s. s = ap_start" "ap_step cm" roots_inv for cm
  by (unfold_locales, simp add: ap_start_def roots_inv_def pool_of_def, rule ap_step_inv)

lemma cleanups_ends:
  assumes "\<forall>a. Run_cleanup a \<in> set cs \<longrightarrow> (\<exists>f. get_cell a s = Some f \<and> cm_apply cm f = None)"
  shows "\<exists>s'. cleanups cm cs s = Some s'"
  using assms
proof (induction cm cs s rule: cleanups.induct)
  case (3 cm a cs s)
  then have r: "run_cleanup cm a s = Some (remove_root_value a s)" by (auto simp: run_cleanup_def)
  moreover have "get_cell b (remove_root_value a s) = get_cell b s" for b by (simp add: get_cell_def remove_root_value_def)
  ultimately show ?case using 3 by simp
qed (auto simp: get_cell_def remove_root_value_def)

text \<open>
  Claim C11: configurations and the collector. Whatever the server does (configurations created and merged, directives and requests handled, cleanup functions registered, pools
  destroyed, in any order and with any OCaml functions), the registered roots are exactly the live cells, each once: no root points to freed memory and no configuration
  can be collected. The destruction of a pool, unless one of its cleanup functions raises an exception, runs them all, removes the roots of that pool and only those, and keeps
  the cells of the other pools.
\<close>

theorem apache_roots:
  assumes run: "(ap_step cm)\<^sup>*\<^sup>* ap_start s"
  shows "distinct (ap_roots s) \<and> set (ap_roots s) = dom (ap_cells s) \<and>
    ((\<forall>a f. Run_cleanup a \<in> set (ap_cleanups s p) \<longrightarrow> get_cell a s = Some f \<longrightarrow> cm_apply cm f = None) \<longrightarrow>
      (\<exists>s'. destroy_pool cm p s = Some s' \<and> set (ap_roots s') = {a \<in> set (ap_roots s). pool_of s a \<noteq> Some p} \<and>
        (\<forall>a. ap_cells s' a = (if pool_of s a = Some p then None else ap_cells s a))))"
proof -
  have inv: "roots_inv s" using apache.reachable_inv [OF refl run] .
  have dom: "dom (ap_cells s) = {a. pool_of s a \<noteq> None}" by (auto simp: pool_of_def)
  have ends: "\<exists>s'. destroy_pool cm p s = Some s'" if ok: "\<forall>a f. Run_cleanup a \<in> set (ap_cleanups s p) \<longrightarrow> get_cell a s = Some f \<longrightarrow> cm_apply cm f = None"
  proof -
    have "\<exists>f. get_cell a s = Some f" if "Run_cleanup a \<in> set (ap_cleanups s p)" for a
    proof -
      have "a \<in> cell_of ` set (ap_cleanups s p)" using that by force
      then have "pool_of s a = Some p" using inv by (simp add: roots_inv_def)
      then show ?thesis by (auto simp: pool_of_def get_cell_def)
    qed
    then have "\<exists>s1. cleanups cm (ap_cleanups s p) s = Some s1" using ok by (blast intro: cleanups_ends)
    then show ?thesis by (auto simp: destroy_pool_def)
  qed
  have rest: "set (ap_roots s') = {a \<in> set (ap_roots s). pool_of s a \<noteq> Some p} \<and> (\<forall>a. ap_cells s' a = (if pool_of s a = Some p then None else ap_cells s a))"
    if "destroy_pool cm p s = Some s'" for s'
    using destroy_pool_eq(1,2) [OF inv that] by auto
  show ?thesis
  proof (intro conjI impI)
    show "distinct (ap_roots s)" "set (ap_roots s) = dom (ap_cells s)" using inv dom by (simp_all add: roots_inv_def)
  next
    assume "\<forall>a f. Run_cleanup a \<in> set (ap_cleanups s p) \<longrightarrow> get_cell a s = Some f \<longrightarrow> cm_apply cm f = None"
    from ends [OF this] obtain s' where "destroy_pool cm p s = Some s'" by blast
    with rest [OF this] show "\<exists>s'. destroy_pool cm p s = Some s' \<and> set (ap_roots s') = {a \<in> set (ap_roots s). pool_of s a \<noteq> Some p} \<and>
        (\<forall>a. ap_cells s' a = (if pool_of s a = Some p then None else ap_cells s a))"
      by (intro exI [of _ s'] conjI) simp_all
  qed
qed

section \<open>Directives and requests\<close>

text \<open>
  Directives. A directive of the module that names a directory handler replaces the configuration of the directory by the one its OCaml function computes
  from the old configuration and the argument, up to a NUL character; when the function raises an exception, the text is the error message of the directive and no
  configuration changes. Loading directives change no configuration.
\<close>

theorem directive_config:
  assumes "map_of cmds name = Some (Dir_cmd fname)" "cm_named cm (''netcgi2_apache_'' @ fname) = Some f" "ap_cells s dconfig = Some (p, c)"
  shows "directive cm sconfig dconfig (name, arg) s =
    (case f [c, cm_string cm (cstr arg)] of
       Inl e \<Rightarrow> Some (Some e, s)
     | Inr c' \<Rightarrow> Some (None, s\<lparr>ap_cells := (ap_cells s)(dconfig \<mapsto> (p, c'))\<rparr>)) \<and>
    (\<forall>lname lfun g. map_of cmds lname = Some (Simple lfun) \<longrightarrow> cm_named cm (''netcgi2_apache_'' @ lfun) = Some g \<longrightarrow>
       (\<exists>msg. directive cm sconfig dconfig (lname, arg) s = Some (msg, s)))"
  using assms
  by (auto simp: directive_def make_cmd_def make_simple_cmd_def get_cell_def set_cell_def Let_def split: sum.splits)

text \<open>A hook of the module answers the status of the OCaml function, or 500 with a line in the log when the function raises an exception.\<close>

lemma run_hook_status:
  assumes "map_of register_hooks hook = Some name" "cm_named cm (''netcgi2_apache_'' @ name) = Some f"
  shows "run_hook cm hook r s = (case f [cm_ptr cm r] of
       Inl e \<Rightarrow> Some (500, s\<lparr>ap_log := ap_log s @ [''[netcgi2_apache] '' @ name @ '': Uncaught exception '' @ CHR 0x22 # e @ [CHR 0x22, CHR ''.'', CHR 0x0A]]\<rparr>)
     | Inr v \<Rightarrow> Some (cm_int cm v, s))"
  using assms by (simp add: run_hook_def make_handler_def exception_in_handler_def split: sum.split)

text \<open>OCaml values as lists of strings; every function conses its arguments.\<close>

definition sample_cm :: "(string list) caml" where
  "sample_cm = \<lparr>cm_named = (\<lambda>name. Some (\<lambda>args. if args = [[''bad'']] then Inl ''Failure'' else Inr (concat args))), cm_apply = (\<lambda>v. None), cm_unit = [],
     cm_string = (\<lambda>x. [x]), cm_optstring = (\<lambda>x. case x of None \<Rightarrow> [] | Some y \<Rightarrow> [y]), cm_ptr = (\<lambda>a. []), cm_int = (\<lambda>v. 0)\<rparr>"

definition sample_ap :: "(string list) ap" where
  "sample_ap = \<lparr>ap_next = 1, ap_cells = [0 \<mapsto> (3, [''dir''])], ap_roots = [0], ap_cleanups = (\<lambda>p. [])(3 := [Remove_root 0]), ap_log = []\<rparr>"

lemma sample_ap_created: "create_dir_config sample_cm 3 (Some ''dir'') ap_start = Some (0, sample_ap)"
  by (simp add: create_dir_config_def alloc_root_value_def new_root_def callback_def set_cell_def sample_cm_def ap_start_def sample_ap_def Let_def)

theorem apache_roots_witness:
  "\<exists>s'. destroy_pool sample_cm 3 sample_ap = Some s' \<and> set (ap_roots s') = {}"
proof -
  have run: "(ap_step sample_cm)\<^sup>*\<^sup>* ap_start sample_ap" using sample_ap_created by (blast intro: ap_step.dir_created)
  have "cm_apply sample_cm f = None" for f by (simp add: sample_cm_def)
  then obtain s' where "destroy_pool sample_cm 3 sample_ap = Some s'" "set (ap_roots s') = {a \<in> set (ap_roots sample_ap). pool_of sample_ap a \<noteq> Some 3}"
    using apache_roots [OF run, of 3] by blast
  moreover have "{a \<in> set (ap_roots sample_ap). pool_of sample_ap a \<noteq> Some 3} = {}" by (auto simp: sample_ap_def pool_of_def)
  ultimately show ?thesis by auto
qed

theorem directive_config_witness:
  "directive sample_cm 9 0 (''NetcgiHandler'', ''Mod'') sample_ap = Some (None, sample_ap\<lparr>ap_cells := [0 \<mapsto> (3, [''dir'', ''Mod''])]\<rparr>)"
proof -
  have "map_of cmds ''NetcgiHandler'' = Some (Dir_cmd ''cmd_handler'')" by (simp add: cmds_def)
  from directive_config [OF this, of sample_cm _ sample_ap 0] show ?thesis by (simp add: sample_cm_def sample_ap_def cstr_def)
qed

end
