(* ===== verification/Apache_request.thy ===== *)
theory Apache_request
  imports Apache_module
begin

text \<open>
  The request interface of the Apache module, \<^verbatim>\<open>src/src/netcgi2-apache/apache.c\<close> (Apache 2). The structures of Apache are records with the fields the code uses; a
  C string that may be \<^verbatim>\<open>NULL\<close> is an option. The tables of the APR library are a type \<open>'t\<close> with its operations (\<open>'t apr\<close>); \<open>apr_do\<close> lists the entries that
  \<^verbatim>\<open>apr_table_do\<close> visits, in order. Reading and writing the body are functions of Apache.
\<close>

section \<open>Tables\<close>

record 't apr =
  apr_clear :: "'t \<Rightarrow> 't"
  apr_get :: "'t \<Rightarrow> string \<Rightarrow> string option"
  apr_do :: "'t \<Rightarrow> string option \<Rightarrow> (string \<times> string) list"
  apr_set :: "'t \<Rightarrow> string \<Rightarrow> string \<Rightarrow> 't"
  apr_add :: "'t \<Rightarrow> string \<Rightarrow> string \<Rightarrow> 't"
  apr_unset :: "'t \<Rightarrow> string \<Rightarrow> 't"

definition opt_string :: "string option \<Rightarrow> exn + string" where
  "opt_string x = (case x of None \<Rightarrow> Inl Not_found | Some y \<Rightarrow> Inr (cstr y))"

definition netcgi2_apache_table_clear :: "'t apr \<Rightarrow> 't \<Rightarrow> 't" where
  "netcgi2_apache_table_clear A t = apr_clear A t"

definition netcgi2_apache_table_get :: "'t apr \<Rightarrow> 't \<Rightarrow> string \<Rightarrow> exn + string" where
  "netcgi2_apache_table_get A t str = opt_string (apr_get A t (cstr str))"

definition netcgi2_apache_table_get_loop :: "string list \<Rightarrow> string \<times> string \<Rightarrow> string list" where
  "netcgi2_apache_table_get_loop res kv = cstr (snd kv) # res"

definition netcgi2_apache_table_get_all :: "'t apr \<Rightarrow> 't \<Rightarrow> string \<Rightarrow> string list" where
  "netcgi2_apache_table_get_all A t str = foldl netcgi2_apache_table_get_loop [] (apr_do A t (Some (cstr str)))"

definition netcgi2_apache_table_fields_loop :: "(string \<times> string) list \<Rightarrow> string \<times> string \<Rightarrow> (string \<times> string) list" where
  "netcgi2_apache_table_fields_loop res kv = (cstr (fst kv), cstr (snd kv)) # res"

definition netcgi2_apache_table_fields :: "'t apr \<Rightarrow> 't \<Rightarrow> (string \<times> string) list" where
  "netcgi2_apache_table_fields A t = foldl netcgi2_apache_table_fields_loop [] (apr_do A t None)"

definition netcgi2_apache_table_set :: "'t apr \<Rightarrow> 't \<Rightarrow> string \<Rightarrow> string \<Rightarrow> 't" where
  "netcgi2_apache_table_set A t key val = apr_set A t (cstr key) (cstr val)"

definition netcgi2_apache_table_add :: "'t apr \<Rightarrow> 't \<Rightarrow> string \<Rightarrow> string \<Rightarrow> 't" where
  "netcgi2_apache_table_add A t key val = apr_add A t (cstr key) (cstr val)"

definition netcgi2_apache_table_unset :: "'t apr \<Rightarrow> 't \<Rightarrow> string \<Rightarrow> 't" where
  "netcgi2_apache_table_unset A t key = apr_unset A t (cstr key)"

section \<open>Server, connection and request\<close>

record server_rec =
  server_hostname :: "string option"
  server_admin :: "string option"
  is_virtual :: bool
  module_config :: "nat option option"

record conn_rec =
  remote_ip :: "string option"
  remote_host :: "string option"

record finfo =
  fi_filetype :: int
  fi_valid :: u32
  fi_atime :: int
  fi_mtime :: int
  fi_ctime :: int
  fi_device :: u64
  fi_inode :: u64
  fi_protection :: u64
  fi_nlink :: u64
  fi_user :: u64
  fi_group :: u64
  fi_size :: u64

text \<open>\<open>next\<close>, \<open>prev\<close> and \<open>main\<close> are addresses of other requests; \<open>rq_private\<close> stands for the parts of the structure that only Apache
  itself uses, such as its filters; the code never looks at it.\<close>

record 't request_rec =
  connection :: conn_rec
  server :: "server_rec option"
  rq_next :: "nat option"
  rq_prev :: "nat option"
  rq_main :: "nat option"
  the_request :: "string option"
  assbackwards :: bool
  header_only :: bool
  protocol :: "string option"
  proto_num :: int
  hostname :: "string option"
  request_time :: int
  status_line :: "string option"
  status :: u32
  rq_method :: string
  method_number :: int
  headers_in :: 't
  headers_out :: 't
  err_headers_out :: 't
  subprocess_env :: 't
  rq_notes :: 't
  content_type :: "string option"
  user :: "string option"
  uri :: "string option"
  filename :: "string option"
  path_info :: "string option"
  rq_args :: "string option"
  rq_finfo :: finfo
  ap_auth_type :: "string option"
  per_dir_config :: "nat option option"
  rq_private :: "u8 list"

definition netcgi2_apache_server_hostname :: "server_rec \<Rightarrow> exn + string" where
  "netcgi2_apache_server_hostname s = opt_string (server_hostname s)"

definition netcgi2_apache_server_admin :: "server_rec \<Rightarrow> exn + string" where
  "netcgi2_apache_server_admin s = opt_string (server_admin s)"

definition netcgi2_apache_connection_remote_ip :: "conn_rec \<Rightarrow> exn + string" where
  "netcgi2_apache_connection_remote_ip c = opt_string (remote_ip c)"

definition opt_request :: "nat option \<Rightarrow> exn + nat" where
  "opt_request x = (case x of None \<Rightarrow> Inl Not_found | Some r \<Rightarrow> Inr r)"

definition netcgi2_apache_request_next :: "'t request_rec \<Rightarrow> exn + nat" where
  "netcgi2_apache_request_next r = opt_request (rq_next r)"

definition netcgi2_apache_request_prev :: "'t request_rec \<Rightarrow> exn + nat" where
  "netcgi2_apache_request_prev r = opt_request (rq_prev r)"

definition netcgi2_apache_request_main :: "'t request_rec \<Rightarrow> exn + nat" where
  "netcgi2_apache_request_main r = opt_request (rq_main r)"

definition netcgi2_apache_request_the_request :: "'t request_rec \<Rightarrow> exn + string" where
  "netcgi2_apache_request_the_request r = opt_string (the_request r)"

definition netcgi2_apache_request_protocol :: "'t request_rec \<Rightarrow> exn + string" where
  "netcgi2_apache_request_protocol r = opt_string (protocol r)"

definition netcgi2_apache_request_hostname :: "'t request_rec \<Rightarrow> exn + string" where
  "netcgi2_apache_request_hostname r = opt_string (hostname r)"

definition netcgi2_apache_request_status_line :: "'t request_rec \<Rightarrow> exn + string" where
  "netcgi2_apache_request_status_line r = opt_string (status_line r)"

definition netcgi2_apache_request_set_status_line :: "'t request_rec \<Rightarrow> string \<Rightarrow> 't request_rec" where
  "netcgi2_apache_request_set_status_line r str = r\<lparr>status_line := Some (cstr str)\<rparr>"

definition netcgi2_apache_request_status :: "'t request_rec \<Rightarrow> int" where
  "netcgi2_apache_request_status r = sint (status r)"

definition netcgi2_apache_request_set_status :: "'t request_rec \<Rightarrow> u64 \<Rightarrow> 't request_rec" where
  "netcgi2_apache_request_set_status r i = r\<lparr>status := Int_val i\<rparr>"

definition netcgi2_apache_request_content_type :: "'t request_rec \<Rightarrow> exn + string" where
  "netcgi2_apache_request_content_type r = opt_string (content_type r)"

definition netcgi2_apache_request_set_content_type :: "'t request_rec \<Rightarrow> string \<Rightarrow> 't request_rec" where
  "netcgi2_apache_request_set_content_type r str = r\<lparr>content_type := Some (cstr str)\<rparr>"

definition netcgi2_apache_request_user :: "'t request_rec \<Rightarrow> exn + string" where
  "netcgi2_apache_request_user r = opt_string (user r)"

definition netcgi2_apache_request_uri :: "'t request_rec \<Rightarrow> exn + string" where
  "netcgi2_apache_request_uri r = opt_string (uri r)"

definition netcgi2_apache_request_set_uri :: "'t request_rec \<Rightarrow> string \<Rightarrow> 't request_rec" where
  "netcgi2_apache_request_set_uri r str = r\<lparr>uri := Some (cstr str)\<rparr>"

definition netcgi2_apache_request_filename :: "'t request_rec \<Rightarrow> exn + string" where
  "netcgi2_apache_request_filename r = opt_string (filename r)"

definition netcgi2_apache_request_set_filename :: "'t request_rec \<Rightarrow> string \<Rightarrow> 't request_rec" where
  "netcgi2_apache_request_set_filename r str = r\<lparr>filename := Some (cstr str)\<rparr>"

definition netcgi2_apache_request_path_info :: "'t request_rec \<Rightarrow> exn + string" where
  "netcgi2_apache_request_path_info r = opt_string (path_info r)"

definition netcgi2_apache_request_set_path_info :: "'t request_rec \<Rightarrow> string \<Rightarrow> 't request_rec" where
  "netcgi2_apache_request_set_path_info r str = r\<lparr>path_info := Some (cstr str)\<rparr>"

definition netcgi2_apache_request_args :: "'t request_rec \<Rightarrow> exn + string" where
  "netcgi2_apache_request_args r = opt_string (rq_args r)"

definition netcgi2_apache_request_set_args :: "'t request_rec \<Rightarrow> string \<Rightarrow> 't request_rec" where
  "netcgi2_apache_request_set_args r str = r\<lparr>rq_args := Some (cstr str)\<rparr>"

definition netcgi2_apache_auth_type :: "'t request_rec \<Rightarrow> exn + string" where
  "netcgi2_apache_auth_type r = opt_string (ap_auth_type r)"

section \<open>File information\<close>

text \<open>The file types of APR: regular, directory, character and block device, symbolic link, pipe, socket.\<close>

definition file_kind_table :: "int list" where
  "file_kind_table = [1, 2, 3, 4, 6, 5, 7]"

fun cst_to_constr_loop :: "int \<Rightarrow> int list \<Rightarrow> nat \<Rightarrow> nat \<Rightarrow> nat" where
  "cst_to_constr_loop n [] i deflt = deflt"
| "cst_to_constr_loop n (x # tbl) i deflt = (if n = x then i else cst_to_constr_loop n tbl (Suc i) deflt)"

definition cst_to_constr :: "int \<Rightarrow> int list \<Rightarrow> nat \<Rightarrow> nat" where
  "cst_to_constr n tbl deflt = cst_to_constr_loop n tbl 0 deflt"

record statbuf =
  st_dev :: u64
  st_ino :: u64
  st_kind :: nat
  st_perm :: u64
  st_nlink :: u64
  st_uid :: u64
  st_gid :: u64
  st_rdev :: u64
  st_size :: u64
  st_atime :: int
  st_mtime :: int
  st_ctime :: int

definition apr_time_sec :: "int \<Rightarrow> int" where
  "apr_time_sec t = sgn t * (\<bar>t\<bar> div 1000000)"

text \<open>A time is valid when its bit in the mask is set; microseconds become seconds. The numbers are OCaml integers; the device of a special file is always 0.\<close>

definition netcgi2_apache_request_finfo :: "'t request_rec \<Rightarrow> statbuf option" where
  "netcgi2_apache_request_finfo r =
     (let f = rq_finfo r
      in if fi_filetype f \<noteq> 0
         then Some \<lparr>st_dev = Val_long (fi_device f), st_ino = Val_long (fi_inode f),
                st_kind = cst_to_constr (fi_filetype f) file_kind_table 0, st_perm = Val_long (fi_protection f), st_nlink = Val_long (fi_nlink f),
                st_uid = Val_long (fi_user f), st_gid = Val_long (fi_group f), st_rdev = Val_long 0, st_size = Val_long (fi_size f),
                st_atime = (if fi_valid f AND 0x40 \<noteq> 0 then apr_time_sec (fi_atime f) else 0),
                st_mtime = (if fi_valid f AND 0x10 \<noteq> 0 then apr_time_sec (fi_mtime f) else 0),
                st_ctime = (if fi_valid f AND 0x20 \<noteq> 0 then apr_time_sec (fi_ctime f) else 0)\<rparr>
         else None)"

section \<open>Reading and writing the body\<close>

text \<open>
  The functions of Apache are parameters. \<^verbatim>\<open>ap_get_client_block\<close> gets the size of the buffer and gives its result, the bytes it has stored from the start of the buffer
  on, and the request afterwards; \<^verbatim>\<open>ap_rputc\<close> and \<^verbatim>\<open>ap_rwrite\<close> get the bytes to write. The local buffer of 8192 bytes and the string of \<^verbatim>\<open>alloc_string\<close> have unknown contents
  before they are written (\<open>garbage\<close>). Accesses outside a buffer or an OCaml string, and a string of negative length, are \<open>None\<close>. The ranges of the arguments
  are checked on the OCaml side.
\<close>

definition netcgi2_apache_request_get_client_block ::
    "(nat \<Rightarrow> 't request_rec \<Rightarrow> int \<times> u8 list \<times> 't request_rec) \<Rightarrow> (nat \<Rightarrow> u8) \<Rightarrow> (nat \<Rightarrow> u8) \<Rightarrow> 't request_rec \<Rightarrow>
     ((exn + u8 list) \<times> 't request_rec) option" where
  "netcgi2_apache_request_get_client_block ap_get_client_block garbage garbage' r =
     (case ap_get_client_block 8192 r of
        (i, bs, r') \<Rightarrow> do {
          buffer \<leftarrow> blit (map garbage [0..<8192]) 0 bs 0 (length bs);
          if i = -1 then Some (Inl (Failure ''ap_get_client_block''), r')
          else if i < 0 then None
          else do {
            str \<leftarrow> blit (map garbage' [0..<nat i]) 0 buffer 0 (nat i);
            Some (Inr str, r')
          }
        })"

definition netcgi2_apache_request_get_client_block_buffered ::
    "(nat \<Rightarrow> 't request_rec \<Rightarrow> int \<times> u8 list \<times> 't request_rec) \<Rightarrow> 't request_rec \<Rightarrow> u8 list \<Rightarrow> nat \<Rightarrow> nat \<Rightarrow>
     (int \<times> u8 list \<times> 't request_rec) option" where
  "netcgi2_apache_request_get_client_block_buffered ap_get_client_block r buf ofs len =
     (case ap_get_client_block len r of
        (i, bs, r') \<Rightarrow> do { buf' \<leftarrow> blit buf ofs bs 0 (length bs); Some (i, buf', r') })"

definition netcgi2_apache_request_print_char ::
    "(u8 \<Rightarrow> 't request_rec \<Rightarrow> int \<times> 't request_rec) \<Rightarrow> 't request_rec \<Rightarrow> u8 \<Rightarrow> (exn + unit) \<times> 't request_rec" where
  "netcgi2_apache_request_print_char ap_rputc r c =
     (case ap_rputc c r of
        (i, r') \<Rightarrow> (if i = -1 then Inl (Sys_error ''Netcgi_mod#out_channel#output_char'') else Inr (), r'))"

definition netcgi2_apache_request_output ::
    "(u8 list \<Rightarrow> 't request_rec \<Rightarrow> int \<times> 't request_rec) \<Rightarrow> 't request_rec \<Rightarrow> u8 list \<Rightarrow> nat \<Rightarrow> nat \<Rightarrow> (int \<times> 't request_rec) option" where
  "netcgi2_apache_request_output ap_rwrite r buf ofs len =
     (if length buf < ofs + len then None else Some (ap_rwrite (take len (drop ofs buf)) r))"

text \<open>\<open>answer\<close>: the status of \<^verbatim>\<open>ap_get_basic_auth_pw\<close> and the password it has set.\<close>

definition netcgi2_apache_request_get_basic_auth_pw :: "int \<times> string option \<Rightarrow> int \<times> string option" where
  "netcgi2_apache_request_get_basic_auth_pw answer =
     (let (i, pw) = answer in (i, if i = -1 then None else map_option cstr pw))"

section \<open>Configurations of a request\<close>

definition config_value :: "nat option option \<Rightarrow> 'v ap \<Rightarrow> (exn + 'v) option" where
  "config_value cfg s =
     (case cfg of
        Some (Some c) \<Rightarrow> map_option Inr (get_cell c s)
      | _ \<Rightarrow> Some (Inl Not_found))"

definition netcgi2_apache_get_server_config :: "'t request_rec \<Rightarrow> 'v ap \<Rightarrow> (exn + 'v) option" where
  "netcgi2_apache_get_server_config r s = config_value (case server r of None \<Rightarrow> None | Some sv \<Rightarrow> module_config sv) s"

definition netcgi2_apache_get_dir_config :: "'t request_rec \<Rightarrow> 'v ap \<Rightarrow> (exn + 'v) option" where
  "netcgi2_apache_get_dir_config r s = config_value (per_dir_config r) s"

section \<open>Header tables\<close>

text \<open>
  What the APR library documents of its tables: keys are compared ignoring case; a table is a list of entries; \<^verbatim>\<open>apr_table_do\<close> with a key visits the entries of that
  key; \<^verbatim>\<open>add\<close> appends, \<^verbatim>\<open>set\<close> leaves one entry for the key, \<^verbatim>\<open>unset\<close> none, and both keep the entries of other keys.
\<close>

definition lower :: "char \<Rightarrow> char" where
  "lower c = (if 65 \<le> (of_char c :: nat) \<and> (of_char c :: nat) \<le> 90 then char_of ((of_char c :: nat) + 32) else c)"

definition same_key :: "string \<Rightarrow> string \<Rightarrow> bool" where
  "same_key a b \<longleftrightarrow> map lower a = map lower b"

definition apr_ok :: "'t apr \<Rightarrow> bool" where
  "apr_ok A \<longleftrightarrow>
     (\<forall>t k. apr_do A t (Some k) = filter (\<lambda>e. same_key k (fst e)) (apr_do A t None)) \<and>
     (\<forall>t k. apr_get A t k = (case apr_do A t (Some k) of [] \<Rightarrow> None | e # es \<Rightarrow> Some (snd e))) \<and>
     (\<forall>t. apr_do A (apr_clear A t) None = []) \<and>
     (\<forall>t k v. apr_do A (apr_add A t k v) None = apr_do A t None @ [(k, v)]) \<and>
     (\<forall>t k v. map snd (apr_do A (apr_set A t k v) (Some k)) = [v]) \<and>
     (\<forall>t k v k'. \<not> same_key k k' \<longrightarrow> apr_do A (apr_set A t k v) (Some k') = apr_do A t (Some k')) \<and>
     (\<forall>t k. apr_do A (apr_unset A t k) None = filter (\<lambda>e. \<not> same_key k (fst e)) (apr_do A t None))"

lemma get_all_eq: "netcgi2_apache_table_get_all A t k = rev (map (cstr \<circ> snd) (apr_do A t (Some (cstr k))))"
proof -
  have "foldl netcgi2_apache_table_get_loop acc es = rev (map (cstr \<circ> snd) es) @ acc" for acc es
    by (induction es arbitrary: acc) (simp_all add: netcgi2_apache_table_get_loop_def)
  then show ?thesis by (simp add: netcgi2_apache_table_get_all_def)
qed

lemma fields_eq: "netcgi2_apache_table_fields A t = rev (map (\<lambda>e. (cstr (fst e), cstr (snd e))) (apr_do A t None))"
proof -
  have "foldl netcgi2_apache_table_fields_loop acc es = rev (map (\<lambda>e. (cstr (fst e), cstr (snd e))) es) @ acc" for acc es
    by (induction es arbitrary: acc) (simp_all add: netcgi2_apache_table_fields_loop_def)
  then show ?thesis by (simp add: netcgi2_apache_table_fields_def)
qed

lemma apr_laws:
  assumes "apr_ok A"
  shows "apr_do A t (Some k) = filter (\<lambda>e. same_key k (fst e)) (apr_do A t None)"
    "apr_get A t k = (case apr_do A t (Some k) of [] \<Rightarrow> None | e # es \<Rightarrow> Some (snd e))"
    "apr_do A (apr_clear A t) None = []"
    "apr_do A (apr_add A t k v) None = apr_do A t None @ [(k, v)]"
    "map snd (apr_do A (apr_set A t k v) (Some k)) = [v]"
    "\<not> same_key k k' \<Longrightarrow> apr_do A (apr_set A t k v) (Some k') = apr_do A t (Some k')"
    "apr_do A (apr_unset A t k) None = filter (\<lambda>e. \<not> same_key k (fst e)) (apr_do A t None)"
  using assms unfolding apr_ok_def by blast+

lemma same_key_refl [simp]: "same_key a a"
  by (simp add: same_key_def)

lemma get_first:
  assumes "apr_ok A" "apr_do A t (Some (cstr k)) = e # es"
  shows "netcgi2_apache_table_get A t k = Inr (cstr (snd e))"
  using assms(2) by (simp add: netcgi2_apache_table_get_def opt_string_def apr_laws(2) [OF assms(1)])

text \<open>
  Header tables. A value that is set is the only one that is read back for its key; a value that is added comes first in the list of all values of
  the key, before those there were; after removal the key is not found; and none of these operations changes what is read for a key that differs by
  more than the case of letters.
\<close>

theorem table_ops:
  assumes A: "apr_ok A"
  shows "netcgi2_apache_table_get A (netcgi2_apache_table_set A t k v) k = Inr (cstr v) \<and>
    netcgi2_apache_table_get_all A (netcgi2_apache_table_set A t k v) k = [cstr v] \<and>
    netcgi2_apache_table_get_all A (netcgi2_apache_table_add A t k v) k = cstr v # netcgi2_apache_table_get_all A t k \<and>
    netcgi2_apache_table_fields A (netcgi2_apache_table_add A t k v) = (cstr k, cstr v) # netcgi2_apache_table_fields A t \<and>
    netcgi2_apache_table_get A (netcgi2_apache_table_unset A t k) k = Inl Not_found \<and>
    netcgi2_apache_table_fields A (netcgi2_apache_table_clear A t) = [] \<and>
    (\<not> same_key (cstr k) (cstr k') \<longrightarrow>
       netcgi2_apache_table_get_all A (netcgi2_apache_table_set A t k v) k' = netcgi2_apache_table_get_all A t k' \<and>
       netcgi2_apache_table_get_all A (netcgi2_apache_table_add A t k v) k' = netcgi2_apache_table_get_all A t k' \<and>
       netcgi2_apache_table_get_all A (netcgi2_apache_table_unset A t k) k' = netcgi2_apache_table_get_all A t k')"
proof -
  have set: "map snd (apr_do A (netcgi2_apache_table_set A t k v) (Some (cstr k))) = [cstr v]"
    by (simp only: apr_laws(5) [OF A] netcgi2_apache_table_set_def)
  then obtain e where e: "apr_do A (netcgi2_apache_table_set A t k v) (Some (cstr k)) = [e]" "snd e = cstr v" by (auto simp: map_eq_Cons_conv)
  have add: "apr_do A (netcgi2_apache_table_add A t k v) None = apr_do A t None @ [(cstr k, cstr v)]"
    by (simp add: apr_laws(4) [OF A] netcgi2_apache_table_add_def)
  have flt: "apr_do A u (Some x) = filter (\<lambda>e. same_key x (fst e)) (apr_do A u None)" for u x by (rule apr_laws(1) [OF A])
  have unset: "apr_do A (netcgi2_apache_table_unset A t k) None = filter (\<lambda>e. \<not> same_key (cstr k) (fst e)) (apr_do A t None)"
    by (simp add: apr_laws(7) [OF A] netcgi2_apache_table_unset_def)
  have "netcgi2_apache_table_get A (netcgi2_apache_table_set A t k v) k = Inr (cstr v)" using get_first [OF A e(1)] e(2) by simp
  moreover have "netcgi2_apache_table_get_all A (netcgi2_apache_table_set A t k v) k = [cstr v]" using e by (simp add: get_all_eq)
  moreover have "netcgi2_apache_table_get_all A (netcgi2_apache_table_add A t k v) k = cstr v # netcgi2_apache_table_get_all A t k"
    by (simp add: get_all_eq flt add)
  moreover have "netcgi2_apache_table_fields A (netcgi2_apache_table_add A t k v) = (cstr k, cstr v) # netcgi2_apache_table_fields A t"
    by (simp add: fields_eq add)
  moreover have none: "apr_do A (netcgi2_apache_table_unset A t k) (Some (cstr k)) = []" unfolding flt unset by (simp add: filter_empty_conv)
  then have "netcgi2_apache_table_get A (netcgi2_apache_table_unset A t k) k = Inl Not_found"
    by (simp add: netcgi2_apache_table_get_def opt_string_def apr_laws(2) [OF A])
  moreover have "netcgi2_apache_table_fields A (netcgi2_apache_table_clear A t) = []" by (simp add: fields_eq netcgi2_apache_table_clear_def apr_laws(3) [OF A])
  moreover have "netcgi2_apache_table_get_all A (netcgi2_apache_table_set A t k v) k' = netcgi2_apache_table_get_all A t k' \<and>
      netcgi2_apache_table_get_all A (netcgi2_apache_table_add A t k v) k' = netcgi2_apache_table_get_all A t k' \<and>
      netcgi2_apache_table_get_all A (netcgi2_apache_table_unset A t k) k' = netcgi2_apache_table_get_all A t k'" if ne: "\<not> same_key (cstr k) (cstr k')"
  proof (intro conjI)
    show "netcgi2_apache_table_get_all A (netcgi2_apache_table_set A t k v) k' = netcgi2_apache_table_get_all A t k'"
      using apr_laws(6) [OF A ne] by (simp add: get_all_eq netcgi2_apache_table_set_def)
    show "netcgi2_apache_table_get_all A (netcgi2_apache_table_add A t k v) k' = netcgi2_apache_table_get_all A t k'"
      using ne by (simp add: get_all_eq flt add same_key_def)
    have "same_key (cstr k') x \<Longrightarrow> \<not> same_key (cstr k) x" for x using ne by (simp add: same_key_def)
    then have "filter (\<lambda>e. same_key (cstr k') (fst e)) (filter (\<lambda>e. \<not> same_key (cstr k) (fst e)) es) = filter (\<lambda>e. same_key (cstr k') (fst e)) es" for es :: "(string \<times> string) list"
      by (auto intro: filter_cong)
    then show "netcgi2_apache_table_get_all A (netcgi2_apache_table_unset A t k) k' = netcgi2_apache_table_get_all A t k'"
      by (simp add: get_all_eq flt unset)
  qed
  ultimately show ?thesis by blast
qed

text \<open>An implementation of tables as lists.\<close>

definition sample_apr :: "((string \<times> string) list) apr" where
  "sample_apr =
     \<lparr>apr_clear = (\<lambda>t. []), apr_get = (\<lambda>t k. case filter (\<lambda>e. same_key k (fst e)) t of [] \<Rightarrow> None | e # es \<Rightarrow> Some (snd e)),
      apr_do = (\<lambda>t k. case k of None \<Rightarrow> t | Some x \<Rightarrow> filter (\<lambda>e. same_key x (fst e)) t),
      apr_set = (\<lambda>t k v. filter (\<lambda>e. \<not> same_key k (fst e)) t @ [(k, v)]), apr_add = (\<lambda>t k v. t @ [(k, v)]),
      apr_unset = (\<lambda>t k. filter (\<lambda>e. \<not> same_key k (fst e)) t)\<rparr>"

lemma sample_apr_ok: "apr_ok sample_apr"
proof -
  have "filter (\<lambda>e. same_key k' (fst e)) (filter (\<lambda>e. \<not> same_key k (fst e)) t @ [(k, v)]) = filter (\<lambda>e. same_key k' (fst e)) t"
    if "\<not> same_key k k'" for k k' :: string and t :: "(string \<times> string) list" and v
  proof -
    have "\<not> same_key k' k" "same_key k' x \<Longrightarrow> \<not> same_key k x" for x using that by (auto simp: same_key_def)
    then show ?thesis by (auto intro: filter_cong)
  qed
  then show ?thesis unfolding apr_ok_def by (simp add: sample_apr_def)
qed

theorem table_ops_witness:
  "netcgi2_apache_table_get_all sample_apr (netcgi2_apache_table_add sample_apr [(''Accept'', ''text'')] ''accept'' ''image'') ''accept'' = [''image'', ''text'']"
proof -
  have "netcgi2_apache_table_get_all sample_apr [(''Accept'', ''text'')] ''accept'' = [''text'']" "cstr ''image'' = ''image''" by code_simp+
  with table_ops [OF sample_apr_ok, of "[(''Accept'', ''text'')]" "''accept''" "''image''"] show ?thesis by simp
qed

section \<open>Fields, body and configuration of a request\<close>

text \<open>A field that is set is read back up to a NUL character.\<close>

lemma request_fields:
  "netcgi2_apache_request_status_line (netcgi2_apache_request_set_status_line r x) = Inr (cstr x)"
  "netcgi2_apache_request_content_type (netcgi2_apache_request_set_content_type r x) = Inr (cstr x)"
  "netcgi2_apache_request_uri (netcgi2_apache_request_set_uri r x) = Inr (cstr x)"
  "netcgi2_apache_request_filename (netcgi2_apache_request_set_filename r x) = Inr (cstr x)"
  "netcgi2_apache_request_path_info (netcgi2_apache_request_set_path_info r x) = Inr (cstr x)"
  "netcgi2_apache_request_args (netcgi2_apache_request_set_args r x) = Inr (cstr x)"
  by (simp_all add: netcgi2_apache_request_status_line_def netcgi2_apache_request_set_status_line_def netcgi2_apache_request_content_type_def
      netcgi2_apache_request_set_content_type_def netcgi2_apache_request_uri_def netcgi2_apache_request_set_uri_def netcgi2_apache_request_filename_def
      netcgi2_apache_request_set_filename_def netcgi2_apache_request_path_info_def netcgi2_apache_request_set_path_info_def netcgi2_apache_request_args_def
      netcgi2_apache_request_set_args_def opt_string_def)

lemma request_status:
  "n < 2 ^ 31 \<Longrightarrow> netcgi2_apache_request_status (netcgi2_apache_request_set_status r (Val_long (of_nat n))) = int n"
  unfolding netcgi2_apache_request_status_def netcgi2_apache_request_set_status_def using Int_val_Val_long(2) by simp

text \<open>File types are found in the table, unknown ones count as regular files.\<close>

lemma file_kinds:
  "map (\<lambda>n. cst_to_constr n file_kind_table 0) [1, 2, 3, 4, 5, 6, 7, 127] = [0, 1, 2, 3, 5, 4, 6, 0]"
  by (simp add: cst_to_constr_def file_kind_table_def)

text \<open>
  Reading a block, when Apache keeps to the buffer: an error is raised, otherwise the string has exactly the bytes that Apache has stored and counted, none of
  the unknown contents of the buffers. The buffered variant changes only the range of the OCaml string that it was given.
\<close>

lemma get_client_block_ok:
  assumes "ap_get_client_block 8192 r = (i, bs, r')" "length bs \<le> 8192" "i = -1 \<or> i = int (length bs)"
  shows "netcgi2_apache_request_get_client_block ap_get_client_block garbage garbage' r =
    Some (if i = -1 then Inl (Failure ''ap_get_client_block'') else Inr bs, r')"
  using assms by (auto simp: netcgi2_apache_request_get_client_block_def blit_def)

lemma client_block_buffered:
  assumes "ap_get_client_block len r = (i, bs, r')" "length bs \<le> len" "ofs + len \<le> length buf"
  shows "netcgi2_apache_request_get_client_block_buffered ap_get_client_block r buf ofs len =
    Some (i, take ofs buf @ bs @ drop (ofs + length bs) buf, r')"
  using assms by (simp add: netcgi2_apache_request_get_client_block_buffered_def blit_def)

text \<open>A request sees the configuration that a directive has set.\<close>

lemma request_sees_directive:
  assumes "map_of cmds name = Some (Dir_cmd fname)" "cm_named cm (''netcgi2_apache_'' @ fname) = Some f" "ap_cells s d = Some (p, c)"
    and "f [c, cm_string cm (cstr arg)] = Inr c'" "per_dir_config r = Some (Some d)"
  shows "\<exists>s'. directive cm sconfig d (name, arg) s = Some (None, s') \<and> netcgi2_apache_get_dir_config r s' = Some (Inr c')"
  using assms by (simp add: directive_def make_cmd_def get_cell_def set_cell_def netcgi2_apache_get_dir_config_def config_value_def)

end
