(* ===== verification/Apache_calls.thy ===== *)
theory Apache_calls
  imports Apache_request
begin

text \<open>
  The rest of \<^verbatim>\<open>src/src/netcgi2-apache/apache.c\<close> and of \<^verbatim>\<open>handler.c\<close> (Apache 2): the accessors of the fields of a request, the calls that Apache carries out on a
  request, and the start of the module. A table is handed out by its address, so that OCaml code modifies the table of the request and not a copy: the type of tables in a
  request is the type of addresses here, and a store gives the table of an address.
\<close>

section \<open>Fields of a server, a connection and a request\<close>

definition netcgi2_apache_server_is_virtual :: "server_rec \<Rightarrow> bool" where
  "netcgi2_apache_server_is_virtual s = is_virtual s"

definition netcgi2_apache_connection_remote_host :: "conn_rec \<Rightarrow> exn + string" where
  "netcgi2_apache_connection_remote_host c = opt_string (remote_host c)"

definition netcgi2_apache_request_connection :: "'h request_rec \<Rightarrow> conn_rec" where
  "netcgi2_apache_request_connection r = connection r"

text \<open>The result wraps the pointer, also a null pointer.\<close>

definition netcgi2_apache_request_server :: "'h request_rec \<Rightarrow> server_rec option" where
  "netcgi2_apache_request_server r = server r"

definition netcgi2_apache_request_assbackwards :: "'h request_rec \<Rightarrow> bool" where
  "netcgi2_apache_request_assbackwards r = assbackwards r"

definition netcgi2_apache_request_header_only :: "'h request_rec \<Rightarrow> bool" where
  "netcgi2_apache_request_header_only r = header_only r"

definition netcgi2_apache_request_proto_num :: "'h request_rec \<Rightarrow> int" where
  "netcgi2_apache_request_proto_num r = proto_num r"

text \<open>Apache 2 counts microseconds; \<open>to_double\<close> is the conversion of C.\<close>

definition netcgi2_apache_request_request_time :: "(int \<Rightarrow> 'd) \<Rightarrow> 'h request_rec \<Rightarrow> 'd" where
  "netcgi2_apache_request_request_time to_double r = to_double (request_time r)"

definition netcgi2_apache_request_method :: "'h request_rec \<Rightarrow> string" where
  "netcgi2_apache_request_method r = cstr (rq_method r)"

definition netcgi2_apache_request_method_number :: "'h request_rec \<Rightarrow> int" where
  "netcgi2_apache_request_method_number r = method_number r"

definition netcgi2_apache_request_headers_in :: "'h request_rec \<Rightarrow> 'h" where
  "netcgi2_apache_request_headers_in r = headers_in r"

definition netcgi2_apache_request_headers_out :: "'h request_rec \<Rightarrow> 'h" where
  "netcgi2_apache_request_headers_out r = headers_out r"

definition netcgi2_apache_request_err_headers_out :: "'h request_rec \<Rightarrow> 'h" where
  "netcgi2_apache_request_err_headers_out r = err_headers_out r"

definition netcgi2_apache_request_subprocess_env :: "'h request_rec \<Rightarrow> 'h" where
  "netcgi2_apache_request_subprocess_env r = subprocess_env r"

definition netcgi2_apache_request_notes :: "'h request_rec \<Rightarrow> 'h" where
  "netcgi2_apache_request_notes r = rq_notes r"

section \<open>Calls of Apache on a request\<close>

text \<open>The functions of Apache are arguments; each gives its result and the request it leaves.\<close>

definition netcgi2_apache_request_port :: "('h request_rec \<Rightarrow> u32) \<Rightarrow> 'h request_rec \<Rightarrow> u64" where
  "netcgi2_apache_request_port ap_get_server_port r = Val_long (ucast (ap_get_server_port r))"

text \<open>Apache 2 sends the header with the first output; the call does nothing.\<close>

definition netcgi2_apache_request_send_http_header :: "'h request_rec \<Rightarrow> 'h request_rec" where
  "netcgi2_apache_request_send_http_header r = r"

definition call_status :: "('h request_rec \<Rightarrow> u32 \<times> 'h request_rec) \<Rightarrow> 'h request_rec \<Rightarrow> u64 \<times> 'h request_rec" where
  "call_status f r = (case f r of (i, r') \<Rightarrow> (Val_long (scast i), r'))"

definition netcgi2_apache_request_rflush :: "('h request_rec \<Rightarrow> u32 \<times> 'h request_rec) \<Rightarrow> 'h request_rec \<Rightarrow> u64 \<times> 'h request_rec" where
  "netcgi2_apache_request_rflush ap_rflush r = call_status ap_rflush r"

definition netcgi2_apache_request_setup_client_block ::
    "('h request_rec \<Rightarrow> u32 \<Rightarrow> u32 \<times> 'h request_rec) \<Rightarrow> 'h request_rec \<Rightarrow> u64 \<Rightarrow> u64 \<times> 'h request_rec" where
  "netcgi2_apache_request_setup_client_block ap_setup_client_block r rp = call_status (\<lambda>r. ap_setup_client_block r (Int_val rp)) r"

definition netcgi2_apache_request_should_client_block :: "('h request_rec \<Rightarrow> u32 \<times> 'h request_rec) \<Rightarrow> 'h request_rec \<Rightarrow> bool \<times> 'h request_rec" where
  "netcgi2_apache_request_should_client_block ap_should_client_block r = (case ap_should_client_block r of (i, r') \<Rightarrow> (i \<noteq> 0, r'))"

definition netcgi2_apache_request_discard_request_body :: "('h request_rec \<Rightarrow> u32 \<times> 'h request_rec) \<Rightarrow> 'h request_rec \<Rightarrow> u64 \<times> 'h request_rec" where
  "netcgi2_apache_request_discard_request_body ap_discard_request_body r = call_status ap_discard_request_body r"

definition netcgi2_apache_request_note_auth_failure :: "('h request_rec \<Rightarrow> 'h request_rec) \<Rightarrow> 'h request_rec \<Rightarrow> 'h request_rec" where
  "netcgi2_apache_request_note_auth_failure ap_note_auth_failure r = ap_note_auth_failure r"

definition netcgi2_apache_request_note_basic_auth_failure :: "('h request_rec \<Rightarrow> 'h request_rec) \<Rightarrow> 'h request_rec \<Rightarrow> 'h request_rec" where
  "netcgi2_apache_request_note_basic_auth_failure ap_note_basic_auth_failure r = ap_note_basic_auth_failure r"

definition netcgi2_apache_request_note_digest_auth_failure :: "('h request_rec \<Rightarrow> 'h request_rec) \<Rightarrow> 'h request_rec \<Rightarrow> 'h request_rec" where
  "netcgi2_apache_request_note_digest_auth_failure ap_note_digest_auth_failure r = ap_note_digest_auth_failure r"

definition netcgi2_apache_request_internal_redirect :: "(string \<Rightarrow> 'h request_rec \<Rightarrow> 'h request_rec) \<Rightarrow> string \<Rightarrow> 'h request_rec \<Rightarrow> 'h request_rec" where
  "netcgi2_apache_request_internal_redirect ap_internal_redirect new_uri r = ap_internal_redirect (cstr new_uri) r"

definition netcgi2_apache_request_internal_redirect_handler ::
    "(string \<Rightarrow> 'h request_rec \<Rightarrow> 'h request_rec) \<Rightarrow> string \<Rightarrow> 'h request_rec \<Rightarrow> 'h request_rec" where
  "netcgi2_apache_request_internal_redirect_handler ap_internal_redirect_handler new_uri r = ap_internal_redirect_handler (cstr new_uri) r"

section \<open>Tables behind addresses\<close>

type_synonym 't tstore = "nat \<Rightarrow> 't"

definition at_table :: "('t \<Rightarrow> 't) \<Rightarrow> nat \<Rightarrow> 't tstore \<Rightarrow> 't tstore" where
  "at_table f a st = st(a := f (st a))"

text \<open>
  Headers are changed in place. A header that is set, added or removed through the table of a request is seen by every request that has a table at the same
  address, for example the request a subrequest was made from, with the value that was set; tables at other addresses, like the error headers, are not changed.
\<close>

lemma headers_in_place:
  fixes r r' :: "nat request_rec"
  assumes A: "apr_ok A" and same: "headers_out r' = headers_out r" and other: "err_headers_out r' \<noteq> headers_out r"
  shows "let h = netcgi2_apache_request_headers_out r; h' = netcgi2_apache_request_headers_out r'; e' = netcgi2_apache_request_err_headers_out r';
      st1 = at_table (\<lambda>t. netcgi2_apache_table_set A t k v) h st; st2 = at_table (\<lambda>t. netcgi2_apache_table_add A t k w) h' st1;
      st3 = at_table (\<lambda>t. netcgi2_apache_table_unset A t k) h st2
    in netcgi2_apache_table_get A (st1 h') k = Inr (cstr v) \<and> netcgi2_apache_table_get_all A (st2 h) k = [cstr w, cstr v] \<and>
       netcgi2_apache_table_get A (st3 h') k = Inl Not_found \<and> st3 e' = st e'"
proof -
  have "netcgi2_apache_table_get A (netcgi2_apache_table_set A t k v) k = Inr (cstr v)"
    "netcgi2_apache_table_get_all A (netcgi2_apache_table_add A t k w) k = cstr w # netcgi2_apache_table_get_all A t k"
    "netcgi2_apache_table_get_all A (netcgi2_apache_table_set A t k v) k = [cstr v]"
    "netcgi2_apache_table_get A (netcgi2_apache_table_unset A t k) k = Inl Not_found" for t v w
    using table_ops [OF A] by blast+
  then show ?thesis
    using same other by (simp add: at_table_def netcgi2_apache_request_headers_out_def netcgi2_apache_request_err_headers_out_def Let_def)
qed

section \<open>Start of the module\<close>

text \<open>\<open>readable\<close>: whether \<^verbatim>\<open>access\<close> finds the module file. The runtime is started with the path twice in its arguments.\<close>

datatype startup = Aborted string | Caml_started "string list"

definition init :: "string \<Rightarrow> (string \<Rightarrow> bool) \<Rightarrow> startup" where
  "init libdir readable =
     (let path = libdir @ ''/mod_netcgi_apache.so''; argv = [path, path]
      in if \<not> readable (argv ! 0) then Aborted (argv ! 0) else Caml_started argv)"

definition post_config :: "string \<Rightarrow> string list \<Rightarrow> int \<times> string list" where
  "post_config version components = (0, components @ [''Netcgi_apache/'' @ version])"

end
