(* ===== verification/Ssl_exts.thy ===== *)
theory Ssl_exts
  imports At_calls
begin

text \<open>
  The extensions of the SSL binding, \<^verbatim>\<open>src/src/equeue-ssl/ssl_exts_stubs.c\<close>: shutdown, mode bits, the end-of-file state, and the fingerprint of a certificate. The SSL object is a
  record of what the code asks OpenSSL for; \<^verbatim>\<open>SSL_shutdown\<close> and \<^verbatim>\<open>SSL_get_error\<close> are parameters. Writes into the buffer of the fingerprint are checked (\<open>None\<close> outside).
\<close>

section \<open>Shutdown and modes\<close>

record ssl =
  ssl_shutdown_state :: u32
  ssl_rbio_eof :: "bool option"
  ssl_mode :: u32

datatype ssl_exn = Shutdown_error int | Ssl_failure string

text \<open>The functions of OpenSSL are arguments: \<^verbatim>\<open>SSL_shutdown\<close> returns its result with the object it leaves, \<^verbatim>\<open>SSL_get_error\<close> the code for a result.\<close>

definition equeue_ssl_single_shutdown :: "(ssl \<Rightarrow> int \<times> ssl) \<Rightarrow> (ssl \<Rightarrow> int \<Rightarrow> int) \<Rightarrow> ssl \<Rightarrow> (ssl_exn + unit) \<times> ssl" where
  "equeue_ssl_single_shutdown SSL_shutdown SSL_get_error s =
     (case SSL_shutdown s of (ret, s1) \<Rightarrow>
        if ret = -1 then (Inl (Shutdown_error (SSL_get_error s1 ret)), s1) else (Inr (), s1))"

text \<open>\<^verbatim>\<open>SSL_SENT_SHUTDOWN\<close> is 1, \<^verbatim>\<open>SSL_RECEIVED_SHUTDOWN\<close> is 2.\<close>

definition equeue_ssl_get_shutdown :: "ssl \<Rightarrow> bool \<times> bool" where
  "equeue_ssl_get_shutdown s = (let r = ssl_shutdown_state s in (r AND 2 \<noteq> 0, r AND 1 \<noteq> 0))"

definition equeue_ssl_get_rbio_eof :: "ssl \<Rightarrow> ssl_exn + bool" where
  "equeue_ssl_get_rbio_eof s =
     (case ssl_rbio_eof s of None \<Rightarrow> Inl (Ssl_failure ''Ssl.get_rbio_eof: No rbio found'') | Some eof \<Rightarrow> Inr eof)"

text \<open>The modes for partial writes, moving buffers and automatic retries have the bits 1, 2 and 4; \<^verbatim>\<open>SSL_set_mode\<close> adds bits.\<close>

definition equeue_ssl_get_mode :: "ssl \<Rightarrow> bool \<times> bool \<times> bool" where
  "equeue_ssl_get_mode s = (let m = ssl_mode s in (m AND 1 \<noteq> 0, m AND 2 \<noteq> 0, m AND 4 \<noteq> 0))"

definition equeue_ssl_set_mode :: "ssl \<Rightarrow> bool \<times> bool \<times> bool \<Rightarrow> ssl" where
  "equeue_ssl_set_mode s mode =
     (case mode of (a, b, c) \<Rightarrow>
        let m = (if a then 1 else 0) OR (if b then 2 else 0) OR (if c then 4 else 0)
        in s\<lparr>ssl_mode := ssl_mode s OR m\<rparr>)"

text \<open>Setting modes switches the requested ones on and leaves the others as they were; it cannot switch a mode off, as \<^verbatim>\<open>ssl_exts.mli\<close> documents.\<close>

lemma set_mode_adds:
  "equeue_ssl_get_mode (equeue_ssl_set_mode s (a, b, c)) =
     (case equeue_ssl_get_mode s of (a0, b0, c0) \<Rightarrow> (a \<or> a0, b \<or> b0, c \<or> c0))"
  by (cases a; cases b; cases c) (auto simp: equeue_ssl_get_mode_def equeue_ssl_set_mode_def bit.conj_disj_distrib2 or_eq_0_iff Let_def)

section \<open>The fingerprint\<close>

definition hex_digit :: "nat \<Rightarrow> char" where
  "hex_digit n = (if n < 10 then char_of (48 + n) else char_of (55 + n))"

definition hex2 :: "u8 \<Rightarrow> string" where
  "hex2 b = [hex_digit (unat b div 16), hex_digit (unat b mod 16)]"

text \<open>\<^verbatim>\<open>sprintf\<close> writes the two digits and a NUL.\<close>

definition sprintf_02X :: "string \<Rightarrow> nat \<Rightarrow> u8 \<Rightarrow> string option" where
  "sprintf_02X buf u b =
     do { buf1 \<leftarrow> wr buf u (hex_digit (unat b div 16));
          buf2 \<leftarrow> wr buf1 (u + 1) (hex_digit (unat b mod 16));
          wr buf2 (u + 2) (CHR 0x00) }"

abbreviation (input) "SHA_DIGEST_LENGTH \<equiv> (20 :: nat)"

fun fingerprint_loop :: "u8 list \<Rightarrow> nat \<Rightarrow> nat \<Rightarrow> string \<Rightarrow> string option" where
  "fingerprint_loop [] k u s = Some s"
| "fingerprint_loop (b # bs) k u s =
     do { s1 \<leftarrow> sprintf_02X s u b;
          (if k + 1 < SHA_DIGEST_LENGTH
           then do { s2 \<leftarrow> wr s1 (u + 2) (CHR '':'');
                     s3 \<leftarrow> wr s2 (u + 3) (CHR 0x00);
                     fingerprint_loop bs (k + 1) (u + 3) s3 }
           else do { s3 \<leftarrow> wr s1 (u + 2) (CHR 0x00);
                     fingerprint_loop bs (k + 1) (u + 2) s3 }) }"

definition equeue_ssl_cert_fingerprint :: "(nat \<Rightarrow> string) \<Rightarrow> u8 list \<Rightarrow> string option" where
  "equeue_ssl_cert_fingerprint stat_alloc sha1_hash =
     do { s \<leftarrow> fingerprint_loop (take SHA_DIGEST_LENGTH sha1_hash) 0 0 (stat_alloc (SHA_DIGEST_LENGTH * 3));
          Some (cstr s) }"

text \<open>The text: two digits for each byte, separated by colons.\<close>

fun fp_text :: "u8 list \<Rightarrow> string" where
  "fp_text [] = []"
| "fp_text [b] = hex2 b"
| "fp_text (b # c # bs) = hex2 b @ CHR '':'' # fp_text (c # bs)"

lemma update_middle: "3 * k + 3 < length buf \<Longrightarrow>
   take (3 * k + 3) (buf[3 * k := x, 3 * k + 1 := y, 3 * k + 2 := z, 3 * k + 2 := c, 3 * k + 3 := z]) = take (3 * k) buf @ [x, y, c]"
  by (intro nth_equalityI) (auto simp: nth_append nth_list_update nth_Cons less_Suc_eq numeral_3_eq_3 split: nat.split)

lemma update_last: "length buf = 3 * k + 3 \<Longrightarrow>
   buf[3 * k := x, 3 * k + 1 := y, 3 * k + 2 := z, 3 * k + 2 := z] = take (3 * k) buf @ [x, y, z]"
  by (intro nth_equalityI) (auto simp: nth_append nth_list_update nth_Cons less_Suc_eq numeral_3_eq_3 split: nat.split)

lemma fingerprint_loop_ok:
  "bs \<noteq> [] \<Longrightarrow> length buf = 60 \<Longrightarrow> k + length bs = 20 \<Longrightarrow>
   fingerprint_loop bs k (3 * k) buf = Some (take (3 * k) buf @ fp_text bs @ [CHR 0x00])"
proof (induction bs arbitrary: k buf rule: fp_text.induct)
  case (2 b)
  then have "k = 19" by simp
  then show ?case using 2 update_last [of buf 19] by (simp add: sprintf_02X_def wr_def hex2_def list_update_append)
next
  case (3 b c bs)
  let ?buf = "buf[3 * k := hex_digit (unat b div 16), 3 * k + 1 := hex_digit (unat b mod 16), 3 * k + 2 := CHR 0x00, 3 * k + 2 := CHR '':'', 3 * k + 3 := CHR 0x00]"
  have k: "k + 1 < 20" "3 * k + 3 < 60" using "3.prems"(3) by auto
  have "fingerprint_loop (c # bs) (k + 1) (3 * (k + 1)) ?buf = Some (take (3 * (k + 1)) ?buf @ fp_text (c # bs) @ [CHR 0x00])"
    using "3.prems" by (intro "3.IH") simp_all
  moreover have "take (3 * (k + 1)) ?buf = take (3 * k) buf @ hex2 b @ [CHR '':'']"
    using update_middle [of k buf] k "3.prems"(2) by (simp add: hex2_def add.commute [of 3])
  moreover have "fingerprint_loop (b # c # bs) k (3 * k) buf = fingerprint_loop (c # bs) (k + 1) (3 * (k + 1)) ?buf"
    using k "3.prems"(2) by (simp add: sprintf_02X_def wr_def add.commute [of 3] del: list_update_overwrite)
  ultimately show ?case by simp
qed simp

lemma hex_digit_inj: "i < 16 \<Longrightarrow> j < 16 \<Longrightarrow> hex_digit i = hex_digit j \<Longrightarrow> i = j"
proof -
  have "list_all (\<lambda>i. list_all (\<lambda>j. hex_digit i = hex_digit j \<longrightarrow> i = j) [0..<16]) [0..<16]" by code_simp
  then show "i < 16 \<Longrightarrow> j < 16 \<Longrightarrow> hex_digit i = hex_digit j \<Longrightarrow> i = j" by (auto simp: list_all_iff)
qed

lemma hex_digit_not_nul: "i < 16 \<Longrightarrow> hex_digit i \<noteq> CHR 0x00"
proof -
  have "list_all (\<lambda>i. hex_digit i \<noteq> CHR 0x00) [0..<16]" by code_simp
  then show "i < 16 \<Longrightarrow> hex_digit i \<noteq> CHR 0x00" by (auto simp: list_all_iff)
qed

lemma hex2_inj: "hex2 b = hex2 c \<Longrightarrow> b = c"
proof -
  assume "hex2 b = hex2 c"
  moreover have "unat b div 16 < 16" "unat c div 16 < 16" using unsigned_less [of b] unsigned_less [of c] by (simp_all add: div_less_iff_less_mult)
  ultimately have "unat b div 16 = unat c div 16" "unat b mod 16 = unat c mod 16" using hex_digit_inj by (simp_all add: hex2_def)
  then have "unat b = unat c" by (metis div_mult_mod_eq)
  then show "b = c" by (simp add: word_unat_eq_iff)
qed

lemma fp_text_not_nul: "x \<in> set (fp_text bs) \<Longrightarrow> x \<noteq> CHR 0x00"
proof (induction bs rule: fp_text.induct)
  case (2 b)
  have "unat b div 16 < 16" using unsigned_less [of b] by (simp add: div_less_iff_less_mult)
  then show ?case using 2 hex_digit_not_nul [of "unat b div 16"] hex_digit_not_nul [of "unat b mod 16"] by (auto simp: hex2_def)
next
  case (3 b c bs)
  have "unat b div 16 < 16" using unsigned_less [of b] by (simp add: div_less_iff_less_mult)
  then show ?case using 3 hex_digit_not_nul [of "unat b div 16"] hex_digit_not_nul [of "unat b mod 16"] by (auto simp: hex2_def)
qed simp

lemma fp_text_inj: "length bs = length cs \<Longrightarrow> fp_text bs = fp_text cs \<Longrightarrow> bs = cs"
proof (induction bs arbitrary: cs rule: fp_text.induct)
  case (2 b)
  then show ?case using hex2_inj by (cases cs) auto
next
  case (3 b c bs)
  obtain b' c' cs' where cs: "cs = b' # c' # cs'" "length cs' = length bs"
    using "3.prems"(1) by (metis Suc_length_conv length_Cons)
  then have "hex2 b = hex2 b'" "fp_text (c # bs) = fp_text (c' # cs')" using "3.prems"(2) by (simp_all add: hex2_def)
  then show ?case using hex2_inj "3.IH" [of "c' # cs'"] cs by simp
qed simp

text \<open>
  Claim C38: the fingerprint. For every certificate the loop stays inside the buffer of 60 bytes, whose last byte is the terminating NUL, and the result is
  the hexadecimal representation of the 20 bytes of the digest, separated by colons; it has 59 characters, and different digests have different fingerprints.
\<close>

theorem cert_fingerprint_correct:
  assumes "\<And>n. length (stat_alloc n) = n" "length h = 20"
  shows "equeue_ssl_cert_fingerprint stat_alloc h = Some (fp_text h) \<and> length (fp_text h) = 59 \<and>
    (\<forall>h'. length h' = 20 \<longrightarrow> equeue_ssl_cert_fingerprint stat_alloc h' = equeue_ssl_cert_fingerprint stat_alloc h \<longrightarrow> h' = h)"
proof -
  have fp: "equeue_ssl_cert_fingerprint stat_alloc h = Some (fp_text h)" if "length h = 20" for h
  proof -
    have "h \<noteq> []" using that by auto
    then have "fingerprint_loop h 0 (3 * 0) (stat_alloc 60) = Some (take (3 * 0) (stat_alloc 60) @ fp_text h @ [CHR 0x00])"
      using fingerprint_loop_ok [of h "stat_alloc 60" 0] assms(1) that by simp
    moreover have "cstr (fp_text h @ [CHR 0x00]) = fp_text h" using fp_text_not_nul by (auto simp: cstr_def takeWhile_append)
    ultimately show ?thesis using that by (simp add: equeue_ssl_cert_fingerprint_def)
  qed
  have "bs \<noteq> [] \<Longrightarrow> length (fp_text bs) = 3 * length bs - 1" for bs by (induction bs rule: fp_text.induct) (auto simp: hex2_def)
  moreover have "h \<noteq> []" using assms(2) by auto
  ultimately have "length (fp_text h) = 59" using assms(2) by simp
  then show ?thesis using fp assms(2) fp_text_inj by auto
qed

theorem cert_fingerprint_correct_witness:
  "equeue_ssl_cert_fingerprint (\<lambda>n. replicate n CHR ''x'') (replicate 20 0xab) = Some (concat (replicate 19 ''AB:'') @ ''AB'')"
proof -
  have "fp_text (replicate 20 0xab) = concat (replicate 19 ''AB:'') @ ''AB''" by code_simp
  then show ?thesis using cert_fingerprint_correct [of "\<lambda>n. replicate n CHR ''x''" "replicate 20 0xab"] by simp
qed

end
