(* ===== verification/Tclqueue.thy ===== *)
theory Tclqueue
  imports Netsys_Prelude
begin

text \<open>
  The handlers of the Tcl event loop, \<^verbatim>\<open>src/src/equeue-tcl/tclqueue.c\<close>. A handler is an allocated block with the OCaml function to call, which is
  registered as a root of the collector; Tcl keeps the address of the block as client data. The functions of Tcl and \<^verbatim>\<open>stat_alloc\<close> are parameters. A run
  is a list of calls and of events, where an event carries the calls its OCaml function makes; reading a freed block ends the run with an error.
\<close>

section \<open>State\<close>

type_synonym addr = nat

type_synonym caml_fn = nat

type_synonym timer_token = nat

record filehandler =
  fh_callback_fn :: caml_fn
  fh_fd :: int

record timerhandler =
  th_callback_fn :: caml_fn
  th_token :: timer_token

datatype handler_block = File_handler filehandler | Timer_handler timerhandler

text \<open>What Tcl does, on a state of its own: the first four are its functions, the next two read which handlers are installed, the last removes a timer that fires.\<close>

record 't tcl_api =
  Tcl_CreateFileHandler :: "int \<Rightarrow> u32 \<Rightarrow> addr \<Rightarrow> 't \<Rightarrow> 't"
  Tcl_DeleteFileHandler :: "int \<Rightarrow> 't \<Rightarrow> 't"
  Tcl_CreateTimerHandler :: "int \<Rightarrow> addr \<Rightarrow> 't \<Rightarrow> timer_token \<times> 't"
  Tcl_DeleteTimerHandler :: "timer_token \<Rightarrow> 't \<Rightarrow> 't"
  tcl_files :: "'t \<Rightarrow> int \<Rightarrow> (u32 \<times> addr) option"
  tcl_timers :: "'t \<Rightarrow> timer_token \<Rightarrow> addr option"
  tcl_fire :: "timer_token \<Rightarrow> 't \<Rightarrow> 't"

record 't tclqueue =
  blocks :: "addr \<Rightarrow> handler_block option"
  roots :: "addr list"
  tcl :: 't
  called :: "caml_fn list"
  stderr_lines :: "string list"

datatype tcl_error = Out_of_memory | Bad_descriptor | Dangling_handler

section \<open>File handlers\<close>

definition file_proc :: "(caml_fn \<Rightarrow> 't tclqueue \<Rightarrow> tcl_error + bool \<times> 't tclqueue) \<Rightarrow> addr \<Rightarrow> 't tclqueue \<Rightarrow> tcl_error + 't tclqueue" where
  "file_proc callback_exn h s =
     (case blocks s h of
        Some (File_handler r) \<Rightarrow>
          (case callback_exn (fh_callback_fn r) (s\<lparr>called := called s @ [fh_callback_fn r]\<rparr>) of
             Inl e \<Rightarrow> Inl e
           | Inr (exn, s1) \<Rightarrow>
               Inr (if exn then s1\<lparr>stderr_lines := stderr_lines s1 @ [''In file_proc: Uncaught Ocaml exception'']\<rparr> else s1))
      | _ \<Rightarrow> Inl Dangling_handler)"

text \<open>\<^verbatim>\<open>TCL_READABLE\<close>, \<^verbatim>\<open>TCL_WRITABLE\<close> and \<^verbatim>\<open>TCL_EXCEPTION\<close> are 2, 4 and 8.\<close>

definition tcl_mask :: "u32 \<Rightarrow> u32" where
  "tcl_mask m = (if m AND 1 \<noteq> 0 then 2 else 0) OR (if m AND 2 \<noteq> 0 then 4 else 0) OR (if m AND 4 \<noteq> 0 then 8 else 0)"

definition caml_Tcl_CreateFileHandler ::
  "'t tcl_api \<Rightarrow> ('t tclqueue \<Rightarrow> addr option) \<Rightarrow> caml_fn \<Rightarrow> int \<Rightarrow> u32 \<Rightarrow> 't tclqueue \<Rightarrow> (tcl_error + addr) \<times> 't tclqueue" where
  "caml_Tcl_CreateFileHandler api stat_alloc callback_fn file_descriptor msk s =
     (case stat_alloc s of
        None \<Rightarrow> (Inl Out_of_memory, s)
      | Some h \<Rightarrow>
          let s1 = s\<lparr>roots := h # roots s\<rparr>;
              s2 = s1\<lparr>blocks := (blocks s1)(h \<mapsto> File_handler \<lparr>fh_callback_fn = callback_fn, fh_fd = file_descriptor\<rparr>)\<rparr>
          in (Inr h, s2\<lparr>tcl := Tcl_CreateFileHandler api file_descriptor (tcl_mask msk) h (tcl s2)\<rparr>))"

definition caml_Tcl_DeleteFileHandler :: "'t tcl_api \<Rightarrow> addr \<Rightarrow> 't tclqueue \<Rightarrow> tcl_error + 't tclqueue" where
  "caml_Tcl_DeleteFileHandler api h s =
     (case blocks s h of
        Some (File_handler r) \<Rightarrow>
          let s1 = s\<lparr>tcl := Tcl_DeleteFileHandler api (fh_fd r) (tcl s)\<rparr>;
              s2 = s1\<lparr>roots := remove1 h (roots s1)\<rparr>
          in Inr (s2\<lparr>blocks := (blocks s2)(h := None)\<rparr>)
      | _ \<Rightarrow> Inl Bad_descriptor)"

section \<open>Timers\<close>

definition timer_proc :: "(caml_fn \<Rightarrow> 't tclqueue \<Rightarrow> tcl_error + bool \<times> 't tclqueue) \<Rightarrow> addr \<Rightarrow> 't tclqueue \<Rightarrow> tcl_error + 't tclqueue" where
  "timer_proc callback_exn h s =
     (case blocks s h of
        Some (Timer_handler r) \<Rightarrow>
          (case callback_exn (th_callback_fn r) (s\<lparr>called := called s @ [th_callback_fn r]\<rparr>) of
             Inl e \<Rightarrow> Inl e
           | Inr (exn, s1) \<Rightarrow>
               Inr (if exn then s1\<lparr>stderr_lines := stderr_lines s1 @ [''In timer_proc: Uncaught Ocaml exception'']\<rparr> else s1))
      | _ \<Rightarrow> Inl Dangling_handler)"

definition caml_Tcl_CreateTimerHandler ::
  "'t tcl_api \<Rightarrow> ('t tclqueue \<Rightarrow> addr option) \<Rightarrow> caml_fn \<Rightarrow> int \<Rightarrow> 't tclqueue \<Rightarrow> (tcl_error + addr) \<times> 't tclqueue" where
  "caml_Tcl_CreateTimerHandler api stat_alloc callback_fn milliseconds s =
     (case stat_alloc s of
        None \<Rightarrow> (Inl Out_of_memory, s)
      | Some h \<Rightarrow>
          let s1 = s\<lparr>roots := h # roots s\<rparr>
          in (case Tcl_CreateTimerHandler api milliseconds h (tcl s1) of
                (token, t) \<Rightarrow>
                  (Inr h, s1\<lparr>blocks := (blocks s1)(h \<mapsto> Timer_handler \<lparr>th_callback_fn = callback_fn, th_token = token\<rparr>), tcl := t\<rparr>)))"

definition caml_Tcl_DeleteTimerHandler :: "'t tcl_api \<Rightarrow> addr \<Rightarrow> 't tclqueue \<Rightarrow> tcl_error + 't tclqueue" where
  "caml_Tcl_DeleteTimerHandler api h s =
     (case blocks s h of
        Some (Timer_handler r) \<Rightarrow>
          let s1 = s\<lparr>tcl := Tcl_DeleteTimerHandler api (th_token r) (tcl s)\<rparr>;
              s2 = s1\<lparr>roots := remove1 h (roots s1)\<rparr>
          in Inr (s2\<lparr>blocks := (blocks s2)(h := None)\<rparr>)
      | _ \<Rightarrow> Inl Bad_descriptor)"

section \<open>Runs\<close>

text \<open>
  The calls of the program and the events of Tcl. An event whose descriptor or timer has no handler does nothing. The last argument of an event says
  whether the function ends with an exception. A call that raises \<open>Out_of_memory\<close> leaves the state as it is.
\<close>

datatype tcl_op =
    Create_file caml_fn int u32
  | Delete_file addr
  | Create_timer caml_fn int
  | Delete_timer addr
  | File_event int "tcl_op list" bool
  | Timer_event timer_token "tcl_op list" bool

fun exec_op :: "'t tcl_api \<Rightarrow> ('t tclqueue \<Rightarrow> addr option) \<Rightarrow> tcl_op \<Rightarrow> 't tclqueue \<Rightarrow> tcl_error + 't tclqueue"
and exec_ops :: "'t tcl_api \<Rightarrow> ('t tclqueue \<Rightarrow> addr option) \<Rightarrow> tcl_op list \<Rightarrow> 't tclqueue \<Rightarrow> tcl_error + 't tclqueue" where
  "exec_op api al (Create_file f fd m) s = Inr (snd (caml_Tcl_CreateFileHandler api al f fd m s))"
| "exec_op api al (Delete_file h) s = caml_Tcl_DeleteFileHandler api h s"
| "exec_op api al (Create_timer f ms) s = Inr (snd (caml_Tcl_CreateTimerHandler api al f ms s))"
| "exec_op api al (Delete_timer h) s = caml_Tcl_DeleteTimerHandler api h s"
| "exec_op api al (File_event fd ops exn) s =
     (case tcl_files api (tcl s) fd of
        None \<Rightarrow> Inr s
      | Some (m, h) \<Rightarrow> file_proc (\<lambda>f s1. map_sum (\<lambda>e. e) (\<lambda>s2. (exn, s2)) (exec_ops api al ops s1)) h s)"
| "exec_op api al (Timer_event k ops exn) s =
     (case tcl_timers api (tcl s) k of
        None \<Rightarrow> Inr s
      | Some h \<Rightarrow>
          timer_proc (\<lambda>f s1. map_sum (\<lambda>e. e) (\<lambda>s2. (exn, s2)) (exec_ops api al ops s1)) h (s\<lparr>tcl := tcl_fire api k (tcl s)\<rparr>))"
| "exec_ops api al [] s = Inr s"
| "exec_ops api al (x # xs) s = (case exec_op api al x s of Inl e \<Rightarrow> Inl e | Inr s1 \<Rightarrow> exec_ops api al xs s1)"

section \<open>Safety\<close>

text \<open>The documented behaviour of Tcl: a descriptor has one handler, the last that was created; deleting removes it; a timer fires once.\<close>

definition tcl_laws :: "'t tcl_api \<Rightarrow> bool" where
  "tcl_laws api \<longleftrightarrow>
     (\<forall>fd m h t. tcl_files api (Tcl_CreateFileHandler api fd m h t) = (tcl_files api t)(fd \<mapsto> (m, h)) \<and>
        tcl_timers api (Tcl_CreateFileHandler api fd m h t) = tcl_timers api t) \<and>
     (\<forall>fd t. tcl_files api (Tcl_DeleteFileHandler api fd t) = (tcl_files api t)(fd := None) \<and>
        tcl_timers api (Tcl_DeleteFileHandler api fd t) = tcl_timers api t) \<and>
     (\<forall>ms h t. case Tcl_CreateTimerHandler api ms h t of
        (k, t') \<Rightarrow> tcl_files api t' = tcl_files api t \<and> tcl_timers api t' = (tcl_timers api t)(k \<mapsto> h)) \<and>
     (\<forall>k t. tcl_files api (Tcl_DeleteTimerHandler api k t) = tcl_files api t \<and>
        tcl_timers api (Tcl_DeleteTimerHandler api k t) = (tcl_timers api t)(k := None)) \<and>
     (\<forall>k t. tcl_files api (tcl_fire api k t) = tcl_files api t \<and> tcl_timers api (tcl_fire api k t) = (tcl_timers api t)(k := None))"

definition fresh_alloc :: "('t tclqueue \<Rightarrow> addr option) \<Rightarrow> bool" where
  "fresh_alloc al \<longleftrightarrow> (\<forall>s h. al s = Some h \<longrightarrow> blocks s h = None)"

definition tcl_inv :: "'t tcl_api \<Rightarrow> 't tclqueue \<Rightarrow> bool" where
  "tcl_inv api s \<longleftrightarrow>
     (\<forall>fd m h. tcl_files api (tcl s) fd = Some (m, h) \<longrightarrow> (\<exists>r. blocks s h = Some (File_handler r) \<and> fh_fd r = fd)) \<and>
     (\<forall>k h. tcl_timers api (tcl s) k = Some h \<longrightarrow> (\<exists>r. blocks s h = Some (Timer_handler r) \<and> th_token r = k)) \<and>
     distinct (roots s) \<and> set (roots s) = dom (blocks s)"

definition safe_result :: "'t tcl_api \<Rightarrow> tcl_error + 't tclqueue \<Rightarrow> bool" where
  "safe_result api r = (case r of Inl e \<Rightarrow> e \<noteq> Dangling_handler | Inr s \<Rightarrow> tcl_inv api s)"

lemma tcl_inv_file: "tcl_inv api s \<Longrightarrow> tcl_files api (tcl s) fd = Some (m, h) \<Longrightarrow> \<exists>r. blocks s h = Some (File_handler r) \<and> fh_fd r = fd"
  unfolding tcl_inv_def by blast

lemma tcl_inv_timer: "tcl_inv api s \<Longrightarrow> tcl_timers api (tcl s) k = Some h \<Longrightarrow> \<exists>r. blocks s h = Some (Timer_handler r) \<and> th_token r = k"
  unfolding tcl_inv_def by blast

lemma create_file_safe:
  "tcl_laws api \<Longrightarrow> fresh_alloc al \<Longrightarrow> tcl_inv api s \<Longrightarrow> tcl_inv api (snd (caml_Tcl_CreateFileHandler api al f fd m s))"
  by (fastforce simp: caml_Tcl_CreateFileHandler_def tcl_inv_def tcl_laws_def fresh_alloc_def Let_def split: option.split)

text \<open>Freeing a block keeps the invariant when no installed handler points to it.\<close>

lemma free_block_inv:
  assumes "tcl_inv api s" "\<And>fd m. tcl_files api t fd = Some (m, h) \<Longrightarrow> False" "\<And>k. tcl_timers api t k = Some h \<Longrightarrow> False"
    "tcl_files api t \<subseteq>\<^sub>m tcl_files api (tcl s)" "tcl_timers api t \<subseteq>\<^sub>m tcl_timers api (tcl s)"
  shows "tcl_inv api (s\<lparr>tcl := t, roots := remove1 h (roots s), blocks := (blocks s)(h := None)\<rparr>)"
proof -
  have "tcl_files api (tcl s) fd = Some (m, h') \<and> h' \<noteq> h" if "tcl_files api t fd = Some (m, h')" for fd m h'
    using that assms(2,4) by (metis domI map_le_def)
  moreover have "tcl_timers api (tcl s) k = Some h' \<and> h' \<noteq> h" if "tcl_timers api t k = Some h'" for k h'
    using that assms(3,5) by (metis domI map_le_def)
  moreover have "distinct (roots s)" "set (roots s) = dom (blocks s)" using assms(1) by (simp_all add: tcl_inv_def)
  ultimately show ?thesis using tcl_inv_file [OF assms(1)] tcl_inv_timer [OF assms(1)] by (simp add: tcl_inv_def)
qed

lemma map_le_remove: "m(k := None) \<subseteq>\<^sub>m m"
  by (simp add: map_le_def)

lemma delete_file_safe:
  assumes "tcl_laws api" "tcl_inv api s"
  shows "safe_result api (caml_Tcl_DeleteFileHandler api h s)"
proof (cases "\<exists>r. blocks s h = Some (File_handler r)")
  case True
  then obtain r where r: "blocks s h = Some (File_handler r)" by blast
  let ?t = "Tcl_DeleteFileHandler api (fh_fd r) (tcl s)"
  have t: "tcl_files api ?t = (tcl_files api (tcl s))(fh_fd r := None)" "tcl_timers api ?t = tcl_timers api (tcl s)"
    using assms(1) by (simp_all add: tcl_laws_def)
  have "tcl_inv api (s\<lparr>tcl := ?t, roots := remove1 h (roots s), blocks := (blocks s)(h := None)\<rparr>)"
    using tcl_inv_file [OF assms(2), of _ _ h] tcl_inv_timer [OF assms(2), of _ h] r
    by (intro free_block_inv [OF assms(2)]) (auto simp: t map_le_remove split: if_splits)
  then show ?thesis using r by (simp add: caml_Tcl_DeleteFileHandler_def safe_result_def)
qed (auto simp: caml_Tcl_DeleteFileHandler_def safe_result_def split: option.split handler_block.split)

lemma create_timer_safe:
  assumes "tcl_laws api" "fresh_alloc al" "tcl_inv api s"
  shows "tcl_inv api (snd (caml_Tcl_CreateTimerHandler api al f ms s))"
proof (cases "al s")
  case (Some h)
  obtain k t where kt: "Tcl_CreateTimerHandler api ms h (tcl s) = (k, t)" by (cases "Tcl_CreateTimerHandler api ms h (tcl s)")
  have "tcl_files api t = tcl_files api (tcl s) \<and> tcl_timers api t = (tcl_timers api (tcl s))(k \<mapsto> h)"
    using assms(1) kt unfolding tcl_laws_def by (metis (mono_tags, lifting) case_prod_conv)
  moreover have "blocks s h = None" using assms(2) Some by (simp add: fresh_alloc_def)
  ultimately show ?thesis using assms(3) Some kt
    by (fastforce simp: caml_Tcl_CreateTimerHandler_def tcl_inv_def)
qed (use assms(3) in \<open>simp add: caml_Tcl_CreateTimerHandler_def\<close>)

lemma delete_timer_safe:
  assumes "tcl_laws api" "tcl_inv api s"
  shows "safe_result api (caml_Tcl_DeleteTimerHandler api h s)"
proof (cases "\<exists>r. blocks s h = Some (Timer_handler r)")
  case True
  then obtain r where r: "blocks s h = Some (Timer_handler r)" by blast
  let ?t = "Tcl_DeleteTimerHandler api (th_token r) (tcl s)"
  have t: "tcl_timers api ?t = (tcl_timers api (tcl s))(th_token r := None)" "tcl_files api ?t = tcl_files api (tcl s)"
    using assms(1) by (simp_all add: tcl_laws_def)
  have "tcl_inv api (s\<lparr>tcl := ?t, roots := remove1 h (roots s), blocks := (blocks s)(h := None)\<rparr>)"
    using tcl_inv_file [OF assms(2), of _ _ h] tcl_inv_timer [OF assms(2), of _ h] r
    by (intro free_block_inv [OF assms(2)]) (auto simp: t map_le_remove split: if_splits)
  then show ?thesis using r by (simp add: caml_Tcl_DeleteTimerHandler_def safe_result_def)
qed (auto simp: caml_Tcl_DeleteTimerHandler_def safe_result_def split: option.split handler_block.split)

lemma tcl_inv_log [simp]: "tcl_inv api (s\<lparr>called := c\<rparr>) = tcl_inv api s" "tcl_inv api (s\<lparr>stderr_lines := l\<rparr>) = tcl_inv api s"
  by (simp_all add: tcl_inv_def)

lemma file_proc_safe:
  "blocks s h = Some (File_handler r) \<Longrightarrow> safe_result api (run (s\<lparr>called := called s @ [fh_callback_fn r]\<rparr>)) \<Longrightarrow>
   safe_result api (file_proc (\<lambda>f s1. map_sum (\<lambda>e. e) (\<lambda>s2. (exn, s2)) (run s1)) h s)"
  by (cases "run (s\<lparr>called := called s @ [fh_callback_fn r]\<rparr>)") (auto simp: file_proc_def safe_result_def)

lemma timer_proc_safe:
  "blocks s h = Some (Timer_handler r) \<Longrightarrow> safe_result api (run (s\<lparr>called := called s @ [th_callback_fn r]\<rparr>)) \<Longrightarrow>
   safe_result api (timer_proc (\<lambda>f s1. map_sum (\<lambda>e. e) (\<lambda>s2. (exn, s2)) (run s1)) h s)"
  by (cases "run (s\<lparr>called := called s @ [th_callback_fn r]\<rparr>)") (auto simp: timer_proc_def safe_result_def)

lemma exec_safe:
  assumes "tcl_laws api" "fresh_alloc al"
  shows "tcl_inv api s \<Longrightarrow> safe_result api (exec_op api al x s)"
    and "tcl_inv api s \<Longrightarrow> safe_result api (exec_ops api al xs s)"
  using assms
proof (induction api al x s and api al xs s rule: exec_op_exec_ops.induct)
  case (5 api al fd ops exn s)
  show ?case
  proof (cases "tcl_files api (tcl s) fd")
    case (Some mh)
    obtain m h where mh: "mh = (m, h)" by (cases mh)
    obtain r where r: "blocks s h = Some (File_handler r)" using tcl_inv_file [OF "5.prems"(1)] Some mh by blast
    have "safe_result api (exec_ops api al ops (s\<lparr>called := called s @ [fh_callback_fn r]\<rparr>))" using "5.IH" Some mh "5.prems" by simp
    then show ?thesis using Some mh file_proc_safe [OF r] by simp
  qed (use "5.prems" in \<open>simp add: safe_result_def\<close>)
next
  case (6 api al k ops exn s)
  show ?case
  proof (cases "tcl_timers api (tcl s) k")
    case (Some h)
    let ?s = "s\<lparr>tcl := tcl_fire api k (tcl s)\<rparr>"
    obtain r where r: "blocks s h = Some (Timer_handler r)" using tcl_inv_timer [OF "6.prems"(1)] Some by blast
    have "tcl_inv api ?s" using "6.prems"(1,2) by (auto simp: tcl_inv_def tcl_laws_def)
    then have "safe_result api (exec_ops api al ops (?s\<lparr>called := called ?s @ [th_callback_fn r]\<rparr>))" using "6.IH" Some "6.prems" by simp
    then show ?thesis using Some timer_proc_safe [of ?s h r] r by simp
  qed (use "6.prems" in \<open>simp add: safe_result_def\<close>)
next
  case (8 api al x xs s)
  then show ?case by (auto simp: safe_result_def split: sum.split)
qed (auto simp: safe_result_def create_file_safe create_timer_safe intro: delete_file_safe [unfolded safe_result_def] delete_timer_safe [unfolded safe_result_def])

section \<open>Which function an event calls\<close>

text \<open>The functions that are registered with Tcl, by descriptor and by timer.\<close>

definition registered :: "'t tcl_api \<Rightarrow> 't tclqueue \<Rightarrow> int \<Rightarrow> caml_fn option" where
  "registered api s fd =
     (case tcl_files api (tcl s) fd of
        Some (m, h) \<Rightarrow> (case blocks s h of Some (File_handler r) \<Rightarrow> Some (fh_callback_fn r) | _ \<Rightarrow> None)
      | None \<Rightarrow> None)"

definition timer_fns :: "'t tcl_api \<Rightarrow> 't tclqueue \<Rightarrow> timer_token \<Rightarrow> caml_fn option" where
  "timer_fns api s k =
     (case tcl_timers api (tcl s) k of
        Some h \<Rightarrow> (case blocks s h of Some (Timer_handler r) \<Rightarrow> Some (th_callback_fn r) | _ \<Rightarrow> None)
      | None \<Rightarrow> None)"

text \<open>What the run does for an event: nothing, or the calls of the function after noting that it was called.\<close>

definition run_event ::
    "'t tcl_api \<Rightarrow> ('t tclqueue \<Rightarrow> addr option) \<Rightarrow> string \<Rightarrow> caml_fn \<Rightarrow> tcl_op list \<Rightarrow> bool \<Rightarrow> 't tclqueue \<Rightarrow> tcl_error + 't tclqueue" where
  "run_event api al msg f ops exn s =
     (case exec_ops api al ops (s\<lparr>called := called s @ [f]\<rparr>) of
        Inl e \<Rightarrow> Inl e
      | Inr s1 \<Rightarrow> Inr (if exn then s1\<lparr>stderr_lines := stderr_lines s1 @ [msg]\<rparr> else s1))"

lemma inv_not_fresh:
  assumes "fresh_alloc al" "tcl_inv api s" "al s = Some h"
  shows "tcl_files api (tcl s) fd \<noteq> Some (m, h)" "tcl_timers api (tcl s) k \<noteq> Some h"
  using assms tcl_inv_file [OF assms(2), of fd m h] tcl_inv_timer [OF assms(2), of k h] by (auto simp: fresh_alloc_def)

lemma create_file_registered:
  assumes "tcl_laws api" "fresh_alloc al" "tcl_inv api s" "caml_Tcl_CreateFileHandler api al f fd m s = (Inr h, s1)"
  shows "registered api s1 = (registered api s)(fd \<mapsto> f) \<and> timer_fns api s1 = timer_fns api s"
proof -
  have al: "al s = Some h" and s1: "s1 = s\<lparr>roots := h # roots s, blocks := (blocks s)(h \<mapsto> File_handler \<lparr>fh_callback_fn = f, fh_fd = fd\<rparr>),
      tcl := Tcl_CreateFileHandler api fd (tcl_mask m) h (tcl s)\<rparr>"
    using assms(4) by (auto simp: caml_Tcl_CreateFileHandler_def Let_def split: option.splits)
  show ?thesis
    using assms(1) inv_not_fresh [OF assms(2,3) al]
    by (auto simp: s1 registered_def timer_fns_def tcl_laws_def fun_eq_iff split: option.split prod.split)
qed

lemma create_timer_registered:
  assumes "tcl_laws api" "fresh_alloc al" "tcl_inv api s" "caml_Tcl_CreateTimerHandler api al f ms s = (Inr h, s1)"
  shows "\<exists>k. blocks s1 h = Some (Timer_handler \<lparr>th_callback_fn = f, th_token = k\<rparr>) \<and>
    registered api s1 = registered api s \<and> timer_fns api s1 = (timer_fns api s)(k \<mapsto> f)"
proof -
  obtain k t where al: "al s = Some h" and kt: "Tcl_CreateTimerHandler api ms h (tcl s) = (k, t)"
    and s1: "s1 = s\<lparr>roots := h # roots s, blocks := (blocks s)(h \<mapsto> Timer_handler \<lparr>th_callback_fn = f, th_token = k\<rparr>), tcl := t\<rparr>"
    using assms(4) by (auto simp: caml_Tcl_CreateTimerHandler_def Let_def split: option.splits prod.splits)
  have "tcl_files api t = tcl_files api (tcl s) \<and> tcl_timers api t = (tcl_timers api (tcl s))(k \<mapsto> h)"
    using assms(1) kt unfolding tcl_laws_def by (metis (mono_tags, lifting) case_prod_conv)
  then show ?thesis
    using inv_not_fresh [OF assms(2,3) al]
    by (intro exI [of _ k]) (auto simp: s1 registered_def timer_fns_def fun_eq_iff split: option.split prod.split)
qed

lemma delete_file_registered:
  assumes "tcl_laws api" "tcl_inv api s" "blocks s h = Some (File_handler r)" "caml_Tcl_DeleteFileHandler api h s = Inr s1"
  shows "registered api s1 = (registered api s)(fh_fd r := None) \<and> timer_fns api s1 = timer_fns api s"
proof -
  have s1: "s1 = s\<lparr>tcl := Tcl_DeleteFileHandler api (fh_fd r) (tcl s), roots := remove1 h (roots s), blocks := (blocks s)(h := None)\<rparr>"
    using assms(3,4) by (simp add: caml_Tcl_DeleteFileHandler_def Let_def)
  have "tcl_files api (tcl s) fd \<noteq> Some (m, h)" if "fd \<noteq> fh_fd r" for fd m
    using tcl_inv_file [OF assms(2), of fd m h] assms(3) that by auto
  moreover have "tcl_timers api (tcl s) k \<noteq> Some h" for k using tcl_inv_timer [OF assms(2), of k h] assms(3) by auto
  ultimately show ?thesis
    using assms(1) by (auto simp: s1 registered_def timer_fns_def tcl_laws_def fun_eq_iff split: option.split prod.split)
qed

lemma delete_timer_registered:
  assumes "tcl_laws api" "tcl_inv api s" "blocks s h = Some (Timer_handler r)" "caml_Tcl_DeleteTimerHandler api h s = Inr s1"
  shows "registered api s1 = registered api s \<and> timer_fns api s1 = (timer_fns api s)(th_token r := None)"
proof -
  have s1: "s1 = s\<lparr>tcl := Tcl_DeleteTimerHandler api (th_token r) (tcl s), roots := remove1 h (roots s), blocks := (blocks s)(h := None)\<rparr>"
    using assms(3,4) by (simp add: caml_Tcl_DeleteTimerHandler_def Let_def)
  have "tcl_timers api (tcl s) k \<noteq> Some h" if "k \<noteq> th_token r" for k
    using tcl_inv_timer [OF assms(2), of k h] assms(3) that by auto
  moreover have "tcl_files api (tcl s) fd \<noteq> Some (m, h)" for fd m using tcl_inv_file [OF assms(2), of fd m h] assms(3) by auto
  ultimately show ?thesis
    using assms(1) by (auto simp: s1 registered_def timer_fns_def tcl_laws_def fun_eq_iff split: option.split prod.split)
qed

lemma file_event_calls:
  assumes "tcl_inv api s"
  shows "exec_op api al (File_event fd ops exn) s =
    (case registered api s fd of
       None \<Rightarrow> Inr s
     | Some f \<Rightarrow> run_event api al ''In file_proc: Uncaught Ocaml exception'' f ops exn s)"
proof (cases "tcl_files api (tcl s) fd")
  case (Some mh)
  obtain m h where mh: "mh = (m, h)" by (cases mh)
  obtain r where "blocks s h = Some (File_handler r)" using tcl_inv_file [OF assms] Some mh by blast
  then show ?thesis using Some mh by (simp add: registered_def run_event_def file_proc_def split: sum.split)
qed (simp add: registered_def)

lemma timer_event_calls:
  assumes "tcl_inv api s"
  shows "exec_op api al (Timer_event k ops exn) s =
    (case timer_fns api s k of
       None \<Rightarrow> Inr s
     | Some f \<Rightarrow> run_event api al ''In timer_proc: Uncaught Ocaml exception'' f ops exn (s\<lparr>tcl := tcl_fire api k (tcl s)\<rparr>))"
proof (cases "tcl_timers api (tcl s) k")
  case (Some h)
  obtain r where "blocks s h = Some (Timer_handler r)" using tcl_inv_timer [OF assms] Some by blast
  then show ?thesis using Some by (simp add: timer_fns_def run_event_def timer_proc_def split: sum.split)
qed (simp add: timer_fns_def)

abbreviation (input) start :: "'t \<Rightarrow> 't tclqueue" where
  "start t \<equiv> \<lparr>blocks = Map.empty, roots = [], tcl = t, called = [], stderr_lines = []\<rparr>"

text \<open>
  Claim C18: the handlers of the Tcl loop. Whatever the program and the functions it registers do, including deleting a handler from inside its own function
  and creating several handlers for one descriptor, Tcl never calls into a freed handler; at all times every handler Tcl knows is an allocated block for that
  descriptor or timer, and the roots of the collector are exactly the allocated blocks, each once. An event calls exactly the function that is registered for
  its descriptor or timer, or nothing when there is none. Creating a handler registers its function for the descriptor in place of an older one. Deleting a handler
  unregisters whatever function the descriptor has at this time, also that of a newer handler for the same descriptor, whose block stays allocated and is then
  never called. Timers and files do not disturb each other.
\<close>

theorem tcl_handlers_safe:
  assumes "tcl_laws api" "fresh_alloc al" "tcl_files api t0 = Map.empty" "tcl_timers api t0 = Map.empty"
  shows "case exec_ops api al ops (start t0) of
      Inl e \<Rightarrow> e \<noteq> Dangling_handler
    | Inr s \<Rightarrow>
        (\<forall>fd m h. tcl_files api (tcl s) fd = Some (m, h) \<longrightarrow> (\<exists>r. blocks s h = Some (File_handler r) \<and> fh_fd r = fd)) \<and>
        (\<forall>k h. tcl_timers api (tcl s) k = Some h \<longrightarrow> (\<exists>r. blocks s h = Some (Timer_handler r) \<and> th_token r = k)) \<and>
        distinct (roots s) \<and> set (roots s) = dom (blocks s) \<and>
        (\<forall>fd ops' exn. exec_op api al (File_event fd ops' exn) s =
           (case registered api s fd of None \<Rightarrow> Inr s
            | Some f \<Rightarrow> run_event api al ''In file_proc: Uncaught Ocaml exception'' f ops' exn s)) \<and>
        (\<forall>k ops' exn. exec_op api al (Timer_event k ops' exn) s =
           (case timer_fns api s k of None \<Rightarrow> Inr s
            | Some f \<Rightarrow> run_event api al ''In timer_proc: Uncaught Ocaml exception'' f ops' exn (s\<lparr>tcl := tcl_fire api k (tcl s)\<rparr>))) \<and>
        (\<forall>f fd m h s1. caml_Tcl_CreateFileHandler api al f fd m s = (Inr h, s1) \<longrightarrow>
           registered api s1 = (registered api s)(fd \<mapsto> f) \<and> timer_fns api s1 = timer_fns api s) \<and>
        (\<forall>f ms h s1. caml_Tcl_CreateTimerHandler api al f ms s = (Inr h, s1) \<longrightarrow>
           (\<exists>k. blocks s1 h = Some (Timer_handler \<lparr>th_callback_fn = f, th_token = k\<rparr>) \<and>
              registered api s1 = registered api s \<and> timer_fns api s1 = (timer_fns api s)(k \<mapsto> f))) \<and>
        (\<forall>h r s1. blocks s h = Some (File_handler r) \<longrightarrow> caml_Tcl_DeleteFileHandler api h s = Inr s1 \<longrightarrow>
           registered api s1 = (registered api s)(fh_fd r := None) \<and> timer_fns api s1 = timer_fns api s) \<and>
        (\<forall>h r s1. blocks s h = Some (Timer_handler r) \<longrightarrow> caml_Tcl_DeleteTimerHandler api h s = Inr s1 \<longrightarrow>
           registered api s1 = registered api s \<and> timer_fns api s1 = (timer_fns api s)(th_token r := None))"
proof -
  have "tcl_inv api (start t0)" using assms(3,4) by (simp add: tcl_inv_def)
  then have safe: "safe_result api (exec_ops api al ops (start t0))" using exec_safe(2) assms(1,2) by blast
  show ?thesis
  proof (cases "exec_ops api al ops (start t0)")
    case (Inl e)
    then show ?thesis using safe by (simp add: safe_result_def)
  next
    case (Inr s)
    then have inv: "tcl_inv api s" using safe by (simp add: safe_result_def)
    show ?thesis
      unfolding Inr sum.case
      by (intro conjI allI impI file_event_calls [OF inv] timer_event_calls [OF inv] tcl_inv_file [OF inv] tcl_inv_timer [OF inv]
          create_timer_registered [OF assms(1,2) inv]
          create_file_registered [OF assms(1,2) inv, THEN conjunct1] create_file_registered [OF assms(1,2) inv, THEN conjunct2]
          delete_file_registered [OF assms(1) inv, THEN conjunct1] delete_file_registered [OF assms(1) inv, THEN conjunct2]
          delete_timer_registered [OF assms(1) inv, THEN conjunct1] delete_timer_registered [OF assms(1) inv, THEN conjunct2])
        (use inv in \<open>simp_all add: tcl_inv_def\<close>)
  qed
qed

text \<open>A concrete Tcl: two tables and the next token.\<close>

definition demo_api :: "((int \<rightharpoonup> u32 \<times> addr) \<times> (nat \<rightharpoonup> addr) \<times> nat) tcl_api" where
  "demo_api =
     \<lparr>Tcl_CreateFileHandler = (\<lambda>fd m h (f, t, n). (f(fd \<mapsto> (m, h)), t, n)),
      Tcl_DeleteFileHandler = (\<lambda>fd (f, t, n). (f(fd := None), t, n)),
      Tcl_CreateTimerHandler = (\<lambda>ms h (f, t, n). (n, (f, t(n \<mapsto> h), n + 1))),
      Tcl_DeleteTimerHandler = (\<lambda>k (f, t, n). (f, t(k := None), n)),
      tcl_files = fst, tcl_timers = (\<lambda>(f, t, n). t),
      tcl_fire = (\<lambda>k (f, t, n). (f, t(k := None), n))\<rparr>"

definition demo_alloc :: "'t tclqueue \<Rightarrow> addr option" where
  "demo_alloc s = (if blocks s (length (roots s)) = None then Some (length (roots s)) else None)"

text \<open>
  A run with two handlers for descriptor 3: the second one is called; after the first one is deleted, the event calls nothing although the block of the
  second one is allocated.
\<close>

theorem tcl_handlers_safe_witness:
  "\<exists>s. exec_ops demo_api demo_alloc
       [Create_timer 8 100, Create_file 7 3 1, Create_file 9 3 5, File_event 3 [] True, Timer_event 0 [Delete_timer 0, Delete_file 1] False, File_event 3 [] False]
       (start (Map.empty, Map.empty, 0)) = Inr s \<and>
     called s = [9, 8] \<and> roots s = [2] \<and> dom (blocks s) = {2} \<and> stderr_lines s = [''In file_proc: Uncaught Ocaml exception''] \<and>
     registered demo_api s 3 = None \<and> exec_op demo_api demo_alloc (File_event 3 [] False) s = Inr s"
proof -
  have a: "tcl_laws demo_api" by (simp add: tcl_laws_def demo_api_def)
  have b: "fresh_alloc demo_alloc" by (simp add: fresh_alloc_def demo_alloc_def)
  obtain s where s: "exec_ops demo_api demo_alloc
       [Create_timer 8 100, Create_file 7 3 1, Create_file 9 3 5, File_event 3 [] True, Timer_event 0 [Delete_timer 0, Delete_file 1] False, File_event 3 [] False]
       (start (Map.empty, Map.empty, 0)) = Inr s" "called s = [9, 8]" "roots s = [2]" "dom (blocks s) = {2}"
      "stderr_lines s = [''In file_proc: Uncaught Ocaml exception'']" "registered demo_api s 3 = None"
    by (simp add: demo_api_def demo_alloc_def file_proc_def timer_proc_def caml_Tcl_CreateFileHandler_def caml_Tcl_DeleteFileHandler_def
        caml_Tcl_CreateTimerHandler_def caml_Tcl_DeleteTimerHandler_def tcl_mask_def registered_def)
  have c: "tcl_files demo_api (Map.empty, Map.empty, 0) = Map.empty" "tcl_timers demo_api (Map.empty, Map.empty, 0) = Map.empty"
    by (simp_all add: demo_api_def)
  note safe = tcl_handlers_safe [OF a b c,
      of "[Create_timer 8 100, Create_file 7 3 1, Create_file 9 3 5, File_event 3 [] True, Timer_event 0 [Delete_timer 0, Delete_file 1] False, File_event 3 [] False]"]
  have "exec_op demo_api demo_alloc (File_event 3 [] False) s =
      (case registered demo_api s 3 of None \<Rightarrow> Inr s
       | Some f \<Rightarrow> run_event demo_api demo_alloc ''In file_proc: Uncaught Ocaml exception'' f [] False s)"
    using safe unfolding s(1) sum.case by (elim conjE allE)
  then show ?thesis using s by (intro exI [of _ s]) simp
qed

end
