(* ===== verification/Custom_blocks.thy ===== *)
theory Custom_blocks
  imports Not_event Poll
begin

text \<open>
  Custom blocks that own a C structure: notification events (\<^verbatim>\<open>netsys_c_event.c\<close>), poll arrays and event aggregators (\<^verbatim>\<open>netsys_c_poll.c\<close>). The structure is
  allocated with \<^verbatim>\<open>caml_stat_alloc\<close>, the block holds its address, and the finaliser that the collector calls for an unreachable block frees it. Freeing or
  reading memory that is not allocated is \<open>None\<close>.
\<close>

section \<open>Memory of the runtime\<close>

record 's cheap =
  c_structs :: "nat \<Rightarrow> 's option"
  c_blocks :: "nat \<Rightarrow> nat option"

text \<open>The choices of the allocators, which may fail, and the contents of fresh memory; an address in use is never handed out again.\<close>

record 's c_rt =
  rt_malloc :: "'s cheap \<Rightarrow> nat option"
  rt_block :: "'s cheap \<Rightarrow> nat option"
  rt_garbage :: 's

definition fresh_addr :: "nat option \<Rightarrow> (nat \<Rightarrow> 'b option) \<Rightarrow> nat option" where
  "fresh_addr choice used = (case choice of None \<Rightarrow> None | Some p \<Rightarrow> if used p = None then Some p else None)"

definition caml_stat_alloc :: "'s c_rt \<Rightarrow> 's cheap \<Rightarrow> (exn + nat) \<times> 's cheap" where
  "caml_stat_alloc rt h =
     (case fresh_addr (rt_malloc rt h) (c_structs h) of
        None \<Rightarrow> (Inl Out_of_memory, h)
      | Some p \<Rightarrow> (Inr p, h\<lparr>c_structs := (c_structs h)(p \<mapsto> rt_garbage rt)\<rparr>))"

definition caml_stat_free :: "nat \<Rightarrow> 's cheap \<Rightarrow> 's cheap option" where
  "caml_stat_free p h = (if c_structs h p = None then None else Some (h\<lparr>c_structs := (c_structs h)(p := None)\<rparr>))"

text \<open>\<^verbatim>\<open>caml_alloc_custom\<close> followed by the store of the address into the data of the block.\<close>

definition alloc_custom_ptr :: "'s c_rt \<Rightarrow> nat \<Rightarrow> 's cheap \<Rightarrow> (exn + nat) \<times> 's cheap" where
  "alloc_custom_ptr rt p h =
     (case fresh_addr (rt_block rt h) (c_blocks h) of
        None \<Rightarrow> (Inl Out_of_memory, h)
      | Some r \<Rightarrow> (Inr r, h\<lparr>c_blocks := (c_blocks h)(r \<mapsto> p)\<rparr>))"

definition alloc_struct_block :: "'s c_rt \<Rightarrow> 's cheap \<Rightarrow> (exn + nat) \<times> 's cheap" where
  "alloc_struct_block rt h =
     (case caml_stat_alloc rt h of
        (Inl e, h1) \<Rightarrow> (Inl e, h1)
      | (Inr p, h1) \<Rightarrow> alloc_custom_ptr rt p h1)"

definition free_struct_block :: "nat \<Rightarrow> 's cheap \<Rightarrow> 's cheap option" where
  "free_struct_block v h = do { p \<leftarrow> c_blocks h v; caml_stat_free p h }"

section \<open>The three kinds of blocks\<close>

definition alloc_not_event :: "not_event c_rt \<Rightarrow> not_event cheap \<Rightarrow> (exn + nat) \<times> not_event cheap" where
  "alloc_not_event rt h = alloc_struct_block rt h"

definition finalize_not_event :: "nat \<Rightarrow> not_event cheap \<Rightarrow> not_event cheap option" where
  "finalize_not_event v h = free_struct_block v h"

definition netsys_not_event_of_value :: "nat \<Rightarrow> not_event cheap \<Rightarrow> nat option" where
  "netsys_not_event_of_value nev h = c_blocks h nev"

text \<open>The array of a poll memory has as many cells as requested; \<^verbatim>\<open>Poll.alloc_poll_mem\<close> is its content.\<close>

definition alloc_poll_mem_block :: "pollfd list c_rt \<Rightarrow> u32 \<Rightarrow> pollfd list cheap \<Rightarrow> (exn + nat) \<times> pollfd list cheap" where
  "alloc_poll_mem_block rt n h =
     (case alloc_poll_mem (\<lambda>i. if i < length (rt_garbage rt) then rt_garbage rt ! i else zero_pollfd) n of
        Inl e \<Rightarrow> (Inl e, h)
      | Inr cells \<Rightarrow> alloc_struct_block (rt\<lparr>rt_garbage := cells\<rparr>) h)"

definition finalize_poll_mem :: "nat \<Rightarrow> pollfd list cheap \<Rightarrow> pollfd list cheap option" where
  "finalize_poll_mem r h = free_struct_block r h"

definition alloc_poll_aggreg :: "poll_aggreg c_rt \<Rightarrow> poll_aggreg cheap \<Rightarrow> (exn + nat) \<times> poll_aggreg cheap" where
  "alloc_poll_aggreg rt h = alloc_struct_block rt h"

definition finalize_poll_aggreg :: "nat \<Rightarrow> poll_aggreg cheap \<Rightarrow> poll_aggreg cheap option" where
  "finalize_poll_aggreg r h = free_struct_block r h"

section \<open>Lifetime under the collector\<close>

text \<open>
  The program holds a set of blocks. It allocates new ones, writes to the structure of a block it holds, and drops blocks; the collector finalises a block
  that is not held and removes it. The first argument is the allocation, which may have parameters of its own, the second the finaliser.
\<close>

inductive gc_step :: "('a \<Rightarrow> 's cheap \<Rightarrow> (exn + nat) \<times> 's cheap) \<Rightarrow> (nat \<Rightarrow> 's cheap \<Rightarrow> 's cheap option) \<Rightarrow>
    nat set \<times> 's cheap \<Rightarrow> nat set \<times> 's cheap \<Rightarrow> bool" for alloc fin where
  allocated: "alloc a h = (Inr r, h') \<Longrightarrow> gc_step alloc fin (R, h) (insert r R, h')"
| alloc_failed: "alloc a h = (Inl e, h') \<Longrightarrow> gc_step alloc fin (R, h) (R, h')"
| written: "r \<in> R \<Longrightarrow> c_blocks h r = Some p \<Longrightarrow> c_structs h p \<noteq> None \<Longrightarrow> gc_step alloc fin (R, h) (R, h\<lparr>c_structs := (c_structs h)(p \<mapsto> x)\<rparr>)"
| dropped: "gc_step alloc fin (R, h) (R - {r}, h)"
| collected: "r \<notin> R \<Longrightarrow> c_blocks h r \<noteq> None \<Longrightarrow> fin r h = Some h' \<Longrightarrow> gc_step alloc fin (R, h) (R, h'\<lparr>c_blocks := (c_blocks h')(r := None)\<rparr>)"

definition blocks_inv :: "nat set \<times> 's cheap \<Rightarrow> bool" where
  "blocks_inv s = (fst s \<subseteq> dom (c_blocks (snd s)) \<and> inj_on (c_blocks (snd s)) (dom (c_blocks (snd s))) \<and> ran (c_blocks (snd s)) \<subseteq> dom (c_structs (snd s)))"

text \<open>What an allocation and a finaliser promise.\<close>

locale custom_struct =
  fixes alloc :: "'a \<Rightarrow> 's cheap \<Rightarrow> (exn + nat) \<times> 's cheap" and fin :: "nat \<Rightarrow> 's cheap \<Rightarrow> 's cheap option"
  assumes alloc_law: "alloc a h = (Inr r, h') \<Longrightarrow> \<exists>p x. c_structs h p = None \<and> c_blocks h r = None \<and>
      c_structs h' = (c_structs h)(p \<mapsto> x) \<and> c_blocks h' = (c_blocks h)(r \<mapsto> p)"
    and alloc_error_law: "alloc a h = (Inl e, h') \<Longrightarrow> c_blocks h' = c_blocks h \<and> dom (c_structs h) \<subseteq> dom (c_structs h')"
    and fin_law: "c_blocks h r = Some p \<Longrightarrow> c_structs h p \<noteq> None \<Longrightarrow> fin r h = Some (h\<lparr>c_structs := (c_structs h)(p := None)\<rparr>)"
begin

lemma alloc_inv:
  assumes "blocks_inv (R, h)" "alloc a h = (Inr r, h')"
  shows "blocks_inv (insert r R, h')"
proof -
  obtain p x where p: "c_structs h p = None" "c_blocks h r = None" "c_structs h' = (c_structs h)(p \<mapsto> x)" "c_blocks h' = (c_blocks h)(r \<mapsto> p)"
    using alloc_law [OF assms(2)] by blast
  have "p \<notin> ran (c_blocks h)" using assms(1) p(1) by (auto simp: blocks_inv_def)
  then have "inj_on (c_blocks h') (dom (c_blocks h'))" using assms(1) p(2) unfolding p(4) by (auto simp: blocks_inv_def inj_on_def ran_def)
  moreover have "ran (c_blocks h') \<subseteq> dom (c_structs h')" "insert r R \<subseteq> dom (c_blocks h')"
    using assms(1) p(2) unfolding p(3,4) by (auto simp: blocks_inv_def)
  ultimately show ?thesis by (simp add: blocks_inv_def)
qed

lemma alloc_failed_inv: "blocks_inv (R, h) \<Longrightarrow> alloc a h = (Inl e, h') \<Longrightarrow> blocks_inv (R, h')"
  using alloc_error_law [of a h e h'] by (simp add: blocks_inv_def) (meson subset_trans)

lemma fin_total: "blocks_inv (R, h) \<Longrightarrow> c_blocks h r = Some p \<Longrightarrow> fin r h = Some (h\<lparr>c_structs := (c_structs h)(p := None)\<rparr>)"
  by (rule fin_law) (auto simp: blocks_inv_def ran_def)

lemma collect_inv:
  assumes "blocks_inv (R, h)" "r \<notin> R" "c_blocks h r = Some p"
  shows "blocks_inv (R, h\<lparr>c_structs := (c_structs h)(p := None), c_blocks := (c_blocks h)(r := None)\<rparr>)"
proof -
  have "c_blocks h r' \<noteq> Some p" if "r' \<noteq> r" for r'
    using assms(1,3) that by (auto simp: blocks_inv_def inj_on_def dom_def)
  then show ?thesis using assms by (auto simp: blocks_inv_def inj_on_def ran_def)
qed

sublocale gc: step_system "\<lambda>s. fst s = {} \<and> c_blocks (snd s) = Map.empty" "gc_step alloc fin" blocks_inv
proof
  show "blocks_inv s" if "fst s = {} \<and> c_blocks (snd s) = Map.empty" for s :: "nat set \<times> 's cheap" using that by (simp add: blocks_inv_def)
  show "blocks_inv s'" if "gc_step alloc fin s s'" "blocks_inv s" for s s'
    using that
  proof cases
    case (allocated a h r h' R)
    then show ?thesis using that(2) alloc_inv by simp
  next
    case (alloc_failed a h e h' R)
    then show ?thesis using that(2) alloc_failed_inv by simp
  next
    case (written r R h p x)
    then show ?thesis using that(2) by (auto simp: blocks_inv_def)
  next
    case (dropped R h r)
    then show ?thesis using that(2) by (auto simp: blocks_inv_def)
  next
    case (collected r R h h')
    then show ?thesis using that(2) collect_inv fin_total by fastforce
  qed
qed

text \<open>There are finitely many blocks, and no structure is lost when an allocation that fails takes none.\<close>

lemma finite_step:
  assumes "gc_step alloc fin s s'" "blocks_inv s" "finite (dom (c_blocks (snd s)))"
  shows "finite (dom (c_blocks (snd s')))"
  using assms(1)
proof cases
  case (allocated a h r h' R)
  then show ?thesis using assms(3) alloc_law [of a h r h'] by auto
next
  case (alloc_failed a h e h' R)
  then show ?thesis using assms(3) alloc_error_law [of a h e h'] by simp
next
  case (collected r R h h')
  then obtain p where "h' = h\<lparr>c_structs := (c_structs h)(p := None)\<rparr>" using fin_total [of R h r] assms(2) by auto
  then show ?thesis using collected assms(3) by simp
qed (use assms(3) in simp_all)

lemma no_leak_step:
  assumes "\<And>a h e h'. finite (dom (c_blocks h)) \<Longrightarrow> alloc a h = (Inl e, h') \<Longrightarrow> c_structs h' = c_structs h"
    and "gc_step alloc fin s s'" "blocks_inv s" "finite (dom (c_blocks (snd s)))"
    and "dom (c_structs (snd s)) = ran (c_blocks (snd s))"
  shows "dom (c_structs (snd s')) = ran (c_blocks (snd s'))"
  using assms(2)
proof cases
  case (allocated a h r h' R)
  then obtain p x where "c_blocks h r = None" "c_structs h' = (c_structs h)(p \<mapsto> x)" "c_blocks h' = (c_blocks h)(r \<mapsto> p)"
    using alloc_law [of a h r h'] by blast
  then show ?thesis using assms(5) allocated(1,2) by simp
next
  case (alloc_failed a h e h' R)
  then show ?thesis using assms(1) [of h a e h'] assms(4,5) alloc_error_law [of a h e h'] by simp
next
  case (written r R h p x)
  then show ?thesis using assms(5) by (auto simp: ran_def)
next
  case (dropped R h r)
  then show ?thesis using assms(5) by simp
next
  case (collected r R h h')
  obtain p where p: "c_blocks h r = Some p" using collected(4) by blast
  then have "h' = h\<lparr>c_structs := (c_structs h)(p := None)\<rparr>" using fin_total [of R h r p] collected(1,5) assms(3) by simp
  moreover have q: "r' = r" if "c_blocks h r' = Some p" for r'
    using assms(3) that p collected(1) by (auto simp: blocks_inv_def inj_on_def dom_def)
  have "ran ((c_blocks h)(r := None)) = ran (c_blocks h) - {p}"
  proof (intro set_eqI iffI)
    show "x \<in> ran (c_blocks h) - {p}" if "x \<in> ran ((c_blocks h)(r := None))" for x
      using that q by (auto simp: ran_def split: if_splits)
    show "x \<in> ran ((c_blocks h)(r := None))" if x: "x \<in> ran (c_blocks h) - {p}" for x
    proof -
      obtain r' where r': "c_blocks h r' = Some x" using x by (auto simp: ran_def)
      moreover have "r' \<noteq> r" using r' x p by auto
      ultimately have "((c_blocks h)(r := None)) r' = Some x" by simp
      then show ?thesis by (rule ranI)
    qed
  qed
  ultimately show ?thesis using assms(5) collected(1,2) by auto
qed

lemma no_leak:
  assumes "\<And>a h e h'. finite (dom (c_blocks h)) \<Longrightarrow> alloc a h = (Inl e, h') \<Longrightarrow> c_structs h' = c_structs h"
    and "(gc_step alloc fin)\<^sup>*\<^sup>* s s'" "blocks_inv s" "finite (dom (c_blocks (snd s)))" "dom (c_structs (snd s)) = ran (c_blocks (snd s))"
  shows "dom (c_structs (snd s')) = ran (c_blocks (snd s')) \<and> finite (dom (c_blocks (snd s')))"
  using assms(2)
proof (induction rule: rtranclp_induct)
  case (step s1 s2)
  have "blocks_inv s1" using gc.steps_inv step.hyps(1) assms(3) by blast
  then show ?case
    using step.hyps(2) step.IH finite_step [of s1 s2] by (intro conjI no_leak_step [of s1 s2]) (auto intro: assms(1))
qed (simp add: assms(4,5))

end

lemma alloc_struct_block_ok:
  assumes "alloc_struct_block rt h = (Inr r, h')"
  shows "\<exists>p. c_structs h p = None \<and> c_blocks h r = None \<and> c_structs h' = (c_structs h)(p \<mapsto> rt_garbage rt) \<and> c_blocks h' = (c_blocks h)(r \<mapsto> p)"
  using assms by (auto simp: alloc_struct_block_def caml_stat_alloc_def alloc_custom_ptr_def fresh_addr_def split: option.splits if_splits)

lemma alloc_struct_block_error:
  assumes "alloc_struct_block rt h = (Inl e, h')"
  shows "c_blocks h' = c_blocks h \<and> dom (c_structs h) \<subseteq> dom (c_structs h')"
  using assms by (auto simp: alloc_struct_block_def caml_stat_alloc_def alloc_custom_ptr_def fresh_addr_def split: option.splits if_splits)

lemma free_struct_block_ok:
  "c_blocks h r = Some p \<Longrightarrow> c_structs h p \<noteq> None \<Longrightarrow> free_struct_block r h = Some (h\<lparr>c_structs := (c_structs h)(p := None)\<rparr>)"
  by (simp add: free_struct_block_def caml_stat_free_def)

lemma struct_blocks: "custom_struct (\<lambda>u :: unit. alloc_struct_block rt) free_struct_block"
  by unfold_locales (blast dest: alloc_struct_block_ok, blast dest: alloc_struct_block_error, rule free_struct_block_ok)

interpretation not_events: custom_struct "\<lambda>u :: unit. alloc_not_event rt" finalize_not_event for rt
  using struct_blocks [of rt] by (simp add: alloc_not_event_def [abs_def] finalize_not_event_def [abs_def])

interpretation poll_aggregs: custom_struct "\<lambda>u :: unit. alloc_poll_aggreg rt" finalize_poll_aggreg for rt
  using struct_blocks [of rt] by (simp add: alloc_poll_aggreg_def [abs_def] finalize_poll_aggreg_def [abs_def])

interpretation poll_mems: custom_struct "alloc_poll_mem_block rt" finalize_poll_mem for rt
proof
  fix n h r and h' :: "pollfd list cheap"
  assume "alloc_poll_mem_block rt n h = (Inr r, h')"
  then show "\<exists>p x. c_structs h p = None \<and> c_blocks h r = None \<and> c_structs h' = (c_structs h)(p \<mapsto> x) \<and> c_blocks h' = (c_blocks h)(r \<mapsto> p)"
    using alloc_struct_block_ok by (simp add: alloc_poll_mem_block_def split: sum.splits) blast
next
  fix n h e and h' :: "pollfd list cheap"
  assume "alloc_poll_mem_block rt n h = (Inl e, h')"
  then show "c_blocks h' = c_blocks h \<and> dom (c_structs h) \<subseteq> dom (c_structs h')"
    using alloc_struct_block_error by (simp add: alloc_poll_mem_block_def split: sum.splits) blast+
qed (simp add: finalize_poll_mem_def free_struct_block_ok)

text \<open>A runtime that always finds room for one more block, as long as there are finitely many.\<close>

definition always_room :: "'s c_rt \<Rightarrow> bool" where
  "always_room rt \<longleftrightarrow> (\<forall>h. finite (dom (c_blocks h)) \<longrightarrow> fresh_addr (rt_block rt h) (c_blocks h) \<noteq> None)"

lemma alloc_struct_block_keeps:
  assumes "always_room rt" "finite (dom (c_blocks h))" "alloc_struct_block rt h = (Inl e, h')"
  shows "c_structs h' = c_structs h"
proof (cases "fresh_addr (rt_malloc rt h) (c_structs h)")
  case (Some p)
  let ?h = "h\<lparr>c_structs := (c_structs h)(p \<mapsto> rt_garbage rt)\<rparr>"
  obtain r where "fresh_addr (rt_block rt ?h) (c_blocks ?h) = Some r"
    using assms(1,2) unfolding always_room_def by (metis cheap.select_convs(2) cheap.surjective cheap.update_convs(1) option.exhaust)
  then show ?thesis using assms(3) Some by (simp add: alloc_struct_block_def caml_stat_alloc_def alloc_custom_ptr_def)
qed (use assms(3) in \<open>simp add: alloc_struct_block_def caml_stat_alloc_def\<close>)

lemma alloc_poll_mem_block_keeps:
  assumes "always_room rt" "finite (dom (c_blocks h))" "alloc_poll_mem_block rt n h = (Inl e, h')"
  shows "c_structs h' = c_structs h"
proof -
  have "always_room (rt\<lparr>rt_garbage := cells\<rparr>)" for cells using assms(1) by (simp add: always_room_def)
  then show ?thesis
    using assms(2,3) alloc_struct_block_keeps by (fastforce simp: alloc_poll_mem_block_def split: sum.splits)
qed

text \<open>What the program and the collector may rely on.\<close>

definition blocks_safe :: "(nat \<Rightarrow> 's cheap \<Rightarrow> 's cheap option) \<Rightarrow> nat set \<Rightarrow> 's cheap \<Rightarrow> bool" where
  "blocks_safe fin R h \<longleftrightarrow>
     (\<forall>r\<in>R. \<exists>p x. c_blocks h r = Some p \<and> c_structs h p = Some x) \<and>
     (\<forall>r r' p. c_blocks h r = Some p \<longrightarrow> c_blocks h r' = Some p \<longrightarrow> r = r') \<and>
     (\<forall>r. c_blocks h r \<noteq> None \<longrightarrow> fin r h \<noteq> None)"

lemma blocks_safeI:
  assumes "blocks_inv (R, h)" "\<And>r p. c_blocks h r = Some p \<Longrightarrow> c_structs h p \<noteq> None \<Longrightarrow> fin r h \<noteq> None"
  shows "blocks_safe fin R h"
proof -
  have s: "\<exists>x. c_structs h p = Some x" if "c_blocks h r = Some p" for r p using assms(1) that by (auto simp: blocks_inv_def ran_def)
  moreover have "r = r'" if "c_blocks h r = Some p" "c_blocks h r' = Some p" for r r' p
    using assms(1) that by (auto simp: blocks_inv_def inj_on_def dom_def)
  moreover have "fin r h \<noteq> None" if "c_blocks h r = Some p" for r p using assms(2) [OF that] s [OF that] by blast
  moreover have "\<exists>p. c_blocks h r = Some p" if "r \<in> R" for r using assms(1) that by (auto simp: blocks_inv_def)
  ultimately show ?thesis unfolding blocks_safe_def by (metis option.exhaust)
qed

abbreviation (input) "empty_cheap \<equiv> \<lparr>c_structs = Map.empty, c_blocks = Map.empty\<rparr>"

text \<open>
  Claim C19: custom blocks. In every run of a program that allocates, uses and drops events, poll arrays and aggregators, with the collector finalising
  unreachable blocks at any time and in any order, a block the program holds has an allocated structure that no other block has, and every finaliser frees
  an allocated structure: there is no use after free and no double free. When the runtime always finds room for one more block (the structure itself may be
  refused), no structure is lost either: the allocated structures are exactly those that a block has.
\<close>

theorem custom_blocks_safe:
  assumes "(gc_step (\<lambda>u :: unit. alloc_not_event rt1) finalize_not_event)\<^sup>*\<^sup>* ({}, empty_cheap) (R1, h1)"
    and "(gc_step (alloc_poll_mem_block rt2) finalize_poll_mem)\<^sup>*\<^sup>* ({}, empty_cheap) (R2, h2)"
    and "(gc_step (\<lambda>u :: unit. alloc_poll_aggreg rt3) finalize_poll_aggreg)\<^sup>*\<^sup>* ({}, empty_cheap) (R3, h3)"
  shows "blocks_safe finalize_not_event R1 h1 \<and> blocks_safe finalize_poll_mem R2 h2 \<and> blocks_safe finalize_poll_aggreg R3 h3 \<and>
    (always_room rt1 \<longrightarrow> dom (c_structs h1) = ran (c_blocks h1)) \<and>
    (always_room rt2 \<longrightarrow> dom (c_structs h2) = ran (c_blocks h2)) \<and>
    (always_room rt3 \<longrightarrow> dom (c_structs h3) = ran (c_blocks h3))"
proof -
  have "blocks_inv (R1, h1)" "blocks_inv (R2, h2)" "blocks_inv (R3, h3)"
    using not_events.gc.reachable_inv [OF _ assms(1)] poll_mems.gc.reachable_inv [OF _ assms(2)] poll_aggregs.gc.reachable_inv [OF _ assms(3)] by simp_all
  then have "blocks_safe finalize_not_event R1 h1" "blocks_safe finalize_poll_mem R2 h2" "blocks_safe finalize_poll_aggreg R3 h3"
    using not_events.fin_law poll_mems.fin_law poll_aggregs.fin_law by (auto intro!: blocks_safeI)
  moreover have "dom (c_structs h1) = ran (c_blocks h1)" if "always_room rt1"
    using not_events.no_leak [OF alloc_struct_block_keeps [OF that, folded alloc_not_event_def] assms(1)] by (simp add: blocks_inv_def)
  moreover have "dom (c_structs h2) = ran (c_blocks h2)" if "always_room rt2"
    using poll_mems.no_leak [OF alloc_poll_mem_block_keeps [OF that] assms(2)] by (simp add: blocks_inv_def)
  moreover have "dom (c_structs h3) = ran (c_blocks h3)" if "always_room rt3"
    using poll_aggregs.no_leak [OF alloc_struct_block_keeps [OF that, folded alloc_poll_aggreg_def] assms(3)] by (simp add: blocks_inv_def)
  ultimately show ?thesis by blast
qed

text \<open>
  A program that allocates two events and drops the first; the collector finalises it. The runtime gives a block the number behind those in use.
\<close>

definition sample_rt :: "'s \<Rightarrow> 's c_rt" where
  "sample_rt x = \<lparr>rt_malloc = (\<lambda>h. Some (if c_structs h 10 = None then 10 else 11)),
     rt_block = (\<lambda>h. Some (if dom (c_blocks h) = {} then 0 else Suc (Max (dom (c_blocks h))))), rt_garbage = x\<rparr>"

lemma sample_rt_room: "always_room (sample_rt x)"
proof -
  have "used (Suc (Max (dom used))) = None" if "finite (dom used)" for used :: "nat \<Rightarrow> nat option"
    using Max_ge [OF that, of "Suc (Max (dom used))"] by (cases "used (Suc (Max (dom used)))") auto
  note room = this
  show ?thesis
    unfolding always_room_def
  proof (intro allI impI)
    fix h :: "'a cheap"
    assume "finite (dom (c_blocks h))"
    from room [OF this] show "fresh_addr (rt_block (sample_rt x) h) (c_blocks h) \<noteq> None" by (simp add: sample_rt_def fresh_addr_def)
  qed
qed

definition sample_not_event :: not_event where
  "sample_not_event = \<lparr>ne_type = NE_PIPE, ne_state = False, ne_fd1 = -1, ne_fd2 = -1, ne_allow_user_add = True\<rparr>"

theorem custom_blocks_safe_witness:
  "\<exists>h. (gc_step (\<lambda>u :: unit. alloc_not_event (sample_rt sample_not_event)) finalize_not_event)\<^sup>*\<^sup>* ({}, empty_cheap) ({1}, h) \<and>
     c_blocks h 0 = None \<and> c_structs h 10 = None \<and> c_blocks h 1 = Some 11 \<and> blocks_safe finalize_not_event {1} h \<and>
     dom (c_structs h) = ran (c_blocks h)"
proof -
  let ?al = "\<lambda>u :: unit. alloc_not_event (sample_rt sample_not_event)"
  let ?h1 = "\<lparr>c_structs = [10 \<mapsto> sample_not_event], c_blocks = [0 \<mapsto> 10]\<rparr>"
  let ?h2 = "\<lparr>c_structs = [10 \<mapsto> sample_not_event, 11 \<mapsto> sample_not_event], c_blocks = [0 \<mapsto> 10, 1 \<mapsto> 11]\<rparr>"
  let ?h3 = "?h2\<lparr>c_structs := (c_structs ?h2)(10 := None)\<rparr>"
  let ?h4 = "?h3\<lparr>c_blocks := (c_blocks ?h3)(0 := None)\<rparr>"
  note defs = alloc_not_event_def alloc_struct_block_def caml_stat_alloc_def alloc_custom_ptr_def sample_rt_def fresh_addr_def
  have "?al () empty_cheap = (Inr 0, ?h1)" "?al () ?h1 = (Inr 1, ?h2)" "finalize_not_event 0 ?h2 = Some ?h3"
    by (simp_all add: defs finalize_not_event_def free_struct_block_def caml_stat_free_def)
  moreover have "{1, 0} - {0} = {1 :: nat}" by auto
  ultimately have s: "gc_step ?al finalize_not_event ({}, empty_cheap) ({0}, ?h1)" "gc_step ?al finalize_not_event ({0}, ?h1) ({1, 0}, ?h2)"
    "gc_step ?al finalize_not_event ({1, 0}, ?h2) ({1}, ?h2)" "gc_step ?al finalize_not_event ({1}, ?h2) ({1}, ?h4)"
    using gc_step.allocated [of ?al "()"] gc_step.dropped [of ?al finalize_not_event "{1, 0}" ?h2 0] gc_step.collected [of 0 "{1}" ?h2 finalize_not_event ?h3 ?al]
    by auto
  then have r: "(gc_step ?al finalize_not_event)\<^sup>*\<^sup>* ({}, empty_cheap) ({1}, ?h4)" by (meson rtranclp.rtrancl_into_rtrancl rtranclp.rtrancl_refl)
  have "blocks_safe finalize_not_event {1} ?h4 \<and> dom (c_structs ?h4) = ran (c_blocks ?h4)"
    using custom_blocks_safe [OF r rtranclp.rtrancl_refl [of "gc_step (alloc_poll_mem_block (sample_rt []))  finalize_poll_mem"]
        rtranclp.rtrancl_refl [of "gc_step (\<lambda>u :: unit. alloc_poll_aggreg (sample_rt \<lparr>pa_fd = 0, pa_need_cancel = False, pa_cancel_fd = -1\<rparr>)) finalize_poll_aggreg"]]
      sample_rt_room [of sample_not_event] by blast
  with r show ?thesis by (intro exI [of _ ?h4]) simp
qed

end
