(* ===== verification/Win32_descr.thy ===== *)
theory Win32_descr
  imports Pipe_helper
begin

text \<open>
  Descriptors of the OCaml side on Win32: the custom blocks of \<^verbatim>\<open>src/src/netsys/unixsupport_w32.c\<close> with their comparison and hash functions, the primitives that
  hand out proxy descriptors, and the remaining state of \<^verbatim>\<open>netsys_c_win32.c\<close>: freeing a pipe helper, the provider of random numbers
  and the debug flag.
\<close>

section \<open>Descriptor blocks\<close>

datatype descr_kind = KIND_HANDLE | KIND_SOCKET

record filedescr =
  fd_handle :: u64
  fd_kind :: descr_kind
  fd_crt :: u32

abbreviation (input) NO_CRT_FD :: u32 where "NO_CRT_FD \<equiv> - 1"

definition netsysw32_win_alloc_handle :: "u64 \<Rightarrow> filedescr" where
  "netsysw32_win_alloc_handle h = \<lparr>fd_handle = h, fd_kind = KIND_HANDLE, fd_crt = NO_CRT_FD\<rparr>"

definition netsysw32_win_alloc_socket :: "u64 \<Rightarrow> filedescr" where
  "netsysw32_win_alloc_socket s = \<lparr>fd_handle = s, fd_kind = KIND_SOCKET, fd_crt = NO_CRT_FD\<rparr>"

text \<open>\<open>getsockopt\<close>: whether the call of \<^verbatim>\<open>getsockopt\<close> with \<^verbatim>\<open>SO_TYPE\<close> succeeds for a handle.\<close>

definition netsysw32_win_alloc_handle_or_socket :: "(u64 \<Rightarrow> bool) \<Rightarrow> u64 \<Rightarrow> filedescr" where
  "netsysw32_win_alloc_handle_or_socket getsockopt h =
     (let res = netsysw32_win_alloc_handle h
      in if getsockopt h then res\<lparr>fd_kind := KIND_SOCKET\<rparr> else res)"

definition win_handle_compare :: "filedescr \<Rightarrow> filedescr \<Rightarrow> int" where
  "win_handle_compare v1 v2 =
     (let h1 = fd_handle v1; h2 = fd_handle v2
      in if h1 = h2 then 0 else if h1 < h2 then -1 else 1)"

definition win_handle_hash :: "filedescr \<Rightarrow> u64" where
  "win_handle_hash v = fd_handle v"

definition netsys_is_crt_fd :: "filedescr \<Rightarrow> u64 \<Rightarrow> bool" where
  "netsys_is_crt_fd fd crt_fd =
     (let fd1 = fd_crt fd in if fd1 = NO_CRT_FD then False else fd1 = Int_val crt_fd)"

text \<open>The cast to \<^verbatim>\<open>long\<close>, which has 32 bits on Win64.\<close>

definition netsys_int64_of_file_descr_win32 :: "filedescr \<Rightarrow> u64" where
  "netsys_int64_of_file_descr_win32 fd =
     (case fd_kind fd of
        KIND_HANDLE \<Rightarrow> scast (ucast (fd_handle fd) :: u32)
      | KIND_SOCKET \<Rightarrow> scast (ucast (fd_handle fd) :: u32))"

definition netsys_int64_of_file_descr :: "u64 \<Rightarrow> u64" where
  "netsys_int64_of_file_descr fd = Long_val fd"

text \<open>
  The comparison is a linear order on the handles: equal handles compare as equal whatever kind of descriptor holds them, and then they have the same hash
  value, as the polymorphic hash tables of OCaml need it.
\<close>

lemma win_handle_compare_order:
  "win_handle_compare v1 v2 = 0 \<longleftrightarrow> win_handle_hash v1 = win_handle_hash v2"
  "win_handle_compare v1 v2 = - win_handle_compare v2 v1"
  "win_handle_compare v1 v2 \<le> 0 \<Longrightarrow> win_handle_compare v2 v3 \<le> 0 \<Longrightarrow> win_handle_compare v1 v3 \<le> 0"
  by (auto simp: win_handle_compare_def win_handle_hash_def Let_def split: if_splits)

text \<open>Handles of Win64 have 32 significant bits, sign extended; then the cast loses nothing and different descriptors get different numbers.\<close>

lemma int64_of_file_descr_exact:
  assumes "fd_handle fd = scast (x :: u32)"
  shows "netsys_int64_of_file_descr_win32 fd = fd_handle fd"
proof -
  have "ucast (scast x :: u64) = x" by (rule bit_word_eqI) (simp add: bit_ucast_iff bit_signed_iff)
  then show ?thesis using assms by (cases "fd_kind fd") (simp_all add: netsys_int64_of_file_descr_win32_def)
qed

section \<open>Proxy descriptors and freeing a helper\<close>

definition netsys_event_descr :: "event \<Rightarrow> filedescr" where
  "netsys_event_descr e = netsysw32_win_alloc_handle (word_of_int (e_proxy e))"

definition netsys_pipe_descr :: "pipe_helper \<Rightarrow> filedescr" where
  "netsys_pipe_descr ph = netsysw32_win_alloc_handle (word_of_int (pipe_descr ph))"

text \<open>The block of a pipe holds a pointer, which freeing sets to \<^verbatim>\<open>NULL\<close>; a second call dereferences it.\<close>

definition netsys_pipe_free :: "pipe_helper option \<Rightarrow> pk \<Rightarrow> (pipe_helper option \<times> pk) option" where
  "netsys_pipe_free phv k = do { ph \<leftarrow> phv; Some (None, free_pipe_helper ph k) }"

definition helper_handles :: "pipe_helper \<Rightarrow> handle list" where
  "helper_handles ph =
     (if pipe_is_open ph then [pipe_handle ph] else []) @ (if pipe_descr_auto_close ph then [pipe_descr ph] else []) @
     [pipe_rd_ev ph, pipe_wr_ev ph] @ (if pipe_cn_ev ph \<noteq> INVALID_HANDLE_VALUE then [pipe_cn_ev ph] else [])"

lemma close_handles:
  assumes "distinct hs" "\<forall>h\<in>set hs. w_obj w h \<noteq> None"
  shows "fold CloseHandle hs w = w\<lparr>w_obj := w_obj w |` (- set hs)\<rparr>"
  using assms
proof (induction hs arbitrary: w)
  case (Cons h hs)
  let ?w = "w\<lparr>w_obj := (w_obj w)(h := None)\<rparr>"
  have "CloseHandle h w = ?w" using Cons.prems(2) by (auto simp: CloseHandle_def)
  moreover have "fold CloseHandle hs ?w = ?w\<lparr>w_obj := w_obj ?w |` (- set hs)\<rparr>" using Cons.prems by (intro Cons.IH) auto
  moreover have "w_obj ?w |` (- set hs) = w_obj w |` (- set (h # hs))" by (auto simp: restrict_map_def)
  ultimately show ?case by simp
qed (simp add: restrict_map_def)

text \<open>
  Freeing closes exactly the handles of the helper, each once: when they are open and different, no call of \<^verbatim>\<open>CloseHandle\<close> fails, no handle of the helper
  stays open, and all other handles are left alone.
\<close>

lemma pipe_free_closes:
  assumes "distinct (helper_handles ph)" "\<forall>h\<in>set (helper_handles ph). w_obj k h \<noteq> None"
  shows "netsys_pipe_free (Some ph) k = Some (None, k\<lparr>w_obj := w_obj k |` (- set (helper_handles ph))\<rparr>)"
proof -
  have "free_pipe_helper ph k = fold CloseHandle (helper_handles ph) k" by (simp add: free_pipe_helper_def helper_handles_def)
  then show ?thesis using close_handles [OF assms] by (simp add: netsys_pipe_free_def)
qed

section \<open>Random numbers\<close>

record crypt =
  crypt_provider_init :: bool
  acquired :: nat

text \<open>\<open>acquire\<close> and \<open>gen\<close>: the error of \<^verbatim>\<open>CryptAcquireContext\<close>, and of \<^verbatim>\<open>CryptGenRandom\<close> or the bytes it writes.\<close>

definition fill_bytes :: "(nat \<Rightarrow> u32 + u8 list) \<Rightarrow> u8 list \<Rightarrow> crypt \<Rightarrow> (exn + u8 list) \<times> crypt" where
  "fill_bytes gen s c =
     (case gen (length s) of
        Inl e \<Rightarrow> (Inl (uerror_win e ''netsys_fill_random/CryptGenRandom''), c)
      | Inr bs \<Rightarrow> (Inr bs, c))"

definition netsys_fill_random :: "u32 option \<Rightarrow> (nat \<Rightarrow> u32 + u8 list) \<Rightarrow> u8 list \<Rightarrow> crypt \<Rightarrow> (exn + u8 list) \<times> crypt" where
  "netsys_fill_random acquire gen s c =
     (if crypt_provider_init c then fill_bytes gen s c
      else case acquire of
             Some e \<Rightarrow> (Inl (uerror_win e ''netsys_fill_random/CryptAcquireContext''), c)
           | None \<Rightarrow> fill_bytes gen s (c\<lparr>crypt_provider_init := True, acquired := acquired c + 1\<rparr>))"

fun fill_many :: "u32 option list \<Rightarrow> (nat \<Rightarrow> u32 + u8 list) \<Rightarrow> u8 list list \<Rightarrow> crypt \<Rightarrow> crypt" where
  "fill_many (a # as) gen (s # ss) c = fill_many as gen ss (snd (netsys_fill_random a gen s c))"
| "fill_many as gen ss c = c"

text \<open>The provider is acquired at most once, however often the acquisition or the generation fails.\<close>

lemma provider_once:
  "acquired c = (if crypt_provider_init c then 1 else 0) \<Longrightarrow>
   acquired (fill_many as gen ss c) = (if crypt_provider_init (fill_many as gen ss c) then 1 else 0)"
proof (induction as gen ss c rule: fill_many.induct)
  case (1 a as gen s ss c)
  then show ?case by (simp add: netsys_fill_random_def fill_bytes_def split: option.splits sum.splits)
qed simp_all

section \<open>Debugging\<close>

definition netsys_win32_set_debug :: "bool \<Rightarrow> bool \<Rightarrow> bool" where
  "netsys_win32_set_debug flag debug = flag"

definition dprintf :: "string \<Rightarrow> bool \<Rightarrow> string list \<Rightarrow> string list" where
  "dprintf line debug err = (if debug then err @ [line] else err)"

definition netsys_wsa_maximum_wait_events :: int where
  "netsys_wsa_maximum_wait_events = int WSA_MAXIMUM_WAIT_EVENTS"

definition netsys_get_current_thread_id :: "u32 \<Rightarrow> u32" where
  "netsys_get_current_thread_id thread = thread"

end
