(* ===== verification/Platform.thy ===== *)
theory Platform
  imports Win32 At_calls
begin

text \<open>
  The primitives whose result is fixed by the configuration of the build, and the small calls of \<^verbatim>\<open>src/src/netsys/netsys_c.c\<close> and \<^verbatim>\<open>netsys_c_gprof.c\<close>. The
  preprocessor symbols are the fields of a record; the other theories model the configuration of Linux (\<open>linux_config\<close>) or of Win32.
\<close>

record config =
  WIN32 :: bool
  DARWIN :: bool
  HAVE_EXIT :: bool
  HAVE_SYSCONF :: bool
  HAVE_POSIX_TTY :: bool
  HAVE_AT_FDCWD :: bool
  HAVE_CLOCK :: bool
  HAVE_POSIX_TIMER :: bool
  HAVE_POSIX_FADVISE :: bool
  HAVE_POSIX_FALLOCATE :: bool
  HAVE_POSIX_SHM :: bool
  HAVE_POSIX_SEM_ANON :: bool
  HAVE_POSIX_SEM_NAMED :: bool
  HAVE_POSIX_SPAWN :: bool
  HAVE_GPROF :: bool
  sizeof_sem_t :: u64

definition netsys_is_darwin :: "config \<Rightarrow> bool" where
  "netsys_is_darwin cf = DARWIN cf"

definition netsys_have_at :: "config \<Rightarrow> bool" where
  "netsys_have_at cf = HAVE_AT_FDCWD cf"

definition netsys_have_posix_timer :: "config \<Rightarrow> bool" where
  "netsys_have_posix_timer cf = (HAVE_CLOCK cf \<and> HAVE_POSIX_TIMER cf)"

definition netsys_have_posix_fadvise :: "config \<Rightarrow> bool" where
  "netsys_have_posix_fadvise cf = HAVE_POSIX_FADVISE cf"

definition netsys_have_posix_fallocate :: "config \<Rightarrow> bool" where
  "netsys_have_posix_fallocate cf = HAVE_POSIX_FALLOCATE cf"

definition netsys_have_posix_shm :: "config \<Rightarrow> bool" where
  "netsys_have_posix_shm cf = HAVE_POSIX_SHM cf"

definition netsys_have_sem_anon :: "config \<Rightarrow> bool" where
  "netsys_have_sem_anon cf = HAVE_POSIX_SEM_ANON cf"

definition netsys_have_sem_named :: "config \<Rightarrow> bool" where
  "netsys_have_sem_named cf = HAVE_POSIX_SEM_NAMED cf"

definition netsys_sem_size :: "config \<Rightarrow> u64" where
  "netsys_sem_size cf = (if HAVE_POSIX_SEM_ANON cf \<or> HAVE_POSIX_SEM_NAMED cf then Val_long (sizeof_sem_t cf) else Val_long 1)"

definition netsys_have_posix_spawn :: "config \<Rightarrow> bool" where
  "netsys_have_posix_spawn cf = HAVE_POSIX_SPAWN cf"

text \<open>A call that ends the process, or raises.\<close>

datatype 'a ends = Exited u32 | Returned "exn + 'a"

definition netsys__exit :: "config \<Rightarrow> u64 \<Rightarrow> unit ends" where
  "netsys__exit cf n = (if HAVE_EXIT cf then Exited (Int_val n) else Returned (Inl (Invalid_argument ''Netsys._exit not available'')))"

text \<open>\<open>open_max\<close> is what \<^verbatim>\<open>sysconf\<close> returns, \<^verbatim>\<open>-1\<close> when there is no limit.\<close>

definition netsys_sysconf_open_max :: "config \<Rightarrow> u64 \<Rightarrow> exn + u64" where
  "netsys_sysconf_open_max cf open_max =
     (if HAVE_SYSCONF cf then Inr (Val_long open_max) else Inl (Invalid_argument ''Netsys.sysconf_open_max not available''))"

definition netsys_ctermid :: "config \<Rightarrow> string \<Rightarrow> exn + string" where
  "netsys_ctermid cf term_path = (if HAVE_POSIX_TTY cf then Inr (cstr term_path) else Inl (Invalid_argument ''Netsys.ctermid not available''))"

text \<open>\<open>unix_code\<close> is the function of OCaml's library on other systems than Win32.\<close>

definition netsys_unix_error_of_code :: "config \<Rightarrow> (int \<Rightarrow> int + int) \<Rightarrow> u64 \<Rightarrow> int + int" where
  "netsys_unix_error_of_code cf unix_code n =
     (let e = Int_val n in if WIN32 cf then unix_error_of_code (win32_maperr e) else unix_code (sint e))"

definition netsys_moncontrol :: "config \<Rightarrow> bool \<Rightarrow> bool \<Rightarrow> bool" where
  "netsys_moncontrol cf flag profiling = (if HAVE_GPROF cf then flag else profiling)"

definition linux_config :: config where
  "linux_config = \<lparr>WIN32 = False, DARWIN = False, HAVE_EXIT = True, HAVE_SYSCONF = True, HAVE_POSIX_TTY = True, HAVE_AT_FDCWD = True, HAVE_CLOCK = True,
     HAVE_POSIX_TIMER = True, HAVE_POSIX_FADVISE = True, HAVE_POSIX_FALLOCATE = True, HAVE_POSIX_SHM = True, HAVE_POSIX_SEM_ANON = True,
     HAVE_POSIX_SEM_NAMED = True, HAVE_POSIX_SPAWN = True, HAVE_GPROF = False, sizeof_sem_t = 32\<rparr>"

text \<open>
  On Win32 an error that is raised by \<^verbatim>\<open>uerror\<close> after mapping the code of the system and one that a program makes from the same code denote the same
  constructor of \<^verbatim>\<open>Unix.error\<close>; an unknown code is kept, negated.
\<close>

lemma error_codes_agree:
  assumes "WIN32 cf" "uerror_win (Int_val n) name = Unix_error code name"
  shows "netsys_unix_error_of_code cf f n = unix_error_of_code code"
  using assms by (simp add: netsys_unix_error_of_code_def uerror_win_def)

end
