(* ===== verification/Spec2Isabelle.thy ===== *)
theory Spec2Isabelle
  imports Nqueue Htab Netaccel Xdr Subprocess Not_event Poll Copy_value Mem Posix_spawn Pipe_stream Win32_proc Win32_console Clock Sem Outofheap Ioprio Multicast Syslog Posix_misc Apache_calls Ssl_exts Tclqueue Custom_blocks Win32_descr Platform
begin

text \<open>
  A verification of the C code of Ocamlnet: the runtime support library \<^verbatim>\<open>src/src/netsys\<close> (POSIX and Win32), the string accelerators of
  \<^verbatim>\<open>src/src/netstring\<close>, the Apache connector \<^verbatim>\<open>src/src/netcgi2-apache\<close>, and two small RPC stubs. Each theory models one part, function by function, on a 64 bit
  little-endian machine; the names are those of the source.

  \<^bold>\<open>Conventions.\<close> C integers keep their width (\<open>u32\<close>, \<open>u64\<close>); OCaml integers are tagged words (\<open>Val_long\<close>, \<open>Long_val\<close>, \<open>Int_val\<close>) where the conversion
  matters and \<open>int\<close> elsewhere. A primitive returns \<open>exn + 'a\<close>: the OCaml exception it raises or the result. \<open>None\<close> of an option result is undefined behaviour (an access outside
  an array, a dangling pointer), a blocked call, or a loop that does not end; so a theorem with a result \<open>Some\<close> shows safety and termination as well. Errors of system calls are
  parameters, mostly indexed by the line of the call; their effects are explicit state, following POSIX, Linux or the Win32 documentation. Code outside the repository
  (the OCaml runtime, libc, Apache, APR, Tcl, TLS libraries) is a parameter with its documented laws as hypotheses.

  \<^bold>\<open>The parts and their theories.\<close>

  \<^item> \<^verbatim>\<open>Netsys_Prelude\<close>, \<^verbatim>\<open>Bytemem\<close>: checked arrays, words, byte-addressed memory, OCaml values and exceptions, and two interfaces as locales: \<^verbatim>\<open>step_system\<close> (a step
    relation with an invariant), interpreted for watched processes, notification events, semaphores, pipes, the write barrier and the Apache module, and \<^verbatim>\<open>event_flag\<close> (an event that is set and cleared),
    interpreted for the POSIX and the Win32 events.
  \<^item> \<^verbatim>\<open>Nqueue\<close> (\<^verbatim>\<open>netsys_c_queue.c\<close>) and \<^verbatim>\<open>Htab\<close> (\<^verbatim>\<open>netsys_c_htab.c\<close>): the ring buffer and the open-addressing hash table of the value copier; refinement of a
    FIFO list and of a partial map; the interfaces are the locales \<^verbatim>\<open>fifo\<close> and \<^verbatim>\<open>addr_dict\<close>, whose laws carry the order of elements and the lookups after insertions.
  \<^item> \<^verbatim>\<open>Init_value\<close>, \<^verbatim>\<open>Value_copy\<close>, \<^verbatim>\<open>Copy_value\<close> (\<^verbatim>\<open>netsys_c_mem.c\<close>, second half): the two passes of \<^verbatim>\<open>netsys_init_value_1\<close> on memory, with the isomorphism of the copied
    block graph, and its clients. \<^verbatim>\<open>Mem\<close>: the memory and bigarray primitives of the first half. \<^verbatim>\<open>Outofheap\<close> (\<^verbatim>\<open>netsys_c_outofheap.c\<close>): the write barrier.
  \<^item> \<^verbatim>\<open>Spawn\<close>, \<^verbatim>\<open>Posix_spawn\<close> (\<^verbatim>\<open>netsys_c_spawn.c\<close>): process creation with \<^verbatim>\<open>fork\<close> and with \<^verbatim>\<open>posix_spawn\<close>; what the child does to descriptors, signals, group and directory, the
    report over the control pipe, and the agreement of the variants. \<^verbatim>\<open>Subprocess\<close> (\<^verbatim>\<open>netsys_c_subprocess.c\<close>): the table of watched processes, the signal handler and its
    threads, with the invariant of all reachable states.
  \<^item> \<^verbatim>\<open>Not_event\<close> (\<^verbatim>\<open>netsys_c_event.c\<close>), \<^verbatim>\<open>Poll\<close> (\<^verbatim>\<open>netsys_c_poll.c\<close>), \<^verbatim>\<open>Clock\<close> (\<^verbatim>\<open>netsys_c_clock.c\<close>), \<^verbatim>\<open>Sem\<close> (\<^verbatim>\<open>netsys_c_sem.c\<close>): notification events under concurrency, polling and the event
    aggregator, time values with the rounding of doubles, timers that signal events, and semaphores, named and anonymous, with reference counting and mutual exclusion.
  \<^item> \<^verbatim>\<open>Win32\<close>, \<^verbatim>\<open>Pipe_helper\<close>, \<^verbatim>\<open>Pipe_stream\<close>, \<^verbatim>\<open>Win32_proc\<close>, \<^verbatim>\<open>Win32_console\<close> (\<^verbatim>\<open>netsys_c_win32.c\<close>, \<^verbatim>\<open>unixsupport_w32.c\<close>): errors, events and waiting, the overlapped named pipes with
    the kernel and the peer as further actors, processes, consoles and the emulation of \<^verbatim>\<open>select\<close>.
  \<^item> \<^verbatim>\<open>At_calls\<close>, \<^verbatim>\<open>Posix_misc\<close> (\<^verbatim>\<open>netsys_c.c\<close>, shared memory, advice, allocation, locales, \<^verbatim>\<open>rpclocal.c\<close>, \<^verbatim>\<open>rpcxti.c\<close>), \<^verbatim>\<open>Syslog\<close>, \<^verbatim>\<open>Multicast\<close>, \<^verbatim>\<open>Ioprio\<close>: the POSIX wrappers on
    models of directories, descriptors, process groups, sockets and the log.
  \<^item> \<^verbatim>\<open>Netaccel\<close> (\<^verbatim>\<open>netaccel_c.c\<close>) and \<^verbatim>\<open>Xdr\<close> (\<^verbatim>\<open>netsys_c_xdr.c\<close>): array copies, the decoders for ISO-8859-1 and UTF-8, and the XDR string arrays.
  \<^item> \<^verbatim>\<open>Apache_module\<close> (\<^verbatim>\<open>handler.c\<close>) and \<^verbatim>\<open>Apache_request\<close>, \<^verbatim>\<open>Apache_calls\<close> (\<^verbatim>\<open>apache.c\<close>): configurations as roots of the OCaml collector in Apache's pools, directives, hooks, cleanup functions; header
    tables behind addresses, request fields; reading the body and writing the output through Apache's functions, which are parameters.
  \<^item> \<^verbatim>\<open>Custom_blocks\<close>: the custom blocks of events, poll arrays and aggregators, which own a C structure, under a collector that finalises them at any time; the locale
    \<^verbatim>\<open>custom_struct\<close> is the contract of an allocation and its finaliser and a sublocale of \<^verbatim>\<open>step_system\<close>. \<^verbatim>\<open>Win32_descr\<close>: descriptors of Win32, their order and hash, freeing a
    pipe helper. \<^verbatim>\<open>Platform\<close>: what depends on the configuration of the build only.
  \<^item> \<^verbatim>\<open>Ssl_exts\<close> (\<^verbatim>\<open>ssl_exts_stubs.c\<close>): shutdown, modes and the fingerprint of a certificate. \<^verbatim>\<open>Tclqueue\<close> (\<^verbatim>\<open>tclqueue.c\<close>): file and timer handlers of the Tcl loop, with callbacks that
    create and delete handlers.

  \<^bold>\<open>What the theorems show.\<close> For the data structures: refinement of an abstract type, failure without a change, and termination of the probe and resize loops. For the copier: the result is an
  isomorphic copy of exactly the computed size. For processes: the caller learns exactly what happened to the child, the descriptors of the caller are restored, and both
  variants agree under the conditions that make them comparable. For events, timers,
  semaphores, pipes, the write barrier and the Apache module: invariants of all interleavings, from which wake-ups (with the exceptions the code has), order of streams, mutual exclusion and freedom of
  dangling pointers follow. For decoders and wrappers: behaviour on all inputs with round trips. Where the code deviates from its documentation, the definition follows the code and
  a lemma, or the theorem itself, states the deviation.

  \<^bold>\<open>Loops.\<close> Loops are structural recursion or have a termination proof. Those that may not end for some input (probing a full table, the passes of the copier on arbitrary memory,
  \<^verbatim>\<open>netsys_search_path\<close>, clearing a console) are partial functions into options, and the theorems show that they return \<open>Some\<close> under the stated conditions. Fuel appears in one
  client only: the draining of a queue gets a number of calls, and the theorem says which number is enough.

  \<^bold>\<open>Not modelled.\<close> The OCaml sources (the larger part of the repository, behind these stubs); configuration tests, examples, generated and vendored code (\<^verbatim>\<open>easy_tls\<close>, the
  test program of \<^verbatim>\<open>netgssapi\<close>); the 32 bit and other-platform branches of the preprocessor; the wrappers of the bytecode calling convention, which unpack an array of arguments; the code for
  Apache 1; code that is switched off by the preprocessor (\<^verbatim>\<open>rpclocal.c\<close>).
\<close>

section \<open>Events on both systems\<close>

text \<open>
  Claim C15: the POSIX event (on a pipe) and the Win32 event implement the same flag. Take a new event of each kind and any valid history of
  settings and clearings: both go through it without an error or a blocked call, and at the end the test of the Win32 event answers \<open>True\<close>
  exactly when a wait for the POSIX event returns at once, namely when the last operation was a setting.
\<close>

theorem event_implementations_agree:
  assumes posix: "netsys_create_not_event False pos True k = (Inr ne, k1)" "\<forall>fd1 fd2. no_pipe pos = Inr (fd1, fd2) \<longrightarrow> 0 \<le> fd1 \<and> 0 \<le> fd2 \<and> fd1 \<noteq> fd2"
      "\<forall>fd. no_eventfd pos = Inr fd \<longrightarrow> 0 \<le> fd" "no_poll pos = None"
    and win: "no_errors wos" "fresh_handles wos" "objs_ok w"
    and ops: "valid_ops False ops"
  shows "\<exists>e w1. netsys_create_event wos w = (Inr e, w1) \<and>
    (\<exists>ne' k' w'. run_ops ne_set_op (ne_clear_op pos) ops (ne, k1) = Some (ne', k') \<and> run_ops (w32_set_op wos e) (w32_clear_op wos e) ops w1 = Some w' \<and>
      netsys_test_event wos e w' = Some (Inr (last (False # ops))) \<and>
      netsys_wait_not_event pos ne' k' = (if last (False # ops) then Some (Inr ()) else None))"
proof -
  have ne: "ne_usable (ne, k1)" "\<not> ne_set ne k1" using create_ok [OF posix(1,3,2)] by (simp_all add: ne_usable_def)
  obtain ne' k' where p: "run_ops ne_set_op (ne_clear_op pos) ops (ne, k1) = Some (ne', k')" "ne_usable (ne', k')" "ne_set ne' k' = last (False # ops)"
    using pipe_event.history [OF ne(1), of ops pos] ne(2) ops by auto
  obtain e w1 where e: "netsys_create_event wos w = (Inr e, w1)" "event_ok e w1" "\<not> signaled (e_ev e) w1" using create_event_ok [OF win] by blast
  obtain w' where w': "run_ops (w32_set_op wos e) (w32_clear_op wos e) ops w1 = Some w'" "event_ok e w'" "signaled (e_ev e) w' = last (False # ops)"
    using w32_event.history [of e w1 wos ops] e(2,3) win(1) ops by auto
  have "netsys_test_event wos e w' = Some (Inr (last (False # ops)))"
    using w'(2,3) win(1) by (simp add: netsys_test_event_def WaitForSingleObject_def event_ok_def no_errors_def)
  moreover have "netsys_wait_not_event pos ne' k' = (if last (False # ops) then Some (Inr ()) else None)"
    using p(2,3) posix(4) by (auto simp: netsys_wait_not_event_def ne_usable_def ne_ok_def ne_set_def)
  ultimately show ?thesis using e(1) p(1) w'(1) by blast
qed

theorem event_implementations_agree_witness:
  "\<exists>e w1 ne' k' w'. netsys_create_event sample_wos sample_w32 = (Inr e, w1) \<and>
     run_ops ne_set_op (ne_clear_op sample_ne_os) [True, True, False, True] (sample_ne, sample_ne_nk) = Some (ne', k') \<and>
     run_ops (w32_set_op sample_wos e) (w32_clear_op sample_wos e) [True, True, False, True] w1 = Some w' \<and>
     netsys_test_event sample_wos e w' = Some (Inr True) \<and> netsys_wait_not_event sample_ne_os ne' k' = Some (Inr ())"
proof -
  have os: "\<forall>fd1 fd2. no_pipe sample_ne_os = Inr (fd1, fd2) \<longrightarrow> 0 \<le> fd1 \<and> 0 \<le> fd2 \<and> fd1 \<noteq> fd2"
    "\<forall>fd. no_eventfd sample_ne_os = Inr fd \<longrightarrow> 0 \<le> fd" "no_poll sample_ne_os = None" "valid_ops False [True, True, False, True]"
    by (simp_all add: sample_ne_os_def)
  have l: "last (False # [True, True, False, True]) = True" by simp
  from event_implementations_agree [OF sample_ne_created os(1-3) sample_wos_ok os(4)] show ?thesis
    unfolding l if_True by blast
qed

end
